(* ===== verification/Prelude.thy ===== *)
theory Prelude
  imports Main "HOL-Library.Word" "HOL-Library.Monad_Syntax"
begin

text \<open>
  Shared vocabulary of the development.  A C operation that can run into undefined behaviour (an
  access outside its object, a null dereference) or that can fail to return is a function into
  \<open>'a option\<close>: \<open>None\<close> is "no defined result".  An error the program itself reports
  (\<open>EloxError.raised\<close>, a \<open>NULL\<close> or \<open>false\<close> return) is an ordinary value
  of the result.  Machine integers keep their width where the code relies on it (hashes, NaN-boxed
  values, code bytes); counters that only count allocated cells are \<open>nat\<close>.
\<close>

unbundle bit_operations_syntax

type_synonym byte = "8 word"
type_synonym u16 = "16 word"
type_synonym u32 = "32 word"
type_synonym u64 = "64 word"
type_synonym addr = nat

named_theorems cyc_simps "arithmetic of cyclic slot distances"
named_theorems inv_intros "introduction rules of component invariants"

section \<open>Checked list access\<close>

definition nth_opt :: "'a list \<Rightarrow> nat \<Rightarrow> 'a option" where
  "nth_opt xs i = (if i < length xs then Some (xs ! i) else None)"

lemma nth_opt_Some [simp]: "i < length xs \<Longrightarrow> nth_opt xs i = Some (xs ! i)"
  by (simp add: nth_opt_def)

lemma nth_opt_None [simp]: "\<not> i < length xs \<Longrightarrow> nth_opt xs i = None"
  by (simp add: nth_opt_def)

lemma nth_opt_eq_Some: "nth_opt xs i = Some x \<longleftrightarrow> i < length xs \<and> xs ! i = x"
  by (simp add: nth_opt_def)

text \<open>A filtered list reads the original at increasing, distinct positions.\<close>

lemma filter_positions:
  obtains ix where "distinct ix" "\<And>i. i \<in> set ix \<Longrightarrow> i < length xs" "filter P xs = map ((!) xs) ix"
proof -
  let ?ix = "filter (P \<circ> (!) xs) [0..<length xs]"
  have "filter P (map ((!) xs) [0..<length xs]) = map ((!) xs) ?ix" by (rule filter_map)
  then have "filter P xs = map ((!) xs) ?ix" by (simp only: map_nth)
  then show ?thesis by (rule that [rotated 2]) auto
qed

lemma length_filter_update:
  assumes "i < length xs"
  shows "length (filter P (xs[i := x])) + (if P (xs ! i) then 1 else 0)
         = length (filter P xs) + (if P x then 1 else 0)"
proof -
  have "xs = take i xs @ xs ! i # drop (Suc i) xs" using assms by (rule id_take_nth_drop)
  then have "length (filter P xs) = length (filter P (take i xs @ xs ! i # drop (Suc i) xs))" by simp
  then show ?thesis using assms by (simp add: upd_conv_take_nth_drop)
qed

lemma option_eqI: "(\<And>w. x = Some w \<longleftrightarrow> y = Some w) \<Longrightarrow> x = y"
  by (metis not_Some_eq)

section \<open>Powers of two\<close>

text \<open>The index masks \<open>x & (capacity - 1)\<close> of the code on a power-of-two capacity.\<close>

lemma and_pow2_pred: "(x::nat) AND (2 ^ k - 1) = x mod 2 ^ k"
  by (metis mask_eq_exp_minus_1 take_bit_eq_mask take_bit_eq_mod)

text \<open>\<open>ELOX_CTZ\<close>; the builtin is undefined at 0, where the code never calls it.\<close>

fun ctz :: "nat \<Rightarrow> nat" where
  "ctz n = (if n = 0 \<or> odd n then 0 else Suc (ctz (n div 2)))"

declare ctz.simps [simp del]

lemma ctz_pow2 [simp]: "ctz (2 ^ k) = k"
  by (induction k) (simp_all add: ctz.simps [of "Suc 0"] ctz.simps [of "2 * 2 ^ k" for k])

text \<open>C's integer division truncates towards zero.\<close>

definition cdiv :: "int \<Rightarrow> int \<Rightarrow> int" where
  "cdiv a b = sgn a * sgn b * (\<bar>a\<bar> div \<bar>b\<bar>)"

lemma cdiv_nonneg [simp]: "0 \<le> a \<Longrightarrow> 0 < b \<Longrightarrow> cdiv a b = a div b"
  by (cases "a = 0") (simp_all add: cdiv_def)

text \<open>\<open>GROW_CAPACITY\<close> of \<open>memory.h\<close>.\<close>

definition grow_capacity :: "nat \<Rightarrow> nat" where
  "grow_capacity capacity = (if capacity < 8 then 8 else capacity * 2)"

section \<open>Cyclic slot arithmetic\<close>

definition cyc_next :: "nat \<Rightarrow> nat \<Rightarrow> nat" where
  "cyc_next cap i = (if i + 1 = cap then 0 else i + 1)"

definition cyc_dist :: "nat \<Rightarrow> nat \<Rightarrow> nat \<Rightarrow> nat" where
  "cyc_dist cap a b = (if b \<ge> a then b - a else cap + b - a)"

lemma cyc_next_less [simp]: "i < cap \<Longrightarrow> cyc_next cap i < cap"
  by (auto simp: cyc_next_def)

lemma cyc_dist_self [simp]: "cyc_dist cap a a = 0"
  by (simp add: cyc_dist_def)

lemma cyc_dist_eq_0 [simp]: "a < cap \<Longrightarrow> b < cap \<Longrightarrow> cyc_dist cap a b = 0 \<longleftrightarrow> a = b"
  by (auto simp: cyc_dist_def)

lemma cyc_dist_less [simp]: "a < cap \<Longrightarrow> b < cap \<Longrightarrow> cyc_dist cap a b < cap"
  by (auto simp: cyc_dist_def)

lemma cyc_next_mod: "i < cap \<Longrightarrow> (i + 1) mod cap = cyc_next cap i"
  by (auto simp: cyc_next_def)

lemma cyc_dist_next:
  "\<lbrakk>a < cap; b < cap; a \<noteq> b\<rbrakk> \<Longrightarrow> cyc_dist cap a b = Suc (cyc_dist cap (cyc_next cap a) b)"
  by (auto simp: cyc_dist_def cyc_next_def)

lemma cyc_dist_next_right:
  "\<lbrakk>a < cap; b < cap; cyc_next cap b \<noteq> a\<rbrakk>
   \<Longrightarrow> cyc_dist cap a (cyc_next cap b) = Suc (cyc_dist cap a b)"
  by (auto simp: cyc_dist_def cyc_next_def split: if_splits)

lemma cyc_dist_inj:
  "\<lbrakk>a < cap; b < cap; c < cap; cyc_dist cap a b = cyc_dist cap a c\<rbrakk> \<Longrightarrow> b = c"
  by (auto simp: cyc_dist_def split: if_splits)

lemma cyc_dist_split:
  "\<lbrakk>x < cap; h < cap; i < cap; cyc_dist cap x h \<le> cyc_dist cap x i\<rbrakk>
   \<Longrightarrow> cyc_dist cap x i = cyc_dist cap x h + cyc_dist cap h i"
  by (auto simp: cyc_dist_def split: if_splits)

lemma cyc_dist_between:
  "\<lbrakk>x < cap; h < cap; i < cap; p < cap; cyc_dist cap x h < cyc_dist cap x i;
    cyc_dist cap h p < cyc_dist cap h i\<rbrakk>
   \<Longrightarrow> cyc_dist cap x p < cyc_dist cap x i"
  by (auto simp: cyc_dist_def split: if_splits)

lemma cyc_dist_advance:
  assumes "d < cap" "p < cap" "e < cap" "p \<noteq> e" "cyc_dist cap d p \<le> cyc_dist cap d e"
  shows "cyc_dist cap d (cyc_next cap p) = Suc (cyc_dist cap d p)"
    and "Suc (cyc_dist cap d p) \<le> cyc_dist cap d e"
  using assms by (auto simp: cyc_dist_def cyc_next_def split: if_splits)

lemma cyc_dist_one:
  assumes "p < cap" "e < cap" "p \<noteq> e"
  shows "cyc_dist cap p (cyc_next cap p) = 1" and "1 \<le> cyc_dist cap p e"
    and "cyc_dist cap (cyc_next cap p) e < cyc_dist cap p e" and "cyc_next cap p \<noteq> p"
  using assms by (auto simp: cyc_dist_def cyc_next_def split: if_splits)

section \<open>Finite maps with fallible insertion\<close>

text \<open>
  The contract a hash table offers to the code that fills it: \<open>get\<close> reads the map the table
  stands for; \<open>put\<close> either stores the binding or reports an error (first component) and
  leaves the map alone; neither runs into undefined behaviour.
\<close>

fun put_all :: "('t \<Rightarrow> 'k \<Rightarrow> 'v \<Rightarrow> (bool \<times> 't) option) \<Rightarrow> ('k \<times> 'v) list \<Rightarrow> 't \<Rightarrow> (bool \<times> 't) option" where
  "put_all put [] t = Some (False, t)"
| "put_all put ((k, v) # xs) t =
     do { (raised, t') \<leftarrow> put t k v; if raised then Some (True, t') else put_all put xs t' }"

definition upd_pair :: "'k \<times> 'v \<Rightarrow> ('k \<rightharpoonup> 'v) \<Rightarrow> ('k \<rightharpoonup> 'v)" where
  "upd_pair p m = m(fst p \<mapsto> snd p)"

lemma fold_upd_pair: "fold upd_pair ((k, v) # xs) m = fold upd_pair xs (m(k \<mapsto> v))"
  by (simp only: fold_Cons o_apply upd_pair_def fst_conv snd_conv)

locale fallible_map =
  fixes inv :: "'t \<Rightarrow> bool"
    and denotes :: "'t \<Rightarrow> ('k \<rightharpoonup> 'v)"
    and get :: "'t \<Rightarrow> 'k \<Rightarrow> 'v option option"
    and put :: "'t \<Rightarrow> 'k \<Rightarrow> 'v \<Rightarrow> (bool \<times> 't) option"
    and admissible :: "'k \<Rightarrow> bool"
  assumes get_denotes: "\<lbrakk>inv t; admissible k\<rbrakk> \<Longrightarrow> get t k = Some (denotes t k)"
    and put_defined: "\<lbrakk>inv t; admissible k\<rbrakk> \<Longrightarrow> \<exists>r t'. put t k v = Some (r, t')"
    and put_inv: "\<lbrakk>inv t; admissible k; put t k v = Some (r, t')\<rbrakk> \<Longrightarrow> inv t'"
    and put_stored: "\<lbrakk>inv t; admissible k; put t k v = Some (False, t')\<rbrakk> \<Longrightarrow> denotes t' = (denotes t)(k \<mapsto> v)"
    and put_raised: "\<lbrakk>inv t; admissible k; put t k v = Some (True, t')\<rbrakk> \<Longrightarrow> denotes t' = denotes t"
begin

lemma get_after_put:
  assumes "inv t" "admissible k" "admissible k'" "put t k v = Some (False, t')"
  shows "get t' k' = Some (if k' = k then Some v else denotes t k')"
  using assms put_inv put_stored get_denotes by auto

lemma put_all_spec:
  assumes "inv t" and "\<forall>k\<in>fst ` set xs. admissible k"
  shows "\<exists>r t' n. put_all put xs t = Some (r, t') \<and> inv t' \<and>
           denotes t' = fold upd_pair (take n xs) (denotes t) \<and> (\<not> r \<longrightarrow> n = length xs)"
  using assms
proof (induction xs arbitrary: t)
  case Nil
  then show ?case by (intro exI [of _ False] exI [of _ t]) simp
next
  case (Cons x xs)
  obtain k v where x: "x = (k, v)" by (cases x)
  obtain r t' where put: "put t k v = Some (r, t')" using put_defined Cons.prems x by force
  show ?case
  proof (cases r)
    case True
    then show ?thesis
      using put x put_inv [of t k v r t'] put_raised [of t k v t'] Cons.prems
      by (intro exI [of _ True] exI [of _ t'] exI [of _ 0]) simp
  next
    case False
    then have t': "inv t'" "denotes t' = (denotes t)(k \<mapsto> v)"
      using put x put_inv put_stored Cons.prems by auto
    from Cons.IH [OF t'(1)] Cons.prems(2) obtain r2 t2 n where
      "put_all put xs t' = Some (r2, t2)" "inv t2"
      "denotes t2 = fold upd_pair (take n xs) (denotes t')" "\<not> r2 \<longrightarrow> n = length xs"
      by auto
    with put x False t'(2) show ?thesis
      by (intro exI [of _ r2] exI [of _ t2] exI [of _ "Suc n"])
        (simp add: fold_upd_pair del: fold_Cons fold_simps)
  qed
qed

end

lemma fold_upd_distinct:
  "distinct (map fst xs) \<Longrightarrow> fold upd_pair xs m = m ++ map_of xs"
proof (induction xs arbitrary: m)
  case Nil
  then show ?case by simp
next
  case (Cons x xs)
  obtain k v where x: "x = (k, v)" by (cases x)
  have "map_of xs k = None" using Cons.prems by (simp add: x map_of_eq_None_iff)
  then have "m(k \<mapsto> v) ++ map_of xs = m ++ map_of (x # xs)"
    unfolding x by (intro ext) (simp add: map_add_def split: option.splits)
  moreover have "fold upd_pair xs (m(k \<mapsto> v)) = m(k \<mapsto> v) ++ map_of xs"
    by (rule Cons.IH) (use Cons.prems in simp)
  ultimately show ?case unfolding x fold_upd_pair by (simp only:)
qed

end
