(* ===== verification/Values.thy ===== *)
theory Values
  imports Prelude
begin

text \<open>
  The tagged representation of \<open>Value\<close> (\<open>value.h\<close>, build without NaN boxing, the
  default) and the part of C's \<open>double\<close> the runtime relies on outside arithmetic: IEEE
  comparison with \<open>==\<close>, the exact conversion from integers and the truncating conversion
  to \<open>int32_t\<close>.  A double is its 64-bit pattern, so hashing its two halves
  (\<open>DoubleHash\<close>) and NaN boxing can be stated on the same data.
\<close>

section \<open>Doubles as bit patterns\<close>

type_synonym dbl = u64

definition dbl_neg :: "dbl \<Rightarrow> bool" where
  "dbl_neg d \<longleftrightarrow> 2 ^ 63 \<le> unat d"

definition dbl_exp :: "dbl \<Rightarrow> nat" where
  "dbl_exp d = unat d div 2 ^ 52 mod 2 ^ 11"

definition dbl_frac :: "dbl \<Rightarrow> nat" where
  "dbl_frac d = unat d mod 2 ^ 52"

definition dbl_is_nan :: "dbl \<Rightarrow> bool" where
  "dbl_is_nan d \<longleftrightarrow> dbl_exp d = 2047 \<and> dbl_frac d \<noteq> 0"

definition dbl_is_zero :: "dbl \<Rightarrow> bool" where
  "dbl_is_zero d \<longleftrightarrow> dbl_exp d = 0 \<and> dbl_frac d = 0"

text \<open>C's \<open>a == b\<close>: NaN equals nothing, the two zeros are equal.\<close>

definition dbl_eq :: "dbl \<Rightarrow> dbl \<Rightarrow> bool" where
  "dbl_eq a b \<longleftrightarrow> \<not> dbl_is_nan a \<and> \<not> dbl_is_nan b \<and> (a = b \<or> dbl_is_zero a \<and> dbl_is_zero b)"

fun ilog2 :: "nat \<Rightarrow> nat" where
  "ilog2 n = (if n < 2 then 0 else Suc (ilog2 (n div 2)))"

declare ilog2.simps [simp del]

text \<open>\<open>(double)i\<close> for an integer that a double holds exactly.\<close>

definition dbl_of_int :: "int \<Rightarrow> dbl" where
  "dbl_of_int i =
     (if i = 0 then 0
      else let m = nat \<bar>i\<bar>; k = ilog2 m
           in word_of_nat ((if i < 0 then 2 ^ 63 else 0) + (1022 + k) * 2 ^ 52 + m * 2 ^ (52 - k)))"

text \<open>Truncation towards zero; infinities and NaN have no integer value.\<close>

definition dbl_trunc :: "dbl \<Rightarrow> int option" where
  "dbl_trunc d =
     (let e = dbl_exp d; m = 2 ^ 52 + dbl_frac d
      in if e = 2047 then None
         else if e = 0 then Some 0
         else let r = int (if e \<ge> 1075 then m * 2 ^ (e - 1075) else m div 2 ^ (1075 - e))
              in Some (if dbl_neg d then - r else r))"

text \<open>\<open>(int32_t)d\<close>: undefined in C when the truncated value does not fit.\<close>

definition dbl_to_int32 :: "dbl \<Rightarrow> int option" where
  "dbl_to_int32 d =
     (case dbl_trunc d of
        None \<Rightarrow> None
      | Some i \<Rightarrow> if - (2 ^ 31) \<le> i \<and> i < 2 ^ 31 then Some i else None)"

lemma ilog2_bounds: "0 < n \<Longrightarrow> 2 ^ ilog2 n \<le> n \<and> n < 2 ^ Suc (ilog2 n)"
proof (induction n rule: ilog2.induct)
  case (1 n)
  show ?case
  proof (cases "n < 2")
    case True
    with "1.prems" show ?thesis by (simp add: ilog2.simps [of n])
  next
    case False
    with "1.IH" have "2 ^ ilog2 (n div 2) \<le> n div 2 \<and> n div 2 < 2 ^ Suc (ilog2 (n div 2))" by simp
    with False show ?thesis by (auto simp: ilog2.simps [of n])
  qed
qed

lemma ilog2_less: "0 < n \<Longrightarrow> n < 2 ^ k \<Longrightarrow> ilog2 n < k"
  using ilog2_bounds [of n] power_less_imp_less_exp [of "2::nat" "ilog2 n" k] by linarith

lemma shift_bounds:
  assumes "2 ^ k \<le> (m::nat)" and "m < 2 ^ Suc k" and "k \<le> n"
  shows "2 ^ n \<le> m * 2 ^ (n - k)" and "m * 2 ^ (n - k) < 2 ^ Suc n"
proof -
  have e: "2 ^ k * 2 ^ (n - k) = (2::nat) ^ n" using assms(3) by (simp flip: power_add)
  show "2 ^ n \<le> m * 2 ^ (n - k)" using assms(1) by (simp flip: e)
  have "m * 2 ^ (n - k) < 2 ^ Suc k * 2 ^ (n - k)"
    using assms(2) by (intro mult_strict_right_mono) auto
  also have "\<dots> = 2 ^ Suc n" using e by (metis mult.assoc power_Suc)
  finally show "m * 2 ^ (n - k) < 2 ^ Suc n" .
qed

text \<open>The fields of the encoding of a non-zero integer below \<open>2 ^ 53\<close>.\<close>

lemma dbl_of_int_fields:
  assumes "i \<noteq> 0" and "\<bar>i\<bar> < 2 ^ 53"
  defines "m \<equiv> nat \<bar>i\<bar>"
  shows "dbl_neg (dbl_of_int i) \<longleftrightarrow> i < 0"
    and "dbl_exp (dbl_of_int i) = 1023 + ilog2 m"
    and "dbl_frac (dbl_of_int i) = m * 2 ^ (52 - ilog2 m) - 2 ^ 52"
proof -
  define k where "k = ilog2 m"
  define f where "f = m * 2 ^ (52 - k) - 2 ^ 52"
  have m: "0 < m" "m < 2 ^ 53" using assms by (auto simp: m_def nat_less_iff)
  have k: "k \<le> 52" using ilog2_less [OF m] by (simp add: k_def)
  have b: "2 ^ k \<le> m" "m < 2 ^ Suc k" using ilog2_bounds [OF m(1)] by (auto simp: k_def)
  have lo: "2 ^ 52 \<le> m * 2 ^ (52 - k)" and hi: "m * 2 ^ (52 - k) < 2 ^ Suc 52"
    using shift_bounds [OF b k] by auto
  have f: "m * 2 ^ (52 - k) = 2 ^ 52 + f" "f < 2 ^ 52" using lo hi by (auto simp: f_def)
  define s :: nat where "s = (if i < 0 then 1 else 0)"
  have "(if i < 0 then 2 ^ 63 else 0) + (1022 + k) * 2 ^ 52 + m * 2 ^ (52 - k)
      = s * 2 ^ 63 + (1023 + k) * 2 ^ 52 + f"
    using f(1) by (simp add: s_def)
  then have w: "dbl_of_int i = word_of_nat (s * 2 ^ 63 + (1023 + k) * 2 ^ 52 + f)"
    using assms(1) by (simp only: dbl_of_int_def Let_def m_def [symmetric] k_def [symmetric] if_False)
  have lt: "s * 2 ^ 63 + (1023 + k) * 2 ^ 52 + f < 2 ^ 64"
    using f(2) k by (auto simp: s_def)
  have u: "unat (dbl_of_int i) = s * 2 ^ 63 + (1023 + k) * 2 ^ 52 + f"
    unfolding w unat_of_nat using lt by (simp only: len_bit0 len_num1 mult_1_right mod_less) simp
  have d: "unat (dbl_of_int i) div 2 ^ 52 = s * 2 ^ 11 + (1023 + k)"
    using f(2) by (simp add: u)
  show "dbl_exp (dbl_of_int i) = 1023 + ilog2 m"
    unfolding dbl_exp_def d using k by (simp add: k_def [symmetric] s_def)
  show "dbl_frac (dbl_of_int i) = m * 2 ^ (52 - ilog2 m) - 2 ^ 52"
  proof -
    have "unat (dbl_of_int i) = (s * 2 ^ 11 + 1023 + k) * 2 ^ 52 + f" by (simp add: u algebra_simps)
    then have "unat (dbl_of_int i) mod 2 ^ 52 = f" using f(2) by (simp only: mod_mult_self3 mod_less)
    then show ?thesis by (simp add: dbl_frac_def f_def k_def)
  qed
  show "dbl_neg (dbl_of_int i) \<longleftrightarrow> i < 0"
    unfolding dbl_neg_def u using f(2) k by (auto simp: s_def)
qed

lemma dbl_trunc_of_int [simp]: "\<bar>i\<bar> < 2 ^ 53 \<Longrightarrow> dbl_trunc (dbl_of_int i) = Some i"
proof (cases "i = 0")
  case True
  then show ?thesis by (simp add: dbl_of_int_def dbl_trunc_def dbl_exp_def Let_def)
next
  case False
  assume b: "\<bar>i\<bar> < 2 ^ 53"
  define m where "m = nat \<bar>i\<bar>"
  define k where "k = ilog2 m"
  have m: "0 < m" "m < 2 ^ 53" using b False by (auto simp: m_def nat_less_iff)
  have k: "k \<le> 52" using ilog2_less [OF m] by (simp add: k_def)
  have lo: "2 ^ 52 \<le> m * 2 ^ (52 - k)"
    using shift_bounds(1) [OF _ _ k] ilog2_bounds [OF m(1)] by (simp add: k_def)
  have fr: "dbl_frac (dbl_of_int i) = m * 2 ^ (52 - k) - 2 ^ 52"
    and ex: "dbl_exp (dbl_of_int i) = 1023 + k"
    using dbl_of_int_fields [OF False b] by (simp_all add: m_def k_def)
  have sum: "2 ^ 52 + dbl_frac (dbl_of_int i) = m * 2 ^ (52 - k)" using lo by (simp add: fr)
  have sub: "1075 - dbl_exp (dbl_of_int i) = 52 - k" using k by (simp add: ex)
  have q: "(if dbl_exp (dbl_of_int i) \<ge> 1075
         then m * 2 ^ (52 - k) * 2 ^ (dbl_exp (dbl_of_int i) - 1075)
         else m * 2 ^ (52 - k) div 2 ^ (52 - k)) = m"
    using k by (cases "k = 52") (simp_all add: ex)
  have "dbl_exp (dbl_of_int i) \<noteq> 2047" and "dbl_exp (dbl_of_int i) \<noteq> 0"
    using k by (simp_all add: ex)
  then have "dbl_trunc (dbl_of_int i) = Some (if i < 0 then - int m else int m)"
    unfolding dbl_trunc_def Let_def sum sub q by (simp add: dbl_of_int_fields(1) [OF False b])
  then show ?thesis by (simp add: m_def)
qed

lemma dbl_to_int32_of_int [simp]:
  "\<lbrakk>- (2 ^ 31) \<le> i; i < 2 ^ 31\<rbrakk> \<Longrightarrow> dbl_to_int32 (dbl_of_int i) = Some i"
  by (simp add: dbl_to_int32_def)

text \<open>\<open>(uint32_t)d\<close>.\<close>

definition dbl_to_uint32 :: "dbl \<Rightarrow> u32 option" where
  "dbl_to_uint32 d = (case dbl_trunc d of
       None \<Rightarrow> None | Some i \<Rightarrow> if 0 \<le> i \<and> i < 2 ^ 32 then Some (word_of_int i) else None)"

lemma dbl_to_uint32_uint [simp]: "dbl_to_uint32 (dbl_of_int (uint (w :: u32))) = Some w"
proof -
  have "uint w < 2 ^ 32" using uint_lt2p [of w] by simp
  then have "\<bar>uint w\<bar> < 2 ^ 53" by simp
  then have "dbl_trunc (dbl_of_int (uint w)) = Some (uint w)" by (rule dbl_trunc_of_int)
  with \<open>uint w < 2 ^ 32\<close> show ?thesis by (simp add: dbl_to_uint32_def)
qed

section \<open>Values\<close>

text \<open>\<open>ValueType\<close> with its union; object pointers are heap addresses.\<close>

datatype val =
    VNumber dbl
  | VNil
  | VBool bool
  | VException
  | VUndefined
  | VObj addr

definition isFalsey :: "val \<Rightarrow> bool" where
  "isFalsey v = (case v of VNil \<Rightarrow> True | VBool b \<Rightarrow> \<not> b | _ \<Rightarrow> False)"

end
