(* ===== verification/Tables.thy ===== *)
theory Tables
  imports Values
begin

text \<open>
  The open-addressing hash table of \<open>table.h\<close> and \<open>table.c\<close>: keys are interned
  strings compared by address, collisions are resolved by linear probing from the Fibonacci hash of
  the key, deletion shifts the following entries back instead of leaving tombstones.  Entries with
  a \<open>NULL\<close> key are \<open>ekey = None\<close>.  The heap of strings is the map
  \<open>hp\<close> from addresses to \<open>ObjString\<close>s.
\<close>

record obj_string =
  os_chars :: "byte list"
  os_hash :: u32
  os_markers :: byte

type_synonym str_heap = "addr \<Rightarrow> obj_string"

record entry =
  ekey :: "addr option"
  evalue :: val

record table =
  tcount :: nat
  tcapacity :: nat
  tshift :: nat
  tentries :: "entry list"

section \<open>Operations\<close>

definition empty_entry :: entry where
  "empty_entry = \<lparr>ekey = None, evalue = VNil\<rparr>"

text \<open>\<open>initTable\<close> leaves the shift field as it is.\<close>

definition initTable :: "table \<Rightarrow> table" where
  "initTable t = t\<lparr>tcount := 0, tcapacity := 0, tentries := []\<rparr>"

definition indexFor :: "u32 \<Rightarrow> nat \<Rightarrow> nat" where
  "indexFor hash shift = unat (drop_bit shift (hash * 2654435769))"

text \<open>
  The four search loops of the file differ in when an occupied slot is a match: \<open>M\<close>.
  They return at the first slot that is empty or a match.
\<close>

partial_function (option) probe ::
  "(addr \<Rightarrow> bool) \<Rightarrow> entry list \<Rightarrow> nat \<Rightarrow> nat \<Rightarrow> nat option" where
  "probe M es capacity index =
     (if length es \<le> index then None
      else (case ekey (es ! index) of
              None \<Rightarrow> Some index
            | Some k \<Rightarrow> if M k then Some index
                        else probe M es capacity ((index + 1) AND (capacity - 1))))"

definition findEntry :: "str_heap \<Rightarrow> entry list \<Rightarrow> nat \<Rightarrow> nat \<Rightarrow> addr \<Rightarrow> nat option" where
  "findEntry hp es capacity shift key =
     probe (\<lambda>k. k = key) es capacity (indexFor (os_hash (hp key)) shift)"

definition findEntryIndex :: "str_heap \<Rightarrow> entry list \<Rightarrow> nat \<Rightarrow> nat \<Rightarrow> addr \<Rightarrow> int option" where
  "findEntryIndex hp es capacity shift key =
     do { i \<leftarrow> probe (\<lambda>k. k = key) es capacity (indexFor (os_hash (hp key)) shift);
          Some (if ekey (es ! i) = None then -1 else int i) }"

text \<open>The result is the value stored, or \<open>None\<close> where the function returns false.\<close>

definition tableGet :: "str_heap \<Rightarrow> table \<Rightarrow> addr \<Rightarrow> val option option" where
  "tableGet hp t key =
     (if tcount t = 0 then Some None
      else do { i \<leftarrow> findEntry hp (tentries t) (tcapacity t) (tshift t) key;
                Some (if ekey (tentries t ! i) = None then None
                      else Some (evalue (tentries t ! i))) })"

definition tableGetIndex :: "str_heap \<Rightarrow> table \<Rightarrow> addr \<Rightarrow> int option" where
  "tableGetIndex hp t key =
     (if tcount t = 0 then Some (-1)
      else findEntryIndex hp (tentries t) (tcapacity t) (tshift t) key)"

text \<open>The reinsertion loop of \<open>adjustCapacity\<close>, over the old entries.\<close>

fun reinsert ::
  "str_heap \<Rightarrow> nat \<Rightarrow> nat \<Rightarrow> entry list \<Rightarrow> entry list \<times> nat \<Rightarrow> (entry list \<times> nat) option" where
  "reinsert hp newCapacity shift [] acc = Some acc"
| "reinsert hp newCapacity shift (e # old) (new, count) =
     (case ekey e of
        None \<Rightarrow> reinsert hp newCapacity shift old (new, count)
      | Some k \<Rightarrow> do { d \<leftarrow> findEntry hp new newCapacity shift k;
                      reinsert hp newCapacity shift old
                        (new[d := \<lparr>ekey = Some k, evalue = evalue e\<rparr>], count + 1) })"

text \<open>\<open>alloc n\<close> says whether the allocator can provide \<open>n\<close> entries.\<close>

definition adjustCapacity ::
  "(nat \<Rightarrow> bool) \<Rightarrow> str_heap \<Rightarrow> table \<Rightarrow> nat \<Rightarrow> (bool \<times> table) option" where
  "adjustCapacity alloc hp t newCapacity =
     (if \<not> alloc newCapacity then Some (False, t)
      else let shift = 32 - ctz newCapacity
           in do { (new, count) \<leftarrow> reinsert hp newCapacity shift (tentries t)
                                     (replicate newCapacity empty_entry, 0);
                   Some (True, \<lparr>tcount = count, tcapacity = newCapacity, tshift = shift,
                                tentries = new\<rparr>) })"

definition needs_growth :: "table \<Rightarrow> bool" where
  "needs_growth t \<longleftrightarrow> 4 * (tcount t + 1) > 3 * tcapacity t"

datatype set_result = SetDone bool table | SetRaised table

definition store_entry :: "table \<Rightarrow> nat \<Rightarrow> addr \<Rightarrow> val \<Rightarrow> table" where
  "store_entry t i key value =
     (let e = tentries t ! i
      in t\<lparr>tcount := (if ekey e = None \<and> evalue e = VNil then tcount t + 1 else tcount t),
           tentries := (tentries t)[i := \<lparr>ekey = Some key, evalue = value\<rparr>]\<rparr>)"

definition tableSet ::
  "(nat \<Rightarrow> bool) \<Rightarrow> str_heap \<Rightarrow> table \<Rightarrow> addr \<Rightarrow> val \<Rightarrow> set_result option" where
  "tableSet alloc hp t key value =
     do { (adjusted, t1) \<leftarrow> (if needs_growth t
             then adjustCapacity alloc hp t (grow_capacity (tcapacity t)) else Some (True, t));
          if \<not> adjusted then Some (SetRaised t1)
          else do { i \<leftarrow> findEntry hp (tentries t1) (tcapacity t1) (tshift t1) key;
                    Some (SetDone (ekey (tentries t1 ! i) = None) (store_entry t1 i key value)) } }"

text \<open>
  \<open>tableSetIfMissing\<close> ignores a failed growth and goes on with the old entries.
\<close>

definition tableSetIfMissing ::
  "(nat \<Rightarrow> bool) \<Rightarrow> str_heap \<Rightarrow> table \<Rightarrow> addr \<Rightarrow> val \<Rightarrow> (val \<times> table) option" where
  "tableSetIfMissing alloc hp t key value =
     do { (adjusted, t1) \<leftarrow> (if needs_growth t
             then adjustCapacity alloc hp t (grow_capacity (tcapacity t)) else Some (True, t));
          i \<leftarrow> findEntry hp (tentries t1) (tcapacity t1) (tshift t1) key;
          (let e = tentries t1 ! i
           in if ekey e = None \<and> evalue e = VNil
              then Some (value, store_entry t1 i key value)
              else Some (evalue e, t1)) }"

partial_function (option) delete_loop ::
  "str_heap \<Rightarrow> nat \<Rightarrow> nat \<Rightarrow> entry list \<Rightarrow> nat \<Rightarrow> nat \<Rightarrow> entry list option" where
  "delete_loop hp cap shift es toDelete next =
     (if length es \<le> next \<or> length es \<le> toDelete then None
      else (case ekey (es ! next) of
              None \<Rightarrow> Some (es[toDelete := empty_entry])
            | Some k \<Rightarrow>
                if cyc_dist cap (indexFor (os_hash (hp k)) shift) toDelete
                     < cyc_dist cap (indexFor (os_hash (hp k)) shift) next
                then delete_loop hp cap shift (es[toDelete := es ! next]) next (cyc_next cap next)
                else delete_loop hp cap shift es toDelete (cyc_next cap next)))"

definition tableDelete :: "str_heap \<Rightarrow> table \<Rightarrow> addr \<Rightarrow> (bool \<times> table) option" where
  "tableDelete hp t key =
     do { index \<leftarrow> findEntryIndex hp (tentries t) (tcapacity t) (tshift t) key;
          if index < 0 then Some (False, t)
          else do { es \<leftarrow> delete_loop hp (tcapacity t) (tshift t) (tentries t) (nat index)
                            (cyc_next (tcapacity t) (nat index));
                    Some (True, t\<lparr>tentries := es, tcount := tcount t - 1\<rparr>) } }"

text \<open>\<open>tableAddAll\<close> stops at the first insertion that raises.\<close>

fun addAll_from ::
  "(nat \<Rightarrow> bool) \<Rightarrow> str_heap \<Rightarrow> entry list \<Rightarrow> table \<Rightarrow> (bool \<times> table) option" where
  "addAll_from alloc hp [] to = Some (False, to)"
| "addAll_from alloc hp (e # es) to =
     (case ekey e of
        None \<Rightarrow> addAll_from alloc hp es to
      | Some k \<Rightarrow> do { r \<leftarrow> tableSet alloc hp to k (evalue e);
                      case r of
                        SetRaised to' \<Rightarrow> Some (True, to')
                      | SetDone _ to' \<Rightarrow> addAll_from alloc hp es to' })"

definition tableAddAll ::
  "(nat \<Rightarrow> bool) \<Rightarrow> str_heap \<Rightarrow> table \<Rightarrow> table \<Rightarrow> (bool \<times> table) option" where
  "tableAddAll alloc hp from to = addAll_from alloc hp (tentries from) to"

definition same_string :: "str_heap \<Rightarrow> byte list \<Rightarrow> u32 \<Rightarrow> addr \<Rightarrow> bool" where
  "same_string hp chars hash k \<longleftrightarrow>
     length (os_chars (hp k)) = length chars \<and> os_hash (hp k) = hash \<and> os_chars (hp k) = chars"

definition tableFindString :: "str_heap \<Rightarrow> table \<Rightarrow> byte list \<Rightarrow> u32 \<Rightarrow> addr option option" where
  "tableFindString hp t chars hash =
     (if tcount t = 0 then Some None
      else do { i \<leftarrow> probe (same_string hp chars hash) (tentries t) (tcapacity t)
                        (indexFor hash (tshift t));
                Some (ekey (tentries t ! i)) })"

definition tableGetString :: "str_heap \<Rightarrow> table \<Rightarrow> byte list \<Rightarrow> u32 \<Rightarrow> val option option" where
  "tableGetString hp t chars hash =
     (if tcount t = 0 then Some None
      else do { i \<leftarrow> probe (same_string hp chars hash) (tentries t) (tcapacity t)
                        (indexFor hash (tshift t));
                Some (if ekey (tentries t ! i) = None then None
                      else Some (evalue (tentries t ! i))) })"

text \<open>\<open>tableRemoveWhite\<close>: the loop over the slot numbers, reading the table as it is by then.\<close>

fun removeWhite_slots :: "str_heap \<Rightarrow> nat list \<Rightarrow> table \<Rightarrow> table option" where
  "removeWhite_slots hp [] t = Some t"
| "removeWhite_slots hp (i # is) t =
     (case ekey (tentries t ! i) of
        None \<Rightarrow> removeWhite_slots hp is t
      | Some k \<Rightarrow> if os_markers (hp k) = 0
                  then do { (_, t') \<leftarrow> tableDelete hp t k; removeWhite_slots hp is t' }
                  else removeWhite_slots hp is t)"

definition tableRemoveWhite :: "str_heap \<Rightarrow> table \<Rightarrow> table option" where
  "tableRemoveWhite hp t = removeWhite_slots hp [0..<tcapacity t] t"

declare probe.simps [code] delete_loop.simps [code]

section \<open>Shape of a table\<close>

abbreviation home :: "str_heap \<Rightarrow> nat \<Rightarrow> addr \<Rightarrow> nat" where
  "home hp shift a \<equiv> indexFor (os_hash (hp a)) shift"

text \<open>
  \<open>probe_ok h H es\<close>: every key outside the slots \<open>H\<close> (at most one of them is a
  hole under deletion) has its home slot inside the array, all slots its search passes before
  reaching it are occupied, and no key is stored twice.
\<close>

definition probe_ok :: "(addr \<Rightarrow> nat) \<Rightarrow> nat set \<Rightarrow> entry list \<Rightarrow> bool" where
  "probe_ok h H es \<longleftrightarrow>
     (\<forall>i<length es. \<forall>a. i \<notin> H \<and> ekey (es ! i) = Some a \<longrightarrow>
        h a < length es \<and>
        (\<forall>j<length es. j \<notin> H \<and> cyc_dist (length es) (h a) j < cyc_dist (length es) (h a) i
            \<longrightarrow> ekey (es ! j) \<noteq> None) \<and>
        (\<forall>j<length es. j \<notin> H \<and> ekey (es ! j) = Some a \<longrightarrow> j = i))"

lemma probe_okI:
  assumes "\<And>i a. \<lbrakk>i < length es; i \<notin> H; ekey (es ! i) = Some a\<rbrakk> \<Longrightarrow> h a < length es"
    and "\<And>i a j. \<lbrakk>i < length es; i \<notin> H; ekey (es ! i) = Some a; j < length es; j \<notin> H;
          cyc_dist (length es) (h a) j < cyc_dist (length es) (h a) i\<rbrakk> \<Longrightarrow> ekey (es ! j) \<noteq> None"
    and "\<And>i a j. \<lbrakk>i < length es; i \<notin> H; ekey (es ! i) = Some a; j < length es; j \<notin> H;
          ekey (es ! j) = Some a\<rbrakk> \<Longrightarrow> j = i"
  shows "probe_ok h H es"
  using assms unfolding probe_ok_def by blast

lemma probe_ok_home:
  "\<lbrakk>probe_ok h H es; i < length es; i \<notin> H; ekey (es ! i) = Some a\<rbrakk> \<Longrightarrow> h a < length es"
  unfolding probe_ok_def by blast

lemma probe_ok_path:
  "\<lbrakk>probe_ok h H es; i < length es; i \<notin> H; ekey (es ! i) = Some a; j < length es; j \<notin> H;
    cyc_dist (length es) (h a) j < cyc_dist (length es) (h a) i\<rbrakk> \<Longrightarrow> ekey (es ! j) \<noteq> None"
  unfolding probe_ok_def by blast

lemma probe_ok_unique:
  "\<lbrakk>probe_ok h H es; i < length es; i \<notin> H; ekey (es ! i) = Some a;
    j < length es; j \<notin> H; ekey (es ! j) = Some a\<rbrakk> \<Longrightarrow> j = i"
  unfolding probe_ok_def by blast

text \<open>The bindings held by the slots outside \<open>H\<close>, and the table as a map.\<close>

definition bindings :: "nat set \<Rightarrow> entry list \<Rightarrow> (addr \<times> val) set" where
  "bindings H es = {(a, v). \<exists>i<length es. i \<notin> H \<and> ekey (es ! i) = Some a \<and> evalue (es ! i) = v}"

fun entry_pairs :: "entry list \<Rightarrow> (addr \<times> val) list" where
  "entry_pairs [] = []"
| "entry_pairs (e # es) =
     (case ekey e of None \<Rightarrow> entry_pairs es | Some k \<Rightarrow> (k, evalue e) # entry_pairs es)"

definition table_map :: "table \<Rightarrow> (addr \<rightharpoonup> val)" where
  "table_map t = map_of (entry_pairs (tentries t))"

definition occupied :: "entry list \<Rightarrow> nat" where
  "occupied es = length (filter (\<lambda>e. ekey e \<noteq> None) es)"

definition table_inv :: "str_heap \<Rightarrow> table \<Rightarrow> bool" where
  "table_inv hp t \<longleftrightarrow>
     length (tentries t) = tcapacity t \<and> tcount t = occupied (tentries t) \<and>
     (\<forall>e\<in>set (tentries t). ekey e = None \<longrightarrow> evalue e = VNil) \<and>
     4 * tcount t \<le> 3 * tcapacity t \<and>
     (tcapacity t = 0 \<or>
      (\<exists>k. 3 \<le> k \<and> k \<le> 30 \<and> tcapacity t = 2 ^ k \<and> tshift t = 32 - k) \<and>
      probe_ok (home hp (tshift t)) {} (tentries t))"

lemma set_entry_pairs: "set (entry_pairs es) = bindings {} es"
proof (induction es)
  case Nil
  then show ?case by (simp add: bindings_def)
next
  case (Cons e es)
  have "bindings {} (e # es) =
      bindings {} es \<union> (case ekey e of None \<Rightarrow> {} | Some k \<Rightarrow> {(k, evalue e)})"
    by (auto simp: bindings_def less_Suc_eq_0_disj split: option.splits) 
  then show ?case using Cons by (auto split: option.splits)
qed

lemma bindings_functional:
  "\<lbrakk>probe_ok h H es; (a, v) \<in> bindings H es; (a, w) \<in> bindings H es\<rbrakk> \<Longrightarrow> v = w"
  unfolding bindings_def using probe_ok_unique [of h H es] by blast

lemma map_of_functional:
  assumes "\<And>v w. (a, v) \<in> set xs \<Longrightarrow> (a, w) \<in> set xs \<Longrightarrow> v = w"
  shows "map_of xs a = Some v \<longleftrightarrow> (a, v) \<in> set xs"
  by (metis assms map_of_SomeD weak_map_of_SomeI)

lemma table_map_bindings:
  "probe_ok h {} (tentries t) \<Longrightarrow> table_map t a = Some v \<longleftrightarrow> (a, v) \<in> bindings {} (tentries t)"
  unfolding table_map_def
  by (subst map_of_functional) (auto simp: set_entry_pairs dest: bindings_functional)

lemma occupied_less_empty: "occupied es < length es \<Longrightarrow> \<exists>e<length es. ekey (es ! e) = None"
proof (rule ccontr)
  assume l: "occupied es < length es" and "\<not> (\<exists>e<length es. ekey (es ! e) = None)"
  then have "\<forall>e\<in>set es. ekey e \<noteq> None" by (auto simp: in_set_conv_nth)
  then have "filter (\<lambda>e. ekey e \<noteq> None) es = es" by simp
  with l show False by (simp add: occupied_def)
qed

lemma occupied_0: "occupied es = 0 \<longleftrightarrow> (\<forall>i<length es. ekey (es ! i) = None)"
  unfolding occupied_def length_0_conv filter_empty_conv all_set_conv_all_nth by simp

lemma occupied_update:
  assumes "i < length es"
  shows "occupied (es[i := e]) + (if ekey (es ! i) = None then 0 else 1)
         = occupied es + (if ekey e = None then 0 else 1)"
  using length_filter_update [OF assms, of "\<lambda>e. ekey e \<noteq> None" e] unfolding occupied_def
  by (simp split: if_splits)

section \<open>Searching\<close>

lemma indexFor_less: "k \<le> 32 \<Longrightarrow> indexFor hash (32 - k) < 2 ^ k"
proof -
  assume k: "k \<le> 32"
  have "unat (hash * 2654435769) < 2 ^ (k + (32 - k))"
    using k unsigned_less [of "hash * 2654435769"] by simp
  then have "unat (hash * 2654435769) div 2 ^ (32 - k) < 2 ^ k"
    by (simp add: power_add less_mult_imp_div_less)
  moreover have "unat (drop_bit (32 - k) (hash * 2654435769)) = unat (hash * 2654435769) div 2 ^ (32 - k)"
    unfolding unat_drop_bit_eq by (rule drop_bit_eq_div)
  ultimately show ?thesis by (simp add: indexFor_def)
qed

definition stops :: "(addr \<Rightarrow> bool) \<Rightarrow> entry list \<Rightarrow> nat \<Rightarrow> bool" where
  "stops M es i \<longleftrightarrow> (case ekey (es ! i) of None \<Rightarrow> True | Some k \<Rightarrow> M k)"

text \<open>With an empty slot somewhere the search ends at the first slot it stops at.\<close>

lemma probe_spec:
  assumes n: "length es = 2 ^ k" and e: "e < length es" "ekey (es ! e) = None" and "i < length es"
  shows "\<exists>p<length es. probe M es (2 ^ k) i = Some p \<and> stops M es p \<and>
           (\<forall>j<length es. cyc_dist (length es) i j < cyc_dist (length es) i p \<longrightarrow> \<not> stops M es j)"
  using \<open>i < length es\<close>
proof (induction "cyc_dist (length es) i e" arbitrary: i rule: less_induct)
  case less
  show ?case
  proof (cases "stops M es i")
    case True
    then have "probe M es (2 ^ k) i = Some i"
      using less.prems by (subst probe.simps) (auto simp: stops_def split: option.splits)
    with True less.prems show ?thesis by (intro exI [of _ i]) auto
  next
    case False
    let ?i = "cyc_next (length es) i"
    from False obtain a where a: "ekey (es ! i) = Some a" "\<not> M a"
      by (auto simp: stops_def split: option.splits)
    have "i \<noteq> e" using a e by auto
    then have d: "cyc_dist (length es) ?i e < cyc_dist (length es) i e"
      using cyc_dist_next [OF less.prems e(1)] by simp
    have "(i + 1) AND (2 ^ k - 1) = ?i" using n less.prems by (metis and_pow2_pred cyc_next_mod)
    with a less.prems have step: "probe M es (2 ^ k) i = probe M es (2 ^ k) ?i"
      by (subst probe.simps) simp
    obtain p where p: "p < length es" "probe M es (2 ^ k) ?i = Some p" "stops M es p"
      and first: "\<And>j. \<lbrakk>j < length es; cyc_dist (length es) ?i j < cyc_dist (length es) ?i p\<rbrakk>
                    \<Longrightarrow> \<not> stops M es j"
      using less.hyps [OF d] less.prems by auto
    have "i \<noteq> p" using False p by auto
    have "\<not> stops M es j"
      if j: "j < length es" "cyc_dist (length es) i j < cyc_dist (length es) i p" for j
    proof (cases "j = i")
      case True
      with False show ?thesis by simp
    next
      case False
      with j p \<open>i \<noteq> p\<close> less.prems show ?thesis
        by (intro first) (simp_all add: cyc_dist_next [of i])
    qed
    with p step show ?thesis by auto
  qed
qed

text \<open>Keys whose home is the starting slot are found before any later match.\<close>

lemma probe_finds:
  assumes ok: "probe_ok h {} es" and n: "length es = 2 ^ k"
    and e: "e < length es" "ekey (es ! e) = None" and i: "i < length es"
    and M: "\<And>a. M a \<Longrightarrow> h a = i"
  obtains p where "p < length es" "probe M es (2 ^ k) i = Some p"
    and "ekey (es ! p) = None \<longleftrightarrow> (\<nexists>q a. q < length es \<and> ekey (es ! q) = Some a \<and> M a)"
    and "\<And>a. ekey (es ! p) = Some a \<Longrightarrow> M a"
    and "\<And>j. \<lbrakk>j < length es; cyc_dist (length es) i j < cyc_dist (length es) i p\<rbrakk>
           \<Longrightarrow> ekey (es ! j) \<noteq> None"
proof -
  obtain p where p: "p < length es" "probe M es (2 ^ k) i = Some p" "stops M es p"
    and first: "\<And>j. \<lbrakk>j < length es; cyc_dist (length es) i j < cyc_dist (length es) i p\<rbrakk>
                  \<Longrightarrow> \<not> stops M es j"
    using probe_spec [OF n e i] by blast
  have "\<not> (q < length es \<and> ekey (es ! q) = Some a \<and> M a)" if empty: "ekey (es ! p) = None" for q a
  proof
    assume q: "q < length es \<and> ekey (es ! q) = Some a \<and> M a"
    then have ha: "h a = i" using M by simp
    have "q \<noteq> p" using q empty by auto
    then consider "cyc_dist (length es) i p < cyc_dist (length es) i q"
      | "cyc_dist (length es) i q < cyc_dist (length es) i p"
      using cyc_dist_inj [of i "length es" p q] i p q by (metis nat_neq_iff)
    then show False
    proof cases
      case 1
      with probe_ok_path [OF ok, of q a p] q p ha empty show False by simp
    next
      case 2
      with first [of q] q show False by (simp add: stops_def)
    qed
  qed
  then have none: "ekey (es ! p) = None \<longleftrightarrow> (\<nexists>q a. q < length es \<and> ekey (es ! q) = Some a \<and> M a)"
    using p by (auto simp: stops_def split: option.splits)
  show ?thesis
  proof (rule that [OF p(1,2) none])
    show "M a" if "ekey (es ! p) = Some a" for a using p(3) that by (simp add: stops_def)
    show "ekey (es ! j) \<noteq> None"
      if "j < length es" "cyc_dist (length es) i j < cyc_dist (length es) i p" for j
      using first [OF that] by (cases "ekey (es ! j)") (simp_all add: stops_def)
  qed
qed

section \<open>Deletion with backward shift\<close>

text \<open>
  While the loop runs, slot \<open>d\<close> is a hole: its physical content is stale.  No entry between
  the hole and the scan position \<open>p\<close> has the hole on its search path.
\<close>

definition shift_inv :: "(addr \<Rightarrow> nat) \<Rightarrow> entry list \<Rightarrow> nat \<Rightarrow> nat \<Rightarrow> nat \<Rightarrow> bool" where
  "shift_inv h es d p e \<longleftrightarrow>
     d < length es \<and> p < length es \<and> e < length es \<and> d \<noteq> p \<and>
     ekey (es ! d) \<noteq> None \<and> ekey (es ! e) = None \<and>
     cyc_dist (length es) d p \<le> cyc_dist (length es) d e \<and> probe_ok h {d} es \<and>
     (\<forall>i<length es. i \<noteq> d \<and> cyc_dist (length es) d i < cyc_dist (length es) d p \<longrightarrow>
        (\<exists>a. ekey (es ! i) = Some a \<and>
             \<not> cyc_dist (length es) (h a) d < cyc_dist (length es) (h a) i))"

lemma shift_close:
  assumes inv: "shift_inv h es d p e" and p: "ekey (es ! p) = None"
  shows "probe_ok h {} (es[d := empty_entry])"
proof (rule probe_okI; simp)
  from inv have b: "d < length es" "p < length es" "d \<noteq> p" and ok: "probe_ok h {d} es"
    by (auto simp: shift_inv_def)
  fix i a
  assume i: "i < length es" and key: "ekey (es[d := empty_entry] ! i) = Some a"
  then have [simp]: "i \<noteq> d" and a: "ekey (es ! i) = Some a"
    using b by (auto simp: empty_entry_def nth_list_update split: if_splits)
  show ha: "h a < length es" using probe_ok_home [OF ok i _ a] by simp
  fix j
  assume j: "j < length es"
  { assume lt: "cyc_dist (length es) (h a) j < cyc_dist (length es) (h a) i"
    have "j \<noteq> d"
    proof
      assume [simp]: "j = d"
      have "i \<noteq> p" using a p by auto
      have "\<not> cyc_dist (length es) d i < cyc_dist (length es) d p"
        using inv i a lt by (auto simp: shift_inv_def)
      then have "cyc_dist (length es) d p < cyc_dist (length es) d i"
        using cyc_dist_inj [of d "length es" p i] b i \<open>i \<noteq> p\<close> by (metis nat_neq_iff)
      then have "cyc_dist (length es) (h a) p < cyc_dist (length es) (h a) i"
        using cyc_dist_between [OF ha b(1) i b(2)] lt by simp
      with probe_ok_path [OF ok i _ a b(2)] b p show False by simp
    qed
    then show "\<exists>y. ekey (es[d := empty_entry] ! j) = Some y"
      using probe_ok_path [OF ok i _ a j _ lt] by simp }
  { assume "ekey (es[d := empty_entry] ! j) = Some a"
    then have "j \<noteq> d" and "ekey (es ! j) = Some a"
      using b by (auto simp: empty_entry_def nth_list_update split: if_splits)
    then show "j = i" using probe_ok_unique [OF ok i _ a j] by simp }
qed

lemma bindings_close:
  "d < length es \<Longrightarrow> bindings {} (es[d := empty_entry]) = bindings {d} es"
  by (force simp: bindings_def empty_entry_def nth_list_update)

lemma shift_move:
  assumes inv: "shift_inv h es d p e" and a: "ekey (es ! p) = Some a"
    and lt: "cyc_dist (length es) (h a) d < cyc_dist (length es) (h a) p"
  shows "shift_inv h (es[d := es ! p]) p (cyc_next (length es) p) e"
proof -
  from inv have b: "d < length es" "p < length es" "e < length es" "d \<noteq> p"
    and full: "ekey (es ! d) \<noteq> None" and e: "ekey (es ! e) = None" and ok: "probe_ok h {d} es"
    by (auto simp: shift_inv_def)
  have pe: "p \<noteq> e" "e \<noteq> d" using a e full by auto
  have "probe_ok h {p} (es[d := es ! p])"
  proof (rule probe_okI; simp)
    fix i c
    assume i: "i < length es" "i \<noteq> p" and key: "ekey (es[d := es ! p] ! i) = Some c"
    define i' where "i' = (if i = d then p else i)"
    have i': "i' < length es" "i' \<notin> {d}" and c: "ekey (es ! i') = Some c"
      using i key b by (auto simp: i'_def nth_list_update split: if_splits)
    have le: "cyc_dist (length es) (h c) i \<le> cyc_dist (length es) (h c) i'"
      using lt a c by (auto simp: i'_def)
    show "h c < length es" by (rule probe_ok_home [OF ok i' c])
    fix j
    assume j: "j < length es" "j \<noteq> p"
    { assume "cyc_dist (length es) (h c) j < cyc_dist (length es) (h c) i"
      then show "\<exists>y. ekey (es[d := es ! p] ! j) = Some y"
        using probe_ok_path [OF ok i' c j(1)] le a b by (cases "j = d") auto }
    { assume jc: "ekey (es[d := es ! p] ! j) = Some c"
      define j' where "j' = (if j = d then p else j)"
      have "j' < length es" "j' \<notin> {d}" "ekey (es ! j') = Some c"
        using j jc b by (auto simp: j'_def nth_list_update split: if_splits)
      then have "j' = i'" by (rule probe_ok_unique [OF ok i' c])
      then show "j = i" using i j by (auto simp: i'_def j'_def split: if_splits) }
  qed
  moreover have "i = p" if "i < length es" "cyc_dist (length es) p i < 1" for i
    using that b by auto
  ultimately show ?thesis
    using b pe a e cyc_dist_one [OF b(2,3) pe(1)] by (auto simp: shift_inv_def)
qed

lemma bindings_move:
  assumes "d < length es" "p < length es" "d \<noteq> p"
  shows "bindings {p} (es[d := es ! p]) = bindings {d} es"
proof -
  have "(a, v) \<in> bindings {d} es" if "(a, v) \<in> bindings {p} (es[d := es ! p])" for a v
  proof -
    from that obtain i where "i < length es" "i \<noteq> p" "ekey (es[d := es ! p] ! i) = Some a"
      "evalue (es[d := es ! p] ! i) = v" by (auto simp: bindings_def)
    with assms show ?thesis
      by (cases "i = d") (auto simp: bindings_def intro: exI [of _ p] exI [of _ i])
  qed
  moreover have "(a, v) \<in> bindings {p} (es[d := es ! p])" if "(a, v) \<in> bindings {d} es" for a v
  proof -
    from that obtain i where "i < length es" "i \<noteq> d" "ekey (es ! i) = Some a" "evalue (es ! i) = v"
      by (auto simp: bindings_def)
    with assms show ?thesis
      by (cases "i = p") (auto simp: bindings_def intro: exI [of _ d] exI [of _ i])
  qed
  ultimately show ?thesis by auto
qed

lemma shift_skip:
  assumes inv: "shift_inv h es d p e" and a: "ekey (es ! p) = Some a"
    and lt: "\<not> cyc_dist (length es) (h a) d < cyc_dist (length es) (h a) p"
  shows "shift_inv h es d (cyc_next (length es) p) e"
proof -
  from inv have b: "d < length es" "p < length es" "e < length es" "d \<noteq> p"
    and le: "cyc_dist (length es) d p \<le> cyc_dist (length es) d e" and e: "ekey (es ! e) = None"
    by (auto simp: shift_inv_def)
  have pe: "p \<noteq> e" using a e by auto
  note adv = cyc_dist_advance [OF b(1-3) pe le]
  have "cyc_next (length es) p \<noteq> d" using adv(1) by auto
  moreover have "i = p \<or> cyc_dist (length es) d i < cyc_dist (length es) d p"
    if "i < length es" "cyc_dist (length es) d i < Suc (cyc_dist (length es) d p)" for i
    using that cyc_dist_inj [OF b(1) that(1) b(2)] by linarith
  ultimately show ?thesis
    using inv a lt adv b by (auto simp: shift_inv_def)
qed

text \<open>
  The loop ends, empties one slot, keeps every other binding and restores the shape.
\<close>

lemma delete_loop_spec:
  assumes "shift_inv (home hp shift) es d p e"
  shows "\<exists>es'. delete_loop hp (length es) shift es d p = Some es' \<and> length es' = length es \<and>
           probe_ok (home hp shift) {} es' \<and> bindings {} es' = bindings {d} es \<and>
           Suc (occupied es') = occupied es \<and> set es' \<subseteq> insert empty_entry (set es)"
  using assms
proof (induction "cyc_dist (length es) p e" arbitrary: es d p rule: less_induct)
  case less
  then have b: "d < length es" "p < length es" "e < length es" "d \<noteq> p" "ekey (es ! d) \<noteq> None"
    by (auto simp: shift_inv_def)
  show ?case
  proof (cases "ekey (es ! p)")
    case None
    then have "delete_loop hp (length es) shift es d p = Some (es[d := empty_entry])"
      using b by (subst delete_loop.simps) simp
    moreover have "Suc (occupied (es[d := empty_entry])) = occupied es"
      using occupied_update [OF b(1), of empty_entry] b(5) by (simp add: empty_entry_def)
    ultimately show ?thesis
      using shift_close [OF less.prems None] bindings_close [OF b(1)] set_update_subset_insert [of es d]
      by simp
  next
    case (Some a)
    have pe: "p \<noteq> e" using less.prems Some by (auto simp: shift_inv_def)
    have d: "cyc_dist (length es) (cyc_next (length es) p) e < cyc_dist (length es) p e"
      using cyc_dist_one(3) [OF b(2,3) pe] .
    let ?lt = "cyc_dist (length es) (home hp shift a) d < cyc_dist (length es) (home hp shift a) p"
    show ?thesis
    proof (cases ?lt)
      case True
      let ?es = "es[d := es ! p]"
      have step: "delete_loop hp (length es) shift es d p
          = delete_loop hp (length es) shift ?es p (cyc_next (length es) p)"
        using b Some True by (subst delete_loop.simps) simp
      have occ: "occupied ?es = occupied es"
        using occupied_update [OF b(1), of "es ! p"] b(5) Some by simp
      have sub: "set ?es \<subseteq> set es" using b by (intro set_update_subsetI) simp_all
      from less.hyps [of ?es "cyc_next (length es) p" p] d shift_move [OF less.prems Some True]
      obtain es' where "delete_loop hp (length es) shift ?es p (cyc_next (length es) p) = Some es'"
        "length es' = length es" "probe_ok (home hp shift) {} es'" "bindings {} es' = bindings {p} ?es"
        "Suc (occupied es') = occupied ?es" "set es' \<subseteq> insert empty_entry (set ?es)" by auto
      then show ?thesis using step occ sub bindings_move [OF b(1,2,4)] by auto
    next
      case False
      have step: "delete_loop hp (length es) shift es d p
          = delete_loop hp (length es) shift es d (cyc_next (length es) p)"
        using b Some False by (subst delete_loop.simps) simp
      from less.hyps [OF d shift_skip [OF less.prems Some False]] show ?thesis
        unfolding step by simp
    qed
  qed
qed

section \<open>The table invariant\<close>

lemma table_invD:
  assumes "table_inv hp t" and "tcapacity t \<noteq> 0"
  obtains k e where "3 \<le> k" "k \<le> 30" "tcapacity t = 2 ^ k" "tshift t = 32 - k"
    "length (tentries t) = 2 ^ k" "probe_ok (home hp (tshift t)) {} (tentries t)"
    "e < length (tentries t)" "ekey (tentries t ! e) = None"
    "\<And>a. home hp (tshift t) a < length (tentries t)"
proof -
  from assms obtain k where k: "3 \<le> k" "k \<le> 30" "tcapacity t = 2 ^ k" "tshift t = 32 - k"
    and l: "length (tentries t) = tcapacity t" "tcount t = occupied (tentries t)"
      "4 * tcount t \<le> 3 * tcapacity t"
    and ok: "probe_ok (home hp (tshift t)) {} (tentries t)"
    unfolding table_inv_def by blast
  have "tcapacity t > 0" using assms(2) by simp
  then have "occupied (tentries t) < length (tentries t)" using l by linarith
  then obtain e where "e < length (tentries t)" "ekey (tentries t ! e) = None"
    using occupied_less_empty by blast
  moreover have "home hp (tshift t) a < length (tentries t)" for a
    using indexFor_less [of k] k l by simp
  ultimately show ?thesis using that k l ok by auto
qed

lemma table_inv_empty [simp]: "table_inv hp (initTable t)"
  by (simp add: table_inv_def initTable_def occupied_def)

lemma table_map_empty [simp]: "table_map (initTable t) = Map.empty"
  by (simp add: table_map_def initTable_def)

lemma entry_pairs_Nil: "entry_pairs es = [] \<longleftrightarrow> occupied es = 0"
  by (induction es) (auto simp: occupied_def split: option.splits)

lemma table_map_count_0: "table_inv hp t \<Longrightarrow> tcount t = 0 \<Longrightarrow> table_map t = Map.empty"
  using entry_pairs_Nil [of "tentries t"] by (simp add: table_inv_def table_map_def)

text \<open>Where the search for a key ends, in terms of the map.\<close>

lemma findEntry_spec:
  assumes inv: "table_inv hp t" and cap: "tcapacity t \<noteq> 0"
  obtains p where "p < length (tentries t)"
    and "findEntry hp (tentries t) (tcapacity t) (tshift t) key = Some p"
    and "ekey (tentries t ! p) = None \<and> table_map t key = None \<or>
         ekey (tentries t ! p) = Some key \<and> table_map t key = Some (evalue (tentries t ! p))"
    and "\<And>j. \<lbrakk>j < length (tentries t);
            cyc_dist (length (tentries t)) (home hp (tshift t) key) j
              < cyc_dist (length (tentries t)) (home hp (tshift t) key) p\<rbrakk>
           \<Longrightarrow> ekey (tentries t ! j) \<noteq> None"
proof -
  let ?es = "tentries t"
  from table_invD [OF inv cap] obtain k e where k: "tcapacity t = 2 ^ k" "length ?es = 2 ^ k"
    and ok: "probe_ok (home hp (tshift t)) {} ?es" and e: "e < length ?es" "ekey (?es ! e) = None"
    and home: "home hp (tshift t) key < length ?es" by metis
  obtain p where p: "p < length ?es"
    "probe (\<lambda>a. a = key) ?es (2 ^ k) (home hp (tshift t) key) = Some p"
    and none: "ekey (?es ! p) = None \<longleftrightarrow> (\<nexists>q a. q < length ?es \<and> ekey (?es ! q) = Some a \<and> a = key)"
    and some: "\<And>a. ekey (?es ! p) = Some a \<Longrightarrow> a = key"
    and first: "\<And>j. \<lbrakk>j < length ?es; cyc_dist (length ?es) (home hp (tshift t) key) j
              < cyc_dist (length ?es) (home hp (tshift t) key) p\<rbrakk> \<Longrightarrow> ekey (?es ! j) \<noteq> None"
    by (rule probe_finds [OF ok k(2) e home, of "\<lambda>a. a = key"]) auto
  have m: "table_map t key = Some v \<longleftrightarrow> (key, v) \<in> bindings {} ?es" for v
    by (rule table_map_bindings [OF ok])
  have "table_map t key = None" if "ekey (?es ! p) = None"
  proof (rule ccontr)
    assume "table_map t key \<noteq> None"
    then obtain v where "(key, v) \<in> bindings {} ?es" using m by blast
    with that none show False by (auto simp: bindings_def)
  qed
  moreover have "table_map t key = Some (evalue (?es ! p))" if "ekey (?es ! p) \<noteq> None"
  proof -
    from that some have "ekey (?es ! p) = Some key" by auto
    with p(1) have "(key, evalue (?es ! p)) \<in> bindings {} ?es" by (auto simp: bindings_def)
    with m show ?thesis by simp
  qed
  ultimately have at: "ekey (?es ! p) = None \<and> table_map t key = None \<or>
      ekey (?es ! p) = Some key \<and> table_map t key = Some (evalue (?es ! p))"
    using some by (cases "ekey (?es ! p)") auto
  have "findEntry hp ?es (tcapacity t) (tshift t) key = Some p"
    using p(2) k by (simp add: findEntry_def)
  from p(1) this at first show ?thesis by (rule that)
qed

lemma tableGet_spec:
  assumes "table_inv hp t"
  shows "tableGet hp t key = Some (table_map t key)"
proof (cases "tcount t = 0")
  case True
  with assms show ?thesis by (simp add: tableGet_def table_map_count_0)
next
  case False
  with assms have "tcapacity t \<noteq> 0" by (auto simp: table_inv_def)
  then obtain p where "findEntry hp (tentries t) (tcapacity t) (tshift t) key = Some p"
    and "ekey (tentries t ! p) = None \<and> table_map t key = None \<or>
         ekey (tentries t ! p) = Some key \<and> table_map t key = Some (evalue (tentries t ! p))"
    using findEntry_spec [OF assms] by metis
  with False show ?thesis by (auto simp: tableGet_def)
qed

section \<open>Insertion and growth\<close>

lemma probe_ok_store:
  assumes ok: "probe_ok h {} es" and p: "p < length es"
    and at: "ekey (es ! p) = None \<and> (\<forall>i<length es. ekey (es ! i) \<noteq> Some key) \<or> ekey (es ! p) = Some key"
    and home: "h key < length es"
    and path: "\<And>j. \<lbrakk>j < length es; cyc_dist (length es) (h key) j < cyc_dist (length es) (h key) p\<rbrakk>
                 \<Longrightarrow> ekey (es ! j) \<noteq> None"
  shows "probe_ok h {} (es[p := \<lparr>ekey = Some key, evalue = v\<rparr>])"
proof (rule probe_okI; simp)
  let ?es = "es[p := \<lparr>ekey = Some key, evalue = v\<rparr>]"
  have other: "ekey (es ! i) \<noteq> Some key" if "i < length es" "i \<noteq> p" for i
    using at that probe_ok_unique [OF ok p _ _ that(1)] by auto
  fix i a
  assume i: "i < length es" and a: "ekey (?es ! i) = Some a"
  then have old: "i \<noteq> p \<Longrightarrow> ekey (es ! i) = Some a" by simp
  show "h a < length es" using home a probe_ok_home [OF ok i _ old] by (cases "i = p") (auto simp: p)
  fix j
  assume j: "j < length es"
  { assume "cyc_dist (length es) (h a) j < cyc_dist (length es) (h a) i"
    then have "j \<noteq> p \<Longrightarrow> ekey (es ! j) \<noteq> None"
      using path [OF j] a p probe_ok_path [OF ok i _ old j] by (cases "i = p") auto
    then show "\<exists>y. ekey (?es ! j) = Some y" using p by (cases "j = p") auto }
  { assume aj: "ekey (?es ! j) = Some a"
    show "j = i"
    proof (cases "j = p \<or> i = p")
      case True
      then show ?thesis using a aj p other i j by (auto simp: nth_list_update split: if_splits)
    next
      case False
      then show ?thesis using probe_ok_unique [OF ok i _ old j] aj by simp
    qed }
qed

lemma bindings_store:
  assumes p: "p < length es"
    and at: "ekey (es ! p) = None \<and> (\<forall>i<length es. ekey (es ! i) \<noteq> Some key) \<or> ekey (es ! p) = Some key"
    and ok: "probe_ok h {} es"
  shows "(a, w) \<in> bindings {} (es[p := \<lparr>ekey = Some key, evalue = v\<rparr>])
         \<longleftrightarrow> (if a = key then w = v else (a, w) \<in> bindings {} es)"
proof -
  let ?es = "es[p := \<lparr>ekey = Some key, evalue = v\<rparr>]"
  have other: "ekey (es ! i) \<noteq> Some key" if "i < length es" "i \<noteq> p" for i
    using at that probe_ok_unique [OF ok p _ _ that(1)] by auto
  show ?thesis
  proof (cases "a = key")
    case True
    have "w = v" if "(key, w) \<in> bindings {} ?es"
      using that other p by (auto simp: bindings_def nth_list_update split: if_splits)
    moreover have "(key, v) \<in> bindings {} ?es" using p by (auto simp: bindings_def intro!: exI [of _ p])
    ultimately show ?thesis using True by auto
  next
    case False
    have "?es ! i = es ! i \<or> i = p" for i by (cases "i = p") auto
    then have "i < length es \<and> ekey (?es ! i) = Some a \<and> evalue (?es ! i) = w
        \<longleftrightarrow> i < length es \<and> ekey (es ! i) = Some a \<and> evalue (es ! i) = w" for i
      using False at p by (cases "i = p") auto
    with False show ?thesis by (simp add: bindings_def)
  qed
qed

lemma store_entry_spec:
  assumes inv: "table_inv hp t" and cap: "tcapacity t \<noteq> 0"
    and find: "findEntry hp (tentries t) (tcapacity t) (tshift t) key = Some p"
    and room: "table_map t key = None \<Longrightarrow> \<not> needs_growth t"
  shows "table_inv hp (store_entry t p key v)"
    and "table_map (store_entry t p key v) = (table_map t)(key \<mapsto> v)"
    and "ekey (tentries t ! p) = None \<longleftrightarrow> table_map t key = None"
    and "tcount (store_entry t p key v) = (if table_map t key = None then tcount t + 1 else tcount t)"
proof -
  let ?es = "tentries t" and ?e = "\<lparr>ekey = Some key, evalue = v\<rparr>"
  let ?es' = "?es[p := ?e]" and ?h = "home hp (tshift t)"
  from findEntry_spec [OF inv cap, of key] find have p: "p < length ?es"
    and at: "ekey (?es ! p) = None \<and> table_map t key = None \<or>
         ekey (?es ! p) = Some key \<and> table_map t key = Some (evalue (?es ! p))"
    and first: "\<And>j. \<lbrakk>j < length ?es; cyc_dist (length ?es) (?h key) j < cyc_dist (length ?es) (?h key) p\<rbrakk>
           \<Longrightarrow> ekey (?es ! j) \<noteq> None"
    by auto
  from table_invD [OF inv cap] have ok: "probe_ok ?h {} ?es" and home: "?h key < length ?es" by metis+
  have "ekey (?es ! i) \<noteq> Some key" if "table_map t key = None" "i < length ?es" for i
    using that table_map_bindings [OF ok, of key] by (auto simp: bindings_def)
  with at have at': "ekey (?es ! p) = None \<and> (\<forall>i<length ?es. ekey (?es ! i) \<noteq> Some key) \<or> ekey (?es ! p) = Some key"
    by auto
  note ok' = probe_ok_store [OF ok p at' home first, of v]
  show none: "ekey (?es ! p) = None \<longleftrightarrow> table_map t key = None" using at by auto
  have nil: "ekey (?es ! p) = None \<Longrightarrow> evalue (?es ! p) = VNil"
    using inv p by (auto simp: table_inv_def)
  then show count: "tcount (store_entry t p key v) = (if table_map t key = None then tcount t + 1 else tcount t)"
    using none by (auto simp: store_entry_def Let_def)
  have occ: "occupied ?es' = (if table_map t key = None then tcount t + 1 else tcount t)"
    using occupied_update [OF p, of ?e] none inv by (auto simp: table_inv_def split: if_splits)
  have "set ?es' \<subseteq> insert ?e (set ?es)" by (rule set_update_subset_insert)
  then have nils: "\<forall>e\<in>set ?es'. ekey e = None \<longrightarrow> evalue e = VNil" using inv by (auto simp: table_inv_def)
  have load: "4 * occupied ?es' \<le> 3 * tcapacity t"
    unfolding occ using room inv by (auto simp: table_inv_def needs_growth_def)
  have fields: "tentries (store_entry t p key v) = ?es'" "tcapacity (store_entry t p key v) = tcapacity t"
    "tshift (store_entry t p key v) = tshift t" by (simp_all add: store_entry_def Let_def)
  show "table_inv hp (store_entry t p key v)"
    using inv cap ok' nils load occ count unfolding table_inv_def fields by auto
  show "table_map (store_entry t p key v) = (table_map t)(key \<mapsto> v)"
  proof
    fix a
    have "table_map (store_entry t p key v) a = Some w \<longleftrightarrow> ((table_map t)(key \<mapsto> v)) a = Some w" for w
      using table_map_bindings [of ?h "store_entry t p key v" a w] table_map_bindings [OF ok, of a w]
        bindings_store [OF p at' ok, of a w v] ok' by (auto simp: fields)
    then show "table_map (store_entry t p key v) a = ((table_map t)(key \<mapsto> v)) a"
      by (metis not_Some_eq)
  qed
qed

lemma table_inv_fresh:
  assumes "3 \<le> k" and "k \<le> 30"
  defines "t \<equiv> \<lparr>tcount = 0, tcapacity = 2 ^ k, tshift = 32 - k, tentries = replicate (2 ^ k) empty_entry\<rparr>"
  shows "table_inv hp t" and "table_map t = Map.empty"
proof -
  have "probe_ok h {} (replicate n empty_entry)" for h n
    by (simp add: probe_ok_def empty_entry_def)
  moreover have z: "occupied (replicate n empty_entry) = 0" for n
    by (simp add: occupied_0 empty_entry_def)
  ultimately show "table_inv hp t"
    using assms(1,2) by (auto simp: table_inv_def t_def empty_entry_def)
  show "table_map t = Map.empty"
    using z [of "2 ^ k"] by (simp add: table_map_def t_def entry_pairs_Nil [symmetric])
qed

lemma occupied_Cons [simp]:
  "occupied (e # es) = (if ekey e = None then occupied es else Suc (occupied es))"
  by (simp add: occupied_def)

lemma occupied_Nil [simp]: "occupied [] = 0"
  by (simp add: occupied_def)

text \<open>Reinserting entries with fresh keys adds their bindings one by one.\<close>

lemma reinsert_spec:
  assumes "table_inv hp t" and "tcapacity t \<noteq> 0"
    and "distinct (map fst (entry_pairs old))" and "fst ` set (entry_pairs old) \<inter> dom (table_map t) = {}"
    and "4 * (tcount t + occupied old) \<le> 3 * tcapacity t"
  shows "\<exists>new. reinsert hp (tcapacity t) (tshift t) old (tentries t, tcount t)
             = Some (new, tcount t + occupied old) \<and>
           table_inv hp (t\<lparr>tcount := tcount t + occupied old, tentries := new\<rparr>) \<and>
           table_map (t\<lparr>tcount := tcount t + occupied old, tentries := new\<rparr>)
             = table_map t ++ map_of (entry_pairs old)"
  using assms
proof (induction old arbitrary: t)
  case Nil
  then show ?case by simp
next
  case (Cons e old)
  show ?case
  proof (cases "ekey e")
    case None
    with Cons show ?thesis by simp
  next
    case (Some k)
    obtain p where find: "findEntry hp (tentries t) (tcapacity t) (tshift t) k = Some p"
      using findEntry_spec [OF Cons.prems(1,2)] by metis
    let ?t = "store_entry t p k (evalue e)"
    have new: "table_map t k = None" using Cons.prems(4) Some by auto
    have room: "\<not> needs_growth t" using Cons.prems(5) Some by (simp add: needs_growth_def)
    note st = store_entry_spec(1,2,4) [OF Cons.prems(1,2) find room, of "evalue e"]
    have fields: "tentries ?t = (tentries t)[p := \<lparr>ekey = Some k, evalue = evalue e\<rparr>]"
      "tcapacity ?t = tcapacity t" "tshift ?t = tshift t" "tcount ?t = tcount t + 1"
      using st(3) new by (simp_all add: store_entry_def Let_def)
    have upd: "?t\<lparr>tcount := n, tentries := es\<rparr> = t\<lparr>tcount := n, tentries := es\<rparr>" for n es
      by (simp add: store_entry_def Let_def)
    have "fst ` set (entry_pairs old) \<inter> dom (table_map ?t) = {}"
      using Cons.prems(3,4) Some by (auto simp: st(2))
    moreover have "distinct (map fst (entry_pairs old))" using Cons.prems(3) Some by simp
    ultimately obtain new where "reinsert hp (tcapacity t) (tshift t) old (tentries ?t, tcount t + 1)
        = Some (new, tcount t + 1 + occupied old)"
      "table_inv hp (t\<lparr>tcount := tcount t + 1 + occupied old, tentries := new\<rparr>)"
      "table_map (t\<lparr>tcount := tcount t + 1 + occupied old, tentries := new\<rparr>)
        = table_map ?t ++ map_of (entry_pairs old)"
      using Cons.IH [of ?t] st(1) Cons.prems Some unfolding upd fields(2-4) by auto
    moreover have eq: "table_map t ++ map_of (entry_pairs (e # old)) = table_map ?t ++ map_of (entry_pairs old)"
    proof -
      have "map_of (entry_pairs old) k = None" using Cons.prems(3) Some by (simp add: map_of_eq_None_iff)
      with Some show ?thesis by (intro ext) (simp add: st(2) map_add_def split: option.splits)
    qed
    ultimately show ?thesis
      using Some find unfolding eq by (simp add: fields)
  qed
qed

lemma distinct_entry_pairs:
  assumes "\<And>i j a. \<lbrakk>i < length es; j < length es; ekey (es ! i) = Some a; ekey (es ! j) = Some a\<rbrakk> \<Longrightarrow> i = j"
  shows "distinct (map fst (entry_pairs es))"
  using assms
proof (induction es)
  case Nil
  then show ?case by simp
next
  case (Cons e es)
  have "distinct (map fst (entry_pairs es))"
    by (rule Cons.IH) (use Cons.prems [of "Suc i" "Suc j" for i j] in auto)
  moreover have "k \<notin> fst ` set (entry_pairs es)" if "ekey e = Some k" for k
    using Cons.prems [of 0 "Suc j" k for j] that by (auto simp: set_entry_pairs bindings_def)
  ultimately show ?case by (auto split: option.splits)
qed

lemma adjustCapacity_spec:
  assumes inv: "table_inv hp t" and k: "3 \<le> k" "k \<le> 30" and room: "4 * tcount t \<le> 3 * 2 ^ k"
    and alloc: "alloc (2 ^ k)"
  obtains t' where "adjustCapacity alloc hp t (2 ^ k) = Some (True, t')" and "table_inv hp t'"
    and "table_map t' = table_map t" and "tcapacity t' = 2 ^ k" and "tcount t' = tcount t"
proof -
  define n where "n = \<lparr>tcount = 0, tcapacity = 2 ^ k, tshift = 32 - k, tentries = replicate (2 ^ k) empty_entry\<rparr>"
  have n: "table_inv hp n" "table_map n = Map.empty" using table_inv_fresh [OF k] by (simp_all add: n_def)
  have fields: "tcapacity n = 2 ^ k" "tshift n = 32 - k" "tentries n = replicate (2 ^ k) empty_entry"
    "tcount n = 0" by (simp_all add: n_def)
  have dist: "distinct (map fst (entry_pairs (tentries t)))"
  proof (cases "tcapacity t = 0")
    case True
    with inv show ?thesis by (simp add: table_inv_def)
  next
    case False
    from table_invD [OF inv False] have ok: "probe_ok (home hp (tshift t)) {} (tentries t)" by metis
    show ?thesis by (rule distinct_entry_pairs) (rule probe_ok_unique [OF ok]; simp)
  qed
  have occ: "occupied (tentries t) = tcount t" using inv by (simp add: table_inv_def)
  have "tcapacity n \<noteq> 0" "fst ` set (entry_pairs (tentries t)) \<inter> dom (table_map n) = {}"
    "4 * (tcount n + occupied (tentries t)) \<le> 3 * tcapacity n"
    using room by (simp_all add: n(2) fields occ)
  from reinsert_spec [OF n(1) this(1) dist this(2,3)] obtain new where
    new: "reinsert hp (2 ^ k) (32 - k) (tentries t) (replicate (2 ^ k) empty_entry, 0) = Some (new, tcount t)"
    and inv': "table_inv hp (n\<lparr>tcount := tcount t, tentries := new\<rparr>)"
    and map': "table_map (n\<lparr>tcount := tcount t, tentries := new\<rparr>) = table_map t"
    unfolding fields occ n(2) by (auto simp: table_map_def [of t])
  have "adjustCapacity alloc hp t (2 ^ k) = Some (True, n\<lparr>tcount := tcount t, tentries := new\<rparr>)"
    using alloc new by (simp add: adjustCapacity_def Let_def n_def)
  from this inv' map' show ?thesis by (rule that) (simp_all add: fields)
qed

lemma grow_capacity_pow2:
  assumes "table_inv hp t" and "tcapacity t < 2 ^ 30"
  obtains k where "3 \<le> k" "k \<le> 30" "grow_capacity (tcapacity t) = 2 ^ k"
    "4 * tcount t \<le> 3 * 2 ^ k" "4 * (tcount t + 1) \<le> 3 * 2 ^ k"
proof (cases "tcapacity t = 0")
  case True
  with assms show ?thesis by (intro that [of 3]) (auto simp: grow_capacity_def table_inv_def)
next
  case False
  from table_invD [OF assms(1) False] obtain k where k: "3 \<le> k" "tcapacity t = 2 ^ k" by metis
  have "(2::nat) ^ 3 \<le> 2 ^ k" using k by (intro power_increasing) auto
  moreover have "k < 30" by (rule power_less_imp_less_exp [OF _ assms(2) [unfolded k(2)]]) simp
  ultimately show ?thesis
    using k assms(1) by (intro that [of "Suc k"]) (auto simp: grow_capacity_def table_inv_def)
qed

text \<open>
  Either no growth is due or the allocator provides the doubled array; the capacity is a C
  \<open>int\<close>, so doubling is only defined below \<open>2 ^ 30\<close>.
\<close>

definition memory_for :: "(nat \<Rightarrow> bool) \<Rightarrow> table \<Rightarrow> bool" where
  "memory_for alloc t \<longleftrightarrow>
     \<not> needs_growth t \<or> alloc (grow_capacity (tcapacity t)) \<and> tcapacity t < 2 ^ 30"

lemma ensure_room:
  assumes inv: "table_inv hp t" and alloc: "memory_for alloc t"
  obtains t1 where "(if needs_growth t then adjustCapacity alloc hp t (grow_capacity (tcapacity t))
                     else Some (True, t)) = Some (True, t1)"
    and "table_inv hp t1" "table_map t1 = table_map t" "\<not> needs_growth t1" "tcapacity t1 \<noteq> 0"
    "tcapacity t1 = (if needs_growth t then grow_capacity (tcapacity t) else tcapacity t)"
proof (cases "needs_growth t")
  case False
  with inv that [of t] show ?thesis by (auto simp: needs_growth_def)
next
  case True
  obtain k where k: "3 \<le> k" "k \<le> 30" "grow_capacity (tcapacity t) = 2 ^ k"
    "4 * tcount t \<le> 3 * 2 ^ k" "4 * (tcount t + 1) \<le> 3 * 2 ^ k"
    using grow_capacity_pow2 [OF inv] alloc True unfolding memory_for_def by blast
  have "alloc (2 ^ k)" using alloc True k by (simp add: memory_for_def)
  then obtain t1 where "adjustCapacity alloc hp t (2 ^ k) = Some (True, t1)" "table_inv hp t1"
    "table_map t1 = table_map t" "tcapacity t1 = 2 ^ k" "tcount t1 = tcount t"
    by (rule adjustCapacity_spec [OF inv k(1,2,4)])
  with True k show ?thesis by (intro that [of t1]) (auto simp: needs_growth_def)
qed

lemma tableSet_spec:
  assumes inv: "table_inv hp t" and alloc: "memory_for alloc t"
  obtains t' where "tableSet alloc hp t key v = Some (SetDone (table_map t key = None) t')"
    and "table_inv hp t'" and "table_map t' = (table_map t)(key \<mapsto> v)"
    and "tcapacity t' = (if needs_growth t then grow_capacity (tcapacity t) else tcapacity t)"
proof -
  obtain t1 where t1: "(if needs_growth t then adjustCapacity alloc hp t (grow_capacity (tcapacity t))
      else Some (True, t)) = Some (True, t1)" "table_inv hp t1" "table_map t1 = table_map t"
    "\<not> needs_growth t1" "tcapacity t1 \<noteq> 0"
    "tcapacity t1 = (if needs_growth t then grow_capacity (tcapacity t) else tcapacity t)"
    by (rule ensure_room [OF inv alloc])
  obtain p where p: "findEntry hp (tentries t1) (tcapacity t1) (tshift t1) key = Some p"
    using findEntry_spec [OF t1(2,5)] by metis
  have set: "tableSet alloc hp t key v = Some (SetDone (table_map t key = None) (store_entry t1 p key v))"
    using p store_entry_spec(3) [OF t1(2,5) p] t1(3,4) unfolding tableSet_def t1(1) by simp
  have "tcapacity (store_entry t1 p key v) = tcapacity t1" by (simp add: store_entry_def Let_def)
  then show ?thesis
    using that [OF set] store_entry_spec(1,2) [OF t1(2,5) p, of v] t1(3,4,6) by simp
qed

lemma tableSet_oom:
  "\<lbrakk>needs_growth t; \<not> alloc (grow_capacity (tcapacity t))\<rbrakk> \<Longrightarrow> tableSet alloc hp t key v = Some (SetRaised t)"
  by (simp add: tableSet_def adjustCapacity_def)

lemma tableSetIfMissing_spec:
  assumes inv: "table_inv hp t" and alloc: "memory_for alloc t"
  obtains t' where "tableSetIfMissing alloc hp t key v
      = Some (case table_map t key of None \<Rightarrow> v | Some w \<Rightarrow> w, t')"
    and "table_inv hp t'"
    and "table_map t' = (table_map t)(key \<mapsto> case table_map t key of None \<Rightarrow> v | Some w \<Rightarrow> w)"
proof -
  obtain t1 where t1: "(if needs_growth t then adjustCapacity alloc hp t (grow_capacity (tcapacity t))
      else Some (True, t)) = Some (True, t1)" "table_inv hp t1" "table_map t1 = table_map t"
    "\<not> needs_growth t1" "tcapacity t1 \<noteq> 0"
    by (rule ensure_room [OF inv alloc])
  obtain p where p: "p < length (tentries t1)"
      "findEntry hp (tentries t1) (tcapacity t1) (tshift t1) key = Some p"
    and at: "ekey (tentries t1 ! p) = None \<and> table_map t1 key = None \<or>
      ekey (tentries t1 ! p) = Some key \<and> table_map t1 key = Some (evalue (tentries t1 ! p))"
    using findEntry_spec [OF t1(2,5)] by metis
  note st = store_entry_spec(1,2) [OF t1(2,5) p(2), of v]
  have nil: "ekey (tentries t1 ! p) = None \<Longrightarrow> evalue (tentries t1 ! p) = VNil"
    using t1(2) p(1) by (auto simp: table_inv_def)
  show ?thesis
  proof (cases "table_map t key")
    case None
    with at nil t1(3) st t1(4) show ?thesis
      by (intro that [of "store_entry t1 p key v"])
        (auto simp: tableSetIfMissing_def t1(1) p(2) Let_def)
  next
    case (Some w)
    with at t1 p(2) show ?thesis
      by (intro that [of t1]) (auto simp: tableSetIfMissing_def t1(1) p(2) Let_def)
  qed
qed

lemma tableDelete_spec:
  assumes inv: "table_inv hp t" and cap: "tcapacity t \<noteq> 0"
  obtains t' where "tableDelete hp t key = Some (table_map t key \<noteq> None, t')"
    and "table_inv hp t'" and "table_map t' = (table_map t)(key := None)"
    and "tcapacity t' = tcapacity t" "tshift t' = tshift t"
proof -
  let ?es = "tentries t" and ?h = "home hp (tshift t)"
  from table_invD [OF inv cap] obtain k e where ok: "probe_ok ?h {} ?es"
    and e: "e < length ?es" "ekey (?es ! e) = None" and len: "length ?es = tcapacity t" by metis
  obtain p where p: "p < length ?es" "findEntry hp ?es (tcapacity t) (tshift t) key = Some p"
    and at: "ekey (?es ! p) = None \<and> table_map t key = None \<or>
      ekey (?es ! p) = Some key \<and> table_map t key = Some (evalue (?es ! p))"
    using findEntry_spec [OF inv cap] by metis
  have idx: "findEntryIndex hp ?es (tcapacity t) (tshift t) key
      = Some (if ekey (?es ! p) = None then -1 else int p)"
    using p(2) by (simp add: findEntry_def findEntryIndex_def)
  show ?thesis
  proof (cases "ekey (?es ! p)")
    case None
    with at inv idx show ?thesis by (intro that [of t]) (auto simp: tableDelete_def)
  next
    case (Some a)
    with at have key: "ekey (?es ! p) = Some key" "table_map t key \<noteq> None" by auto
    have pe: "p \<noteq> e" using e key by auto
    have "probe_ok ?h {p} ?es" using ok unfolding probe_ok_def by blast
    moreover have "i = p" if "i < length ?es" "cyc_dist (length ?es) p i < 1" for i
      using that p by auto
    ultimately have "shift_inv ?h ?es p (cyc_next (length ?es) p) e"
      using p e key cyc_dist_one [OF p(1) e(1) pe] by (auto simp: shift_inv_def)
    from delete_loop_spec [OF this] obtain es' where
      del: "delete_loop hp (length ?es) (tshift t) ?es p (cyc_next (length ?es) p) = Some es'"
      and es': "length es' = length ?es" "probe_ok ?h {} es'" "bindings {} es' = bindings {p} ?es"
        "Suc (occupied es') = occupied ?es" "set es' \<subseteq> insert empty_entry (set ?es)" by auto
    let ?t = "t\<lparr>tentries := es', tcount := tcount t - 1\<rparr>"
    have "tableDelete hp t key = Some (True, ?t)"
      using idx key del len by (simp add: tableDelete_def)
    moreover have "\<forall>e\<in>set es'. ekey e = None \<longrightarrow> evalue e = VNil"
      using inv es'(5) by (auto simp: table_inv_def empty_entry_def)
    then have "table_inv hp ?t"
      using inv cap es' unfolding table_inv_def by auto
    moreover have "table_map ?t = (table_map t)(key := None)"
    proof
      fix a
      have "(a, v) \<in> bindings {p} ?es \<longleftrightarrow> a \<noteq> key \<and> (a, v) \<in> bindings {} ?es" for v
        unfolding bindings_def using key(1) probe_ok_unique [OF ok p(1) _ key(1)] by fastforce
      then have "table_map ?t a = Some v \<longleftrightarrow> a \<noteq> key \<and> table_map t a = Some v" for v
        using table_map_bindings [of ?h ?t a v] table_map_bindings [OF ok, of a v] es' by simp
      then show "table_map ?t a = ((table_map t)(key := None)) a" by (auto intro: option.expand)
        (metis not_Some_eq)+
    qed
    ultimately show ?thesis using key that [of ?t] by auto
  qed
qed

section \<open>Tables as fallible maps\<close>

text \<open>An allocator that never hands out an array too large for a C \<open>int\<close> capacity.\<close>

definition bounded_alloc :: "(nat \<Rightarrow> bool) \<Rightarrow> bool" where
  "bounded_alloc alloc \<longleftrightarrow> (\<forall>n. alloc n \<longrightarrow> n \<le> 2 ^ 30)"

lemma memory_or_oom:
  assumes "table_inv hp t" and "bounded_alloc alloc"
  shows "memory_for alloc t \<or> needs_growth t \<and> \<not> alloc (grow_capacity (tcapacity t))"
proof (cases "alloc (grow_capacity (tcapacity t))")
  case True
  then have "grow_capacity (tcapacity t) \<le> 2 ^ 30" using assms(2) by (simp add: bounded_alloc_def)
  then have "tcapacity t < 2 ^ 30" by (auto simp: grow_capacity_def split: if_splits)
  with True show ?thesis by (auto simp: memory_for_def)
next
  case False
  then show ?thesis by (auto simp: memory_for_def)
qed

fun set_outcome :: "set_result \<Rightarrow> bool \<times> table" where
  "set_outcome (SetDone _ t) = (False, t)"
| "set_outcome (SetRaised t) = (True, t)"

definition put_table :: "(nat \<Rightarrow> bool) \<Rightarrow> str_heap \<Rightarrow> table \<Rightarrow> addr \<Rightarrow> val \<Rightarrow> (bool \<times> table) option" where
  "put_table alloc hp t k v = map_option set_outcome (tableSet alloc hp t k v)"

definition managed_table :: "(nat \<Rightarrow> bool) \<Rightarrow> str_heap \<Rightarrow> table \<Rightarrow> bool" where
  "managed_table alloc hp t \<longleftrightarrow> table_inv hp t \<and> bounded_alloc alloc"

lemma put_table_cases:
  assumes "managed_table alloc hp t"
  obtains t' where "put_table alloc hp t k v = Some (False, t')" "managed_table alloc hp t'"
      "table_map t' = (table_map t)(k \<mapsto> v)"
  | "put_table alloc hp t k v = Some (True, t)"
proof -
  from assms have inv: "table_inv hp t" and b: "bounded_alloc alloc" by (auto simp: managed_table_def)
  from memory_or_oom [OF this] show ?thesis
  proof
    assume "memory_for alloc t"
    then obtain t' where "tableSet alloc hp t k v = Some (SetDone (table_map t k = None) t')"
      "table_inv hp t'" "table_map t' = (table_map t)(k \<mapsto> v)"
      by (rule tableSet_spec [OF inv])
    with that(1) [of t'] b show ?thesis by (simp add: put_table_def managed_table_def)
  next
    assume "needs_growth t \<and> \<not> alloc (grow_capacity (tcapacity t))"
    with that(2) show ?thesis by (simp add: put_table_def tableSet_oom)
  qed
qed

interpretation tbl: fallible_map "managed_table alloc hp" table_map "tableGet hp" "put_table alloc hp" "\<lambda>_. True"
  for alloc hp
proof unfold_locales
  fix t k v r t'
  assume t: "managed_table alloc hp t"
  then show "tableGet hp t k = Some (table_map t k)" by (simp add: managed_table_def tableGet_spec)
  show "\<exists>r t'. put_table alloc hp t k v = Some (r, t')"
    using put_table_cases [OF t, of k v] by metis
  show "managed_table alloc hp t'" if "put_table alloc hp t k v = Some (r, t')"
    using put_table_cases [OF t, of k v] that t by (metis Pair_inject option.inject)
  show "table_map t' = (table_map t)(k \<mapsto> v)" if "put_table alloc hp t k v = Some (False, t')"
    using put_table_cases [OF t, of k v] that by (metis Pair_inject option.inject)
  show "table_map t' = table_map t" if "put_table alloc hp t k v = Some (True, t')"
    using put_table_cases [OF t, of k v] that by (metis Pair_inject option.inject)
qed

lemma addAll_from_put_all:
  "addAll_from alloc hp es to = put_all (put_table alloc hp) (entry_pairs es) to"
proof (induction es arbitrary: to)
  case Nil
  then show ?case by simp
next
  case (Cons e es)
  show ?case
  proof (cases "ekey e")
    case None
    with Cons show ?thesis by simp
  next
    case (Some k)
    then show ?thesis
      using Cons by (cases "tableSet alloc hp to k (evalue e)")
        (auto simp: put_table_def split: set_result.splits)
  qed
qed

lemma table_inv_distinct:
  assumes "table_inv hp t"
  shows "distinct (map fst (entry_pairs (tentries t)))"
proof (cases "tcapacity t = 0")
  case True
  with assms show ?thesis by (simp add: table_inv_def)
next
  case False
  from table_invD [OF assms False] have ok: "probe_ok (home hp (tshift t)) {} (tentries t)" by metis
  show ?thesis by (rule distinct_entry_pairs) (rule probe_ok_unique [OF ok]; simp)
qed

lemma tableAddAll_spec:
  assumes src: "table_inv hp frm" and dst: "managed_table alloc hp to"
  obtains raised to' where "tableAddAll alloc hp frm to = Some (raised, to')" and "table_inv hp to'"
    and "\<not> raised \<Longrightarrow> table_map to' = table_map to ++ table_map frm"
proof -
  obtain r to' n where all: "put_all (put_table alloc hp) (entry_pairs (tentries frm)) to = Some (r, to')"
    "managed_table alloc hp to'"
    "table_map to' = fold upd_pair (take n (entry_pairs (tentries frm))) (table_map to)"
    "\<not> r \<longrightarrow> n = length (entry_pairs (tentries frm))"
    using tbl.put_all_spec [OF dst] by blast
  then show ?thesis
    using table_inv_distinct [OF src] that [of r to']
    by (auto simp: tableAddAll_def addAll_from_put_all managed_table_def fold_upd_distinct table_map_def [of frm])
qed

section \<open>Search by content, removal of unmarked strings\<close>

lemma content_search_spec:
  assumes inv: "table_inv hp t" and cap: "tcapacity t \<noteq> 0"
  obtains p where "p < length (tentries t)"
    and "probe (same_string hp chars hash) (tentries t) (tcapacity t) (indexFor hash (tshift t)) = Some p"
    and "ekey (tentries t ! p) = None \<Longrightarrow> \<forall>a\<in>dom (table_map t). \<not> same_string hp chars hash a"
    and "\<And>a. ekey (tentries t ! p) = Some a \<Longrightarrow>
           same_string hp chars hash a \<and> table_map t a = Some (evalue (tentries t ! p))"
proof -
  let ?es = "tentries t" and ?M = "same_string hp chars hash"
  from table_invD [OF inv cap] obtain k e where k: "tcapacity t = 2 ^ k" "length ?es = 2 ^ k"
    and ok: "probe_ok (home hp (tshift t)) {} ?es" and e: "e < length ?es" "ekey (?es ! e) = None"
    and kk: "k \<le> 30" "tshift t = 32 - k" by metis
  have start: "indexFor hash (tshift t) < length ?es" using indexFor_less [of k hash] k kk by simp
  obtain p where p: "p < length ?es" "probe ?M ?es (2 ^ k) (indexFor hash (tshift t)) = Some p"
    and none: "ekey (?es ! p) = None \<longleftrightarrow> (\<nexists>q a. q < length ?es \<and> ekey (?es ! q) = Some a \<and> ?M a)"
    and some: "\<And>a. ekey (?es ! p) = Some a \<Longrightarrow> ?M a"
    by (rule probe_finds [OF ok k(2) e start, of ?M]) (auto simp: same_string_def)
  have map: "table_map t a = Some v \<longleftrightarrow> (a, v) \<in> bindings {} ?es" for a v
    by (rule table_map_bindings [OF ok])
  show ?thesis
  proof (rule that [OF p(1)])
    show "probe ?M ?es (tcapacity t) (indexFor hash (tshift t)) = Some p" using p k by simp
    show "\<forall>a\<in>dom (table_map t). \<not> ?M a" if "ekey (?es ! p) = None"
      using that none map unfolding dom_def bindings_def by blast
    show "?M a \<and> table_map t a = Some (evalue (?es ! p))" if "ekey (?es ! p) = Some a" for a
      using that some map p(1) by (auto simp: bindings_def)
  qed
qed

lemma tableFindString_spec:
  assumes inv: "table_inv hp t"
  obtains r where "tableFindString hp t chars hash = Some r"
    and "\<And>a. r = Some a \<Longrightarrow> a \<in> dom (table_map t) \<and> same_string hp chars hash a"
    and "r = None \<Longrightarrow> \<forall>a\<in>dom (table_map t). \<not> same_string hp chars hash a"
proof (cases "tcount t = 0")
  case True
  with inv show ?thesis by (intro that [of None]) (auto simp: tableFindString_def table_map_count_0)
next
  case False
  with inv have "tcapacity t \<noteq> 0" by (auto simp: table_inv_def)
  from content_search_spec [OF inv this, of chars hash] obtain p where
    "probe (same_string hp chars hash) (tentries t) (tcapacity t) (indexFor hash (tshift t)) = Some p"
    "ekey (tentries t ! p) = None \<Longrightarrow> \<forall>a\<in>dom (table_map t). \<not> same_string hp chars hash a"
    "\<And>a. ekey (tentries t ! p) = Some a \<Longrightarrow>
           same_string hp chars hash a \<and> table_map t a = Some (evalue (tentries t ! p))" by metis
  then show ?thesis
    using False by (intro that [of "ekey (tentries t ! p)"]) (auto simp: tableFindString_def)
qed

lemma removeWhite_slots_spec:
  assumes "table_inv hp t" and "set is \<subseteq> {..<tcapacity t}"
  shows "\<exists>t'. removeWhite_slots hp is t = Some t' \<and> table_inv hp t' \<and>
           (\<forall>a. os_markers (hp a) \<noteq> 0 \<longrightarrow> table_map t' a = table_map t a) \<and>
           table_map t' \<subseteq>\<^sub>m table_map t"
  using assms
proof (induction "is" arbitrary: t)
  case Nil
  then show ?case by simp
next
  case (Cons i "is")
  show ?case
  proof (cases "\<exists>k. ekey (tentries t ! i) = Some k \<and> os_markers (hp k) = 0")
    case False
    with Cons show ?thesis by (auto split: option.splits)
  next
    case True
    then obtain k where k: "ekey (tentries t ! i) = Some k" "os_markers (hp k) = 0" by blast
    have "tcapacity t \<noteq> 0" using Cons.prems(2) by auto
    from tableDelete_spec [OF Cons.prems(1) this, of k] obtain b t1 where
      del: "tableDelete hp t k = Some (b, t1)" and t1: "table_inv hp t1"
        "table_map t1 = (table_map t)(k := None)" "tcapacity t1 = tcapacity t" by metis
    from Cons.IH [OF t1(1)] Cons.prems(2) t1(3) obtain t2 where
      "removeWhite_slots hp is t1 = Some t2" "table_inv hp t2"
      "\<forall>a. os_markers (hp a) \<noteq> 0 \<longrightarrow> table_map t2 a = table_map t1 a" "table_map t2 \<subseteq>\<^sub>m table_map t1"
      by auto
    moreover have "table_map t1 \<subseteq>\<^sub>m table_map t" by (simp add: t1(2) map_le_def)
    ultimately show ?thesis
      using k del t1(2) by (auto intro: map_le_trans)
  qed
qed


section \<open>Properties\<close>

text \<open>
  A small heap of strings and a table with the two keys 1 and 2, whose hashes collide, for the
  instances below.
\<close>

definition sample_heap :: str_heap where
  "sample_heap a = \<lparr>os_chars = [word_of_nat a], os_hash = 0, os_markers = (if a = 3 then 0 else 1)\<rparr>"

definition sample_alloc :: "nat \<Rightarrow> bool" where
  "sample_alloc n \<longleftrightarrow> n \<le> 1024"

definition blank_table :: table where
  "blank_table = initTable \<lparr>tcount = 5, tcapacity = 7, tshift = 0, tentries = []\<rparr>"

definition sample_table :: table where
  "sample_table = \<lparr>tcount = 2, tcapacity = 8, tshift = 29,
     tentries = [\<lparr>ekey = Some 1, evalue = VBool True\<rparr>, \<lparr>ekey = Some 2, evalue = VNil\<rparr>]
       @ replicate 6 empty_entry\<rparr>"

definition white_heap :: str_heap where
  "white_heap a = \<lparr>os_chars = [word_of_nat a], os_hash = 0, os_markers = 0\<rparr>"

lemma sample_alloc_bounded [simp]: "bounded_alloc sample_alloc"
  by (simp add: bounded_alloc_def sample_alloc_def)

lemma blank_table_inv [simp]: "table_inv hp blank_table"
  by (simp add: blank_table_def)

lemma sample_table_built:
  "tableSet sample_alloc sample_heap blank_table 1 (VBool True) \<bind>
     (\<lambda>r. tableSet sample_alloc sample_heap (snd (set_outcome r)) 2 VNil)
   = Some (SetDone True sample_table)"
  by code_simp

lemma sample_table_inv [simp]: "table_inv sample_heap sample_table"
proof -
  have mem: "memory_for sample_alloc t" if "tcapacity t \<le> 8" for t
    using that by (auto simp: memory_for_def sample_alloc_def grow_capacity_def)
  have b: "tcapacity blank_table = 0" by (simp add: blank_table_def initTable_def)
  obtain t1 where t1: "tableSet sample_alloc sample_heap blank_table 1 (VBool True)
      = Some (SetDone (table_map blank_table 1 = None) t1)" "table_inv sample_heap t1" "tcapacity t1 \<le> 8"
    by (rule tableSet_spec [OF blank_table_inv [of sample_heap] mem, of 1 "VBool True"])
      (auto simp: b grow_capacity_def split: if_splits)
  obtain t2 where t2: "tableSet sample_alloc sample_heap t1 2 VNil
      = Some (SetDone (table_map t1 2 = None) t2)" "table_inv sample_heap t2"
    by (rule tableSet_spec [OF t1(2) mem [OF t1(3)], of 2 VNil]) auto
  have "t2 = sample_table" using sample_table_built unfolding t1(1) by (simp add: t2(1))
  with t2(2) show ?thesis by simp
qed

text \<open>
  C4: \<open>tableSet\<close> always returns.  Either the growth it needs is refused by the
  allocator and it raises with the table unchanged, or it reports whether the key was new, and the
  table represents the old map updated at the key and still satisfies the invariant (count exact,
  load factor at most 3/4, every key reachable from its home slot without passing an empty slot).
\<close>

theorem tableSet_correct:
  assumes "table_inv hp t" and "bounded_alloc alloc"
  shows "(\<exists>t'. tableSet alloc hp t key v = Some (SetDone (table_map t key = None) t') \<and>
               table_inv hp t' \<and> table_map t' = (table_map t)(key \<mapsto> v)) \<or>
         needs_growth t \<and> \<not> alloc (grow_capacity (tcapacity t)) \<and>
         tableSet alloc hp t key v = Some (SetRaised t)"
  using memory_or_oom [OF assms] tableSet_oom tableSet_spec [OF assms(1)] by metis

lemma tableSet_correct_witness:
  "(\<exists>t'. tableSet sample_alloc sample_heap sample_table 3 VUndefined = Some (SetDone True t') \<and>
      table_inv sample_heap t' \<and> table_map t' 3 = Some VUndefined)"
  using tableSet_correct [OF sample_table_inv sample_alloc_bounded, of 3 VUndefined]
  by (auto simp: sample_table_def needs_growth_def table_map_def empty_entry_def numeral_eq_Suc)

text \<open>
  \<open>tableGet\<close> and \<open>tableGetIndex\<close> always return; looking a key up by
  probing finds exactly the value the table holds for it, and the index found is the slot of the key,
  or \<open>-1\<close> when the key is absent.
\<close>

theorem tableGet_correct:
  assumes "table_inv hp t"
  shows "tableGet hp t key = Some (table_map t key) \<and>
    (case table_map t key of
       None \<Rightarrow> tableGetIndex hp t key = Some (-1)
     | Some v \<Rightarrow> \<exists>i<tcapacity t. tableGetIndex hp t key = Some (int i) \<and>
                  tentries t ! i = \<lparr>ekey = Some key, evalue = v\<rparr>)"
proof (cases "tcount t = 0")
  case True
  with assms show ?thesis
    using tableGet_spec [OF assms, of key] by (simp add: tableGetIndex_def table_map_count_0)
next
  case False
  with assms have cap: "tcapacity t \<noteq> 0" "length (tentries t) = tcapacity t" by (auto simp: table_inv_def)
  obtain p where p: "p < length (tentries t)" "findEntry hp (tentries t) (tcapacity t) (tshift t) key = Some p"
    and at: "ekey (tentries t ! p) = None \<and> table_map t key = None \<or>
         ekey (tentries t ! p) = Some key \<and> table_map t key = Some (evalue (tentries t ! p))"
    using findEntry_spec [OF assms cap(1)] by metis
  have idx: "tableGetIndex hp t key = Some (if ekey (tentries t ! p) = None then -1 else int p)"
    using p(2) False by (simp add: findEntry_def findEntryIndex_def tableGetIndex_def)
  show ?thesis
    using at idx p(1) cap(2) tableGet_spec [OF assms, of key]
    by (cases "tentries t ! p") auto
qed

lemma tableGet_correct_witness:
  "tableGet sample_heap sample_table 2 = Some (Some VNil) \<and> tableGetIndex sample_heap sample_table 3 = Some (-1)"
  using tableGet_correct [OF sample_table_inv, of 2] tableGet_correct [OF sample_table_inv, of 3]
  by (simp add: table_map_def sample_table_def empty_entry_def numeral_eq_Suc)

text \<open>
  C16: deleting from a table that has storage always returns: it reports whether the key was
  bound, the backward shift of the following cluster removes exactly that binding and leaves no key
  unreachable, and capacity and invariant are kept.
\<close>

theorem tableDelete_correct:
  assumes "table_inv hp t" and "tcapacity t \<noteq> 0"
  shows "\<exists>t'. tableDelete hp t key = Some (table_map t key \<noteq> None, t') \<and> table_inv hp t' \<and>
           table_map t' = (table_map t)(key := None) \<and> tcapacity t' = tcapacity t"
  by (rule tableDelete_spec [OF assms, of key]) blast

lemma tableDelete_correct_witness:
  "\<exists>t'. tableDelete sample_heap sample_table 1 = Some (True, t') \<and> table_inv sample_heap t' \<and>
     tableGet sample_heap t' 1 = Some None \<and> tableGet sample_heap t' 2 = Some (Some VNil)"
proof -
  have "tcapacity sample_table \<noteq> 0" "table_map sample_table 1 \<noteq> None" "table_map sample_table 2 = Some VNil"
    by (simp_all add: sample_table_def table_map_def)
  with tableDelete_correct [OF sample_table_inv, of 1] show ?thesis
    by (auto simp: tableGet_spec)
qed

text \<open>
  \<open>tableAddAll\<close> (inheritance of members) always returns with a well-formed
  destination; unless an insertion raised, the destination then represents its old map overridden by
  the source's.
\<close>

theorem tableAddAll_correct:
  assumes "table_inv hp src" and "table_inv hp dst" and "bounded_alloc alloc"
  shows "\<exists>raised dst'. tableAddAll alloc hp src dst = Some (raised, dst') \<and> table_inv hp dst' \<and>
           (raised \<or> table_map dst' = table_map dst ++ table_map src)"
  using tableAddAll_spec [OF assms(1), of alloc dst] assms(2,3) unfolding managed_table_def by metis

lemma tableAddAll_correct_witness:
  "\<exists>dst'. tableAddAll sample_alloc sample_heap sample_table blank_table = Some (False, dst') \<and>
     table_map dst' = table_map sample_table"
proof -
  have eval: "map_option fst (tableAddAll sample_alloc sample_heap sample_table blank_table) = Some False"
    by code_simp
  show ?thesis
    using tableAddAll_correct [OF sample_table_inv blank_table_inv sample_alloc_bounded] eval
    by (auto simp: blank_table_def)
qed

text \<open>
  \<open>tableRemoveWhite\<close>, which the collector runs on the weak table of interned
  strings, never removes a marked string, changes no value and keeps the invariant.
\<close>

theorem tableRemoveWhite_safe:
  assumes "table_inv hp t"
  shows "\<exists>t'. tableRemoveWhite hp t = Some t' \<and> table_inv hp t' \<and>
           (\<forall>a. os_markers (hp a) \<noteq> 0 \<longrightarrow> table_map t' a = table_map t a) \<and>
           table_map t' \<subseteq>\<^sub>m table_map t"
  unfolding tableRemoveWhite_def by (rule removeWhite_slots_spec [OF assms]) auto

lemma tableRemoveWhite_safe_witness:
  "\<exists>t'. tableRemoveWhite sample_heap sample_table = Some t' \<and> table_map t' 1 = Some (VBool True)"
  using tableRemoveWhite_safe [OF sample_table_inv]
  by (auto simp: sample_heap_def sample_table_def table_map_def)

text \<open>
  The function does not remove every unmarked string, though.  Deleting a slot shifts the following
  entry of the cluster into it, and the loop goes on with the next slot: of two unmarked strings whose
  probe sequences collide the second survives, although the collector is about to free it.
\<close>

theorem tableRemoveWhite_leaves_unmarked:
  "\<exists>hp t t'. table_inv hp t \<and> (\<forall>a. os_markers (hp a) = 0) \<and>
     tableRemoveWhite hp t = Some t' \<and> table_map t' \<noteq> Map.empty"
proof -
  have home: "home white_heap s a = home sample_heap s a" for s a
    by (simp add: sample_heap_def white_heap_def)
  have inv: "table_inv white_heap sample_table"
    using sample_table_inv by (simp add: table_inv_def home)
  have run: "map_option (\<lambda>t'. table_map t' 2) (tableRemoveWhite white_heap sample_table) = Some (Some VNil)"
    by code_simp
  then obtain t' where t': "tableRemoveWhite white_heap sample_table = Some t'" "table_map t' 2 = Some VNil"
    by auto
  have "\<forall>a. os_markers (white_heap a) = 0" by (simp add: white_heap_def)
  moreover have "table_map t' \<noteq> Map.empty" using t'(2) by auto
  ultimately show ?thesis using inv t'(1) by blast
qed

end
