(* ===== verification/ValueTables.thy ===== *)
theory ValueTables
  imports Tables
begin

text \<open>
  The insertion-ordered hash table of \<open>ValueTable.c\<close> (the deterministic tables of Tyler
  Close): \<open>chains\<close> holds the head of each bucket, the entries are kept in insertion order
  and linked by their \<open>next\<close> index, a deleted entry stays in its chain with the key
  \<open>UNDEFINED\<close>.  \<open>vt_entries\<close> is the initialised prefix of the array, so its length
  is \<open>fullCount\<close>; reading past it, like reading outside an allocated array, has no defined
  result.  \<open>hashValue\<close> and \<open>valuesEquals\<close> are the parameters \<open>hashf\<close> and
  \<open>eqf\<close> here (they may run user code and raise: \<open>None\<close>); the theory of objects
  supplies the ones of the runtime.
\<close>

record value_entry =
  ve_key :: val
  ve_value :: val
  ve_next :: int
  ve_hash :: u32

record value_table =
  vt_chains :: "int list"
  vt_entries :: "value_entry list"
  vt_indexSize :: nat
  vt_dataSize :: nat
  vt_indexShift :: nat
  vt_liveCount :: nat
  vt_modCount :: u32

type_synonym hash_fun = "val \<Rightarrow> u32 option"
type_synonym eq_fun = "val \<Rightarrow> val \<Rightarrow> bool option"

section \<open>Operations\<close>

definition initValueTable :: value_table where
  "initValueTable = \<lparr>vt_chains = [], vt_entries = [], vt_indexSize = 0, vt_dataSize = 0,
     vt_indexShift = 0, vt_liveCount = 0, vt_modCount = 0\<rparr>"

datatype probe_result = Match | Skip | Raise

text \<open>
  The loop of \<open>lookup\<close>: follow \<open>next\<close> until the entry matches, the comparison
  raises, or the chain ends.  The result is the raised flag and the index returned.
\<close>

partial_function (option) chain_search ::
  "(nat \<Rightarrow> probe_result) \<Rightarrow> (nat \<Rightarrow> int) \<Rightarrow> nat \<Rightarrow> int \<Rightarrow> (bool \<times> int) option" where
  "chain_search P nxt n idx =
     (if idx < 0 then Some (False, -1)
      else if n \<le> nat idx then None
      else (case P (nat idx) of
              Match \<Rightarrow> Some (False, idx)
            | Raise \<Rightarrow> Some (True, -1)
            | Skip \<Rightarrow> chain_search P nxt n (nxt (nat idx))))"

declare chain_search.simps [code]

definition entry_matches :: "eq_fun \<Rightarrow> value_table \<Rightarrow> val \<Rightarrow> nat \<Rightarrow> probe_result" where
  "entry_matches eqf t key i =
     (let k = ve_key (vt_entries t ! i)
      in if k = VUndefined then Skip
         else (case eqf k key of None \<Rightarrow> Raise | Some True \<Rightarrow> Match | Some False \<Rightarrow> Skip))"

definition vt_lookup :: "eq_fun \<Rightarrow> value_table \<Rightarrow> val \<Rightarrow> u32 \<Rightarrow> (bool \<times> int) option" where
  "vt_lookup eqf t key keyHash =
     do { idx \<leftarrow> nth_opt (vt_chains t) (indexFor keyHash (vt_indexShift t));
          chain_search (entry_matches eqf t key) (\<lambda>i. ve_next (vt_entries t ! i))
            (length (vt_entries t)) idx }"

text \<open>Raised flag, and the value found (\<open>None\<close>: the function returns false).\<close>

definition valueTableGet :: "hash_fun \<Rightarrow> eq_fun \<Rightarrow> value_table \<Rightarrow> val \<Rightarrow> (bool \<times> val option) option" where
  "valueTableGet hashf eqf t key =
     (if vt_liveCount t = 0 then Some (False, None)
      else (case hashf key of
              None \<Rightarrow> Some (True, None)
            | Some keyHash \<Rightarrow>
                do { (raised, idx) \<leftarrow> vt_lookup eqf t key keyHash;
                     Some (raised, if idx \<ge> 0 then Some (ve_value (vt_entries t ! nat idx)) else None) }))"

definition valueTableContains :: "hash_fun \<Rightarrow> eq_fun \<Rightarrow> value_table \<Rightarrow> val \<Rightarrow> (bool \<times> bool) option" where
  "valueTableContains hashf eqf t key =
     (if vt_liveCount t = 0 then Some (False, False)
      else (case hashf key of
              None \<Rightarrow> Some (True, False)
            | Some keyHash \<Rightarrow>
                do { (raised, idx) \<leftarrow> vt_lookup eqf t key keyHash; Some (raised, idx \<ge> 0) }))"

text \<open>\<open>valueTableGetNext\<close>: the next live entry at or after \<open>start\<close> and the next
  position, or \<open>-1\<close> at the end.\<close>

fun next_live :: "nat \<Rightarrow> value_entry list \<Rightarrow> (int \<times> value_entry option)" where
  "next_live i [] = (-1, None)"
| "next_live i (e # es) = (if ve_key e \<noteq> VUndefined then (int i + 1, Some e) else next_live (Suc i) es)"

definition valueTableGetNext :: "value_table \<Rightarrow> int \<Rightarrow> int \<times> value_entry option" where
  "valueTableGetNext t start =
     (if start < 0 then (-1, None) else next_live (nat start) (drop (nat start) (vt_entries t)))"

text \<open>The copying loop of \<open>rehash\<close>, over the old entries.\<close>

fun rehash_copy ::
  "nat \<Rightarrow> nat \<Rightarrow> value_entry list \<Rightarrow> int list \<times> value_entry list \<Rightarrow> (int list \<times> value_entry list) option" where
  "rehash_copy newShift dataSize [] acc = Some acc"
| "rehash_copy newShift dataSize (p # ps) (ch, q) =
     (if ve_key p = VUndefined then rehash_copy newShift dataSize ps (ch, q)
      else let bucket = indexFor (ve_hash p) newShift
           in if length ch \<le> bucket \<or> dataSize \<le> length q then None
              else rehash_copy newShift dataSize ps
                     (ch[bucket := int (length q)],
                      q @ [\<lparr>ve_key = ve_key p, ve_value = ve_value p, ve_next = ch ! bucket,
                            ve_hash = ve_hash p\<rparr>]))"

text \<open>
  \<open>rehash\<close>.  In the in-place branch the loop header is
  \<open>for (int i = 0; i < table->dataSize; table++)\<close>: after its first iteration the condition is
  read from the memory behind the table, so the branch has a defined result only when
  \<open>dataSize\<close> is 0.  The result is the raised flag and the table.  \<open>alloc\<close> says
  whether an allocation of so many bytes succeeds (4 bytes a chain head, 40 an entry).
\<close>

definition rehash :: "(nat \<Rightarrow> bool) \<Rightarrow> value_table \<Rightarrow> nat \<Rightarrow> (bool \<times> value_table) option" where
  "rehash alloc t newSize0 =
     (let newSize = (if newSize0 = 0 then 8 else newSize0)
      in if newSize = vt_indexSize t
         then (if vt_dataSize t = 0
               then Some (False, t\<lparr>vt_chains := replicate (vt_indexSize t) (-1), vt_entries := []\<rparr>)
               else None)
         else let dataSize = newSize * 3 div 4; newShift = 32 - ctz newSize
              in if \<not> alloc (4 * newSize) \<or> \<not> alloc (40 * dataSize) then Some (True, t)
                 else do { (ch, entries) \<leftarrow> rehash_copy newShift dataSize (vt_entries t)
                                                  (replicate newSize (-1), []);
                           Some (False, t\<lparr>vt_chains := ch, vt_entries := entries,
                                  vt_indexSize := newSize, vt_dataSize := dataSize,
                                  vt_indexShift := newShift\<rparr>) })"

text \<open>Raised flag, "a new key was added", and the table.\<close>

definition append_entry :: "value_table \<Rightarrow> val \<Rightarrow> val \<Rightarrow> u32 \<Rightarrow> value_table option" where
  "append_entry t key value keyHash =
     (let bucket = indexFor keyHash (vt_indexShift t)
      in if vt_dataSize t \<le> length (vt_entries t) \<or> length (vt_chains t) \<le> bucket then None
         else Some (t\<lparr>vt_liveCount := vt_liveCount t + 1,
                     vt_entries := vt_entries t @ [\<lparr>ve_key = key, ve_value = value,
                        ve_next = vt_chains t ! bucket, ve_hash = keyHash\<rparr>],
                     vt_chains := (vt_chains t)[bucket := int (length (vt_entries t))]\<rparr>))"

definition valueTableSet ::
  "(nat \<Rightarrow> bool) \<Rightarrow> hash_fun \<Rightarrow> eq_fun \<Rightarrow> value_table \<Rightarrow> val \<Rightarrow> val \<Rightarrow>
   (bool \<times> bool \<times> value_table) option" where
  "valueTableSet alloc hashf eqf t key value =
     (case hashf key of
        None \<Rightarrow> Some (True, False, t)
      | Some keyHash \<Rightarrow>
          do { (raised, idx) \<leftarrow> (if vt_liveCount t > 0 then vt_lookup eqf t key keyHash
                                else Some (False, -1));
               if raised then Some (True, False, t)
               else if idx \<ge> 0
               then Some (False, False, t\<lparr>vt_entries := (vt_entries t)[nat idx :=
                            (vt_entries t ! nat idx)\<lparr>ve_value := value\<rparr>]\<rparr>)
               else let t1 = t\<lparr>vt_modCount := vt_modCount t + 1\<rparr>
                    in do { (raised, t2) \<leftarrow>
                              (if length (vt_entries t1) = vt_dataSize t1
                               then rehash alloc t1
                                      (if vt_liveCount t1 \<ge> vt_dataSize t1 * 3 div 4
                                       then 2 * vt_indexSize t1 else vt_indexSize t1)
                               else Some (False, t1));
                            if raised then Some (True, False, t2)
                            else do { t3 \<leftarrow> append_entry t2 key value keyHash;
                                      Some (False, True, t3) } } })"

definition valueTableDelete ::
  "hash_fun \<Rightarrow> eq_fun \<Rightarrow> value_table \<Rightarrow> val \<Rightarrow> (bool \<times> bool \<times> value_table) option" where
  "valueTableDelete hashf eqf t key =
     (if vt_liveCount t = 0 then Some (False, False, t)
      else (case hashf key of
              None \<Rightarrow> Some (True, False, t)
            | Some keyHash \<Rightarrow>
                do { (raised, idx) \<leftarrow> vt_lookup eqf t key keyHash;
                     if idx < 0 then Some (raised, False, t)
                     else Some (raised, True, t\<lparr>vt_modCount := vt_modCount t + 1,
                            vt_entries := (vt_entries t)[nat idx :=
                              (vt_entries t ! nat idx)\<lparr>ve_key := VUndefined\<rparr>],
                            vt_liveCount := vt_liveCount t - 1\<rparr>) }))"

section \<open>Chains\<close>

fun chain_is :: "(nat \<Rightarrow> int) \<Rightarrow> int \<Rightarrow> nat list \<Rightarrow> bool" where
  "chain_is nxt idx [] \<longleftrightarrow> idx < 0"
| "chain_is nxt idx (i # is) \<longleftrightarrow> idx = int i \<and> chain_is nxt (nxt i) is"

definition bucket_members :: "(nat \<Rightarrow> nat) \<Rightarrow> nat \<Rightarrow> nat \<Rightarrow> nat list" where
  "bucket_members bk n b = rev (filter (\<lambda>i. bk i = b) [0..<n])"

text \<open>Every chain lists the entries of its bucket, the latest first.\<close>

definition chains_ok :: "int list \<Rightarrow> (nat \<Rightarrow> int) \<Rightarrow> (nat \<Rightarrow> nat) \<Rightarrow> nat \<Rightarrow> bool" where
  "chains_ok ch nxt bk n \<longleftrightarrow> (\<forall>b<length ch. chain_is nxt (ch ! b) (bucket_members bk n b))"

lemma chain_is_cong: "(\<And>i. i \<in> set is \<Longrightarrow> nxt i = nxt' i) \<Longrightarrow> chain_is nxt idx is = chain_is nxt' idx is"
  by (induction "is" arbitrary: idx) auto

lemma set_bucket_members [simp]: "set (bucket_members bk n b) = {i. i < n \<and> bk i = b}"
  by (auto simp: bucket_members_def)

lemma bucket_members_cong:
  "(\<And>i. i < n \<Longrightarrow> bk i = bk' i) \<Longrightarrow> bucket_members bk n b = bucket_members bk' n b"
  by (auto simp: bucket_members_def intro: filter_cong)

lemma chains_ok_cong:
  assumes "chains_ok ch nxt bk n" "\<And>i. i < n \<Longrightarrow> nxt i = nxt' i" "\<And>i. i < n \<Longrightarrow> bk i = bk' i"
  shows "chains_ok ch nxt' bk' n"
  unfolding chains_ok_def
proof (intro allI impI)
  fix b
  assume "b < length ch"
  with assms(1) have "chain_is nxt (ch ! b) (bucket_members bk n b)" by (simp add: chains_ok_def)
  moreover have "bucket_members bk n b = bucket_members bk' n b"
    by (rule bucket_members_cong) (rule assms(3))
  moreover have "chain_is nxt (ch ! b) (bucket_members bk' n b) = chain_is nxt' (ch ! b) (bucket_members bk' n b)"
    by (rule chain_is_cong) (use assms(2) in auto)
  ultimately show "chain_is nxt' (ch ! b) (bucket_members bk' n b)" by simp
qed

lemma chains_ok_append:
  assumes "chains_ok ch nxt bk n" and "nxt n = ch ! bk n"
  shows "chains_ok (ch[bk n := int n]) nxt bk (Suc n)"
  unfolding chains_ok_def
proof (intro allI impI)
  fix b
  assume b: "b < length (ch[bk n := int n])"
  with assms(1) have "chain_is nxt (ch ! b) (bucket_members bk n b)" by (simp add: chains_ok_def)
  with assms(2) b show "chain_is nxt (ch[bk n := int n] ! b) (bucket_members bk (Suc n) b)"
    by (cases "b = bk n") (auto simp: bucket_members_def)
qed

lemma chains_ok_empty: "chains_ok (replicate m (-1)) nxt bk 0"
  by (simp add: chains_ok_def bucket_members_def)

fun search_list :: "(nat \<Rightarrow> probe_result) \<Rightarrow> nat list \<Rightarrow> bool \<times> int" where
  "search_list P [] = (False, -1)"
| "search_list P (i # is) =
     (case P i of Match \<Rightarrow> (False, int i) | Raise \<Rightarrow> (True, -1) | Skip \<Rightarrow> search_list P is)"

lemma chain_search_list:
  "\<lbrakk>chain_is nxt idx is; \<forall>i\<in>set is. i < n\<rbrakk> \<Longrightarrow> chain_search P nxt n idx = Some (search_list P is)"
proof (induction "is" arbitrary: idx)
  case Nil
  then show ?case by (subst chain_search.simps) simp
next
  case (Cons i "is")
  then show ?case by (subst chain_search.simps) (auto split: probe_result.split)
qed

lemma search_list_cases:
  assumes "\<And>i. i \<in> set is \<Longrightarrow> P i \<noteq> Raise"
  obtains i where "search_list P is = (False, int i)" "i \<in> set is" "P i = Match"
  | "search_list P is = (False, -1)" "\<And>i. i \<in> set is \<Longrightarrow> P i = Skip"
  using assms
proof (induction "is" arbitrary: thesis)
  case Nil
  then show ?case by simp
next
  case (Cons i "is")
  show ?case
  proof (cases "P i")
    case Match
    with Cons.prems(1) [of i] show ?thesis by simp
  next
    case Raise
    with Cons.prems(3) [of i] show ?thesis by simp
  next
    case Skip
    show ?thesis
    proof (rule Cons.IH)
      show "thesis" if "search_list P is = (False, int j)" "j \<in> set is" "P j = Match" for j
        using that Skip Cons.prems(1) [of j] by simp
      show "thesis" if "search_list P is = (False, -1)" "\<And>i. i \<in> set is \<Longrightarrow> P i = Skip"
        using that Skip Cons.prems(2) by auto
      show "P j \<noteq> Raise" if "j \<in> set is" for j using that Cons.prems(3) by simp
    qed
  qed
qed

section \<open>Shape of a value table\<close>

abbreviation live :: "value_entry \<Rightarrow> bool" where
  "live e \<equiv> ve_key e \<noteq> VUndefined"

definition vt_geometry :: "value_table \<Rightarrow> bool" where
  "vt_geometry t \<longleftrightarrow>
     vt_indexSize t = 0 \<and> vt_dataSize t = 0 \<and> vt_chains t = [] \<or>
     (\<exists>k. 3 \<le> k \<and> k \<le> 30 \<and> vt_indexSize t = 2 ^ k \<and> vt_indexShift t = 32 - k \<and>
          vt_dataSize t = 2 ^ k * 3 div 4 \<and> length (vt_chains t) = 2 ^ k)"

definition vt_linked :: "value_table \<Rightarrow> bool" where
  "vt_linked t \<longleftrightarrow>
     chains_ok (vt_chains t) (\<lambda>i. ve_next (vt_entries t ! i))
       (\<lambda>i. indexFor (ve_hash (vt_entries t ! i)) (vt_indexShift t)) (length (vt_entries t))"

definition vt_keys_ok :: "hash_fun \<Rightarrow> (val \<Rightarrow> val \<Rightarrow> bool) \<Rightarrow> (val \<Rightarrow> bool) \<Rightarrow> value_entry list \<Rightarrow> bool" where
  "vt_keys_ok hashf same ok es \<longleftrightarrow>
     (\<forall>e\<in>set es. live e \<longrightarrow> ok (ve_key e) \<and> hashf (ve_key e) = Some (ve_hash e)) \<and>
     (\<forall>i<length es. \<forall>j<length es. live (es ! i) \<and> live (es ! j) \<and> same (ve_key (es ! i)) (ve_key (es ! j))
        \<longrightarrow> i = j)"

definition vt_inv :: "hash_fun \<Rightarrow> (val \<Rightarrow> val \<Rightarrow> bool) \<Rightarrow> (val \<Rightarrow> bool) \<Rightarrow> value_table \<Rightarrow> bool" where
  "vt_inv hashf same ok t \<longleftrightarrow>
     vt_geometry t \<and> vt_linked t \<and> vt_keys_ok hashf same ok (vt_entries t) \<and>
     length (vt_entries t) \<le> vt_dataSize t \<and> vt_liveCount t = length (filter live (vt_entries t))"

text \<open>The table as a map, and the sequence an iteration visits.\<close>

definition vt_map :: "(val \<Rightarrow> val \<Rightarrow> bool) \<Rightarrow> value_table \<Rightarrow> val \<Rightarrow> val option" where
  "vt_map same t k = map_option ve_value (List.find (\<lambda>e. live e \<and> same (ve_key e) k) (vt_entries t))"

definition vt_pairs :: "value_table \<Rightarrow> (val \<times> val) list" where
  "vt_pairs t = map (\<lambda>e. (ve_key e, ve_value e)) (filter live (vt_entries t))"

text \<open>There is a free cell, or the table is due to double (never an in-place rehash).\<close>

definition vt_room :: "value_table \<Rightarrow> bool" where
  "vt_room t \<longleftrightarrow> length (vt_entries t) < vt_dataSize t \<or> vt_dataSize t * 3 div 4 \<le> vt_liveCount t"

lemma vt_inv_init [simp]: "vt_inv hashf same ok initValueTable"
  by (simp add: vt_inv_def vt_geometry_def vt_linked_def vt_keys_ok_def initValueTable_def chains_ok_def)

lemma vt_pairs_init [simp]: "vt_pairs initValueTable = []" "vt_entries initValueTable = []"
  by (simp_all add: vt_pairs_def initValueTable_def)

lemma vt_map_init [simp]: "vt_map same initValueTable k = None"
  by (simp add: vt_map_def initValueTable_def)

text \<open>Rewriting a field of an entry that the chains do not look at.\<close>

lemma vt_linked_update:
  assumes "vt_linked t" and "ve_next e = ve_next (vt_entries t ! i)" "ve_hash e = ve_hash (vt_entries t ! i)"
    and "vt_entries t' = (vt_entries t)[i := e]" "vt_chains t' = vt_chains t" "vt_indexShift t' = vt_indexShift t"
  shows "vt_linked t'"
proof -
  have same: "j < length (vt_entries t) \<Longrightarrow> ve_next (vt_entries t' ! j) = ve_next (vt_entries t ! j) \<and>
      ve_hash (vt_entries t' ! j) = ve_hash (vt_entries t ! j)" for j
    using assms(2-4) by (cases "j = i") auto
  have n: "length (vt_entries t') = length (vt_entries t)" by (simp add: assms(4))
  show ?thesis
    using assms(1) unfolding vt_linked_def assms(5,6) n by (rule chains_ok_cong) (simp_all add: same)
qed

text \<open>Appending an entry at the head of its bucket.\<close>

lemma append_entry_linked:
  assumes "vt_linked t" and "append_entry t key value h = Some t'"
  shows "vt_linked t'" and "vt_entries t' = vt_entries t @ [\<lparr>ve_key = key, ve_value = value,
      ve_next = vt_chains t ! indexFor h (vt_indexShift t), ve_hash = h\<rparr>]"
    and "vt_geometry t \<Longrightarrow> vt_geometry t'" and "vt_liveCount t' = vt_liveCount t + 1"
    and "vt_dataSize t' = vt_dataSize t" and "length (vt_entries t) < vt_dataSize t"
    and "vt_modCount t' = vt_modCount t"
proof -
  let ?b = "indexFor h (vt_indexShift t)" and ?n = "length (vt_entries t)"
  from assms(2) have b: "?b < length (vt_chains t)"
    and t': "t' = t\<lparr>vt_liveCount := vt_liveCount t + 1,
        vt_entries := vt_entries t @ [\<lparr>ve_key = key, ve_value = value, ve_next = vt_chains t ! ?b, ve_hash = h\<rparr>],
        vt_chains := (vt_chains t)[?b := int ?n]\<rparr>"
    by (auto simp: append_entry_def Let_def split: if_splits)
  let ?nxt = "\<lambda>i. ve_next (vt_entries t' ! i)" and ?bk = "\<lambda>i. indexFor (ve_hash (vt_entries t' ! i)) (vt_indexShift t')"
  have "chains_ok (vt_chains t) ?nxt ?bk ?n"
    using assms(1) unfolding vt_linked_def by (rule chains_ok_cong) (simp_all add: t' nth_append)
  moreover have "?nxt ?n = vt_chains t ! ?bk ?n" by (simp add: t')
  ultimately have "chains_ok ((vt_chains t)[?bk ?n := int ?n]) ?nxt ?bk (Suc ?n)"
    by (rule chains_ok_append)
  then show "vt_linked t'" by (simp add: vt_linked_def t')
  show "vt_entries t' = vt_entries t @ [\<lparr>ve_key = key, ve_value = value, ve_next = vt_chains t ! ?b, ve_hash = h\<rparr>]"
    "vt_liveCount t' = vt_liveCount t + 1" "vt_dataSize t' = vt_dataSize t" "vt_modCount t' = vt_modCount t"
    by (simp_all add: t')
  show "vt_geometry t'" if "vt_geometry t" using that b by (auto simp: vt_geometry_def t')
  show "?n < vt_dataSize t" using assms(2) by (auto simp: append_entry_def Let_def split: if_splits)
qed

text \<open>The copying loop keeps the live entries, in order, in freshly linked chains.\<close>

definition same_binding :: "value_entry \<Rightarrow> value_entry \<Rightarrow> bool" where
  "same_binding e e' \<longleftrightarrow> ve_key e = ve_key e' \<and> ve_value e = ve_value e' \<and> ve_hash e = ve_hash e'"

lemma rehash_copy_spec:
  assumes "chains_ok ch (\<lambda>i. ve_next (q ! i)) (\<lambda>i. indexFor (ve_hash (q ! i)) (32 - k)) (length q)"
    and "length ch = 2 ^ k" "k \<le> 32" and "length q + length (filter live ps) \<le> dataSize"
  shows "\<exists>ch' q'. rehash_copy (32 - k) dataSize ps (ch, q) = Some (ch', q @ q') \<and> length ch' = 2 ^ k \<and>
           chains_ok ch' (\<lambda>i. ve_next ((q @ q') ! i)) (\<lambda>i. indexFor (ve_hash ((q @ q') ! i)) (32 - k))
             (length (q @ q')) \<and> list_all2 same_binding q' (filter live ps)"
  using assms
proof (induction ps arbitrary: ch q)
  case Nil
  then show ?case by (intro exI [of _ ch] exI [of _ "[]"]) simp
next
  case (Cons p ps)
  show ?case
  proof (cases "live p")
    case False
    with Cons show ?thesis by simp
  next
    case True
    define e where "e = \<lparr>ve_key = ve_key p, ve_value = ve_value p,
        ve_next = ch ! indexFor (ve_hash p) (32 - k), ve_hash = ve_hash p\<rparr>"
    let ?b = "indexFor (ve_hash p) (32 - k)" and ?q = "q @ [e]"
    let ?nxt = "\<lambda>i. ve_next (?q ! i)" and ?bk = "\<lambda>i. indexFor (ve_hash (?q ! i)) (32 - k)"
    have b: "?b < length ch" using indexFor_less [OF Cons.prems(3)] Cons.prems(2) by simp
    have step: "rehash_copy (32 - k) dataSize (p # ps) (ch, q)
        = rehash_copy (32 - k) dataSize ps (ch[?b := int (length q)], ?q)"
      using True b Cons.prems(4) by (simp add: Let_def e_def)
    have "chains_ok ch ?nxt ?bk (length q)"
      using Cons.prems(1) by (rule chains_ok_cong) (simp_all add: nth_append)
    moreover have "?nxt (length q) = ch ! ?bk (length q)" by (simp add: e_def)
    ultimately have "chains_ok (ch[?bk (length q) := int (length q)]) ?nxt ?bk (Suc (length q))"
      by (rule chains_ok_append)
    then have "chains_ok (ch[?b := int (length q)]) ?nxt ?bk (length ?q)" by (simp add: e_def)
    from Cons.IH [OF this] Cons.prems True obtain ch' q' where
      "rehash_copy (32 - k) dataSize ps (ch[?b := int (length q)], ?q) = Some (ch', ?q @ q')"
      "length ch' = 2 ^ k" "list_all2 same_binding q' (filter live ps)"
      "chains_ok ch' (\<lambda>i. ve_next ((?q @ q') ! i)) (\<lambda>i. indexFor (ve_hash ((?q @ q') ! i)) (32 - k))
         (length (?q @ q'))" by auto
    moreover have "same_binding e p" by (simp add: same_binding_def e_def)
    ultimately show ?thesis
      using True unfolding step by (intro exI [of _ ch'] exI [of _ "e # q'"]) simp
  qed
qed

text \<open>Facts that only depend on the bindings of the live entries.\<close>

lemma find_filter_live:
  "List.find (\<lambda>e. live e \<and> Q e) (filter live es) = List.find (\<lambda>e. live e \<and> Q e) es"
  by (induction es) auto

lemma find_same_binding:
  "list_all2 same_binding es es' \<Longrightarrow>
   map_option ve_value (List.find (\<lambda>e. live e \<and> same (ve_key e) k) es)
     = map_option ve_value (List.find (\<lambda>e. live e \<and> same (ve_key e) k) es')"
  by (induction rule: list_all2_induct) (auto simp: same_binding_def)

lemma filter_same_binding:
  "\<lbrakk>list_all2 same_binding es es'; \<forall>e\<in>set es'. live e\<rbrakk> \<Longrightarrow> filter live es = es"
  by (induction rule: list_all2_induct) (auto simp: same_binding_def)

lemma vt_keys_ok_same_binding:
  assumes "list_all2 same_binding es es'" and "vt_keys_ok hashf same ok es'"
  shows "vt_keys_ok hashf same ok es"
proof -
  have len: "length es = length es'" using assms(1) by (rule list_all2_lengthD)
  have "same_binding (es ! i) (es' ! i)" if "i < length es'" for i
    using assms(1) that by (simp add: list_all2_conv_all_nth)
  then have K: "ve_key (es ! i) = ve_key (es' ! i)" and H: "ve_hash (es ! i) = ve_hash (es' ! i)"
    if "i < length es'" for i using that by (auto simp: same_binding_def)
  from assms(2) show ?thesis
    unfolding vt_keys_ok_def all_set_conv_all_nth len by (simp add: K H cong: conj_cong)
qed

lemma vt_keys_ok_filter:
  assumes "vt_keys_ok hashf same ok es"
  shows "vt_keys_ok hashf same ok (filter live es)"
  unfolding vt_keys_ok_def
proof (intro conjI allI impI)
  show "\<forall>e\<in>set (filter live es). live e \<longrightarrow> ok (ve_key e) \<and> hashf (ve_key e) = Some (ve_hash e)"
    using assms by (auto simp: vt_keys_ok_def)
  fix i j
  assume ij: "i < length (filter live es)" "j < length (filter live es)"
    and k: "live (filter live es ! i) \<and> live (filter live es ! j) \<and>
            same (ve_key (filter live es ! i)) (ve_key (filter live es ! j))"
  obtain ix where d: "distinct ix" and lt: "\<And>i. i \<in> set ix \<Longrightarrow> i < length es"
    and f: "filter live es = map ((!) es) ix" by (rule filter_positions [of es live]) blast
  have ij': "i < length ix" "j < length ix" using ij f by simp_all
  then have "ix ! i < length es" "ix ! j < length es" by (simp_all add: lt)
  with assms k ij' have "ix ! i = ix ! j" unfolding vt_keys_ok_def f by simp
  with d ij' show "i = j" by (simp add: nth_eq_iff_index_eq)
qed

text \<open>The growing branch of \<open>rehash\<close> rebuilds the table with the same bindings.\<close>

lemma rehash_grow_spec:
  assumes inv: "vt_inv hashf same ok t" and k: "3 \<le> k" "k \<le> 30"
    and size: "(if newSize = 0 then 8 else newSize) = 2 ^ k" and ne: "vt_indexSize t \<noteq> 2 ^ k"
    and room: "vt_liveCount t \<le> 2 ^ k * 3 div 4"
    and alloc: "alloc (4 * 2 ^ k)" "alloc (40 * (2 ^ k * 3 div 4))"
  obtains t' where "rehash alloc t newSize = Some (False, t')" and "vt_inv hashf same ok t'"
    and "\<And>x. vt_map same t' x = vt_map same t x" and "vt_pairs t' = vt_pairs t"
    and "length (vt_entries t') = vt_liveCount t" and "vt_dataSize t' = 2 ^ k * 3 div 4"
    and "vt_modCount t' = vt_modCount t" and "vt_liveCount t' = vt_liveCount t" and "vt_chains t' \<noteq> []"
proof -
  let ?d = "2 ^ k * 3 div 4 :: nat"
  have live: "length (filter live (vt_entries t)) = vt_liveCount t" using inv by (simp add: vt_inv_def)
  obtain ch es where copy: "rehash_copy (32 - k) ?d (vt_entries t) (replicate (2 ^ k) (-1), []) = Some (ch, es)"
    and ch: "length ch = 2 ^ k" "chains_ok ch (\<lambda>i. ve_next (es ! i)) (\<lambda>i. indexFor (ve_hash (es ! i)) (32 - k)) (length es)"
    and same: "list_all2 same_binding es (filter live (vt_entries t))"
    using rehash_copy_spec [of "replicate (2 ^ k) (-1)" "[]" k "vt_entries t" ?d] k room live
    by (auto simp: chains_ok_empty)
  let ?t = "t\<lparr>vt_chains := ch, vt_entries := es, vt_indexSize := 2 ^ k, vt_dataSize := ?d, vt_indexShift := 32 - k\<rparr>"
  have len: "length es = vt_liveCount t" using same live by (auto dest: list_all2_lengthD)
  have all_live: "filter live es = es" by (rule filter_same_binding [OF same]) simp
  have "rehash alloc t newSize = Some (False, ?t)"
    using size ne alloc copy by (simp add: rehash_def Let_def)
  moreover have "vt_geometry ?t" unfolding vt_geometry_def using k ch by (intro disjI2 exI [of _ k]) simp
  then have "vt_inv hashf same ok ?t"
    using ch len all_live room inv vt_keys_ok_same_binding [OF same vt_keys_ok_filter]
    by (simp add: vt_inv_def vt_linked_def)
  moreover have "vt_map same ?t x = vt_map same t x" for x
    unfolding vt_map_def using find_same_binding [OF same, of same x]
    by (simp add: find_filter_live [where Q = "\<lambda>e. same (ve_key e) x"])
  moreover have "map (\<lambda>e. (ve_key e, ve_value e)) es = map (\<lambda>e. (ve_key e, ve_value e)) (filter live (vt_entries t))"
    using same by (induction rule: list_all2_induct) (simp_all add: same_binding_def)
  then have "vt_pairs ?t = vt_pairs t" by (simp add: vt_pairs_def all_live)
  moreover have "ch \<noteq> []" using ch(1) by auto
  ultimately show ?thesis using that [of ?t] len by simp
qed

lemma find_append:
  "List.find P (xs @ ys) = (case List.find P xs of None \<Rightarrow> List.find P ys | Some x \<Rightarrow> Some x)"
  by (induction xs) auto

text \<open>The allocator can provide the arrays of the next size when they are due.\<close>

definition vt_next_size :: "value_table \<Rightarrow> nat" where
  "vt_next_size t = (if vt_indexSize t = 0 then 8 else 2 * vt_indexSize t)"

definition vt_memory :: "(nat \<Rightarrow> bool) \<Rightarrow> value_table \<Rightarrow> bool" where
  "vt_memory alloc t \<longleftrightarrow> length (vt_entries t) < vt_dataSize t \<or>
     alloc (4 * vt_next_size t) \<and> alloc (40 * (vt_next_size t * 3 div 4)) \<and> vt_next_size t \<le> 2 ^ 30"

section \<open>Key contract and the operations' specifications\<close>

text \<open>
  What the table asks of the hash and equality of its keys, for the keys in \<open>ok\<close>:
  neither raises, equality is an equivalence and equal keys have equal hashes.
\<close>

locale hash_keys =
  fixes hashf :: hash_fun and eqf :: eq_fun
    and same :: "val \<Rightarrow> val \<Rightarrow> bool" and ok :: "val \<Rightarrow> bool"
  assumes hash_total: "ok a \<Longrightarrow> hashf a \<noteq> None"
    and eq_total: "\<lbrakk>ok a; ok b\<rbrakk> \<Longrightarrow> eqf a b = Some (same a b)"
    and same_hash: "\<lbrakk>ok a; ok b; same a b\<rbrakk> \<Longrightarrow> hashf a = hashf b"
    and same_refl: "ok a \<Longrightarrow> same a a"
    and same_sym: "\<lbrakk>ok a; ok b; same a b\<rbrakk> \<Longrightarrow> same b a"
    and same_trans: "\<lbrakk>ok a; ok b; ok c; same a b; same b c\<rbrakk> \<Longrightarrow> same a c"
    and ok_defined: "ok a \<Longrightarrow> a \<noteq> VUndefined"
begin

abbreviation inv :: "value_table \<Rightarrow> bool" where
  "inv \<equiv> vt_inv hashf same ok"

lemma lookup_spec:
  assumes t: "inv t" and key: "ok key" "hashf key = Some h" and ne: "vt_chains t \<noteq> []"
  obtains i where "vt_lookup eqf t key h = Some (False, int i)" "i < length (vt_entries t)"
      "live (vt_entries t ! i)" "same (ve_key (vt_entries t ! i)) key"
  | "vt_lookup eqf t key h = Some (False, -1)"
      "\<forall>e\<in>set (vt_entries t). live e \<longrightarrow> \<not> same (ve_key e) key"
proof -
  note found = that(1) and absent = that(2)
  let ?es = "vt_entries t" and ?b = "indexFor h (vt_indexShift t)"
  let ?bk = "\<lambda>i. indexFor (ve_hash (?es ! i)) (vt_indexShift t)"
  let ?P = "entry_matches eqf t key" and ?m = "bucket_members ?bk (length ?es) ?b"
  have keys: "ok (ve_key (?es ! i))" "hashf (ve_key (?es ! i)) = Some (ve_hash (?es ! i))"
    if "i < length ?es" "live (?es ! i)" for i
    using t that by (auto simp: vt_inv_def vt_keys_ok_def)
  have P: "?P i = (if live (?es ! i) \<and> same (ve_key (?es ! i)) key then Match else Skip)"
    if "i < length ?es" for i
    using keys [OF that] key eq_total by (auto simp: entry_matches_def Let_def)
  obtain k where k: "k \<le> 30" "length (vt_chains t) = 2 ^ k" "vt_indexShift t = 32 - k"
    using t ne by (auto simp: vt_inv_def vt_geometry_def)
  then have b: "?b < length (vt_chains t)" using indexFor_less [of k h] by simp
  then have "chain_is (\<lambda>i. ve_next (?es ! i)) (vt_chains t ! ?b) ?m"
    using t by (simp add: vt_inv_def vt_linked_def chains_ok_def)
  then have look: "vt_lookup eqf t key h = Some (search_list ?P ?m)"
    using b by (simp add: vt_lookup_def chain_search_list)
  show ?thesis
  proof (rule search_list_cases [of ?m ?P])
    show "?P i \<noteq> Raise" if "i \<in> set ?m" for i using that P [of i] by auto
    show thesis if "search_list ?P ?m = (False, int i)" "i \<in> set ?m" "?P i = Match" for i
      using that look P [of i] by (intro found [of i]) (auto split: if_splits)
    show thesis if none: "search_list ?P ?m = (False, -1)" "\<And>i. i \<in> set ?m \<Longrightarrow> ?P i = Skip"
    proof (rule absent)
      show "vt_lookup eqf t key h = Some (False, -1)" using look none(1) by simp
      have "\<not> same (ve_key (?es ! i)) key" if i: "i < length ?es" "live (?es ! i)" for i
      proof
        assume s: "same (ve_key (?es ! i)) key"
        have "hashf (ve_key (?es ! i)) = hashf key" by (rule same_hash [OF keys(1) [OF i] key(1) s])
        then have "i \<in> set ?m" using i keys [OF i] key by simp
        with none(2) P [OF i(1)] i s show False by auto
      qed
      then show "\<forall>e\<in>set ?es. live e \<longrightarrow> \<not> same (ve_key e) key" by (auto simp: all_set_conv_all_nth)
    qed
  qed
qed

text \<open>The first live entry with an equal key is the only one.\<close>

lemma match_unique:
  assumes t: "inv t" and key: "ok key"
    and i: "i < length (vt_entries t)" "live (vt_entries t ! i)" "same (ve_key (vt_entries t ! i)) key"
    and j: "j < length (vt_entries t)" "live (vt_entries t ! j)" "same (ve_key (vt_entries t ! j)) key"
  shows "j = i"
proof -
  have o: "ok (ve_key (vt_entries t ! i))" "ok (ve_key (vt_entries t ! j))"
    using t i j by (auto simp: vt_inv_def vt_keys_ok_def)
  have "same (ve_key (vt_entries t ! j)) (ve_key (vt_entries t ! i))"
    using same_trans [OF o(2) key o(1) j(3)] same_sym [OF o(1) key i(3)] by blast
  then show ?thesis using t i j by (simp add: vt_inv_def vt_keys_ok_def)
qed

lemma find_at:
  assumes t: "inv t" and key: "ok key" and i: "i < length (vt_entries t)"
    and m: "live (vt_entries t ! i)" "same (ve_key (vt_entries t ! i)) key"
  shows "List.find (\<lambda>e. live e \<and> same (ve_key e) key) (vt_entries t) = Some (vt_entries t ! i)"
proof -
  have "\<not> (live (vt_entries t ! j) \<and> same (ve_key (vt_entries t ! j)) key)" if "j < i" for j
    using match_unique [OF t key i m, of j] that i by auto
  with i m show ?thesis unfolding find_Some_iff by blast
qed

lemma map_at:
  "\<lbrakk>inv t; ok key; i < length (vt_entries t); live (vt_entries t ! i); same (ve_key (vt_entries t ! i)) key\<rbrakk>
   \<Longrightarrow> vt_map same t key = Some (ve_value (vt_entries t ! i))"
  using find_at by (simp add: vt_map_def)

lemma map_none:
  "\<forall>e\<in>set (vt_entries t). live e \<longrightarrow> \<not> same (ve_key e) key \<Longrightarrow> vt_map same t key = None"
  by (auto simp: vt_map_def find_None_iff)

lemma live_0: "inv t \<Longrightarrow> vt_liveCount t = 0 \<Longrightarrow> \<forall>e\<in>set (vt_entries t). \<not> live e"
  by (auto simp: vt_inv_def filter_empty_conv)

lemma chains_nonempty: "inv t \<Longrightarrow> vt_liveCount t \<noteq> 0 \<Longrightarrow> vt_chains t \<noteq> []"
  by (auto simp: vt_inv_def vt_geometry_def)

lemma get_spec:
  assumes t: "inv t" and key: "ok key"
  shows "valueTableGet hashf eqf t key = Some (False, vt_map same t key)"
proof (cases "vt_liveCount t = 0")
  case True
  with live_0 [OF t True] show ?thesis by (simp add: valueTableGet_def map_none)
next
  case False
  obtain h where h: "hashf key = Some h" using hash_total [OF key] by blast
  show ?thesis
    by (rule lookup_spec [OF t key h chains_nonempty [OF t False]])
      (simp_all add: valueTableGet_def False h map_at [OF t key] map_none)
qed

lemma contains_spec:
  assumes t: "inv t" and key: "ok key"
  shows "valueTableContains hashf eqf t key = Some (False, vt_map same t key \<noteq> None)"
proof (cases "vt_liveCount t = 0")
  case True
  with live_0 [OF t True] show ?thesis by (simp add: valueTableContains_def map_none)
next
  case False
  obtain h where h: "hashf key = Some h" using hash_total [OF key] by blast
  show ?thesis
    by (rule lookup_spec [OF t key h chains_nonempty [OF t False]])
      (simp_all add: valueTableContains_def False h map_at [OF t key] map_none)
qed

lemma map_iff:
  assumes t: "inv t" and key: "ok key"
  shows "vt_map same t key = Some w \<longleftrightarrow>
    (\<exists>e\<in>set (vt_entries t). live e \<and> same (ve_key e) key \<and> ve_value e = w)"
proof
  assume "vt_map same t key = Some w"
  then obtain e where "List.find (\<lambda>e. live e \<and> same (ve_key e) key) (vt_entries t) = Some e" "ve_value e = w"
    by (auto simp: vt_map_def)
  then show "\<exists>e\<in>set (vt_entries t). live e \<and> same (ve_key e) key \<and> ve_value e = w"
    by (auto simp: find_Some_iff)
next
  assume "\<exists>e\<in>set (vt_entries t). live e \<and> same (ve_key e) key \<and> ve_value e = w"
  then obtain i where "i < length (vt_entries t)" "live (vt_entries t ! i)"
    "same (ve_key (vt_entries t ! i)) key" "ve_value (vt_entries t ! i) = w"
    by (auto simp: in_set_conv_nth)
  then show "vt_map same t key = Some w" using map_at [OF t key] by simp
qed

text \<open>Overwriting the value of entry \<open>i\<close>.\<close>

lemma overwrite_spec:
  fixes v :: val
  assumes t: "inv t" and key: "ok key" and i: "i < length (vt_entries t)"
    and m: "live (vt_entries t ! i)" "same (ve_key (vt_entries t ! i)) key"
  defines "t' \<equiv> t\<lparr>vt_entries := (vt_entries t)[i := (vt_entries t ! i)\<lparr>ve_value := v\<rparr>]\<rparr>"
  shows "inv t'" and "ok k \<Longrightarrow> vt_map same t' k = (if same key k then Some v else vt_map same t k)"
    and "vt_pairs t' = map (\<lambda>(k, w). (k, if same k key then v else w)) (vt_pairs t)"
proof -
  let ?es = "vt_entries t" and ?es' = "vt_entries t'"
  have len: "length ?es' = length ?es" by (simp add: t'_def)
  have K: "ve_key (?es' ! j) = ve_key (?es ! j)" "ve_hash (?es' ! j) = ve_hash (?es ! j)"
    if "j < length ?es" for j
    using that by (cases "j = i"; simp add: t'_def)+
  have es': "?es' = map (\<lambda>e. if live e \<and> same (ve_key e) key then e\<lparr>ve_value := v\<rparr> else e) ?es"
  proof (rule nth_equalityI)
    fix j
    assume "j < length ?es'"
    then have j: "j < length ?es" by (simp add: len)
    show "?es' ! j = map (\<lambda>e. if live e \<and> same (ve_key e) key then e\<lparr>ve_value := v\<rparr> else e) ?es ! j"
      using match_unique [OF t key i m j] j m by (cases "j = i") (auto simp: t'_def)
  qed (simp add: len)
  have keys: "vt_keys_ok hashf same ok ?es'"
    using t unfolding vt_inv_def vt_keys_ok_def all_set_conv_all_nth len
    by (simp add: K cong: conj_cong)
  let ?f = "\<lambda>e. if live e \<and> same (ve_key e) key then e\<lparr>ve_value := v\<rparr> else e"
  have "live \<circ> ?f = live" by auto
  then have flt: "filter live ?es' = map ?f (filter live ?es)" by (simp only: es' filter_map)
  then have cnt: "length (filter live ?es') = length (filter live ?es)" by simp
  have "vt_linked t'"
    by (rule vt_linked_update [of t "(?es ! i)\<lparr>ve_value := v\<rparr>" i]) (use t in \<open>auto simp: vt_inv_def t'_def\<close>)
  then show inv': "inv t'"
    using t keys cnt len by (simp add: vt_inv_def vt_geometry_def) (simp add: t'_def)
  show "vt_map same t' k = (if same key k then Some v else vt_map same t k)" if k: "ok k"
  proof -
    have ok: "ok (ve_key e)" if "e \<in> set ?es" "live e" for e
      using t that by (auto simp: vt_inv_def vt_keys_ok_def)
    have sk: "same (ve_key e) k \<longleftrightarrow> same key k" if "e \<in> set ?es" "live e" "same (ve_key e) key" for e
      using same_trans [OF ok [OF that(1,2)] key k that(3)] same_trans [OF key ok [OF that(1,2)] k]
        same_sym [OF ok [OF that(1,2)] key that(3)] by blast
    have ei: "?es ! i \<in> set ?es" using i by simp
    show ?thesis
    proof (cases "same key k")
      case True
      have "vt_map same t' k = Some (ve_value (?es' ! i))"
        by (rule map_at [OF inv' k]) (use i m sk [OF ei m] True in \<open>auto simp: t'_def\<close>)
      with True i show ?thesis by (simp add: t'_def)
    next
      case False
      then have "(\<exists>e\<in>set ?es'. live e \<and> same (ve_key e) k \<and> ve_value e = w) \<longleftrightarrow>
          (\<exists>e\<in>set ?es. live e \<and> same (ve_key e) k \<and> ve_value e = w)" for w
        unfolding es' using sk by fastforce
      with False show ?thesis
        by (intro option_eqI) (simp add: map_iff [OF inv' k] map_iff [OF t k])
    qed
  qed
  show "vt_pairs t' = map (\<lambda>(k, w). (k, if same k key then v else w)) (vt_pairs t)"
    unfolding vt_pairs_def flt by simp
qed

text \<open>Adding a key that is not there.\<close>

lemma append_defined:
  assumes "inv t" "vt_chains t \<noteq> []" "length (vt_entries t) < vt_dataSize t"
  obtains t' where "append_entry t key v h = Some t'"
proof -
  obtain k where "k \<le> 30" "length (vt_chains t) = 2 ^ k" "vt_indexShift t = 32 - k"
    using assms by (auto simp: vt_inv_def vt_geometry_def)
  with assms that show ?thesis
    using indexFor_less [of k h] by (auto simp: append_entry_def Let_def)
qed

lemma append_spec:
  assumes t: "inv t" and key: "ok key" "hashf key = Some h"
    and new: "\<forall>e\<in>set (vt_entries t). live e \<longrightarrow> \<not> same (ve_key e) key"
    and add: "append_entry t key v h = Some t'"
  shows "inv t'" and "ok k \<Longrightarrow> vt_map same t' k = (if same key k then Some v else vt_map same t k)"
    and "vt_pairs t' = vt_pairs t @ [(key, v)]"
proof -
  have linked: "vt_linked t" using t by (simp add: vt_inv_def)
  note a = append_entry_linked [OF linked add]
  have def: "key \<noteq> VUndefined" by (rule ok_defined [OF key(1)])
  have ok: "ok (ve_key e)" if "e \<in> set (vt_entries t)" "live e" for e
    using t that by (auto simp: vt_inv_def vt_keys_ok_def)
  have sym: "\<not> same key (ve_key e)" if "e \<in> set (vt_entries t)" "live e" for e
    using same_sym [OF key(1) ok [OF that]] new that by auto
  have "vt_keys_ok hashf same ok (vt_entries t')"
    unfolding vt_keys_ok_def
  proof (intro conjI ballI allI impI)
    fix e assume "e \<in> set (vt_entries t')" "live e"
    then show "ok (ve_key e)" "hashf (ve_key e) = Some (ve_hash e)"
      using t key by (auto simp: a(2) vt_inv_def vt_keys_ok_def)
  next
    fix i j
    assume ij: "i < length (vt_entries t')" "j < length (vt_entries t')"
      and s: "live (vt_entries t' ! i) \<and> live (vt_entries t' ! j) \<and>
              same (ve_key (vt_entries t' ! i)) (ve_key (vt_entries t' ! j))"
    then show "i = j"
      using t new sym nth_mem [of i "vt_entries t"] nth_mem [of j "vt_entries t"]
      by (cases "i < length (vt_entries t)"; cases "j < length (vt_entries t)")
        (auto simp: a(2) nth_append vt_inv_def vt_keys_ok_def less_Suc_eq)
  qed
  then show inv': "inv t'"
    using t a(1,3-6) def by (simp add: vt_inv_def a(2))
  show "vt_map same t' k = (if same key k then Some v else vt_map same t k)" if k: "ok k"
  proof (cases "same key k")
    case True
    have "\<not> same (ve_key e) k" if "e \<in> set (vt_entries t)" "live e" for e
      using same_trans [OF ok [OF that] k key(1) _ same_sym [OF key(1) k True]] new that by blast
    then have "List.find (\<lambda>e. live e \<and> same (ve_key e) k) (vt_entries t) = None"
      by (auto simp: find_None_iff)
    with True def show ?thesis by (simp add: vt_map_def a(2) find_append)
  next
    case False
    then show ?thesis
      by (simp add: vt_map_def a(2) find_append split: option.splits)
  qed
  show "vt_pairs t' = vt_pairs t @ [(key, v)]" using def by (simp add: vt_pairs_def a(2))
qed

lemma ensure_cell:
  assumes t: "inv t" and room: "vt_room t" and mem: "vt_memory alloc t"
  obtains t' where
    "(if length (vt_entries t) = vt_dataSize t
      then rehash alloc t (if vt_liveCount t \<ge> vt_dataSize t * 3 div 4
                           then 2 * vt_indexSize t else vt_indexSize t)
      else Some (False, t)) = Some (False, t')"
    and "inv t'" "\<And>k. vt_map same t' k = vt_map same t k" "vt_pairs t' = vt_pairs t"
    and "length (vt_entries t') < vt_dataSize t'" "vt_chains t' \<noteq> []"
    and "\<forall>e\<in>set (vt_entries t). live e \<longrightarrow> \<not> same (ve_key e) key
         \<Longrightarrow> \<forall>e\<in>set (vt_entries t'). live e \<longrightarrow> \<not> same (ve_key e) key"
proof (cases "length (vt_entries t) = vt_dataSize t")
  case False
  with t have "length (vt_entries t) < vt_dataSize t" "vt_chains t \<noteq> []"
    by (auto simp: vt_inv_def vt_geometry_def)
  with False t show ?thesis by (intro that [of t]) auto
next
  case True
  then have full: "vt_dataSize t * 3 div 4 \<le> vt_liveCount t" using room by (simp add: vt_room_def)
  have live: "vt_liveCount t \<le> vt_dataSize t"
    using t True length_filter_le [of live "vt_entries t"] by (simp add: vt_inv_def)
  obtain k where k: "3 \<le> k" "k \<le> 30" "vt_next_size t = 2 ^ k" "vt_indexSize t \<noteq> 2 ^ k"
    "vt_dataSize t < 2 ^ k * 3 div 4"
  proof (cases "vt_indexSize t = 0")
    case True
    with t have "vt_dataSize t = 0" by (auto simp: vt_inv_def vt_geometry_def)
    with True that [of 3] show ?thesis by (simp add: vt_next_size_def)
  next
    case False
    with t obtain j where j: "3 \<le> j" "vt_indexSize t = 2 ^ j" "vt_dataSize t = 2 ^ j * 3 div 4"
      by (auto simp: vt_inv_def vt_geometry_def)
    have "vt_next_size t \<le> 2 ^ 30" using mem True by (simp add: vt_memory_def)
    then have "(2::nat) ^ Suc j \<le> 2 ^ 30" by (simp add: vt_next_size_def j)
    then have "Suc j \<le> 30" by (rule power_le_imp_le_exp [rotated]) simp
    moreover have "(2::nat) ^ 3 \<le> 2 ^ j" using j by (intro power_increasing) auto
    then have "(2::nat) ^ j * 3 div 4 < 2 ^ Suc j * 3 div 4" by simp
    ultimately show ?thesis using that [of "Suc j"] j by (simp add: vt_next_size_def)
  qed
  have size: "(if 2 * vt_indexSize t = 0 then 8 else 2 * vt_indexSize t) = 2 ^ k"
    using k(3) by (auto simp: vt_next_size_def split: if_splits)
  have al: "alloc (4 * 2 ^ k)" "alloc (40 * (2 ^ k * 3 div 4))"
    using mem True k(3) by (auto simp: vt_memory_def)
  obtain t' where t': "rehash alloc t (2 * vt_indexSize t) = Some (False, t')" "inv t'"
    "\<And>x. vt_map same t' x = vt_map same t x" "vt_pairs t' = vt_pairs t"
    "length (vt_entries t') = vt_liveCount t" "vt_dataSize t' = 2 ^ k * 3 div 4" "vt_chains t' \<noteq> []"
    by (rule rehash_grow_spec [OF t k(1,2) size k(4) _ al]) (use live k(5) in auto)
  have keys: "ve_key e \<in> fst ` set (vt_pairs t)" if "e \<in> set (vt_entries t')" "live e" for e
  proof -
    have "ve_key e \<in> fst ` set (vt_pairs t')" using that by (force simp: vt_pairs_def)
    then show ?thesis by (simp only: t'(4))
  qed
  show ?thesis
  proof (rule that [of t'])
    show "\<forall>e\<in>set (vt_entries t'). live e \<longrightarrow> \<not> same (ve_key e) key"
      if "\<forall>e\<in>set (vt_entries t). live e \<longrightarrow> \<not> same (ve_key e) key"
      using that keys by (fastforce simp: vt_pairs_def)
  qed (use True full t' live k(5) in auto)
qed

lemma inv_modCount [simp]:
  "inv (t\<lparr>vt_modCount := m\<rparr>) = inv t" "vt_map same (t\<lparr>vt_modCount := m\<rparr>) = vt_map same t"
  "vt_pairs (t\<lparr>vt_modCount := m\<rparr>) = vt_pairs t" "vt_room (t\<lparr>vt_modCount := m\<rparr>) = vt_room t"
  "vt_memory alloc (t\<lparr>vt_modCount := m\<rparr>) = vt_memory alloc t"
  by (simp_all add: vt_inv_def vt_geometry_def vt_linked_def vt_map_def vt_pairs_def vt_room_def
      vt_memory_def vt_next_size_def fun_eq_iff)

text \<open>
  Where the next key will find a free cell or a table due to double, and the memory is there,
  storing succeeds and is a map update; a new key goes to the end of the iteration order.
\<close>

lemma set_spec:
  assumes t: "inv t" and key: "ok key"
    and room: "vt_map same t key \<noteq> None \<or> vt_room t \<and> vt_memory alloc t"
  obtains t' where "valueTableSet alloc hashf eqf t key v = Some (False, vt_map same t key = None, t')"
    and "inv t'" and "\<And>k. ok k \<Longrightarrow> vt_map same t' k = (if same key k then Some v else vt_map same t k)"
    and "vt_pairs t' = (if vt_map same t key = None then vt_pairs t @ [(key, v)]
                        else map (\<lambda>(k, w). (k, if same k key then v else w)) (vt_pairs t))"
proof -
  note result = that
  obtain h where h: "hashf key = Some h" using hash_total [OF key] by blast
  have found: thesis
    if i: "vt_liveCount t > 0" "vt_lookup eqf t key h = Some (False, int i)" "i < length (vt_entries t)"
      "live (vt_entries t ! i)" "same (ve_key (vt_entries t ! i)) key" for i
  proof -
    have "vt_map same t key \<noteq> None" using map_at [OF t key i(3-5)] by simp
    with i h overwrite_spec [OF t key i(3-5), where v = v] show thesis
      by (intro result) (auto simp: valueTableSet_def)
  qed
  have absent: thesis
    if look: "(if vt_liveCount t > 0 then vt_lookup eqf t key h else Some (False, -1)) = Some (False, -1)"
      and new: "\<forall>e\<in>set (vt_entries t). live e \<longrightarrow> \<not> same (ve_key e) key"
  proof -
    have none: "vt_map same t key = None" by (rule map_none [OF new])
    define t1 where "t1 = t\<lparr>vt_modCount := vt_modCount t + 1\<rparr>"
    have t1: "inv t1" "vt_room t1" "vt_memory alloc t1" using t room none by (simp_all add: t1_def)
    obtain t2 where t2: "(if length (vt_entries t1) = vt_dataSize t1
        then rehash alloc t1 (if vt_liveCount t1 \<ge> vt_dataSize t1 * 3 div 4
                              then 2 * vt_indexSize t1 else vt_indexSize t1)
        else Some (False, t1)) = Some (False, t2)" "inv t2"
        "\<And>k. vt_map same t2 k = vt_map same t1 k" "vt_pairs t2 = vt_pairs t1"
        "length (vt_entries t2) < vt_dataSize t2" "vt_chains t2 \<noteq> []"
        "\<forall>e\<in>set (vt_entries t2). live e \<longrightarrow> \<not> same (ve_key e) key"
      by (rule ensure_cell [OF t1, of key]) (use new in \<open>auto simp: t1_def\<close>)
    obtain t3 where t3: "append_entry t2 key v h = Some t3"
      by (rule append_defined [OF t2(2,6,5)])
    have "valueTableSet alloc hashf eqf t key v = Some (False, True, t3)"
      unfolding valueTableSet_def h option.case look bind.bind_lunit Let_def t1_def [symmetric]
      using t2(1) t3 by simp
    with none append_spec [OF t2(2) key h t2(7) t3] t2(3,4) show thesis
      by (intro result [of t3]) (auto simp: t1_def)
  qed
  show thesis
  proof (cases "vt_liveCount t = 0")
    case True
    with absent live_0 [OF t True] show thesis by auto
  next
    case False
    show thesis
      by (rule lookup_spec [OF t key h chains_nonempty [OF t False]]) (use False found absent in auto)
  qed
qed

text \<open>Deleting a key leaves its entry as a dead link of the chain.\<close>

lemma bury_spec:
  assumes t: "inv t" and key: "ok key" and i: "i < length (vt_entries t)"
    and m: "live (vt_entries t ! i)" "same (ve_key (vt_entries t ! i)) key"
  defines "t' \<equiv> t\<lparr>vt_modCount := vt_modCount t + 1,
      vt_entries := (vt_entries t)[i := (vt_entries t ! i)\<lparr>ve_key := VUndefined\<rparr>],
      vt_liveCount := vt_liveCount t - 1\<rparr>"
  shows "inv t'" and "ok k \<Longrightarrow> vt_map same t' k = (if same key k then None else vt_map same t k)"
    and "vt_pairs t' = filter (\<lambda>(k, w). \<not> same k key) (vt_pairs t)"
proof -
  let ?es = "vt_entries t" and ?es' = "vt_entries t'"
  let ?f = "\<lambda>e. if live e \<and> same (ve_key e) key then e\<lparr>ve_key := VUndefined\<rparr> else e"
  have len: "length ?es' = length ?es" by (simp add: t'_def)
  have es': "?es' = map ?f ?es"
  proof (rule nth_equalityI)
    fix j
    assume "j < length ?es'"
    then have j: "j < length ?es" by (simp add: len)
    show "?es' ! j = map ?f ?es ! j"
      using match_unique [OF t key i m j] j m by (cases "j = i") (auto simp: t'_def)
  qed (simp add: len)
  have flt: "filter live ?es' = filter (\<lambda>e. \<not> same (ve_key e) key) (filter live ?es)"
  proof -
    have "filter live (map ?f xs) = filter (\<lambda>e. \<not> same (ve_key e) key) (filter live xs)" for xs
      by (induction xs) auto
    then show ?thesis by (simp only: es')
  qed
  have "length (filter live ?es') + 1 = length (filter live ?es)"
    using length_filter_update [OF i, of live "(?es ! i)\<lparr>ve_key := VUndefined\<rparr>"] m(1) by (simp add: t'_def)
  then have cnt: "vt_liveCount t' = length (filter live ?es')"
    using t by (simp add: vt_inv_def t'_def)
  have at: "?es' ! j = ?es ! j" if "j < length ?es" "live (?es' ! j)" for j
    using that i by (cases "j = i") (auto simp: t'_def)
  have "vt_keys_ok hashf same ok ?es'"
    using t unfolding vt_inv_def vt_keys_ok_def all_set_conv_all_nth len
    by (metis at)
  moreover have "vt_linked t'"
    by (rule vt_linked_update [of t "(?es ! i)\<lparr>ve_key := VUndefined\<rparr>" i]) (use t in \<open>auto simp: vt_inv_def t'_def\<close>)
  ultimately show inv': "inv t'"
    using t cnt len by (simp add: vt_inv_def vt_geometry_def) (simp add: t'_def)
  show "vt_pairs t' = filter (\<lambda>(k, w). \<not> same k key) (vt_pairs t)"
    unfolding vt_pairs_def flt by (simp add: filter_map comp_def)
  show "vt_map same t' k = (if same key k then None else vt_map same t k)" if k: "ok k"
  proof -
    have ok: "ok (ve_key e)" if "e \<in> set ?es" "live e" for e
      using t that by (auto simp: vt_inv_def vt_keys_ok_def)
    have sk: "same (ve_key e) key \<longleftrightarrow> same key k" if "e \<in> set ?es" "live e" "same (ve_key e) k" for e
      using same_trans [OF ok [OF that(1,2)] k key that(3)] same_trans [OF key k ok [OF that(1,2)]]
        same_sym [OF ok [OF that(1,2)] k that(3)] same_sym [OF key k] same_sym [OF k key]
        same_sym [OF ok [OF that(1,2)] key] same_sym [OF key ok [OF that(1,2)]]
        same_trans [OF key ok [OF that(1,2)] k _ that(3)] by blast
    have "e \<in> set ?es' \<and> live e \<longleftrightarrow> e \<in> set ?es \<and> live e \<and> \<not> same (ve_key e) key" for e
      using arg_cong [OF flt, of set] by auto
    then have "(\<exists>e\<in>set ?es'. live e \<and> same (ve_key e) k \<and> ve_value e = w) \<longleftrightarrow>
        \<not> same key k \<and> (\<exists>e\<in>set ?es. live e \<and> same (ve_key e) k \<and> ve_value e = w)" for w
      using sk by metis
    then show ?thesis
      by (intro option_eqI) (simp add: map_iff [OF inv' k] map_iff [OF t k])
  qed
qed

lemma delete_spec:
  assumes t: "inv t" and key: "ok key"
  obtains t' where "valueTableDelete hashf eqf t key = Some (False, vt_map same t key \<noteq> None, t')"
    and "inv t'" and "\<And>k. ok k \<Longrightarrow> vt_map same t' k = (if same key k then None else vt_map same t k)"
    and "vt_pairs t' = filter (\<lambda>(k, w). \<not> same k key) (vt_pairs t)"
proof -
  note result = that
  have nop: thesis
    if new: "\<forall>e\<in>set (vt_entries t). live e \<longrightarrow> \<not> same (ve_key e) key"
      and del: "valueTableDelete hashf eqf t key = Some (False, False, t)"
  proof (rule result)
    have none: "vt_map same t key = None" by (rule map_none [OF new])
    show "valueTableDelete hashf eqf t key = Some (False, vt_map same t key \<noteq> None, t)"
      using del none by simp
    show "vt_map same t k = (if same key k then None else vt_map same t k)" if k: "ok k" for k
    proof (cases "same key k")
      case True
      have "\<not> same (ve_key e) k" if e: "e \<in> set (vt_entries t)" "live e" for e
      proof
        assume s: "same (ve_key e) k"
        have "ok (ve_key e)" using t e by (auto simp: vt_inv_def vt_keys_ok_def)
        from same_trans [OF this k key s same_sym [OF key k True]] new e show False by blast
      qed
      with True show ?thesis by (simp add: map_none)
    qed simp
    show "vt_pairs t = filter (\<lambda>(k, w). \<not> same k key) (vt_pairs t)"
      using new by (intro filter_True [symmetric]) (auto simp: vt_pairs_def)
  qed (rule t)
  show thesis
  proof (cases "vt_liveCount t = 0")
    case True
    with live_0 [OF t True] show thesis by (intro nop) (auto simp: valueTableDelete_def)
  next
    case False
    obtain h where h: "hashf key = Some h" using hash_total [OF key] by blast
    show thesis
    proof (rule lookup_spec [OF t key h chains_nonempty [OF t False]])
      fix i
      assume look: "vt_lookup eqf t key h = Some (False, int i)"
        and i: "i < length (vt_entries t)" "live (vt_entries t ! i)" "same (ve_key (vt_entries t ! i)) key"
      have "vt_map same t key \<noteq> None" using map_at [OF t key i] by simp
      then show thesis
        using False h look by (intro result [OF _ bury_spec [OF t key i]]) (simp_all add: valueTableDelete_def)
    next
      assume "vt_lookup eqf t key h = Some (False, -1)"
        and "\<forall>e\<in>set (vt_entries t). live e \<longrightarrow> \<not> same (ve_key e) key"
      then show thesis using False h by (intro nop) (auto simp: valueTableDelete_def)
    qed
  qed
qed

end

section \<open>Iteration\<close>

lemma next_live_cases:
  obtains "next_live i es = (-1, None)" "filter live es = []"
  | j where "j < length es" "next_live i es = (int (i + Suc j), Some (es ! j))"
      "filter live es = es ! j # filter live (drop (Suc j) es)"
proof (induction es arbitrary: i thesis)
  case Nil
  then show ?case by simp
next
  case (Cons e es)
  show ?case
  proof (cases "live e")
    case True
    with Cons.prems(2) [of 0] show ?thesis by simp
  next
    case False
    show ?thesis
    proof (rule Cons.IH [of "Suc i"])
      assume "next_live (Suc i) es = (- 1, None)" "filter live es = []"
      with False Cons.prems(1) show thesis by simp
    next
      fix j
      assume "j < length es" "next_live (Suc i) es = (int (Suc i + Suc j), Some (es ! j))"
        "filter live es = es ! j # filter live (drop (Suc j) es)"
      with False Cons.prems(2) [of "Suc j"] show thesis by simp
    qed
  qed
qed

text \<open>Starting anywhere, the iteration steps through the live entries in insertion order.\<close>

lemma valueTableGetNext_cases:
  assumes "0 \<le> start"
  obtains "valueTableGetNext t start = (-1, None)" "filter live (drop (nat start) (vt_entries t)) = []"
  | n e where "valueTableGetNext t start = (n, Some e)" "start < n"
      "filter live (drop (nat start) (vt_entries t)) = e # filter live (drop (nat n) (vt_entries t))"
proof (rule next_live_cases [of "nat start" "drop (nat start) (vt_entries t)"])
  assume "next_live (nat start) (drop (nat start) (vt_entries t)) = (- 1, None)"
    "filter live (drop (nat start) (vt_entries t)) = []"
  with assms that(1) show thesis by (simp add: valueTableGetNext_def)
next
  fix j
  let ?es = "drop (nat start) (vt_entries t)"
  assume j: "next_live (nat start) ?es = (int (nat start + Suc j), Some (?es ! j))"
    "filter live ?es = ?es ! j # filter live (drop (Suc j) ?es)"
  have "nat (int (nat start + Suc j)) = Suc j + nat start" by (simp only: nat_int add.commute)
  then have "drop (Suc j) ?es = drop (nat (int (nat start + Suc j))) (vt_entries t)"
    by (simp add: drop_drop)
  with assms j that(2) [of "int (nat start + Suc j)" "?es ! j"] show thesis
    by (simp add: valueTableGetNext_def)
qed

lemma next_live_bound: "next_live i es = (m, Some e) \<Longrightarrow> m \<le> int (i + length es)"
  by (induction i es rule: next_live.induct) (auto split: if_splits)

lemma valueTableGetNext_bound:
  assumes "valueTableGetNext t start = (m, Some e)"
  shows "m \<le> int (length (vt_entries t))"
proof -
  have "next_live (nat start) (drop (nat start) (vt_entries t)) = (m, Some e)"
    using assms by (auto simp: valueTableGetNext_def split: if_splits)
  moreover have "nat start < length (vt_entries t)"
  proof (rule ccontr)
    assume "\<not> nat start < length (vt_entries t)"
    with calculation show False by simp
  qed
  ultimately show ?thesis using next_live_bound by fastforce
qed

text \<open>A full table with room for fewer live keys than three quarters is rehashed in place.\<close>

lemma rehash_in_place_undefined:
  "\<lbrakk>vt_indexSize t \<noteq> 0; vt_dataSize t \<noteq> 0\<rbrakk> \<Longrightarrow> rehash alloc t (vt_indexSize t) = None"
  by (simp add: rehash_def)

end
