(* ===== verification/ValueArrays.thy ===== *)
theory ValueArrays
  imports Values
begin

text \<open>
  The growable array of values of \<open>ValueArray.h\<close> and \<open>ValueArray.c\<close>.
  \<open>va_values\<close> are the first \<open>count\<close> values.  \<open>va_slots\<close> is the number
  of values the block behind \<open>values\<close> can really hold; the program tracks it in the field
  \<open>capacity\<close> only, and the two can differ.  A store outside the block has no defined
  result (\<open>None\<close>).  \<open>alloc n\<close> says whether the allocator provides room for
  \<open>n\<close> values.
\<close>

record value_array =
  va_capacity :: nat
  va_slots :: nat
  va_values :: "val list"

section \<open>Operations\<close>

definition initValueArray :: value_array where
  "initValueArray = \<lparr>va_capacity = 0, va_slots = 0, va_values = []\<rparr>"

text \<open>\<open>size\<close> 0 fails an assertion.\<close>

definition initSizedValueArray :: "(nat \<Rightarrow> bool) \<Rightarrow> nat \<Rightarrow> (bool \<times> value_array) option" where
  "initSizedValueArray alloc sz =
     (if sz = 0 then None
      else if \<not> alloc sz then Some (False, initValueArray)
      else Some (True, \<lparr>va_capacity = sz, va_slots = sz, va_values = []\<rparr>))"

definition initEmptyValueArray :: "(nat \<Rightarrow> bool) \<Rightarrow> nat \<Rightarrow> bool \<times> value_array" where
  "initEmptyValueArray alloc sz =
     (if sz = 0 then (True, initValueArray)
      else if \<not> alloc sz then (False, initValueArray)
      else (True, \<lparr>va_capacity = sz, va_slots = sz, va_values = replicate sz VNil\<rparr>))"

text \<open>The capacity is raised before the new block is requested and stays raised if it is refused.\<close>

definition valueArrayPush :: "(nat \<Rightarrow> bool) \<Rightarrow> value_array \<Rightarrow> val \<Rightarrow> (bool \<times> value_array) option" where
  "valueArrayPush alloc a v =
     (let count = length (va_values a);
          grow = va_capacity a < count + 1;
          capacity = (if grow then grow_capacity (va_capacity a) else va_capacity a);
          a1 = a\<lparr>va_capacity := capacity\<rparr>
      in if grow \<and> \<not> alloc capacity then Some (False, a1)
         else let a2 = (if grow then a1\<lparr>va_slots := capacity\<rparr> else a1)
              in if va_slots a2 \<le> count then None
                 else Some (True, a2\<lparr>va_values := va_values a2 @ [v]\<rparr>))"

text \<open>Popping an empty array wraps the unsigned count around.\<close>

definition valueArrayPopN :: "value_array \<Rightarrow> nat \<Rightarrow> value_array option" where
  "valueArrayPopN a n =
     (if length (va_values a) < n then None
      else Some (a\<lparr>va_values := take (length (va_values a) - n) (va_values a)\<rparr>))"

definition valueArrayPop :: "value_array \<Rightarrow> value_array option" where
  "valueArrayPop a = valueArrayPopN a 1"

definition va_get :: "value_array \<Rightarrow> nat \<Rightarrow> val option" where
  "va_get a i = nth_opt (va_values a) i"

section \<open>Invariant and specifications\<close>

definition va_ok :: "value_array \<Rightarrow> bool" where
  "va_ok a \<longleftrightarrow> va_slots a = va_capacity a \<and> length (va_values a) \<le> va_capacity a"

lemma grow_capacity_greater [simp]: "n < grow_capacity n"
  by (simp add: grow_capacity_def)

lemma va_ok_init [simp]: "va_ok initValueArray" "va_values initValueArray = []"
  by (simp_all add: va_ok_def initValueArray_def)

lemma initEmptyValueArray_ok [simp]: "va_ok (snd (initEmptyValueArray alloc n))"
  by (auto simp: initEmptyValueArray_def va_ok_def initValueArray_def)

lemma valueArrayPush_spec:
  assumes "va_ok a"
  obtains a' where "valueArrayPush alloc a v = Some (True, a')" "va_ok a'" "va_values a' = va_values a @ [v]"
  | a' where "valueArrayPush alloc a v = Some (False, a')" "\<not> alloc (grow_capacity (va_capacity a))"
      "length (va_values a) = va_capacity a"
      "a' = a\<lparr>va_capacity := grow_capacity (va_capacity a)\<rparr>"
proof (cases "length (va_values a) = va_capacity a")
  case True
  with assms that show thesis
    by (cases "alloc (grow_capacity (va_capacity a))")
      (auto simp: valueArrayPush_def va_ok_def Let_def Suc_le_eq not_le)
next
  case False
  with assms that(1) show thesis
    by (auto simp: valueArrayPush_def va_ok_def Let_def)
qed

lemma valueArrayPush_no_fault: "va_ok a \<Longrightarrow> valueArrayPush alloc a v \<noteq> None"
  by (rule valueArrayPush_spec) auto

lemma push_popN:
  "\<lbrakk>va_ok a; valueArrayPush alloc a v = Some (True, a')\<rbrakk>
   \<Longrightarrow> map_option va_values (valueArrayPop a') = Some (va_values a)"
  by (rule valueArrayPush_spec [of a alloc v]) (auto simp: valueArrayPop_def valueArrayPopN_def)

section \<open>Properties\<close>

text \<open>
  pushing onto a consistent value array always returns.  If it reports success the value
  is the new last element and capacity and block agree again; if it reports failure the allocator
  refused the grown block and the elements are as before.
\<close>

theorem valueArrayPush_correct:
  assumes "va_ok a"
  shows "\<exists>ok a'. valueArrayPush alloc a v = Some (ok, a') \<and>
           (if ok then va_ok a' \<and> va_values a' = va_values a @ [v]
            else \<not> alloc (grow_capacity (va_capacity a)) \<and> va_values a' = va_values a)"
  by (rule valueArrayPush_spec [OF assms, of alloc v]) auto

text \<open>
  A refused growth leaves the raised capacity behind.  After a push onto a full array has
  reported failure, the next push takes the old block for a larger one and stores behind its end.
\<close>

theorem valueArrayPush_after_failure:
  assumes "va_ok a" and "length (va_values a) = va_capacity a"
    and "\<not> alloc (grow_capacity (va_capacity a))"
  shows "\<exists>a'. valueArrayPush alloc a v = Some (False, a') \<and> (\<forall>alloc' w. valueArrayPush alloc' a' w = None)"
proof -
  have "valueArrayPush alloc a v = Some (False, a\<lparr>va_capacity := grow_capacity (va_capacity a)\<rparr>)"
    using assms by (simp add: valueArrayPush_def Let_def)
  moreover have "valueArrayPush alloc' (a\<lparr>va_capacity := grow_capacity (va_capacity a)\<rparr>) w = None" for alloc' w
  proof -
    have "\<not> grow_capacity (va_capacity a) < Suc (va_capacity a)"
      using grow_capacity_greater [of "va_capacity a"] by linarith
    then show ?thesis using assms(1,2) by (simp add: valueArrayPush_def Let_def va_ok_def)
  qed
  ultimately show ?thesis by blast
qed

lemma valueArrayPush_after_failure_witness:
  "\<exists>a'. valueArrayPush (\<lambda>n. n \<le> 8) \<lparr>va_capacity = 8, va_slots = 8, va_values = replicate 8 VNil\<rparr> VNil
          = Some (False, a') \<and> valueArrayPush (\<lambda>_. True) a' VNil = None"
  using valueArrayPush_after_failure
    [of "\<lparr>va_capacity = 8, va_slots = 8, va_values = replicate 8 VNil\<rparr>" "\<lambda>n. n \<le> 8" VNil]
  by (auto simp: va_ok_def grow_capacity_def)

end
