(* ===== verification/Chunks.thy ===== *)
theory Chunks
  imports ValueArrays
begin

text \<open>
  Bytecode chunks (\<open>chunk.h\<close>, \<open>chunk.c\<close>): the code, the table of constants and
  the run-length encoded line numbers.  As for value arrays, \<open>ch_slots\<close> and
  \<open>ch_lineSlots\<close> are the sizes of the blocks really held, which the program tracks in
  \<open>capacity\<close> and \<open>lineCapacity\<close>.  \<open>alloc n\<close> says whether the allocator
  provides a block of \<open>n\<close> bytes.
\<close>

record line_start =
  ls_offset :: int
  ls_line :: int

record chunk =
  ch_code :: "byte list"
  ch_capacity :: nat
  ch_slots :: nat
  ch_constants :: value_array
  ch_fileName :: "addr option"
  ch_lines :: "line_start list"
  ch_lineCapacity :: nat
  ch_lineSlots :: nat

section \<open>Operations\<close>

definition initChunk :: "addr option \<Rightarrow> chunk" where
  "initChunk fileName = \<lparr>ch_code = [], ch_capacity = 0, ch_slots = 0, ch_constants = initValueArray,
     ch_fileName = fileName, ch_lines = [], ch_lineCapacity = 0, ch_lineSlots = 0\<rparr>"

text \<open>
  The two halves of \<open>writeChunk\<close>: the bytes, then the line.  The flag says that an
  allocation was refused and \<open>compileError\<close> is called.
\<close>

definition write_code :: "(nat \<Rightarrow> bool) \<Rightarrow> chunk \<Rightarrow> byte list \<Rightarrow> (bool \<times> chunk) option" where
  "write_code alloc c data =
     (let count = length (ch_code c); len = length data;
          grow = ch_capacity c < count + len;
          capacity = (if grow then grow_capacity (ch_capacity c) else ch_capacity c);
          c1 = c\<lparr>ch_capacity := capacity\<rparr>
      in if grow \<and> \<not> alloc capacity then Some (True, c1)
         else let c2 = (if grow then c1\<lparr>ch_slots := capacity\<rparr> else c1)
              in if ch_slots c2 < count + len then None
                 else Some (False, c2\<lparr>ch_code := ch_code c2 @ data\<rparr>))"

definition write_line :: "(nat \<Rightarrow> bool) \<Rightarrow> chunk \<Rightarrow> int \<Rightarrow> (bool \<times> chunk) option" where
  "write_line alloc c line =
     (if ch_lines c \<noteq> [] \<and> ls_line (last (ch_lines c)) = line then Some (False, c)
      else let lineCount = length (ch_lines c);
               grow = ch_lineCapacity c < lineCount + 1;
               capacity = (if grow then grow_capacity (ch_lineCapacity c) else ch_lineCapacity c);
               c1 = c\<lparr>ch_lineCapacity := capacity\<rparr>
           in if grow \<and> \<not> alloc (8 * capacity) then Some (True, c1)
              else let c2 = (if grow then c1\<lparr>ch_lineSlots := capacity\<rparr> else c1)
                   in if ch_lineSlots c2 \<le> lineCount then None
                      else Some (False, c2\<lparr>ch_lines := ch_lines c2 @
                             [\<lparr>ls_offset = int (length (ch_code c2)) - 1, ls_line = line\<rparr>]\<rparr>))"

definition writeChunk :: "(nat \<Rightarrow> bool) \<Rightarrow> chunk \<Rightarrow> byte list \<Rightarrow> int \<Rightarrow> (bool \<times> chunk) option" where
  "writeChunk alloc c data line =
     do { (failed, c1) \<leftarrow> write_code alloc c data;
          if failed then Some (True, c1) else write_line alloc c1 line }"

text \<open>The index of the new constant, or \<open>-1\<close>.\<close>

definition addConstant :: "(nat \<Rightarrow> bool) \<Rightarrow> chunk \<Rightarrow> val \<Rightarrow> (int \<times> chunk) option" where
  "addConstant alloc c v =
     do { (res, a) \<leftarrow> valueArrayPush (\<lambda>n. alloc (16 * n)) (ch_constants c) v;
          Some (if res then int (length (va_values a)) - 1 else -1, c\<lparr>ch_constants := a\<rparr>) }"

text \<open>The binary search of \<open>getLine\<close>; a read outside the array of line starts is undefined.\<close>

partial_function (option) line_search :: "line_start list \<Rightarrow> int \<Rightarrow> int \<Rightarrow> int \<Rightarrow> int option" where
  "line_search lines instruction start end' =
     (let mid = cdiv (start + end') 2; n = int (length lines)
      in if mid < 0 \<or> n \<le> mid then None
         else if instruction < ls_offset (lines ! nat mid)
         then line_search lines instruction start (mid - 1)
         else if mid = n - 1 \<or> instruction < ls_offset (lines ! nat (mid + 1))
         then Some (ls_line (lines ! nat mid))
         else line_search lines instruction (mid + 1) end')"

declare line_search.simps [code]

definition getLine :: "chunk \<Rightarrow> int \<Rightarrow> int option" where
  "getLine c instruction = line_search (ch_lines c) instruction 0 (int (length (ch_lines c)) - 1)"

section \<open>Line numbers\<close>

text \<open>The line that covers an offset: the one of the last run starting at or before it.\<close>

definition line_at :: "line_start list \<Rightarrow> int \<Rightarrow> int option" where
  "line_at lines i = (case filter (\<lambda>l. ls_offset l \<le> i) lines of [] \<Rightarrow> None | xs \<Rightarrow> Some (ls_line (last xs)))"

definition lines_sorted :: "line_start list \<Rightarrow> bool" where
  "lines_sorted lines \<longleftrightarrow> sorted_wrt (\<lambda>a b. ls_offset a < ls_offset b) lines"

lemma lines_sorted_nth:
  "\<lbrakk>lines_sorted lines; i < j; j < length lines\<rbrakk> \<Longrightarrow> ls_offset (lines ! i) < ls_offset (lines ! j)"
  by (simp add: lines_sorted_def sorted_wrt_iff_nth_less)

lemma line_at_Nil [simp]: "line_at [] i = None"
  by (simp add: line_at_def)

lemma line_at_last: "filter (\<lambda>l. ls_offset l \<le> i) lines = xs @ [l] \<Longrightarrow> line_at lines i = Some (ls_line l)"
  by (cases xs) (simp_all add: line_at_def)

lemma line_at_snoc:
  "line_at (lines @ [l]) i = (if ls_offset l \<le> i then Some (ls_line l) else line_at lines i)"
proof (cases "ls_offset l \<le> i")
  case True
  then show ?thesis by (simp add: line_at_last [of i _ "filter (\<lambda>l. ls_offset l \<le> i) lines"])
qed (simp add: line_at_def)

lemma line_at_split:
  assumes "lines_sorted lines" "m < length lines" "ls_offset (lines ! m) \<le> i"
    and "m + 1 = length lines \<or> i < ls_offset (lines ! (m + 1))"
  shows "line_at lines i = Some (ls_line (lines ! m))"
proof -
  have drop: "filter (\<lambda>l. ls_offset l \<le> i) (drop (m + 1) lines) = []"
  proof -
    have "i < ls_offset (lines ! j)" if "m + 1 \<le> j" "j < length lines" for j
      using assms(4) that lines_sorted_nth [OF assms(1), of "m + 1" j] by (cases "j = m + 1") auto
    then show ?thesis by (auto simp: filter_empty_conv in_set_conv_nth not_le)
  qed
  have "lines = take m lines @ lines ! m # drop (m + 1) lines"
    using assms(2) by (simp add: Cons_nth_drop_Suc)
  then have "filter (\<lambda>l. ls_offset l \<le> i) lines =
      filter (\<lambda>l. ls_offset l \<le> i) (take m lines) @ [lines ! m]"
    using drop assms(3) by (metis append.right_neutral filter.simps(2) filter_append)
  then show ?thesis by (rule line_at_last)
qed

lemma line_at_before:
  assumes "lines_sorted lines" "lines \<noteq> []" "i < ls_offset (lines ! 0)"
  shows "line_at lines i = None"
proof -
  have "i < ls_offset (lines ! j)" if "j < length lines" for j
    using assms that lines_sorted_nth [OF assms(1), of 0 j] by (cases j) auto
  then have "filter (\<lambda>l. ls_offset l \<le> i) lines = []"
    by (auto simp: filter_empty_conv in_set_conv_nth not_le)
  then show ?thesis by (simp add: line_at_def)
qed

lemma line_search_found:
  assumes sorted: "lines_sorted lines" and "0 \<le> s" "s \<le> e" "e < int (length lines)"
    and low: "ls_offset (lines ! nat s) \<le> i"
    and high: "e + 1 = int (length lines) \<or> i < ls_offset (lines ! nat (e + 1))"
  shows "line_search lines i s e = line_at lines i"
  using assms(2-)
proof (induction "nat (e - s)" arbitrary: s e rule: less_induct)
  case less
  define mid where "mid = (s + e) div 2"
  have mid: "s \<le> mid" "mid \<le> e" "0 \<le> mid" using less.prems by (auto simp: mid_def)
  have c: "cdiv (s + e) 2 = mid" using less.prems by (simp add: mid_def)
  note unfold = line_search.simps [of lines i s e, unfolded c Let_def]
  show ?case
  proof (cases "i < ls_offset (lines ! nat mid)")
    case True
    then have "s < mid" using less.prems(4) mid by (cases "s = mid") auto
    moreover have "line_search lines i s e = line_search lines i s (mid - 1)"
      using True mid less.prems by (subst unfold) simp
    ultimately show ?thesis
      using less.hyps [of "mid - 1" s] less.prems mid True by simp
  next
    case False
    note ge = this
    show ?thesis
    proof (cases "mid = int (length lines) - 1 \<or> i < ls_offset (lines ! nat (mid + 1))")
      case True
      have "nat (mid + 1) = nat mid + 1" using mid by simp
      with True have "nat mid + 1 = length lines \<or> i < ls_offset (lines ! (nat mid + 1))" using mid by auto
      then have "line_at lines i = Some (ls_line (lines ! nat mid))"
        using line_at_split [OF sorted, of "nat mid" i] ge mid less.prems by simp
      moreover have "line_search lines i s e = Some (ls_line (lines ! nat mid))"
        using True ge mid less.prems by (subst unfold) simp
      ultimately show ?thesis by simp
    next
      case False
      then have lt: "mid < e" using less.prems(5) mid by (cases "mid = e") auto
      have "line_search lines i s e = line_search lines i (mid + 1) e"
        using False ge mid less.prems by (subst unfold) simp
      moreover have "nat (e - (mid + 1)) < nat (e - s)" using mid lt by simp
      ultimately show ?thesis
        using less.hyps [of e "mid + 1"] less.prems mid False lt by simp
    qed
  qed
qed

text \<open>Only an offset at or behind the first run can be found: below it the search does not end.\<close>

lemma line_search_sound:
  "line_search lines i s e = Some r \<Longrightarrow>
     \<exists>m<length lines. ls_offset (lines ! m) \<le> i"
proof (induction arbitrary: rule: line_search.raw_induct [rotated, consumes 1, case_names step])
  case (step search lines i s e r)
  let ?mid = "cdiv (s + e) 2"
  have m: "\<not> (?mid < 0 \<or> int (length lines) \<le> ?mid)"
    using step(2) by (auto simp: Let_def split: if_splits)
  then have lt: "nat ?mid < length lines" by auto
  show ?case
  proof (cases "i < ls_offset (lines ! nat ?mid)")
    case True
    with step m show ?thesis by (simp add: Let_def)
  next
    case False
    then show ?thesis using lt by (intro exI [of _ "nat ?mid"]) simp
  qed
qed

lemma getLine_spec:
  assumes "lines_sorted (ch_lines c)"
  shows "getLine c i = line_at (ch_lines c) i"
proof (cases "ch_lines c = [] \<or> i < ls_offset (ch_lines c ! 0)")
  case True
  have "getLine c i \<noteq> Some r" for r
  proof
    assume "getLine c i = Some r"
    then obtain m where m: "m < length (ch_lines c)" "ls_offset (ch_lines c ! m) \<le> i"
      using line_search_sound unfolding getLine_def by blast
    then have "ls_offset (ch_lines c ! 0) \<le> i"
      using lines_sorted_nth [OF assms, of 0 m] by (cases m) auto
    with True m show False by auto
  qed
  moreover have "line_at (ch_lines c) i = None"
    using True line_at_before [OF assms] by (cases "ch_lines c = []") auto
  ultimately show ?thesis by (cases "getLine c i") auto
next
  case False
  then have "0 < length (ch_lines c)" by simp
  with False show ?thesis
    unfolding getLine_def by (intro line_search_found [OF assms]) auto
qed

section \<open>Writing\<close>

definition chunk_ok :: "chunk \<Rightarrow> bool" where
  "chunk_ok c \<longleftrightarrow>
     ch_slots c = ch_capacity c \<and> length (ch_code c) \<le> ch_capacity c \<and>
     (ch_capacity c = 0 \<or> 8 \<le> ch_capacity c) \<and>
     ch_lineSlots c = ch_lineCapacity c \<and> length (ch_lines c) \<le> ch_lineCapacity c \<and>
     lines_sorted (ch_lines c) \<and>
     (\<forall>l\<in>set (ch_lines c). 0 \<le> ls_offset l \<and> ls_offset l < int (length (ch_code c))) \<and>
     va_ok (ch_constants c)"

lemma chunk_ok_init [simp]: "chunk_ok (initChunk f)"
  by (simp add: chunk_ok_def initChunk_def lines_sorted_def)

lemma write_code_spec:
  assumes "chunk_ok c" and "length data \<le> 8"
  obtains c' where "write_code alloc c data = Some (True, c')" "ch_code c' = ch_code c"
      "ch_lines c' = ch_lines c" "\<not> alloc (grow_capacity (ch_capacity c))"
  | c' where "write_code alloc c data = Some (False, c')" "chunk_ok c'"
      "ch_code c' = ch_code c @ data" "ch_lines c' = ch_lines c" "ch_constants c' = ch_constants c"
      "ch_lineCapacity c' = ch_lineCapacity c"
proof (cases "ch_capacity c < length (ch_code c) + length data")
  case True
  let ?n = "grow_capacity (ch_capacity c)"
  have fits: "length (ch_code c) + length data \<le> ?n"
    using assms by (auto simp: grow_capacity_def chunk_ok_def)
  show thesis
  proof (cases "alloc ?n")
    case False
    with True that(1) show thesis by (auto simp: write_code_def Let_def)
  next
    case alloc: True
    have "write_code alloc c data =
        Some (False, c\<lparr>ch_capacity := ?n, ch_slots := ?n, ch_code := ch_code c @ data\<rparr>)"
      using True alloc fits by (simp add: write_code_def Let_def)
    moreover have "8 \<le> ?n" by (simp add: grow_capacity_def)
    ultimately show thesis
      using that(2) assms fits by (fastforce simp: chunk_ok_def)
  qed
next
  case False
  then have "write_code alloc c data = Some (False, c\<lparr>ch_code := ch_code c @ data\<rparr>)"
    using assms by (simp add: write_code_def Let_def chunk_ok_def)
  then show thesis
    using that(2) assms False by (fastforce simp: chunk_ok_def)
qed

lemma write_line_spec:
  assumes ok: "chunk_ok c" and "old": "\<forall>l\<in>set (ch_lines c). ls_offset l < int (length (ch_code c)) - 1"
    and ne: "ch_code c \<noteq> []"
  obtains c' where "write_line alloc c line = Some (True, c')" "ch_code c' = ch_code c"
      "ch_lines c' = ch_lines c" "\<not> alloc (8 * grow_capacity (ch_lineCapacity c))"
  | c' where "write_line alloc c line = Some (False, c')" "chunk_ok c'" "ch_code c' = ch_code c"
      "ch_constants c' = ch_constants c"
      "\<And>i. line_at (ch_lines c') i =
             (if i < int (length (ch_code c)) - 1 then line_at (ch_lines c) i else Some line)"
proof (cases "ch_lines c \<noteq> [] \<and> ls_line (last (ch_lines c)) = line")
  case True
  have "line_at (ch_lines c) i =
      (if i < int (length (ch_code c)) - 1 then line_at (ch_lines c) i else Some line)" for i
  proof (cases "i < int (length (ch_code c)) - 1")
    case False
    from True obtain xs l where xs: "ch_lines c = xs @ [l]" "ls_line l = line"
      by (cases "ch_lines c" rule: rev_cases) auto
    with "old" False show ?thesis by (simp add: line_at_snoc)
  qed simp
  with True ok show thesis by (intro that(2) [of c]) (auto simp: write_line_def)
next
  case False
  let ?l = "\<lparr>ls_offset = int (length (ch_code c)) - 1, ls_line = line\<rparr>"
  let ?grow = "ch_lineCapacity c < length (ch_lines c) + 1"
  let ?n = "if ?grow then grow_capacity (ch_lineCapacity c) else ch_lineCapacity c"
  show thesis
  proof (cases "?grow \<and> \<not> alloc (8 * ?n)")
    case True
    with False that(1) show thesis by (auto simp: write_line_def Let_def)
  next
    case mem: False
    have n: "length (ch_lines c) < ?n"
      using ok grow_capacity_greater [of "ch_lineCapacity c"]
      by (auto simp: chunk_ok_def intro: le_less_trans)
    let ?c = "c\<lparr>ch_lineCapacity := ?n, ch_lineSlots := ?n, ch_lines := ch_lines c @ [?l]\<rparr>"
    have "write_line alloc c line = Some (False, ?c)"
      using False mem n ok by (auto simp: write_line_def Let_def chunk_ok_def)
    moreover have "lines_sorted (ch_lines c @ [?l])"
      using ok "old" by (auto simp: lines_sorted_def sorted_wrt_append chunk_ok_def)
    moreover have "chunk_ok ?c"
      using ok n \<open>lines_sorted _\<close> ne by (auto simp: chunk_ok_def Suc_le_eq)
    ultimately show thesis by (intro that(2) [of ?c]) (auto simp: line_at_snoc)
  qed
qed

lemma writeChunk_spec:
  assumes ok: "chunk_ok c" and data: "data \<noteq> []" "length data \<le> 8"
  obtains c' where "writeChunk alloc c data line = Some (True, c')"
      "\<not> (\<forall>n \<le> 8 * grow_capacity (ch_capacity c) + 8 * grow_capacity (ch_lineCapacity c). alloc n)"
  | c' where "writeChunk alloc c data line = Some (False, c')" "chunk_ok c'"
      "ch_code c' = ch_code c @ data" "ch_constants c' = ch_constants c"
      "\<And>i. getLine c' i = (if i < int (length (ch_code c) + length data) - 1 then getLine c i else Some line)"
proof -
  note failed = that(1) and wrote = that(2)
  show thesis
  proof (rule write_code_spec [OF ok data(2), of alloc])
    fix c1 assume "write_code alloc c data = Some (True, c1)" "\<not> alloc (grow_capacity (ch_capacity c))"
    then show thesis
      by (intro failed [of c1]) (auto simp: writeChunk_def intro!: exI [of _ "grow_capacity (ch_capacity c)"])
  next
    fix c1 assume c1: "write_code alloc c data = Some (False, c1)" "chunk_ok c1"
      "ch_code c1 = ch_code c @ data" "ch_lines c1 = ch_lines c" "ch_constants c1 = ch_constants c"
      "ch_lineCapacity c1 = ch_lineCapacity c"
    have "0 < length data" using data by simp
    then have "int (length (ch_code c)) \<le> int (length (ch_code c1)) - 1" using c1(3) by simp
    then have "old": "\<forall>l\<in>set (ch_lines c1). ls_offset l < int (length (ch_code c1)) - 1"
      using ok c1(4) unfolding chunk_ok_def by (metis order.strict_trans2)
    have ne: "ch_code c1 \<noteq> []" using c1(3) data by simp
    have sorted: "lines_sorted (ch_lines c)" using ok by (simp add: chunk_ok_def)
    show thesis
    proof (rule write_line_spec [OF c1(2) "old" ne, of alloc line])
      fix c2 assume "write_line alloc c1 line = Some (True, c2)"
        "\<not> alloc (8 * grow_capacity (ch_lineCapacity c1))"
      then show thesis
        using c1 by (intro failed [of c2])
          (auto simp: writeChunk_def intro!: exI [of _ "8 * grow_capacity (ch_lineCapacity c)"])
    next
      fix c2 assume c2: "write_line alloc c1 line = Some (False, c2)" "chunk_ok c2"
        "ch_code c2 = ch_code c1" "ch_constants c2 = ch_constants c1"
        "\<And>i. line_at (ch_lines c2) i =
             (if i < int (length (ch_code c1)) - 1 then line_at (ch_lines c1) i else Some line)"
      have "lines_sorted (ch_lines c2)" using c2(2) by (simp add: chunk_ok_def)
      then have "getLine c2 i =
          (if i < int (length (ch_code c) + length data) - 1 then getLine c i else Some line)" for i
        using c2(5) [of i] c1(3,4) by (simp add: getLine_spec [OF sorted] getLine_spec)
      with c1 c2 show thesis by (intro wrote [of c2]) (auto simp: writeChunk_def)
    qed
  qed
qed

section \<open>Properties\<close>

text \<open>
  C21: emitting up to 8 bytes into a well-formed chunk always returns; unless the allocator
  refuses, the bytes are appended, the constants are untouched, and afterwards
  \<open>getLine\<close> answers the given line for the last byte written and everything behind it and
  the same as before for every offset before that byte.
\<close>

theorem writeChunk_correct:
  assumes "chunk_ok c" and "data \<noteq> []" and "length data \<le> 8"
  shows "\<exists>failed c'. writeChunk alloc c data line = Some (failed, c') \<and>
    (if failed
     then \<exists>n \<le> 8 * grow_capacity (ch_capacity c) + 8 * grow_capacity (ch_lineCapacity c). \<not> alloc n
     else chunk_ok c' \<and> ch_code c' = ch_code c @ data \<and> ch_constants c' = ch_constants c \<and>
          (\<forall>i. getLine c' i =
             (if i < int (length (ch_code c) + length data) - 1 then getLine c i else Some line)))"
  by (rule writeChunk_spec [OF assms, of alloc line]) auto

lemma writeChunk_correct_witness:
  "\<exists>c'. writeChunk (\<lambda>_. True) (initChunk None) [7] 3 = Some (False, c') \<and> ch_code c' = [7] \<and>
     getLine c' 0 = Some 3"
proof -
  obtain failed c' where w: "writeChunk (\<lambda>_. True) (initChunk None) [7] 3 = Some (failed, c')"
    "\<not> failed \<Longrightarrow> ch_code c' = ch_code (initChunk None) @ [7] \<and> getLine c' 0 = Some 3"
    using writeChunk_correct [OF chunk_ok_init, of "[7]" "\<lambda>_. True" None 3]
    by (auto simp: initChunk_def split: if_splits)
  moreover have "map_option fst (writeChunk (\<lambda>_. True) (initChunk None) [7] 3) = Some False" by code_simp
  ultimately show ?thesis by (auto simp: initChunk_def)
qed

text \<open>
  The start recorded for a new line is the last byte written, not the first.  When a chunk
  begins with a write of several bytes, \<open>getLine\<close> does not terminate on the first of them.
\<close>

theorem getLine_first_write:
  "\<exists>c. writeChunk (\<lambda>_. True) (initChunk f) [a, b] line = Some (False, c) \<and>
       getLine c 1 = Some line \<and> getLine c 0 = None"
proof -
  have "getLine (initChunk f) 0 = None"
    by (simp add: getLine_spec initChunk_def lines_sorted_def)
  moreover obtain c' where "writeChunk (\<lambda>_. True) (initChunk f) [a, b] line = Some (False, c')"
    "\<And>i. getLine c' i = (if i < int (length (ch_code (initChunk f)) + length [a, b]) - 1
       then getLine (initChunk f) i else Some line)"
    by (rule writeChunk_spec [OF chunk_ok_init, of "[a, b]" "\<lambda>_. True" f line]) auto
  ultimately show ?thesis by (auto simp: initChunk_def)
qed

text \<open>
  \<open>addConstant\<close> either answers the index under which the constant can be read back,
  with the earlier constants and the code unchanged, or \<open>-1\<close>.
\<close>

theorem addConstant_correct:
  assumes "chunk_ok c"
  shows "\<exists>i c'. addConstant alloc c v = Some (i, c') \<and> ch_code c' = ch_code c \<and>
    (i = -1 \<and> va_values (ch_constants c') = va_values (ch_constants c) \<or>
     0 \<le> i \<and> chunk_ok c' \<and> va_get (ch_constants c') (nat i) = Some v \<and>
     (\<forall>j<nat i. va_get (ch_constants c') j = va_get (ch_constants c) j))"
proof -
  have ok: "va_ok (ch_constants c)" using assms by (simp add: chunk_ok_def)
  show ?thesis
  proof (rule valueArrayPush_spec [OF ok, of "\<lambda>n. alloc (16 * n)" v])
    fix a' assume "valueArrayPush (\<lambda>n. alloc (16 * n)) (ch_constants c) v = Some (True, a')"
      "va_ok a'" "va_values a' = va_values (ch_constants c) @ [v]"
    then show ?thesis
      using assms by (auto simp: addConstant_def va_get_def chunk_ok_def nth_append nth_opt_def)
  next
    fix a' assume "valueArrayPush (\<lambda>n. alloc (16 * n)) (ch_constants c) v = Some (False, a')"
      "a' = (ch_constants c)\<lparr>va_capacity := grow_capacity (va_capacity (ch_constants c))\<rparr>"
    then show ?thesis by (auto simp: addConstant_def)
  qed
qed

lemma addConstant_correct_witness:
  "\<exists>c'. addConstant (\<lambda>_. True) (initChunk None) VNil = Some (0, c') \<and> va_get (ch_constants c') 0 = Some VNil"
proof -
  have "map_option fst (addConstant (\<lambda>_. True) (initChunk None) VNil) = Some 0" by code_simp
  then show ?thesis
    using addConstant_correct [OF chunk_ok_init, of "\<lambda>_. True" None VNil] by auto
qed

end
