(* ===== verification/Objects.thy ===== *)
theory Objects
  imports Tables ValueTables Chunks
begin

text \<open>
  The heap objects of \<open>object.h\<close>: one constructor of \<open>obj\<close> per struct that begins with
  an \<open>Obj\<close> header, a header (marker bits) around it in \<open>cell\<close>, and the heap as a map
  from addresses to cells.  The \<open>next\<close> links of the headers are the allocation list that the
  collector's state holds; \<open>NULL\<close> pointers are \<open>None\<close>.  A pointer to C code
  (\<open>NativeFn\<close>) is a number.  Arrays and tuples share a struct and differ in their type tag.
\<close>

section \<open>Object types\<close>

datatype obj_type =
    OBJ_STRING | OBJ_BOUND_METHOD | OBJ_METHOD | OBJ_METHOD_DESC | OBJ_INTERFACE | OBJ_CLASS
  | OBJ_CLOSURE | OBJ_NATIVE_CLOSURE | OBJ_FUNCTION | OBJ_INSTANCE | OBJ_NATIVE | OBJ_STRINGPAIR
  | OBJ_UPVALUE | OBJ_ARRAY | OBJ_TUPLE | OBJ_HASHMAP

text \<open>The tags continue those of \<open>ValueType\<close>: \<open>OBJ_STRING = VAL_OBJ = 15\<close>.\<close>

definition obj_types :: "obj_type list" where
  "obj_types = [OBJ_STRING, OBJ_BOUND_METHOD, OBJ_METHOD, OBJ_METHOD_DESC, OBJ_INTERFACE, OBJ_CLASS,
     OBJ_CLOSURE, OBJ_NATIVE_CLOSURE, OBJ_FUNCTION, OBJ_INSTANCE, OBJ_NATIVE, OBJ_STRINGPAIR,
     OBJ_UPVALUE, OBJ_ARRAY, OBJ_TUPLE, OBJ_HASHMAP]"

fun index_of :: "'a \<Rightarrow> 'a list \<Rightarrow> nat" where
  "index_of x [] = 0"
| "index_of x (y # ys) = (if x = y then 0 else Suc (index_of x ys))"

definition obj_type_tag :: "obj_type \<Rightarrow> nat" where
  "obj_type_tag ty = 15 + index_of ty obj_types"

text \<open>\<open>sizeof\<close> of the structs (64-bit pointers, natural alignment).\<close>

fun obj_size :: "obj_type \<Rightarrow> nat" where
  "obj_size OBJ_STRING = 40"
| "obj_size OBJ_BOUND_METHOD = 40"
| "obj_size OBJ_METHOD = 32"
| "obj_size OBJ_METHOD_DESC = 24"
| "obj_size OBJ_INTERFACE = 56"
| "obj_size OBJ_CLASS = 272"
| "obj_size OBJ_CLOSURE = 40"
| "obj_size OBJ_NATIVE_CLOSURE = 56"
| "obj_size OBJ_FUNCTION = 112"
| "obj_size OBJ_INSTANCE = 48"
| "obj_size OBJ_NATIVE = 40"
| "obj_size OBJ_STRINGPAIR = 40"
| "obj_size OBJ_UPVALUE = 48"
| "obj_size OBJ_ARRAY = 40"
| "obj_size OBJ_TUPLE = 40"
| "obj_size OBJ_HASHMAP = 56"

section \<open>Object structs\<close>

record obj_function =
  fn_isMethod :: bool
  fn_arity :: nat
  fn_maxArgs :: nat
  fn_upvalueCount :: nat
  fn_refOffset :: nat
  fn_chunk :: chunk
  fn_name :: "addr option"
  fn_parentClass :: "addr option"
  fn_defaultArgs :: "val list option"

record obj_native =
  nt_function :: nat
  nt_arity :: nat
  nt_maxArgs :: nat
  nt_defaultArgs :: "val list option"

record obj_native_closure =
  nc_function :: nat
  nc_arity :: nat
  nc_maxArgs :: nat
  nc_defaultArgs :: "val list option"
  nc_upvalueCount :: nat
  nc_upvalues :: "val list option"

text \<open>An upvalue is open (\<open>location\<close> is a stack slot) or closed over its own value.\<close>

datatype location = StackSlot nat | OwnValue

record obj_upvalue =
  uv_location :: location
  uv_closed :: val

record obj_closure =
  cl_function :: addr
  cl_upvalues :: "addr option list"
  cl_upvalueCount :: nat

datatype ref_type = REFTYPE_CLASS_MEMBER | REF_TYPE_INST_FIELD

datatype ref_data = PropIndex u32 | RefValue val

record member_ref =
  mr_refType :: ref_type
  mr_isThis :: bool
  mr_data :: ref_data

record type_info =
  ti_rptDisplay :: "addr option list"
  ti_rssList :: "addr list"
  ti_depth :: nat

record obj_interface =
  if_typeCheckOffset :: nat
  if_name :: "addr option"
  if_methods :: table

record obj_class =
  cs_typeCheckOffset :: nat
  cs_name :: "addr option"
  cs_typeInfo :: type_info
  cs_initializer :: val
  cs_hashCode :: "addr option"
  cs_equals :: "addr option"
  cs_super :: val
  cs_fields :: table
  cs_methods :: table
  cs_statics :: table
  cs_staticValues :: value_array
  cs_memberRefs :: "member_ref list"
  cs_abstract :: bool

record obj_instance =
  in_clazz :: addr
  in_identityHash :: u32
  in_flags :: byte
  in_fields :: value_array

record obj_array =
  ar_size :: nat
  ar_capacity :: nat
  ar_modCount :: u32
  ar_items :: "val list"

datatype obj =
    OString "byte list" u32
  | OBoundMethod val "addr option"
  | OMethod "addr option" "addr option"
  | OMethodDesc nat bool
  | OInterface obj_interface
  | OClass obj_class
  | OClosure obj_closure
  | ONativeClosure obj_native_closure
  | OFunction obj_function
  | OInstance obj_instance
  | ONative obj_native
  | OStringPair "addr option" "addr option" u32
  | OUpvalue obj_upvalue
  | OArray obj_array
  | OTuple obj_array
  | OHashMap value_table

fun type_of :: "obj \<Rightarrow> obj_type" where
  "type_of (OString _ _) = OBJ_STRING"
| "type_of (OBoundMethod _ _) = OBJ_BOUND_METHOD"
| "type_of (OMethod _ _) = OBJ_METHOD"
| "type_of (OMethodDesc _ _) = OBJ_METHOD_DESC"
| "type_of (OInterface _) = OBJ_INTERFACE"
| "type_of (OClass _) = OBJ_CLASS"
| "type_of (OClosure _) = OBJ_CLOSURE"
| "type_of (ONativeClosure _) = OBJ_NATIVE_CLOSURE"
| "type_of (OFunction _) = OBJ_FUNCTION"
| "type_of (OInstance _) = OBJ_INSTANCE"
| "type_of (ONative _) = OBJ_NATIVE"
| "type_of (OStringPair _ _ _) = OBJ_STRINGPAIR"
| "type_of (OUpvalue _) = OBJ_UPVALUE"
| "type_of (OArray _) = OBJ_ARRAY"
| "type_of (OTuple _) = OBJ_TUPLE"
| "type_of (OHashMap _) = OBJ_HASHMAP"

record cell =
  c_markers :: byte
  c_obj :: obj

type_synonym heap = "addr \<Rightarrow> cell option"

text \<open>The object behind a pointer; a dangling pointer has no specified target.\<close>

definition obj_at :: "heap \<Rightarrow> addr \<Rightarrow> obj" where
  "obj_at h a = c_obj (the (h a))"

definition live_obj :: "heap \<Rightarrow> addr \<Rightarrow> bool" where
  "live_obj h a \<longleftrightarrow> h a \<noteq> None"

definition isObjType :: "heap \<Rightarrow> val \<Rightarrow> obj_type \<Rightarrow> bool" where
  "isObjType h v ty = (case v of VObj a \<Rightarrow> type_of (obj_at h a) = ty | _ \<Rightarrow> False)"

text \<open>\<open>valueTypeId\<close>: the tag of a value, refined by the object type.\<close>

definition valueTypeId :: "heap \<Rightarrow> val \<Rightarrow> nat" where
  "valueTypeId h v = (case v of
       VNumber _ \<Rightarrow> 0 | VNil \<Rightarrow> 1 | VBool _ \<Rightarrow> 2 | VException \<Rightarrow> 3 | VUndefined \<Rightarrow> 4
     | VObj a \<Rightarrow> obj_type_tag (type_of (obj_at h a)))"

text \<open>The strings of the heap as the table of interned strings sees them.\<close>

definition str_view :: "heap \<Rightarrow> str_heap" where
  "str_view h a = (case obj_at h a of
       OString chars hash \<Rightarrow> \<lparr>os_chars = chars, os_hash = hash, os_markers = c_markers (the (h a))\<rparr>
     | _ \<Rightarrow> undefined)"

section \<open>Hashing and equality of values\<close>

text \<open>FNV-1a over the bytes.\<close>

definition hashString :: "byte list \<Rightarrow> u32" where
  "hashString key = fold (\<lambda>ch hash. (hash XOR ucast ch) * 16777619) key 2166136261"

definition INST_HAS_HASHCODE :: byte where "INST_HAS_HASHCODE = 1"
definition INST_HAS_EQUALS :: byte where "INST_HAS_EQUALS = 2"

text \<open>
  A user-defined \<open>hashCode\<close> or \<open>equals\<close> method is code of the script: what
  \<open>runCall\<close> returns for it is the parameter \<open>uh\<close> (on the instance) or \<open>ue\<close>
  (on the two instances), \<open>None\<close> if it throws or the bound method cannot be allocated.
\<close>

type_synonym user_hash = "addr \<Rightarrow> u32 option"
type_synonym user_equals = "addr \<Rightarrow> addr \<Rightarrow> bool option"

definition instanceHash :: "user_hash \<Rightarrow> heap \<Rightarrow> addr \<Rightarrow> obj_instance \<Rightarrow> u32 option" where
  "instanceHash uh h a inst =
     (if in_flags inst AND INST_HAS_HASHCODE \<noteq> 0 then uh a else Some (in_identityHash inst))"

definition instanceEquals ::
  "user_equals \<Rightarrow> heap \<Rightarrow> addr \<Rightarrow> obj_instance \<Rightarrow> addr \<Rightarrow> obj_instance \<Rightarrow> bool option" where
  "instanceEquals ue h a ai b bi =
     (if in_flags ai AND INST_HAS_EQUALS \<noteq> 0
      then if in_clazz ai \<noteq> in_clazz bi then Some False else ue a b
      else Some (a = b))"

text \<open>The two 32-bit halves of a double, combined (\<open>DoubleHash\<close>).\<close>

definition doubleHash :: "dbl \<Rightarrow> u32" where
  "doubleHash d = (if dbl_is_zero d then 0 else ucast d XOR ucast (drop_bit 32 d))"

definition hashValue :: "user_hash \<Rightarrow> heap \<Rightarrow> val \<Rightarrow> u32 option" where
  "hashValue uh h v = (case v of
       VObj a \<Rightarrow> (case obj_at h a of
           OString _ hash \<Rightarrow> Some hash
         | OStringPair _ _ hash \<Rightarrow> Some hash
         | OInstance inst \<Rightarrow> instanceHash uh h a inst
         | _ \<Rightarrow> Some 0)
     | VBool b \<Rightarrow> Some (if b then 1 else 0)
     | VNumber d \<Rightarrow> Some (doubleHash d)
     | _ \<Rightarrow> Some 0)"

definition valuesEquals :: "user_equals \<Rightarrow> heap \<Rightarrow> val \<Rightarrow> val \<Rightarrow> bool option" where
  "valuesEquals ue h a b = (case (a, b) of
       (VBool x, VBool y) \<Rightarrow> Some (x = y)
     | (VNil, VNil) \<Rightarrow> Some True
     | (VNumber x, VNumber y) \<Rightarrow> Some (dbl_eq x y)
     | (VObj ao, VObj bo) \<Rightarrow>
         if type_of (obj_at h ao) \<noteq> type_of (obj_at h bo) then Some False
         else (case (obj_at h ao, obj_at h bo) of
                 (OInstance ai, OInstance bi) \<Rightarrow> instanceEquals ue h ao ai bo bi
               | (OStringPair s1 s2 _, OStringPair r1 r2 _) \<Rightarrow> Some (s1 = r1 \<and> s2 = r2)
               | _ \<Rightarrow> Some (ao = bo))
     | _ \<Rightarrow> Some False)"

text \<open>\<open>valuesEqual\<close>: identity, with numbers compared as numbers.\<close>

definition valuesEqual :: "val \<Rightarrow> val \<Rightarrow> bool" where
  "valuesEqual a b = (case (a, b) of
       (VBool x, VBool y) \<Rightarrow> x = y
     | (VNil, VNil) \<Rightarrow> True
     | (VNumber x, VNumber y) \<Rightarrow> dbl_eq x y
     | (VObj x, VObj y) \<Rightarrow> x = y
     | _ \<Rightarrow> False)"

section \<open>The key contract of the runtime's values\<close>

definition inst_at :: "heap \<Rightarrow> addr \<Rightarrow> obj_instance \<Rightarrow> bool" where
  "inst_at h a ai \<longleftrightarrow> h a \<noteq> None \<and> obj_at h a = OInstance ai"

text \<open>
  What a script has to guarantee for its own \<open>hashCode\<close> and \<open>equals\<close> methods: they
  do not throw, \<open>equals\<close> is an equivalence on the instances of a class, and equal instances
  have equal hash codes.
\<close>

definition user_contract :: "user_hash \<Rightarrow> user_equals \<Rightarrow> heap \<Rightarrow> bool" where
  "user_contract uh ue h \<longleftrightarrow>
     (\<forall>a ai. inst_at h a ai \<longrightarrow> instanceHash uh h a ai \<noteq> None) \<and>
     (\<forall>a ai b bi. inst_at h a ai \<and> inst_at h b bi \<and> in_clazz ai = in_clazz bi \<longrightarrow>
        in_flags ai = in_flags bi \<and>
        (in_flags ai AND INST_HAS_EQUALS \<noteq> 0 \<longrightarrow>
           ue a b \<noteq> None \<and> ue a a = Some True \<and> (ue a b = Some True \<longrightarrow> ue b a = Some True) \<and>
           (ue a b = Some True \<longrightarrow> instanceHash uh h a ai = instanceHash uh h b bi) \<and>
           (\<forall>c ci. inst_at h c ci \<and> in_clazz ci = in_clazz ai \<and>
              ue a b = Some True \<and> ue b c = Some True \<longrightarrow> ue a c = Some True)))"

text \<open>The keys a map can rely on; NaN equals nothing, itself included.\<close>

definition key_ok :: "user_hash \<Rightarrow> user_equals \<Rightarrow> heap \<Rightarrow> val \<Rightarrow> bool" where
  "key_ok uh ue h v = (case v of
       VNumber d \<Rightarrow> \<not> dbl_is_nan d
     | VNil \<Rightarrow> True
     | VBool _ \<Rightarrow> True
     | VObj a \<Rightarrow> h a \<noteq> None \<and> (case obj_at h a of
         OStringPair (Some s) (Some r) hash \<Rightarrow> hash = os_hash (str_view h s) + os_hash (str_view h r)
       | OStringPair _ _ _ \<Rightarrow> False
       | OInstance _ \<Rightarrow> user_contract uh ue h
       | _ \<Rightarrow> True)
     | _ \<Rightarrow> False)"

definition same_value :: "user_equals \<Rightarrow> heap \<Rightarrow> val \<Rightarrow> val \<Rightarrow> bool" where
  "same_value ue h a b \<longleftrightarrow> valuesEquals ue h a b = Some True"

lemma contract_hash: "user_contract uh ue h \<Longrightarrow> inst_at h a ai \<Longrightarrow> instanceHash uh h a ai \<noteq> None"
  unfolding user_contract_def by blast

lemma contract_class:
  assumes "user_contract uh ue h" "inst_at h a ai" "inst_at h b bi" "in_clazz ai = in_clazz bi"
  shows "in_flags ai = in_flags bi"
    and "in_flags ai AND INST_HAS_EQUALS \<noteq> 0 \<Longrightarrow> ue a b \<noteq> None \<and> ue a a = Some True"
    and "\<lbrakk>in_flags ai AND INST_HAS_EQUALS \<noteq> 0; ue a b = Some True\<rbrakk>
         \<Longrightarrow> ue b a = Some True \<and> instanceHash uh h a ai = instanceHash uh h b bi"
    and "\<lbrakk>in_flags ai AND INST_HAS_EQUALS \<noteq> 0; ue a b = Some True; ue b c = Some True;
          inst_at h c ci; in_clazz ci = in_clazz ai\<rbrakk> \<Longrightarrow> ue a c = Some True"
  using assms unfolding user_contract_def by blast+

lemma instanceEquals_total:
  assumes "user_contract uh ue h" "inst_at h a ai" "inst_at h b bi"
  shows "\<exists>r. instanceEquals ue h a ai b bi = Some r"
  using contract_class(2) [OF assms] by (auto simp: instanceEquals_def)

text \<open>Instances that compare equal are of one class, so they agree on who compares them.\<close>

lemma instanceEquals_true:
  assumes "user_contract uh ue h" "inst_at h a ai" "inst_at h b bi"
    and "instanceEquals ue h a ai b bi = Some True"
  shows "in_clazz ai = in_clazz bi" and "in_flags ai = in_flags bi"
    and "in_flags ai AND INST_HAS_EQUALS = 0 \<Longrightarrow> a = b"
    and "in_flags ai AND INST_HAS_EQUALS \<noteq> 0 \<Longrightarrow> ue a b = Some True"
proof -
  have "in_flags ai AND INST_HAS_EQUALS = 0 \<Longrightarrow> a = b" "in_flags ai AND INST_HAS_EQUALS \<noteq> 0 \<Longrightarrow> ue a b = Some True"
    using assms(4) by (auto simp: instanceEquals_def split: if_splits)
  then show "in_flags ai AND INST_HAS_EQUALS = 0 \<Longrightarrow> a = b" "in_flags ai AND INST_HAS_EQUALS \<noteq> 0 \<Longrightarrow> ue a b = Some True"
    by auto
  show cl: "in_clazz ai = in_clazz bi"
    using assms(2-4) by (auto simp: instanceEquals_def inst_at_def split: if_splits)
  show "in_flags ai = in_flags bi" by (rule contract_class(1) [OF assms(1-3) cl])
qed

lemma key_ok_inst: "key_ok uh ue h (VObj a) \<Longrightarrow> obj_at h a = OInstance ai \<Longrightarrow> inst_at h a ai \<and> user_contract uh ue h"
  by (auto simp: key_ok_def inst_at_def)

lemma key_ok_pair:
  "key_ok uh ue h (VObj a) \<Longrightarrow> obj_at h a = OStringPair s r hash \<Longrightarrow>
     \<exists>x y. s = Some x \<and> r = Some y \<and> hash = os_hash (str_view h x) + os_hash (str_view h y)"
  by (auto simp: key_ok_def split: option.splits)

text \<open>The cases in which two values compare equal.\<close>

lemma same_value_cases:
  assumes "same_value ue h a b" "key_ok uh ue h a" "key_ok uh ue h b"
  obtains "a = b"
  | x y where "a = VNumber x" "b = VNumber y" "dbl_eq x y"
  | x y s r hash where "a = VObj x" "b = VObj y" "obj_at h x = OStringPair s r hash"
      "obj_at h y = OStringPair s r hash"
  | x y xi yi where "a = VObj x" "b = VObj y" "inst_at h x xi" "inst_at h y yi"
      "user_contract uh ue h" "instanceEquals ue h x xi y yi = Some True"
proof (cases "\<exists>x y. a = VObj x \<and> b = VObj y")
  case False
  then show thesis
    using assms that(1,2) by (auto simp: same_value_def valuesEquals_def split: val.splits)
next
  case True
  then obtain x y where xy: "a = VObj x" "b = VObj y" by blast
  have types: "type_of (obj_at h x) = type_of (obj_at h y)"
    using assms(1) xy by (auto simp: same_value_def valuesEquals_def split: if_splits)
  show thesis
  proof (cases "obj_at h x")
    case (OInstance xi)
    with types obtain yi where yi: "obj_at h y = OInstance yi" by (cases "obj_at h y") auto
    show thesis
      using key_ok_inst [of uh ue h x xi] key_ok_inst [of uh ue h y yi] OInstance yi assms xy
      by (intro that(4) [of x y xi yi]) (auto simp: same_value_def valuesEquals_def)
  next
    case (OStringPair s r hash)
    with types obtain s' r' hash' where yi: "obj_at h y = OStringPair s' r' hash'" by (cases "obj_at h y") auto
    have sr: "s = s'" "r = r'"
      using assms(1) OStringPair yi xy by (auto simp: same_value_def valuesEquals_def)
    moreover have "hash = hash'"
      using key_ok_pair [of uh ue h x s r hash] key_ok_pair [of uh ue h y s' r' hash'] sr OStringPair yi assms xy
      by auto
    ultimately show thesis using that(3) [of x y s r hash] xy OStringPair yi by simp
  qed (use assms(1) xy types that(1) in \<open>auto simp: same_value_def valuesEquals_def split: obj.splits\<close>)
qed

lemma dbl_eq_refl: "dbl_eq x x \<longleftrightarrow> \<not> dbl_is_nan x"
  by (auto simp: dbl_eq_def)

lemma dbl_eq_sym: "dbl_eq x y \<Longrightarrow> dbl_eq y x"
  by (auto simp: dbl_eq_def)

lemma dbl_eq_trans: "dbl_eq x y \<Longrightarrow> dbl_eq y z \<Longrightarrow> dbl_eq x z"
  by (auto simp: dbl_eq_def)

lemma doubleHash_eq: "dbl_eq x y \<Longrightarrow> doubleHash x = doubleHash y"
  by (auto simp: dbl_eq_def doubleHash_def)

lemma hashValue_total: "key_ok uh ue h a \<Longrightarrow> hashValue uh h a \<noteq> None"
  using contract_hash [of uh ue h]
  by (fastforce simp: hashValue_def key_ok_def inst_at_def split: val.splits obj.splits option.splits)

lemma valuesEquals_total:
  assumes "key_ok uh ue h a" "key_ok uh ue h b"
  shows "valuesEquals ue h a b = Some (same_value ue h a b)"
proof -
  have "valuesEquals ue h a b \<noteq> None"
  proof (cases "\<exists>x y xi yi. a = VObj x \<and> b = VObj y \<and> obj_at h x = OInstance xi \<and> obj_at h y = OInstance yi")
    case True
    then obtain x y xi yi where o: "a = VObj x" "b = VObj y" "obj_at h x = OInstance xi" "obj_at h y = OInstance yi"
      by blast
    with instanceEquals_total [of uh ue h x xi y yi] key_ok_inst [of uh ue h x xi] key_ok_inst [of uh ue h y yi] assms
    show ?thesis by (auto simp: valuesEquals_def)
  next
    case False
    show ?thesis
    proof (cases "\<exists>x y. a = VObj x \<and> b = VObj y")
      case True
      then obtain x y where "a = VObj x" "b = VObj y" by blast
      with False show ?thesis
        by (cases "obj_at h x"; simp add: valuesEquals_def del: not_None_eq split: obj.split)
    next
      case no_objs: False
      show ?thesis
        using no_objs by (cases a; cases b; simp add: valuesEquals_def del: not_None_eq)
    qed
  qed
  then show ?thesis by (auto simp: same_value_def)
qed

lemma same_value_refl:
  assumes "key_ok uh ue h a"
  shows "same_value ue h a a"
proof (cases "\<exists>x xi. a = VObj x \<and> obj_at h x = OInstance xi")
  case True
  then obtain x xi where x: "a = VObj x" "obj_at h x = OInstance xi" by blast
  then have "inst_at h x xi" "user_contract uh ue h" using key_ok_inst assms by auto
  with contract_class(2) [of uh ue h x xi x xi] x show ?thesis
    by (auto simp: same_value_def valuesEquals_def instanceEquals_def)
next
  case False
  with assms show ?thesis
    by (auto simp: same_value_def valuesEquals_def key_ok_def dbl_eq_refl split: val.splits obj.splits)
qed

lemma same_value_hash:
  assumes "key_ok uh ue h a" "key_ok uh ue h b" "same_value ue h a b"
  shows "hashValue uh h a = hashValue uh h b"
  using assms(3,1,2)
proof (cases rule: same_value_cases)
  case (4 x y xi yi)
  note eq = instanceEquals_true [OF 4(5,3,4,6)]
  have "instanceHash uh h x xi = instanceHash uh h y yi"
  proof (cases "in_flags xi AND INST_HAS_EQUALS = 0")
    case True
    with eq(3) 4(3,4) show ?thesis by (simp add: inst_at_def)
  next
    case False
    from contract_class(3) [OF 4(5,3,4) eq(1) False eq(4) [OF False]] show ?thesis by (rule conjunct2)
  qed
  with 4 show ?thesis by (simp add: hashValue_def inst_at_def)
qed (auto simp: hashValue_def doubleHash_eq)

lemma same_value_sym:
  assumes "key_ok uh ue h a" "key_ok uh ue h b" "same_value ue h a b"
  shows "same_value ue h b a"
  using assms(3,1,2)
proof (cases rule: same_value_cases)
  case 1
  then show ?thesis using assms same_value_refl by simp
next
  case (4 x y xi yi)
  note eq = instanceEquals_true [OF 4(5,3,4,6)]
  have "instanceEquals ue h y yi x xi = Some True"
    using eq contract_class(3) [OF 4(5,3,4) eq(1)] by (auto simp: instanceEquals_def)
  with 4 show ?thesis by (auto simp: same_value_def valuesEquals_def inst_at_def)
qed (auto simp: same_value_def valuesEquals_def dbl_eq_sym)

lemma same_value_trans:
  assumes ok: "key_ok uh ue h a" "key_ok uh ue h b" "key_ok uh ue h c"
    and ab: "same_value ue h a b" and bc: "same_value ue h b c"
  shows "same_value ue h a c"
  using ab ok(1,2)
proof (cases rule: same_value_cases)
  case 1
  with bc show ?thesis by simp
next
  case (2 x y)
  with bc show ?thesis
    by (auto simp: same_value_def valuesEquals_def intro: dbl_eq_trans split: val.splits)
next
  case (3 x y s r hash)
  with bc show ?thesis
    by (auto simp: same_value_def valuesEquals_def split: val.splits obj.splits if_splits)
next
  case (4 x y xi yi)
  note first = instanceEquals_true [OF 4(5,3,4,6)]
  show ?thesis
    using bc ok(2,3)
  proof (cases rule: same_value_cases)
    case 1
    with ab show ?thesis by simp
  next
    case snd: (4 y' z yi' zi)
    have yy: "y' = y" "yi' = yi" using 4 snd by (auto simp: inst_at_def)
    note second = instanceEquals_true [OF snd(5,3,4,6), unfolded yy]
    have "instanceEquals ue h x xi z zi = Some True"
    proof (cases "in_flags xi AND INST_HAS_EQUALS = 0")
      case True
      with first second show ?thesis by (auto simp: instanceEquals_def)
    next
      case False
      then have "ue x z = Some True"
        using contract_class(4) [OF 4(5,3,4) first(1) False, of z zi] first second snd(4) by simp
      with False first(1) second(1) show ?thesis by (simp add: instanceEquals_def)
    qed
    with 4 snd show ?thesis by (auto simp: same_value_def valuesEquals_def inst_at_def)
  qed (use 4 in \<open>auto simp: inst_at_def\<close>)
qed

interpretation keys: hash_keys "hashValue uh h" "valuesEquals ue h" "same_value ue h" "key_ok uh ue h"
  for uh ue h
proof unfold_locales
  show "key_ok uh ue h a \<Longrightarrow> a \<noteq> VUndefined" for a by (auto simp: key_ok_def)
qed (rule hashValue_total valuesEquals_total same_value_hash same_value_refl same_value_sym
       same_value_trans; assumption)+

end
