(* ===== verification/Maps.thy ===== *)
theory Maps
  imports Objects
begin

text \<open>
  The script-level maps (\<open>ObjHashMap\<close> and the native methods of \<open>builtins.c\<close>): the
  value hash table on the hash and equality of the runtime's values, and its fail-fast iterator.  An
  iterator instance keeps its position and the modification count it has seen as numbers, that is
  doubles.
\<close>

section \<open>Operations\<close>

record map_iter =
  mi_current :: dbl
  mi_modCount :: dbl

definition hashMapSize :: "value_table \<Rightarrow> val" where
  "hashMapSize t = VNumber (dbl_of_int (int (vt_liveCount t)))"

text \<open>The value returned and the map; \<open>VException\<close> when the table raised.\<close>

definition hashMapPut ::
  "(nat \<Rightarrow> bool) \<Rightarrow> user_hash \<Rightarrow> user_equals \<Rightarrow> heap \<Rightarrow> value_table \<Rightarrow> val \<Rightarrow> val \<Rightarrow> (val \<times> value_table) option" where
  "hashMapPut alloc uh ue h t key v =
     do { (raised, _, t') \<leftarrow> valueTableSet alloc (hashValue uh h) (valuesEquals ue h) t key v;
          Some (if raised then VException else VNil, t') }"

definition hashMapRemove ::
  "user_hash \<Rightarrow> user_equals \<Rightarrow> heap \<Rightarrow> value_table \<Rightarrow> val \<Rightarrow> (val \<times> value_table) option" where
  "hashMapRemove uh ue h t key =
     do { (raised, deleted, t') \<leftarrow> valueTableDelete (hashValue uh h) (valuesEquals ue h) t key;
          Some (if raised then VException else VBool deleted, t') }"

definition hashMapIterator :: "value_table \<Rightarrow> map_iter" where
  "hashMapIterator t = \<lparr>mi_current = dbl_of_int 0, mi_modCount = dbl_of_int (uint (vt_modCount t))\<rparr>"

definition hashMapIteratorHasNext :: "value_table \<Rightarrow> map_iter \<Rightarrow> bool option" where
  "hashMapIteratorHasNext t it =
     do { current \<leftarrow> dbl_to_int32 (mi_current it);
          Some (fst (valueTableGetNext t current) \<ge> 0) }"

datatype map_next = MapModified | MapPair val val

text \<open>
  At the end of the map \<open>valueTableGetNext\<close> stores no entry and the pair is read through an
  uninitialised pointer.
\<close>

definition hashMapIteratorNext :: "value_table \<Rightarrow> map_iter \<Rightarrow> (map_next \<times> map_iter) option" where
  "hashMapIteratorNext t it =
     do { current \<leftarrow> dbl_to_int32 (mi_current it);
          modCount \<leftarrow> dbl_to_uint32 (mi_modCount it);
          if modCount \<noteq> vt_modCount t then Some (MapModified, it)
          else (case valueTableGetNext t current of
                  (nextIndex, entry) \<Rightarrow>
                    do { e \<leftarrow> entry;
                         Some (MapPair (ve_key e) (ve_value e),
                               it\<lparr>mi_current := dbl_of_int nextIndex\<rparr>) }) }"

text \<open>A complete iteration: \<open>hasNext\<close> and \<open>next\<close> in turn, at most \<open>n\<close> times.\<close>

fun map_iterate :: "nat \<Rightarrow> value_table \<Rightarrow> map_iter \<Rightarrow> (val \<times> val) list option" where
  "map_iterate 0 t it = None"
| "map_iterate (Suc n) t it =
     do { more \<leftarrow> hashMapIteratorHasNext t it;
          if \<not> more then Some []
          else do { (r, it') \<leftarrow> hashMapIteratorNext t it;
                    case r of
                      MapModified \<Rightarrow> None
                    | MapPair k v \<Rightarrow> map_option (Cons (k, v)) (map_iterate n t it') } }"

section \<open>Iteration\<close>

lemma map_iterate_from:
  assumes "0 \<le> start" "start \<le> int (length (vt_entries t))" "length (vt_entries t) < 2 ^ 31"
    and "length (vt_entries t) < n + nat start"
  shows "map_iterate n t \<lparr>mi_current = dbl_of_int start, mi_modCount = dbl_of_int (uint (vt_modCount t))\<rparr>
         = Some (map (\<lambda>e. (ve_key e, ve_value e)) (filter live (drop (nat start) (vt_entries t))))"
  using assms
proof (induction n arbitrary: start)
  case 0
  then show ?case by simp
next
  case (Suc n)
  let ?it = "\<lparr>mi_current = dbl_of_int start, mi_modCount = dbl_of_int (uint (vt_modCount t))\<rparr>"
  have cur: "dbl_to_int32 (dbl_of_int start) = Some start" using Suc.prems by simp
  show ?case
  proof (rule valueTableGetNext_cases [OF Suc.prems(1), of t])
    assume "valueTableGetNext t start = (-1, None)" "filter live (drop (nat start) (vt_entries t)) = []"
    then show ?thesis by (simp add: hashMapIteratorHasNext_def cur)
  next
    fix m e
    assume m: "valueTableGetNext t start = (m, Some e)" "start < m"
      "filter live (drop (nat start) (vt_entries t)) = e # filter live (drop (nat m) (vt_entries t))"
    have "m \<le> int (length (vt_entries t))"
      using m(1) Suc.prems(1) valueTableGetNext_bound by blast
    then have "map_iterate n t (?it\<lparr>mi_current := dbl_of_int m\<rparr>) =
        Some (map (\<lambda>e. (ve_key e, ve_value e)) (filter live (drop (nat m) (vt_entries t))))"
      using Suc.IH [of m] m(2) Suc.prems by simp
    then show ?thesis
      using m Suc.prems(1) by (simp add: hashMapIteratorHasNext_def hashMapIteratorNext_def cur)
  qed
qed

section \<open>Properties\<close>

abbreviation map_inv :: "user_hash \<Rightarrow> user_equals \<Rightarrow> heap \<Rightarrow> value_table \<Rightarrow> bool" where
  "map_inv uh ue h \<equiv> vt_inv (hashValue uh h) (same_value ue h) (key_ok uh ue h)"



text \<open>
  C23: \<open>HashMap.remove\<close> on a well-formed map returns whether the key was bound, removes
  exactly the bindings of keys equal to it and keeps the order of the others.
\<close>

theorem hashMapRemove_correct:
  assumes "map_inv uh ue h t" and "key_ok uh ue h key"
  shows "\<exists>t'. hashMapRemove uh ue h t key = Some (VBool (vt_map (same_value ue h) t key \<noteq> None), t') \<and>
    map_inv uh ue h t' \<and>
    (\<forall>k. key_ok uh ue h k \<longrightarrow> valueTableGet (hashValue uh h) (valuesEquals ue h) t' k =
       (if same_value ue h key k then Some (False, None)
        else valueTableGet (hashValue uh h) (valuesEquals ue h) t k)) \<and>
    vt_pairs t' = filter (\<lambda>(k, w). \<not> same_value ue h k key) (vt_pairs t)"
proof (rule keys.delete_spec [OF assms])
  fix t'
  assume t': "valueTableDelete (hashValue uh h) (valuesEquals ue h) t key
      = Some (False, vt_map (same_value ue h) t key \<noteq> None, t')" "map_inv uh ue h t'"
    "\<And>k. key_ok uh ue h k \<Longrightarrow> vt_map (same_value ue h) t' k
       = (if same_value ue h key k then None else vt_map (same_value ue h) t k)"
    "vt_pairs t' = filter (\<lambda>(k, w). \<not> same_value ue h k key) (vt_pairs t)"
  then show ?thesis
    by (intro exI [of _ t']) (simp add: hashMapRemove_def keys.get_spec assms(1))
qed

lemma hashMapRemove_correct_witness:
  "\<exists>t'. hashMapRemove (\<lambda>_. None) (\<lambda>_ _. None) Map.empty initValueTable VNil = Some (VBool False, t') \<and>
     vt_pairs t' = []"
proof -
  have "key_ok (\<lambda>_. None) (\<lambda>_ _. None) Map.empty VNil" by (simp add: key_ok_def)
  then show ?thesis
    using hashMapRemove_correct [of "\<lambda>_. None" Map.empty "\<lambda>_ _. None" initValueTable VNil]
    by auto
qed



text \<open>
  Calling \<open>next\<close> on a map iterator whose \<open>hasNext\<close> is false, without any
  modification in between, has no defined result: the pair is read through a pointer that was never set.
\<close>

theorem hashMapIteratorNext_past_end:
  assumes "mi_modCount it = dbl_of_int (uint (vt_modCount t))"
    and "hashMapIteratorHasNext t it = Some False"
  shows "hashMapIteratorNext t it = None"
proof -
  from assms(2) obtain cur where cur: "dbl_to_int32 (mi_current it) = Some cur"
    "fst (valueTableGetNext t cur) < 0"
    by (auto simp: hashMapIteratorHasNext_def bind_eq_Some_conv not_le)
  have "snd (valueTableGetNext t cur) = None"
  proof (cases "0 \<le> cur")
    case True
    show ?thesis
      by (rule valueTableGetNext_cases [OF True, of t]) (use cur(2) True in auto)
  qed (simp add: valueTableGetNext_def)
  then obtain m where "valueTableGetNext t cur = (m, None)" by (cases "valueTableGetNext t cur") auto
  with assms(1) cur(1) show ?thesis by (simp add: hashMapIteratorNext_def)
qed

lemma hashMapIteratorNext_past_end_witness:
  "hashMapIteratorNext initValueTable (hashMapIterator initValueTable) = None"
proof (rule hashMapIteratorNext_past_end)
  show "hashMapIteratorHasNext initValueTable (hashMapIterator initValueTable) = Some False"
    by (simp add: hashMapIteratorHasNext_def hashMapIterator_def valueTableGetNext_def initValueTable_def)
qed (simp add: hashMapIterator_def)

text \<open>A heap of strings that hash alike, as keys for a concrete map.\<close>

definition string_keys :: heap where
  "string_keys a = Some \<lparr>c_markers = 0, c_obj = OString [word_of_nat a] 0\<rparr>"

definition put_key :: "value_table \<Rightarrow> addr \<Rightarrow> val \<Rightarrow> (bool \<times> value_table) option" where
  "put_key t a v = map_option (\<lambda>(r, t'). (r = VException, t'))
     (hashMapPut (\<lambda>_. True) (\<lambda>_. None) (\<lambda>_ _. None) string_keys t (VObj a) v)"

definition remove_key :: "value_table \<Rightarrow> addr \<Rightarrow> (val \<times> value_table) option" where
  "remove_key t a = hashMapRemove (\<lambda>_. None) (\<lambda>_ _. None) string_keys t (VObj a)"


end
