(* ===== verification/Gc.thy ===== *)
theory Gc
  imports Objects
begin

text \<open>
  The garbage collector of \<open>memory.c\<close> with the marking routines spread over
  \<open>table.c\<close>, \<open>ValueTable.c\<close>, \<open>vm.c\<close>, \<open>compiler.c\<close>,
  \<open>elox.c\<close> and \<open>handleSet.c\<close>: tri-colour marking with an explicit gray stack that
  may fail to grow, in which case the collector falls back to rescanning the heap, then sweeping.
  Following a dangling pointer has no defined result (\<open>None\<close>).  \<open>mem n\<close> says
  whether the allocator provides a gray stack of \<open>n\<close> entries.
\<close>

section \<open>State\<close>

record try_block =
  tb_handlerDataOffset :: nat
  tb_stackOffset :: nat
  tb_caught :: bool

record call_frame =
  cf_closure :: "addr option"
  cf_function :: "addr option"
  cf_ip :: nat
  cf_slots :: nat
  cf_fixedArgs :: nat
  cf_varArgs :: nat
  cf_argOffset :: nat
  cf_stackArgs :: nat
  cf_callStart :: bool
  cf_handlers :: "try_block list"

text \<open>
  The linked lists of a fiber (call frames from the active one outwards, open upvalues, temporaries)
  are lists; the stack is the part below \<open>stackTop\<close>.  A frame of type
  \<open>ELOX_FT_INTERNAL_CALL_START\<close> has \<open>cf_callStart\<close>; its handler stack is
  the part below \<open>handlerCount\<close>.
\<close>

record fiber =
  fb_frames :: "call_frame list"
  fb_stack :: "val list"
  fb_openUpvalues :: "addr list"
  fb_temps :: "val list"

datatype handle = CallableHandle val | RunCtxHandle "fiber option"

text \<open>The part of the compiler's chains of states that the collector reads.\<close>

record compiler_roots =
  cr_function :: "addr option"
  cr_numArgs :: nat
  cr_defaultArgs :: "val list"

record compiler_state_roots =
  csr_fileName :: "addr option"
  csr_compilers :: "compiler_roots list"

record vm =
  vm_heap :: heap
  vm_main :: "addr list"
  vm_usePerm :: bool
  vm_perm :: "addr list"
  vm_strings :: table
  vm_initFiber :: "fiber option"
  vm_globalNames :: value_table
  vm_globalValues :: value_array
  vm_compilers :: "compiler_state_roots list"
  vm_handles :: "handle list"
  vm_bytes :: u64
  vm_nextGC :: u64
  vm_grayOverflow :: bool
  vm_grayStack :: "addr list"
  vm_grayCapacity :: nat
  vm_freeFrames :: nat
  vm_builtinSymbols :: table
  vm_builtinValues :: value_array
  vm_modules :: table

section \<open>What each structure refers to\<close>

definition MARKER_BLACK :: byte where "MARKER_BLACK = 1"
definition MARKER_GRAY :: byte where "MARKER_GRAY = 2"

text \<open>The argument of \<open>markObject\<close> in \<open>markValue\<close>; other values are skipped.\<close>

fun val_ref :: "val \<Rightarrow> addr option" where
  "val_ref (VObj a) = Some a"
| "val_ref _ = None"

definition table_refs :: "table \<Rightarrow> addr option list" where
  "table_refs t = concat (map (\<lambda>e. [ekey e, val_ref (evalue e)]) (tentries t))"

definition value_table_refs :: "value_table \<Rightarrow> addr option list" where
  "value_table_refs t = concat (map (\<lambda>e. if ve_key e \<noteq> VUndefined
     then [val_ref (ve_key e), val_ref (ve_value e)] else []) (vt_entries t))"

definition array_refs :: "value_array \<Rightarrow> addr option list" where
  "array_refs a = map val_ref (va_values a)"

text \<open>What \<open>blackenObject\<close> marks, in its order.\<close>

fun traced :: "obj \<Rightarrow> addr option list" where
  "traced (OHashMap t) = value_table_refs t"
| "traced (OTuple a) = map val_ref (take (ar_size a) (ar_items a))"
| "traced (OArray a) = map val_ref (take (ar_size a) (ar_items a))"
| "traced (OBoundMethod receiver method) = [val_ref receiver, method]"
| "traced (OMethod clazz callable) = [clazz, callable]"
| "traced (OMethodDesc _ _) = []"
| "traced (OInterface i) = if_name i # table_refs (if_methods i)"
| "traced (OClass c) = cs_name c # table_refs (cs_fields c) @ table_refs (cs_methods c)
     @ table_refs (cs_statics c) @ array_refs (cs_staticValues c) @ [val_ref (cs_initializer c)]"
| "traced (OClosure c) = Some (cl_function c) # take (cl_upvalueCount c) (cl_upvalues c)"
| "traced (ONativeClosure c) = (case nc_upvalues c of
     None \<Rightarrow> [] | Some us \<Rightarrow> map val_ref (take (nc_upvalueCount c) us))"
| "traced (OFunction f) = [fn_name f, fn_parentClass f] @ array_refs (ch_constants (fn_chunk f))
     @ [ch_fileName (fn_chunk f)]
     @ (case fn_defaultArgs f of None \<Rightarrow> [] | Some vs \<Rightarrow> map val_ref (take (fn_arity f) vs))"
| "traced (OInstance i) = Some (in_clazz i) # array_refs (in_fields i)"
| "traced (OUpvalue u) = [val_ref (uv_closed u)]"
| "traced (OStringPair s1 s2 _) = [s1, s2]"
| "traced (ONative n) = (case nt_defaultArgs n of
     None \<Rightarrow> [] | Some vs \<Rightarrow> map val_ref (take (nt_arity n) vs))"
| "traced (OString _ _) = []"

definition fiber_refs :: "fiber option \<Rightarrow> addr option list" where
  "fiber_refs fib = (case fib of None \<Rightarrow> [] | Some f \<Rightarrow>
     map val_ref (fb_stack f) @ map cf_function (fb_frames f) @ map Some (fb_openUpvalues f)
     @ map val_ref (fb_temps f))"

definition compiler_refs :: "compiler_state_roots list \<Rightarrow> addr option list" where
  "compiler_refs css = concat (map (\<lambda>cs. csr_fileName cs # concat (map (\<lambda>c.
     cr_function c # map val_ref (take (cr_numArgs c) (cr_defaultArgs c))) (csr_compilers cs))) css)"

fun handle_refs :: "handle \<Rightarrow> addr option list" where
  "handle_refs (CallableHandle v) = [val_ref v]"
| "handle_refs (RunCtxHandle f) = fiber_refs f"

definition root_refs :: "vm \<Rightarrow> addr option list" where
  "root_refs vm = fiber_refs (vm_initFiber vm) @ value_table_refs (vm_globalNames vm)
     @ array_refs (vm_globalValues vm) @ compiler_refs (vm_compilers vm)
     @ concat (map handle_refs (vm_handles vm))"

section \<open>Marking\<close>

definition set_markers :: "addr \<Rightarrow> byte \<Rightarrow> vm \<Rightarrow> vm" where
  "set_markers a m vm = vm\<lparr>vm_heap := (vm_heap vm)(a := map_option (c_markers_update (\<lambda>_. m)) (vm_heap vm a))\<rparr>"

definition markObject :: "(nat \<Rightarrow> bool) \<Rightarrow> addr option \<Rightarrow> vm \<Rightarrow> vm option" where
  "markObject mem r vm = (case r of
       None \<Rightarrow> Some vm
     | Some a \<Rightarrow> (case vm_heap vm a of
         None \<Rightarrow> None
       | Some c \<Rightarrow>
           if c_markers c AND MARKER_BLACK \<noteq> 0 then Some vm
           else let vm1 = set_markers a (c_markers c OR (MARKER_BLACK OR MARKER_GRAY)) vm
                in if vm_grayOverflow vm1 then Some vm1
                   else if vm_grayCapacity vm1 < length (vm_grayStack vm1) + 1
                   then let newCapacity = grow_capacity (vm_grayCapacity vm1)
                        in if \<not> mem newCapacity then Some (vm1\<lparr>vm_grayOverflow := True\<rparr>)
                           else Some (vm1\<lparr>vm_grayCapacity := newCapacity, vm_grayStack := a # vm_grayStack vm1\<rparr>)
                   else Some (vm1\<lparr>vm_grayStack := a # vm_grayStack vm1\<rparr>)))"

fun mark_all :: "(nat \<Rightarrow> bool) \<Rightarrow> addr option list \<Rightarrow> vm \<Rightarrow> vm option" where
  "mark_all mem [] vm = Some vm"
| "mark_all mem (r # rs) vm = do { vm1 \<leftarrow> markObject mem r vm; mark_all mem rs vm1 }"

definition markValue :: "(nat \<Rightarrow> bool) \<Rightarrow> val \<Rightarrow> vm \<Rightarrow> vm option" where
  "markValue mem v vm = markObject mem (val_ref v) vm"

definition blackenObject :: "(nat \<Rightarrow> bool) \<Rightarrow> addr \<Rightarrow> vm \<Rightarrow> vm option" where
  "blackenObject mem a vm = do { c \<leftarrow> vm_heap vm a; mark_all mem (traced (c_obj c)) vm }"

definition markRoots :: "(nat \<Rightarrow> bool) \<Rightarrow> vm \<Rightarrow> vm option" where
  "markRoots mem vm = mark_all mem (root_refs vm) vm"

section \<open>Tracing\<close>

definition ungray :: "addr \<Rightarrow> vm \<Rightarrow> vm option" where
  "ungray a vm = do { c \<leftarrow> vm_heap vm a; Some (set_markers a (c_markers c AND NOT MARKER_GRAY) vm) }"

text \<open>One pass of \<open>slowTraceReferences\<close> over the allocation list.\<close>

fun slow_pass :: "(nat \<Rightarrow> bool) \<Rightarrow> addr list \<Rightarrow> vm \<Rightarrow> bool \<Rightarrow> (vm \<times> bool) option" where
  "slow_pass mem [] vm haveGray = Some (vm, haveGray)"
| "slow_pass mem (a # as) vm haveGray =
     do { c \<leftarrow> vm_heap vm a;
          if c_markers c AND MARKER_GRAY \<noteq> 0
          then do { vm1 \<leftarrow> ungray a vm; vm2 \<leftarrow> blackenObject mem a vm1; slow_pass mem as vm2 True }
          else slow_pass mem as vm haveGray }"

partial_function (option) slowTraceReferences :: "(nat \<Rightarrow> bool) \<Rightarrow> vm \<Rightarrow> vm option" where
  "slowTraceReferences mem vm =
     do { (vm1, haveGray) \<leftarrow> slow_pass mem (vm_main vm) vm False;
          if haveGray then slowTraceReferences mem vm1 else Some vm1 }"

partial_function (option) trace_loop :: "(nat \<Rightarrow> bool) \<Rightarrow> vm \<Rightarrow> vm option" where
  "trace_loop mem vm = (case vm_grayStack vm of
       [] \<Rightarrow> Some vm
     | a # rest \<Rightarrow>
         do { vm1 \<leftarrow> ungray a (vm\<lparr>vm_grayStack := rest\<rparr>);
              vm2 \<leftarrow> blackenObject mem a vm1;
              if vm_grayOverflow vm2 then slowTraceReferences mem vm2 else trace_loop mem vm2 })"

declare slowTraceReferences.simps [code] trace_loop.simps [code]

definition traceReferences :: "(nat \<Rightarrow> bool) \<Rightarrow> vm \<Rightarrow> vm option" where
  "traceReferences mem vm =
     do { vm1 \<leftarrow> (if vm_grayOverflow vm then slowTraceReferences mem vm else trace_loop mem vm);
          Some (vm1\<lparr>vm_grayStack := [], vm_grayOverflow := False\<rparr>) }"

section \<open>Sweeping\<close>

text \<open>
  The bytes \<open>freeObject\<close> gives back to the accounting, block by block.  An array is
  released with the size of its live part in pointers, not with the size it was allocated with.
\<close>

definition table_bytes :: "table \<Rightarrow> nat" where
  "table_bytes t = 24 * tcapacity t"

definition value_table_bytes :: "value_table \<Rightarrow> nat" where
  "value_table_bytes t = 4 * vt_indexSize t + 40 * vt_dataSize t"

definition value_array_bytes :: "value_array \<Rightarrow> nat" where
  "value_array_bytes a = 16 * va_capacity a"

definition chunk_bytes :: "chunk \<Rightarrow> nat" where
  "chunk_bytes c = ch_capacity c + 8 * ch_capacity c + value_array_bytes (ch_constants c)"

fun owned_bytes :: "obj \<Rightarrow> nat" where
  "owned_bytes (OHashMap t) = value_table_bytes t"
| "owned_bytes (OTuple a) = 8 * ar_size a"
| "owned_bytes (OArray a) = 8 * ar_size a"
| "owned_bytes (OInterface i) = table_bytes (if_methods i)"
| "owned_bytes (OClass c) = table_bytes (cs_fields c) + table_bytes (cs_methods c)
     + table_bytes (cs_statics c) + value_array_bytes (cs_staticValues c)
     + 24 * length (cs_memberRefs c) + 8 * length (ti_rssList (cs_typeInfo c))"
| "owned_bytes (OClosure c) = 8 * cl_upvalueCount c"
| "owned_bytes (ONativeClosure c) = 16 * nc_upvalueCount c"
| "owned_bytes (OFunction f) = chunk_bytes (fn_chunk f) + 16 * fn_arity f"
| "owned_bytes (OInstance i) = value_array_bytes (in_fields i)"
| "owned_bytes (ONative n) = 16 * nt_arity n"
| "owned_bytes (OString chars _) = length chars + 1"
| "owned_bytes _ = 0"

definition freeObject :: "addr \<Rightarrow> vm \<Rightarrow> vm option" where
  "freeObject a vm = do { c \<leftarrow> vm_heap vm a;
     Some (vm\<lparr>vm_heap := (vm_heap vm)(a := None),
              vm_bytes := vm_bytes vm - word_of_nat (owned_bytes (c_obj c))
                            - word_of_nat (obj_size (type_of (c_obj c)))\<rparr>) }"

text \<open>The objects that stay on the allocation list, and the machine.\<close>

fun sweep_list :: "addr list \<Rightarrow> vm \<Rightarrow> (addr list \<times> vm) option" where
  "sweep_list [] vm = Some ([], vm)"
| "sweep_list (a # as) vm =
     do { c \<leftarrow> vm_heap vm a;
          if c_markers c \<noteq> 0
          then do { (kept, vm1) \<leftarrow> sweep_list as
                      (set_markers a (c_markers c AND NOT (MARKER_BLACK OR MARKER_GRAY)) vm);
                    Some (a # kept, vm1) }
          else do { vm1 \<leftarrow> freeObject a vm; sweep_list as vm1 } }"

definition sweep :: "vm \<Rightarrow> vm option" where
  "sweep vm = do { (kept, vm1) \<leftarrow> sweep_list (vm_main vm) vm; Some (vm1\<lparr>vm_main := kept\<rparr>) }"

definition GC_HEAP_GROW_FACTOR :: u64 where "GC_HEAP_GROW_FACTOR = 2"

definition collectGarbage :: "(nat \<Rightarrow> bool) \<Rightarrow> vm \<Rightarrow> vm option" where
  "collectGarbage mem vm =
     do { vm1 \<leftarrow> markRoots mem vm;
          vm2 \<leftarrow> traceReferences mem vm1;
          strings \<leftarrow> tableRemoveWhite (str_view (vm_heap vm2)) (vm_strings vm2);
          vm3 \<leftarrow> sweep (vm2\<lparr>vm_strings := strings\<rparr>);
          Some (vm3\<lparr>vm_nextGC := vm_bytes vm3 * GC_HEAP_GROW_FACTOR\<rparr>) }"

text \<open>
  \<open>reallocate\<close>: the accounting, the collection it may trigger, and whether a block was
  obtained (\<open>avail\<close> is the allocator's answer; a request for 0 bytes releases the block).
\<close>

definition reallocate :: "(nat \<Rightarrow> bool) \<Rightarrow> bool \<Rightarrow> nat \<Rightarrow> nat \<Rightarrow> vm \<Rightarrow> (bool \<times> vm) option" where
  "reallocate mem avail oldSize newSize vm =
     (let vm1 = vm\<lparr>vm_bytes := vm_bytes vm + (word_of_nat newSize - word_of_nat oldSize)\<rparr>
      in do { vm2 \<leftarrow> (if newSize > oldSize \<and> vm_bytes vm1 > vm_nextGC vm1
                      then collectGarbage mem vm1 else Some vm1);
              Some (newSize \<noteq> 0 \<and> avail, vm2) })"

section \<open>Reachability and the marking invariant\<close>

text \<open>
  Reachable objects of the main heap.  Objects of the permanent heap are born black, so the collector
  does not look behind them.
\<close>

inductive reach :: "vm \<Rightarrow> addr \<Rightarrow> bool" for vm where
  root: "\<lbrakk>Some a \<in> set (root_refs vm); a \<in> set (vm_main vm)\<rbrakk> \<Longrightarrow> reach vm a"
| step: "\<lbrakk>reach vm b; vm_heap vm b = Some c; Some a \<in> set (traced (c_obj c)); a \<in> set (vm_main vm)\<rbrakk>
         \<Longrightarrow> reach vm a"

lemma reach_main: "reach vm a \<Longrightarrow> a \<in> set (vm_main vm)"
  by (induction rule: reach.induct) auto

definition strings_ready :: "vm \<Rightarrow> bool" where
  "strings_ready vm \<longleftrightarrow> table_inv (str_view (vm_heap vm)) (vm_strings vm) \<and>
     (\<forall>a\<in>dom (table_map (vm_strings vm)). \<exists>chars hash. map_option c_obj (vm_heap vm a) = Some (OString chars hash))"

definition children_live :: "vm \<Rightarrow> bool" where
  "children_live vm \<longleftrightarrow> (\<forall>b c a. reach vm b \<and> vm_heap vm b = Some c \<and> Some a \<in> set (traced (c_obj c)) \<longrightarrow>
        vm_heap vm a \<noteq> None)"

definition gc_ready :: "vm \<Rightarrow> bool" where
  "gc_ready vm \<longleftrightarrow>
     distinct (vm_main vm) \<and>
     (\<forall>a\<in>set (vm_main vm). \<exists>c. vm_heap vm a = Some c \<and> c_markers c = 0) \<and>
     (\<forall>a c. vm_heap vm a = Some c \<and> a \<notin> set (vm_main vm) \<longrightarrow> c_markers c = MARKER_BLACK) \<and>
     vm_grayStack vm = [] \<and> \<not> vm_grayOverflow vm \<and>
     (\<forall>a. Some a \<in> set (root_refs vm) \<longrightarrow> vm_heap vm a \<noteq> None) \<and>
     children_live vm \<and>
     strings_ready vm"

definition marker :: "vm \<Rightarrow> addr \<Rightarrow> byte" where
  "marker vm a = c_markers (the (vm_heap vm a))"

definition is_marked :: "vm \<Rightarrow> addr \<Rightarrow> bool" where
  "is_marked vm a \<longleftrightarrow> vm_heap vm a \<noteq> None \<and> (marker vm a = 1 \<or> marker vm a = 3)"

text \<open>Only markers and the gray stack change while marking.\<close>

definition vm_frame :: "vm \<Rightarrow> vm" where
  "vm_frame vm = vm\<lparr>vm_heap := Map.empty, vm_grayStack := [], vm_grayOverflow := False, vm_grayCapacity := 0\<rparr>"

definition same_but_marks :: "vm \<Rightarrow> vm \<Rightarrow> bool" where
  "same_but_marks vm0 vm \<longleftrightarrow>
     vm_frame vm = vm_frame vm0 \<and>
     (\<forall>a. map_option c_obj (vm_heap vm a) = map_option c_obj (vm_heap vm0 a)) \<and>
     (\<forall>a. a \<notin> set (vm_main vm0) \<longrightarrow> vm_heap vm a = vm_heap vm0 a)"

text \<open>
  \<open>E\<close> holds an object that is being blackened: its targets need not be marked yet.
\<close>

definition mark_inv :: "vm \<Rightarrow> addr set \<Rightarrow> vm \<Rightarrow> bool" where
  "mark_inv vm0 E vm \<longleftrightarrow>
     same_but_marks vm0 vm \<and>
     (\<forall>a\<in>set (vm_main vm0). marker vm a \<in> {0, 1, 3} \<and> (marker vm a \<noteq> 0 \<longrightarrow> reach vm0 a)) \<and>
     (\<forall>a\<in>set (vm_main vm0). marker vm a = 1 \<and> a \<notin> E \<longrightarrow>
        (\<forall>b. Some b \<in> set (traced (obj_at (vm_heap vm0) a)) \<longrightarrow> is_marked vm b)) \<and>
     (\<not> vm_grayOverflow vm \<longrightarrow> distinct (vm_grayStack vm) \<and>
        set (vm_grayStack vm) = {a \<in> set (vm_main vm0). marker vm a = 3})"

text \<open>Work left: white objects count twice, gray ones once.\<close>

definition weight :: "byte \<Rightarrow> nat" where
  "weight m = (if m = 0 then 2 else if m = 3 then 1 else 0)"

definition mark_work :: "vm \<Rightarrow> nat" where
  "mark_work vm = (\<Sum>a\<in>set (vm_main vm). weight (marker vm a))"

lemma set_markers_simps [simp]:
  "vm_main (set_markers a m vm) = vm_main vm" "vm_grayStack (set_markers a m vm) = vm_grayStack vm"
  "vm_grayOverflow (set_markers a m vm) = vm_grayOverflow vm"
  "vm_grayCapacity (set_markers a m vm) = vm_grayCapacity vm"
  "(vm_heap (set_markers a m vm) b = None) = (vm_heap vm b = None)"
  "b \<noteq> a \<Longrightarrow> vm_heap (set_markers a m vm) b = vm_heap vm b"
  "vm_heap vm a \<noteq> None \<Longrightarrow> marker (set_markers a m vm) a = m"
  "b \<noteq> a \<Longrightarrow> marker (set_markers a m vm) b = marker vm b"
  by (auto simp: set_markers_def marker_def)

lemma vm_frame_simps [simp]:
  "vm_main (vm_frame vm) = vm_main vm" "vm_strings (vm_frame vm) = vm_strings vm"
  "root_refs (vm_frame vm) = root_refs vm" "vm_bytes (vm_frame vm) = vm_bytes vm"
  "vm_frame (set_markers a m vm) = vm_frame vm"
  "vm_frame (vm\<lparr>vm_grayStack := gs\<rparr>) = vm_frame vm"
  "vm_frame (vm\<lparr>vm_grayOverflow := b\<rparr>) = vm_frame vm"
  "vm_frame (vm\<lparr>vm_grayCapacity := n\<rparr>) = vm_frame vm"
  by (simp_all add: vm_frame_def root_refs_def set_markers_def)

lemma same_frame:
  assumes "vm_frame vm = vm_frame vm0"
  shows "vm_main vm = vm_main vm0" "vm_strings vm = vm_strings vm0" "root_refs vm = root_refs vm0"
    "vm_bytes vm = vm_bytes vm0"
  by (metis assms vm_frame_simps(1)) (metis assms vm_frame_simps(2), metis assms vm_frame_simps(3),
    metis assms vm_frame_simps(4))

lemma marker_gray_fields [simp]:
  "marker (vm\<lparr>vm_grayStack := gs\<rparr>) a = marker vm a" "marker (vm\<lparr>vm_grayOverflow := b\<rparr>) a = marker vm a"
  "marker (vm\<lparr>vm_grayCapacity := n\<rparr>) a = marker vm a"
  by (simp_all add: marker_def)

lemma marked_gray_fields [simp]:
  "is_marked (vm\<lparr>vm_grayStack := gs\<rparr>) a = is_marked vm a" "is_marked (vm\<lparr>vm_grayOverflow := b\<rparr>) a = is_marked vm a"
  "is_marked (vm\<lparr>vm_grayCapacity := n\<rparr>) a = is_marked vm a"
  "mark_work (vm\<lparr>vm_grayStack := gs\<rparr>) = mark_work vm" "mark_work (vm\<lparr>vm_grayOverflow := b\<rparr>) = mark_work vm"
  "mark_work (vm\<lparr>vm_grayCapacity := n\<rparr>) = mark_work vm"
  by (simp_all add: is_marked_def mark_work_def)

lemma same_but_marks_heap:
  assumes "same_but_marks vm0 vm"
  shows "vm_main vm = vm_main vm0" "vm_heap vm a = None \<longleftrightarrow> vm_heap vm0 a = None"
    "obj_at (vm_heap vm) a = obj_at (vm_heap vm0) a"
proof -
  have o: "map_option c_obj (vm_heap vm a) = map_option c_obj (vm_heap vm0 a)" and f: "vm_frame vm = vm_frame vm0"
    using assms by (auto simp: same_but_marks_def)
  show "vm_main vm = vm_main vm0" by (rule same_frame(1) [OF f])
  show "vm_heap vm a = None \<longleftrightarrow> vm_heap vm0 a = None"
    using o by (cases "vm_heap vm a"; cases "vm_heap vm0 a"; simp)
  show "obj_at (vm_heap vm) a = obj_at (vm_heap vm0) a"
    using o by (cases "vm_heap vm a"; cases "vm_heap vm0 a"; simp add: obj_at_def)
qed

lemma same_but_marks_set:
  assumes "same_but_marks vm0 vm" "a \<in> set (vm_main vm0)"
  shows "same_but_marks vm0 (set_markers a m vm)"
proof -
  have "map_option c_obj (vm_heap (set_markers a m vm) b) = map_option c_obj (vm_heap vm0 b)" for b
    using assms(1) by (cases "b = a") (auto simp: same_but_marks_def set_markers_def option.map_comp comp_def)
  moreover have "vm_heap (set_markers a m vm) b = vm_heap vm0 b" if "b \<notin> set (vm_main vm0)" for b
  proof -
    have "b \<noteq> a" using that assms(2) by auto
    then show ?thesis using assms(1) that by (simp add: same_but_marks_def)
  qed
  ultimately show ?thesis using assms(1) by (simp add: same_but_marks_def)
qed

lemma mark_work_set:
  assumes "a \<in> set (vm_main vm)" "vm_heap vm a \<noteq> None"
  shows "mark_work (set_markers a m vm) + weight (marker vm a) = mark_work vm + weight m"
proof -
  let ?vm = "set_markers a m vm"
  have "(\<Sum>b\<in>set (vm_main vm) - {a}. weight (marker ?vm b)) = (\<Sum>b\<in>set (vm_main vm) - {a}. weight (marker vm b))"
    by (rule sum.cong) auto
  then have "mark_work ?vm = weight m + (\<Sum>b\<in>set (vm_main vm) - {a}. weight (marker vm b))"
    using assms unfolding mark_work_def set_markers_simps(1)
    by (subst sum.remove [OF _ assms(1)]) auto
  moreover have "mark_work vm = weight (marker vm a) + (\<Sum>b\<in>set (vm_main vm) - {a}. weight (marker vm b))"
    unfolding mark_work_def by (subst sum.remove [OF _ assms(1)]) auto
  ultimately show ?thesis by simp
qed

section \<open>Marking preserves the invariant\<close>

lemma mark_inv_same: "mark_inv vm0 E vm \<Longrightarrow> same_but_marks vm0 vm"
  by (simp add: mark_inv_def)

lemma mark_inv_marker: "mark_inv vm0 E vm \<Longrightarrow> a \<in> set (vm_main vm0) \<Longrightarrow> marker vm a = 0 \<or> marker vm a = 1 \<or> marker vm a = 3"
  by (auto simp: mark_inv_def)

text \<open>What is known when an object may be marked: it is live and, in the main heap, reachable.\<close>

definition may_mark :: "vm \<Rightarrow> addr option \<Rightarrow> bool" where
  "may_mark vm0 r \<longleftrightarrow> (\<forall>a. r = Some a \<longrightarrow> vm_heap vm0 a \<noteq> None \<and> (a \<in> set (vm_main vm0) \<longrightarrow> reach vm0 a))"

lemma mark_inv_gray:
  assumes inv: "mark_inv vm0 E vm" and a: "a \<in> set (vm_main vm0)" "reach vm0 a" "marker vm a = 0"
    and live: "vm_heap vm a \<noteq> None"
    and vm': "vm_heap vm' = vm_heap (set_markers a 3 vm)" "vm_frame vm' = vm_frame vm"
    and gs: "\<not> vm_grayOverflow vm' \<Longrightarrow> \<not> vm_grayOverflow vm \<and> vm_grayStack vm' = a # vm_grayStack vm"
  shows "mark_inv vm0 E vm'"
proof -
  have m: "marker vm' b = (if b = a then 3 else marker vm b)" for b
    using live vm'(1) by (auto simp: marker_def set_markers_def)
  have marked: "is_marked vm b \<Longrightarrow> is_marked vm' b" for b
    using a(3) m live by (auto simp: is_marked_def vm'(1))
  have "same_but_marks vm0 (set_markers a 3 vm)"
    by (rule same_but_marks_set [OF mark_inv_same [OF inv] a(1)])
  then have "same_but_marks vm0 vm'" using vm' by (simp add: same_but_marks_def)
  moreover have "\<forall>b\<in>set (vm_main vm0). marker vm' b \<in> {0, 1, 3} \<and> (marker vm' b \<noteq> 0 \<longrightarrow> reach vm0 b)"
    using inv a(2) by (auto simp: mark_inv_def m)
  moreover have "\<forall>b\<in>set (vm_main vm0). marker vm' b = 1 \<and> b \<notin> E \<longrightarrow>
        (\<forall>c. Some c \<in> set (traced (obj_at (vm_heap vm0) b)) \<longrightarrow> is_marked vm' c)"
    using inv marked by (auto simp: mark_inv_def m)
  moreover have "\<not> vm_grayOverflow vm' \<longrightarrow> distinct (vm_grayStack vm') \<and>
        set (vm_grayStack vm') = {b \<in> set (vm_main vm0). marker vm' b = 3}"
    using inv gs a by (auto simp: mark_inv_def m)
  ultimately show ?thesis unfolding mark_inv_def by blast
qed

lemma marker_bits [simp]:
  "MARKER_BLACK OR MARKER_GRAY = 3" "(3::byte) AND NOT MARKER_GRAY = 1" "(3::byte) AND MARKER_GRAY = 2"
  "(1::byte) AND MARKER_GRAY = 0" "(0::byte) AND MARKER_GRAY = 0" "(1::byte) AND NOT 3 = 0"
  by (simp_all add: MARKER_BLACK_def MARKER_GRAY_def)

lemma markers_1: "vm_heap vm a = Some c \<Longrightarrow> marker vm a = c_markers c"
  by (simp add: marker_def)

lemma markObject_spec:
  assumes ready: "gc_ready vm0" and inv: "mark_inv vm0 E vm" and ok: "may_mark vm0 r"
  obtains vm' where "markObject mem r vm = Some vm'" "mark_inv vm0 E vm'"
    "\<And>a. r = Some a \<Longrightarrow> is_marked vm' a"
    "\<And>a. is_marked vm a \<Longrightarrow> is_marked vm' a \<and> vm_heap vm' a = vm_heap vm a"
    "mark_work vm' \<le> mark_work vm" "vm_grayOverflow vm \<Longrightarrow> vm_grayOverflow vm'"
proof (cases r)
  case None
  with inv show thesis by (intro that [of vm]) (auto simp: markObject_def)
next
  case (Some a)
  note same = same_but_marks_heap [OF mark_inv_same [OF inv]]
  obtain c where c: "vm_heap vm a = Some c"
    using ok Some same(2) [of a] by (auto simp: may_mark_def)
  note m = markers_1 [OF c]
  show thesis
  proof (cases "a \<in> set (vm_main vm0) \<and> marker vm a = 0")
    case False
    have marked: "is_marked vm a"
    proof (cases "a \<in> set (vm_main vm0)")
      case True
      with False mark_inv_marker [OF inv True] c show ?thesis by (auto simp: is_marked_def)
    next
      case out: False
      then have "vm_heap vm0 a = Some c" using inv c by (auto simp: mark_inv_def same_but_marks_def)
      then have "c_markers c = 1" using ready out by (auto simp: gc_ready_def MARKER_BLACK_def)
      with c m show ?thesis by (simp add: is_marked_def)
    qed
    then have "c_markers c AND MARKER_BLACK \<noteq> 0" using m by (auto simp: is_marked_def MARKER_BLACK_def)
    then have "markObject mem r vm = Some vm" using c Some by (simp add: markObject_def)
    with inv marked Some show thesis by (intro that [of vm]) auto
  next
    case True
    let ?vm = "set_markers a 3 vm"
    have a: "a \<in> set (vm_main vm0)" "marker vm a = 0" "c_markers c = 0" using True m by auto
    have reach: "reach vm0 a" using ok Some a(1) by (auto simp: may_mark_def)
    obtain vm' where vm': "markObject mem r vm = Some vm'"
      "vm_heap vm' = vm_heap ?vm" "vm_frame vm' = vm_frame vm"
      "\<not> vm_grayOverflow vm' \<Longrightarrow> \<not> vm_grayOverflow vm \<and> vm_grayStack vm' = a # vm_grayStack vm"
      "vm_grayOverflow vm \<Longrightarrow> vm_grayOverflow vm'"
    proof -
      consider "vm_grayOverflow vm" | "\<not> vm_grayOverflow vm" "vm_grayCapacity vm < length (vm_grayStack vm) + 1"
        "\<not> mem (grow_capacity (vm_grayCapacity vm))"
        | "\<not> vm_grayOverflow vm" "vm_grayCapacity vm < length (vm_grayStack vm) + 1"
        "mem (grow_capacity (vm_grayCapacity vm))"
        | "\<not> vm_grayOverflow vm" "\<not> vm_grayCapacity vm < length (vm_grayStack vm) + 1" by blast
      then show thesis
      proof cases
        case 1
        then show thesis by (intro that [of ?vm]) (simp_all add: markObject_def Some c a(3) Let_def)
      next
        case 2
        then show thesis
          by (intro that [of "?vm\<lparr>vm_grayOverflow := True\<rparr>"])
            (simp_all add: markObject_def Some c a(3) Let_def)
      next
        case 3
        then show thesis
          by (intro that [of "?vm\<lparr>vm_grayStack := a # vm_grayStack vm\<rparr>\<lparr>vm_grayCapacity := grow_capacity (vm_grayCapacity vm)\<rparr>"])
            (simp_all add: markObject_def Some c a(3) Let_def)
      next
        case 4
        then show thesis
          by (intro that [of "?vm\<lparr>vm_grayStack := a # vm_grayStack vm\<rparr>"])
            (simp_all add: markObject_def Some c a(3) Let_def)
      qed
    qed
    have live: "vm_heap vm a \<noteq> None" using c by simp
    have inv': "mark_inv vm0 E vm'" by (rule mark_inv_gray [OF inv a(1) reach a(2) live vm'(2,3,4)])
    have mk: "marker vm' b = (if b = a then 3 else marker vm b)" for b
      using live vm'(2) by (auto simp: marker_def set_markers_def)
    have main: "vm_main vm' = vm_main vm" by (rule same_frame(1) [OF vm'(3)])
    have "mark_work vm' = mark_work ?vm"
      by (simp add: mark_work_def main marker_def vm'(2))
    then have "mark_work vm' \<le> mark_work vm"
      using mark_work_set [of a vm 3] a(1,2) live same(1) by (simp add: weight_def)
    moreover have "is_marked vm' b \<and> vm_heap vm' b = vm_heap vm b" if "is_marked vm b" for b
      using that a(2) by (cases "b = a") (auto simp: is_marked_def mk vm'(2))
    moreover have "is_marked vm' a" using live by (simp add: is_marked_def mk vm'(2))
    ultimately show thesis using that [OF vm'(1) inv'] Some vm'(5) by auto
  qed
qed

lemma mark_all_spec:
  assumes ready: "gc_ready vm0" and inv: "mark_inv vm0 E vm" and ok: "\<forall>r\<in>set rs. may_mark vm0 r"
  shows "\<exists>vm'. mark_all mem rs vm = Some vm' \<and> mark_inv vm0 E vm' \<and>
    (\<forall>a. Some a \<in> set rs \<longrightarrow> is_marked vm' a) \<and>
    (\<forall>a. is_marked vm a \<longrightarrow> is_marked vm' a \<and> vm_heap vm' a = vm_heap vm a) \<and>
    mark_work vm' \<le> mark_work vm \<and> (vm_grayOverflow vm \<longrightarrow> vm_grayOverflow vm')"
  using inv ok
proof (induction rs arbitrary: vm)
  case Nil
  then show ?case by simp
next
  case (Cons r rs)
  then have "may_mark vm0 r" by simp
  from markObject_spec [OF ready Cons.prems(1) this, of mem] obtain vm1 where vm1:
    "markObject mem r vm = Some vm1" "mark_inv vm0 E vm1" "\<And>a. r = Some a \<Longrightarrow> is_marked vm1 a"
    "\<And>a. is_marked vm a \<Longrightarrow> is_marked vm1 a \<and> vm_heap vm1 a = vm_heap vm a"
    "mark_work vm1 \<le> mark_work vm" "vm_grayOverflow vm \<Longrightarrow> vm_grayOverflow vm1" by blast
  from Cons.IH [OF vm1(2)] Cons.prems(2) obtain vm2 where vm2:
    "mark_all mem rs vm1 = Some vm2" "mark_inv vm0 E vm2" "\<forall>a. Some a \<in> set rs \<longrightarrow> is_marked vm2 a"
    "\<forall>a. is_marked vm1 a \<longrightarrow> is_marked vm2 a \<and> vm_heap vm2 a = vm_heap vm1 a"
    "mark_work vm2 \<le> mark_work vm1" "vm_grayOverflow vm1 \<longrightarrow> vm_grayOverflow vm2" by auto
  have "is_marked vm2 a" if "Some a \<in> set (r # rs)" for a
    using that vm1(3) [of a] vm2(3,4) by auto
  moreover have "is_marked vm2 a \<and> vm_heap vm2 a = vm_heap vm a" if "is_marked vm a" for a
    using vm1(4) [OF that] vm2(4) by auto
  ultimately show ?case using vm1(1,5,6) vm2(1,2,5,6) by auto
qed

section \<open>Blackening and tracing\<close>

lemma mark_inv_ungray:
  assumes inv: "mark_inv vm0 {} vm" and a: "a \<in> set (vm_main vm0)" "marker vm a = 3" and live: "vm_heap vm a \<noteq> None"
    and gs: "\<not> vm_grayOverflow vm \<Longrightarrow> distinct (a # gs) \<and> set (a # gs) = set (vm_grayStack vm)"
  shows "mark_inv vm0 {a} (set_markers a 1 (vm\<lparr>vm_grayStack := gs\<rparr>))"
proof -
  let ?vm = "vm\<lparr>vm_grayStack := gs\<rparr>" and ?vm' = "set_markers a 1 (vm\<lparr>vm_grayStack := gs\<rparr>)"
  have m: "marker ?vm' b = (if b = a then 1 else marker vm b)" for b using live by auto
  have marked: "is_marked vm b \<Longrightarrow> is_marked ?vm' b" for b
    using m live by (auto simp: is_marked_def)
  have "same_but_marks vm0 ?vm" using inv by (auto simp: mark_inv_def same_but_marks_def)
  then have "same_but_marks vm0 ?vm'" by (rule same_but_marks_set [OF _ a(1)])
  moreover have "\<forall>b\<in>set (vm_main vm0). marker ?vm' b \<in> {0, 1, 3} \<and> (marker ?vm' b \<noteq> 0 \<longrightarrow> reach vm0 b)"
    using inv a by (auto simp: mark_inv_def m)
  moreover have "\<forall>b\<in>set (vm_main vm0). marker ?vm' b = 1 \<and> b \<notin> {a} \<longrightarrow>
        (\<forall>c. Some c \<in> set (traced (obj_at (vm_heap vm0) b)) \<longrightarrow> is_marked ?vm' c)"
    using inv marked by (auto simp: mark_inv_def m)
  moreover have "\<not> vm_grayOverflow ?vm' \<longrightarrow> distinct (vm_grayStack ?vm') \<and>
        set (vm_grayStack ?vm') = {b \<in> set (vm_main vm0). marker ?vm' b = 3}"
    using inv gs a by (auto simp: mark_inv_def m)
  ultimately show ?thesis unfolding mark_inv_def by blast
qed

lemma mark_inv_close:
  assumes "mark_inv vm0 {a} vm" "\<And>b. Some b \<in> set (traced (obj_at (vm_heap vm0) a)) \<Longrightarrow> is_marked vm b"
  shows "mark_inv vm0 {} vm"
  using assms unfolding mark_inv_def by blast

lemma may_mark_traced:
  assumes ready: "gc_ready vm0" and "reach vm0 a" "vm_heap vm0 a = Some c" "r \<in> set (traced (c_obj c))"
  shows "may_mark vm0 r"
  unfolding may_mark_def
proof (intro allI impI conjI)
  fix b assume r: "r = Some b"
  have "children_live vm0" using ready by (simp add: gc_ready_def)
  then show "vm_heap vm0 b \<noteq> None" using assms(2-4) r unfolding children_live_def by blast
  show "reach vm0 b" if "b \<in> set (vm_main vm0)"
    by (rule reach.step [OF assms(2,3) _ that]) (use assms(4) r in simp)
qed

text \<open>Taking a gray object off the work list and blackening it makes progress.\<close>

lemma blacken_step:
  assumes ready: "gc_ready vm0" and inv: "mark_inv vm0 {} vm"
    and a: "a \<in> set (vm_main vm0)" "marker vm a = 3"
    and gs: "\<not> vm_grayOverflow vm \<Longrightarrow> distinct (a # gs) \<and> set (a # gs) = set (vm_grayStack vm)"
  obtains vm1 vm2 where "ungray a (vm\<lparr>vm_grayStack := gs\<rparr>) = Some vm1" "blackenObject mem a vm1 = Some vm2"
    "mark_inv vm0 {} vm2" "mark_work vm2 < mark_work vm" "vm_grayOverflow vm \<longrightarrow> vm_grayOverflow vm2"
    "\<forall>b. is_marked vm b \<longrightarrow> is_marked vm2 b"
proof -
  note same = same_but_marks_heap [OF mark_inv_same [OF inv]]
  obtain c0 where c0: "vm_heap vm0 a = Some c0" using ready a(1) by (auto simp: gc_ready_def)
  obtain c where c: "vm_heap vm a = Some c" using same(2) [of a] c0 by auto
  have live: "vm_heap vm a \<noteq> None" using c by simp
  let ?vm1 = "set_markers a 1 (vm\<lparr>vm_grayStack := gs\<rparr>)"
  have un: "ungray a (vm\<lparr>vm_grayStack := gs\<rparr>) = Some ?vm1"
    using c a(2) markers_1 [OF c] by (simp add: ungray_def)
  have inv1: "mark_inv vm0 {a} ?vm1" by (rule mark_inv_ungray [OF inv a live gs])
  have reach: "reach vm0 a" using inv a by (auto simp: mark_inv_def)
  have obj: "obj_at (vm_heap vm0) a = c_obj c0" using c0 by (simp add: obj_at_def)
  have "\<forall>r\<in>set (traced (c_obj c0)). may_mark vm0 r"
    by (intro ballI may_mark_traced [OF ready reach c0])
  from mark_all_spec [OF ready inv1 this, of mem] obtain vm2 where vm2:
    "mark_all mem (traced (c_obj c0)) ?vm1 = Some vm2" "mark_inv vm0 {a} vm2"
    "\<forall>b. Some b \<in> set (traced (c_obj c0)) \<longrightarrow> is_marked vm2 b"
    "mark_work vm2 \<le> mark_work ?vm1" "vm_grayOverflow ?vm1 \<longrightarrow> vm_grayOverflow vm2"
    "\<forall>b. is_marked ?vm1 b \<longrightarrow> is_marked vm2 b \<and> vm_heap vm2 b = vm_heap ?vm1 b"
    by (elim exE conjE)
  have mono: "is_marked vm2 b" if "is_marked vm b" for b
  proof -
    have "is_marked ?vm1 b" using that live by (cases "b = a") (auto simp: is_marked_def)
    then show ?thesis using vm2(6) by blast
  qed
  have "c_obj c = c_obj c0" using same(3) [of a] c c0 by (simp add: obj_at_def)
  moreover have "vm_heap ?vm1 a = Some (c\<lparr>c_markers := 1\<rparr>)" using c by (simp add: set_markers_def)
  ultimately have bl: "blackenObject mem a ?vm1 = Some vm2" using vm2(1) by (simp add: blackenObject_def)
  have "mark_work ?vm1 < mark_work vm"
    using mark_work_set [of a "vm\<lparr>vm_grayStack := gs\<rparr>" 1] a same(1) live by (simp add: weight_def)
  with vm2(4) have "mark_work vm2 < mark_work vm" by simp
  moreover have "mark_inv vm0 {} vm2" using mark_inv_close [OF vm2(2)] vm2(3) by (simp add: obj)
  ultimately show thesis using that [OF un bl] vm2(5) mono by simp
qed

lemma slow_pass_spec:
  assumes ready: "gc_ready vm0" and "mark_inv vm0 {} vm" "vm_grayOverflow vm" "set as \<subseteq> set (vm_main vm0)"
  shows "\<exists>vm' b. slow_pass mem as vm haveGray = Some (vm', b) \<and> mark_inv vm0 {} vm' \<and> vm_grayOverflow vm' \<and>
    mark_work vm' \<le> mark_work vm \<and> (haveGray \<longrightarrow> b) \<and> (b \<and> \<not> haveGray \<longrightarrow> mark_work vm' < mark_work vm) \<and>
    (\<not> b \<longrightarrow> vm' = vm \<and> (\<forall>a\<in>set as. marker vm a \<noteq> 3)) \<and> (\<forall>a. is_marked vm a \<longrightarrow> is_marked vm' a)"
  using assms(2-4)
proof (induction as arbitrary: vm haveGray)
  case Nil
  then show ?case by simp
next
  case (Cons a as)
  note same = same_but_marks_heap [OF mark_inv_same [OF Cons.prems(1)]]
  have a: "a \<in> set (vm_main vm0)" using Cons.prems(3) by simp
  obtain c where c: "vm_heap vm a = Some c"
    using ready a same(2) [of a] by (auto simp: gc_ready_def)
  note m = markers_1 [OF c]
  show ?case
  proof (cases "marker vm a = 3")
    case True
    from blacken_step [OF ready Cons.prems(1) a True, of "vm_grayStack vm" mem] Cons.prems(2)
    obtain vm1 vm2 where step: "ungray a vm = Some vm1" "blackenObject mem a vm1 = Some vm2"
      "mark_inv vm0 {} vm2" "mark_work vm2 < mark_work vm" "vm_grayOverflow vm2"
      "\<forall>b. is_marked vm b \<longrightarrow> is_marked vm2 b" by auto
    from Cons.IH [OF step(3,5), of True] Cons.prems(3) obtain vm' where
      "slow_pass mem as vm2 True = Some (vm', True)" "mark_inv vm0 {} vm'" "vm_grayOverflow vm'"
      "mark_work vm' \<le> mark_work vm2" "\<forall>a. is_marked vm2 a \<longrightarrow> is_marked vm' a" by auto
    with step True c m show ?thesis
      by (intro exI [of _ vm'] exI [of _ True]) simp
  next
    case False
    then have "c_markers c AND MARKER_GRAY = 0" using mark_inv_marker [OF Cons.prems(1) a] m by auto
    with Cons.IH [OF Cons.prems(1,2), of haveGray] Cons.prems(3) c False show ?thesis by auto
  qed
qed

lemma slowTrace_spec:
  assumes ready: "gc_ready vm0" and "mark_inv vm0 {} vm" "vm_grayOverflow vm"
  shows "\<exists>vm'. slowTraceReferences mem vm = Some vm' \<and> mark_inv vm0 {} vm' \<and>
           (\<forall>a\<in>set (vm_main vm0). marker vm' a \<noteq> 3) \<and> (\<forall>a. is_marked vm a \<longrightarrow> is_marked vm' a)"
  using assms(2,3)
proof (induction "mark_work vm" arbitrary: vm rule: less_induct)
  case less
  have main: "vm_main vm = vm_main vm0" by (rule same_but_marks_heap(1) [OF mark_inv_same [OF less.prems(1)]])
  then have "set (vm_main vm) \<subseteq> set (vm_main vm0)" by simp
  from slow_pass_spec [OF ready less.prems this, of mem False] obtain vm1 b where vm1:
    "slow_pass mem (vm_main vm) vm False = Some (vm1, b)" "mark_inv vm0 {} vm1" "vm_grayOverflow vm1"
    "b \<and> \<not> False \<longrightarrow> mark_work vm1 < mark_work vm"
    "\<not> b \<longrightarrow> vm1 = vm \<and> (\<forall>a\<in>set (vm_main vm). marker vm a \<noteq> 3)"
    "\<forall>a. is_marked vm a \<longrightarrow> is_marked vm1 a" by (elim exE conjE)
  show ?case
  proof (cases b)
    case True
    then have "mark_work vm1 < mark_work vm" using vm1(4) by simp
    from less.hyps [OF this vm1(2,3)] obtain vm' where
      "slowTraceReferences mem vm1 = Some vm'" "mark_inv vm0 {} vm'"
      "\<forall>a\<in>set (vm_main vm0). marker vm' a \<noteq> 3" "\<forall>a. is_marked vm1 a \<longrightarrow> is_marked vm' a"
      by (elim exE conjE)
    with True vm1(1,6) show ?thesis by (subst slowTraceReferences.simps) simp
  next
    case False
    with vm1 less.prems main show ?thesis by (subst slowTraceReferences.simps) simp
  qed
qed

lemma trace_loop_spec:
  assumes ready: "gc_ready vm0" and "mark_inv vm0 {} vm" "\<not> vm_grayOverflow vm"
  shows "\<exists>vm'. trace_loop mem vm = Some vm' \<and> mark_inv vm0 {} vm' \<and>
           (\<forall>a\<in>set (vm_main vm0). marker vm' a \<noteq> 3) \<and> (\<forall>a. is_marked vm a \<longrightarrow> is_marked vm' a)"
  using assms(2,3)
proof (induction "mark_work vm" arbitrary: vm rule: less_induct)
  case less
  have gray: "distinct (vm_grayStack vm)" "set (vm_grayStack vm) = {a \<in> set (vm_main vm0). marker vm a = 3}"
    using less.prems by (auto simp: mark_inv_def)
  show ?case
  proof (cases "vm_grayStack vm")
    case Nil
    with less.prems gray show ?thesis by (subst trace_loop.simps) auto
  next
    case (Cons a rest)
    have a: "a \<in> set (vm_main vm0)" "marker vm a = 3" using Cons gray(2) by auto
    have gs: "distinct (a # rest) \<and> set (a # rest) = set (vm_grayStack vm)" using Cons gray(1) by simp
    obtain vm1 vm2 where step:
      "ungray a (vm\<lparr>vm_grayStack := rest\<rparr>) = Some vm1" "blackenObject mem a vm1 = Some vm2"
      "mark_inv vm0 {} vm2" "mark_work vm2 < mark_work vm" "vm_grayOverflow vm \<longrightarrow> vm_grayOverflow vm2"
      "\<forall>b. is_marked vm b \<longrightarrow> is_marked vm2 b"
      by (rule blacken_step [OF ready less.prems(1) a gs, of mem])
    show ?thesis
    proof (cases "vm_grayOverflow vm2")
      case True
      from slowTrace_spec [OF ready step(3) True, of mem] obtain vm' where
        "slowTraceReferences mem vm2 = Some vm'" "mark_inv vm0 {} vm'"
        "\<forall>a\<in>set (vm_main vm0). marker vm' a \<noteq> 3" "\<forall>a. is_marked vm2 a \<longrightarrow> is_marked vm' a"
        by (elim exE conjE)
      with step(1,2,6) Cons True show ?thesis by (subst trace_loop.simps) simp
    next
      case False
      from less.hyps [OF step(4,3) False] obtain vm' where
        "trace_loop mem vm2 = Some vm'" "mark_inv vm0 {} vm'"
        "\<forall>a\<in>set (vm_main vm0). marker vm' a \<noteq> 3" "\<forall>a. is_marked vm2 a \<longrightarrow> is_marked vm' a"
        by (elim exE conjE)
      with step(1,2,6) Cons False show ?thesis by (subst trace_loop.simps) simp
    qed
  qed
qed

section \<open>The result of a collection\<close>

lemma mark_inv_start:
  assumes "gc_ready vm"
  shows "mark_inv vm {} vm"
proof -
  have "marker vm a = 0" if "a \<in> set (vm_main vm)" for a
    using assms that by (auto simp: gc_ready_def marker_def)
  then show ?thesis
    using assms by (auto simp: mark_inv_def same_but_marks_def gc_ready_def)
qed

lemma may_mark_roots: "gc_ready vm \<Longrightarrow> \<forall>r\<in>set (root_refs vm). may_mark vm r"
  by (auto simp: may_mark_def gc_ready_def intro: reach.root)

lemma marking_spec:
  assumes ready: "gc_ready vm"
  obtains vm1 vm2 where "markRoots mem vm = Some vm1" "traceReferences mem vm1 = Some vm2"
    "same_but_marks vm vm2" "vm_grayStack vm2 = []" "\<not> vm_grayOverflow vm2"
    "\<forall>a\<in>set (vm_main vm). marker vm2 a = (if reach vm a then 1 else 0)"
proof -
  from mark_all_spec [OF ready mark_inv_start [OF ready] may_mark_roots [OF ready], of mem]
  obtain vm1 where vm1: "mark_all mem (root_refs vm) vm = Some vm1" "mark_inv vm {} vm1"
    "\<forall>a. Some a \<in> set (root_refs vm) \<longrightarrow> is_marked vm1 a" by blast
  have "\<exists>vm2. (if vm_grayOverflow vm1 then slowTraceReferences mem vm1 else trace_loop mem vm1) = Some vm2 \<and>
      mark_inv vm {} vm2 \<and> (\<forall>a\<in>set (vm_main vm). marker vm2 a \<noteq> 3) \<and>
      (\<forall>a. is_marked vm1 a \<longrightarrow> is_marked vm2 a)"
    using slowTrace_spec [OF ready vm1(2)] trace_loop_spec [OF ready vm1(2)] by simp
  then obtain vm2 where vm2:
    "(if vm_grayOverflow vm1 then slowTraceReferences mem vm1 else trace_loop mem vm1) = Some vm2"
    "mark_inv vm {} vm2" "\<forall>a\<in>set (vm_main vm). marker vm2 a \<noteq> 3"
    "\<forall>a. is_marked vm1 a \<longrightarrow> is_marked vm2 a" by blast
  have black: "marker vm2 a = 1" if "is_marked vm2 a" "a \<in> set (vm_main vm)" for a
    using that vm2(3) by (auto simp: is_marked_def)
  have reached: "marker vm2 a = 1" if "reach vm a" for a
    using that
  proof (induction rule: reach.induct)
    case (root a)
    then show ?case using vm1(3) vm2(4) black by blast
  next
    case (step b c a)
    have "b \<in> set (vm_main vm)" by (rule reach_main [OF step(1)])
    moreover have "obj_at (vm_heap vm) b = c_obj c" using step(2) by (simp add: obj_at_def)
    ultimately have "is_marked vm2 a" using vm2(2) step(3,5) by (auto simp: mark_inv_def)
    then show ?case using black step(4) by blast
  qed
  let ?vm2 = "vm2\<lparr>vm_grayStack := []\<rparr>\<lparr>vm_grayOverflow := False\<rparr>"
  show thesis
  proof (rule that)
    show "markRoots mem vm = Some vm1" using vm1(1) by (simp add: markRoots_def)
    show "traceReferences mem vm1 = Some ?vm2" using vm2(1) by (simp add: traceReferences_def)
    show "same_but_marks vm ?vm2" using mark_inv_same [OF vm2(2)] by (simp add: same_but_marks_def)
    have "marker ?vm2 a = (if reach vm a then 1 else 0)" if a: "a \<in> set (vm_main vm)" for a
      using reached [of a] vm2(2,3) a by (auto simp: mark_inv_def)
    then show "\<forall>a\<in>set (vm_main vm). marker ?vm2 a = (if reach vm a then 1 else 0)" by blast
  qed simp_all
qed

lemma str_view_home:
  assumes "\<And>a. obj_at h' a = obj_at h a"
  shows "home (str_view h') s a = home (str_view h) s a"
  by (simp add: str_view_def assms split: obj.split)

lemma table_inv_home: "(\<And>s a. home hp' s a = home hp s a) \<Longrightarrow> table_inv hp' t = table_inv hp t"
  by (simp add: table_inv_def)

lemma sweep_list_spec:
  assumes "distinct as" "\<forall>a\<in>set as. vm_heap vm a \<noteq> None"
  shows "\<exists>vm'. sweep_list as vm = Some (filter (\<lambda>a. marker vm a \<noteq> 0) as, vm') \<and>
    (\<forall>a. vm_heap vm' a = (if a \<in> set as then (if marker vm a = 0 then None
       else map_option (c_markers_update (\<lambda>m. m AND NOT 3)) (vm_heap vm a)) else vm_heap vm a)) \<and>
    vm_frame (vm'\<lparr>vm_bytes := 0\<rparr>) = vm_frame (vm\<lparr>vm_bytes := 0\<rparr>) \<and>
    vm_grayStack vm' = vm_grayStack vm \<and> vm_grayOverflow vm' = vm_grayOverflow vm"
  using assms
proof (induction as arbitrary: vm)
  case Nil
  then show ?case by simp
next
  case (Cons a as)
  then obtain c where c: "vm_heap vm a = Some c" by auto
  note m = markers_1 [OF c]
  have "\<exists>vm1. vm_heap vm1 a = (if marker vm a = 0 then None
        else map_option (c_markers_update (\<lambda>m. m AND NOT 3)) (vm_heap vm a)) \<and>
      (\<forall>b. b \<noteq> a \<longrightarrow> vm_heap vm1 b = vm_heap vm b) \<and>
      vm_frame (vm1\<lparr>vm_bytes := 0\<rparr>) = vm_frame (vm\<lparr>vm_bytes := 0\<rparr>) \<and>
      vm_grayStack vm1 = vm_grayStack vm \<and> vm_grayOverflow vm1 = vm_grayOverflow vm \<and>
      sweep_list (a # as) vm = map_option (\<lambda>(k, v). (if marker vm a \<noteq> 0 then a # k else k, v)) (sweep_list as vm1)"
  proof (cases "marker vm a = 0")
    case True
    let ?vm1 = "vm\<lparr>vm_heap := (vm_heap vm)(a := None), vm_bytes := vm_bytes vm - word_of_nat (owned_bytes (c_obj c))
                            - word_of_nat (obj_size (type_of (c_obj c)))\<rparr>"
    have "freeObject a vm = Some ?vm1" using c by (simp add: freeObject_def)
    with True m c have "sweep_list (a # as) vm = map_option (\<lambda>(k, v). (k, v)) (sweep_list as ?vm1)"
      by (cases "sweep_list as ?vm1") auto
    then show ?thesis using True by (intro exI [of _ ?vm1]) (simp add: vm_frame_def)
  next
    case False
    let ?vm1 = "set_markers a (c_markers c AND NOT 3) vm"
    have "sweep_list (a # as) vm = map_option (\<lambda>(k, v). (a # k, v)) (sweep_list as ?vm1)"
      using False m c by (cases "sweep_list as ?vm1") auto
    then show ?thesis using False c
      by (intro exI [of _ ?vm1]) (simp add: vm_frame_def, simp add: set_markers_def)
  qed
  then obtain vm1 where vm1: "vm_heap vm1 a = (if marker vm a = 0 then None
        else map_option (c_markers_update (\<lambda>m. m AND NOT 3)) (vm_heap vm a))"
      "\<forall>b. b \<noteq> a \<longrightarrow> vm_heap vm1 b = vm_heap vm b"
      "vm_frame (vm1\<lparr>vm_bytes := 0\<rparr>) = vm_frame (vm\<lparr>vm_bytes := 0\<rparr>)"
      "vm_grayStack vm1 = vm_grayStack vm" "vm_grayOverflow vm1 = vm_grayOverflow vm"
      "sweep_list (a # as) vm = map_option (\<lambda>(k, v). (if marker vm a \<noteq> 0 then a # k else k, v)) (sweep_list as vm1)"
    by (elim exE conjE)
  have ne: "b \<noteq> a" if "b \<in> set as" for b using that Cons.prems(1) by auto
  have other: "marker vm1 b = marker vm b" if "b \<in> set as" for b
    using vm1(2) ne [OF that] by (simp add: marker_def)
  have flt: "filter (\<lambda>b. marker vm1 b \<noteq> 0) as = filter (\<lambda>b. marker vm b \<noteq> 0) as"
    by (rule filter_cong [OF refl]) (simp only: other)
  have "distinct as" "\<forall>b\<in>set as. vm_heap vm1 b \<noteq> None" using Cons.prems vm1(2) ne by auto
  from Cons.IH [OF this] obtain vm' where vm':
      "sweep_list as vm1 = Some (filter (\<lambda>b. marker vm1 b \<noteq> 0) as, vm')"
      "\<forall>b. vm_heap vm' b = (if b \<in> set as then (if marker vm1 b = 0 then None
         else map_option (c_markers_update (\<lambda>m. m AND NOT 3)) (vm_heap vm1 b)) else vm_heap vm1 b)"
      "vm_frame (vm'\<lparr>vm_bytes := 0\<rparr>) = vm_frame (vm1\<lparr>vm_bytes := 0\<rparr>)"
      "vm_grayStack vm' = vm_grayStack vm1" "vm_grayOverflow vm' = vm_grayOverflow vm1"
    by (elim exE conjE)
  have "vm_heap vm' b = (if b \<in> set (a # as) then (if marker vm b = 0 then None
         else map_option (c_markers_update (\<lambda>m. m AND NOT 3)) (vm_heap vm b)) else vm_heap vm b)" for b
  proof (cases "b = a")
    case True
    then have "b \<notin> set as" using Cons.prems(1) by simp
    then show ?thesis using vm'(2) vm1(1) True by simp
  next
    case False
    then show ?thesis using vm'(2) vm1(2) other [of b] by simp
  qed
  then show ?case using vm1 vm' flt by simp
qed

text \<open>The whole collection.\<close>

lemma reached_cell:
  assumes ready: "gc_ready vm" and a: "a \<in> set (vm_main vm)" and same: "same_but_marks vm vm2" and "marker vm2 a = 1"
  shows "map_option (c_markers_update (\<lambda>m. m AND NOT 3)) (vm_heap vm2 a) = vm_heap vm a"
proof -
  obtain c where c: "vm_heap vm a = Some c" "c_markers c = 0" using ready a by (auto simp: gc_ready_def)
  obtain c2 where c2: "vm_heap vm2 a = Some c2" using same_but_marks_heap(2) [OF same, of a] c by auto
  have "c_obj c2 = c_obj c" using same_but_marks_heap(3) [OF same, of a] c c2 by (simp add: obj_at_def)
  moreover have "c_markers c2 = 1" using assms(4) markers_1 [OF c2] by simp
  ultimately show ?thesis using c c2 by (cases c; cases c2) simp
qed

lemma collect_spec:
  assumes ready: "gc_ready vm"
  obtains vm' where "collectGarbage mem vm = Some vm'"
    "vm_main vm' = filter (reach vm) (vm_main vm)"
    "\<And>a. vm_heap vm' a = (if a \<in> set (vm_main vm) \<and> \<not> reach vm a then None else vm_heap vm a)"
    "\<And>a. a \<notin> set (vm_main vm) \<or> reach vm a \<Longrightarrow> table_map (vm_strings vm') a = table_map (vm_strings vm) a"
    "table_map (vm_strings vm') \<subseteq>\<^sub>m table_map (vm_strings vm)"
    "root_refs vm' = root_refs vm" "vm_grayStack vm' = []" "\<not> vm_grayOverflow vm'"
    "vm_nextGC vm' = vm_bytes vm' * 2"
proof -
  obtain vm1 vm2 where m: "markRoots mem vm = Some vm1" "traceReferences mem vm1 = Some vm2"
    and same: "same_but_marks vm vm2" and gray: "vm_grayStack vm2 = []" "\<not> vm_grayOverflow vm2"
    and mark_all: "\<forall>a\<in>set (vm_main vm). marker vm2 a = (if reach vm a then 1 else 0)"
    by (rule marking_spec [OF ready, of mem])
  have mark: "marker vm2 a = (if reach vm a then 1 else 0)" if "a \<in> set (vm_main vm)" for a
    using mark_all that by blast
  note heap = same_but_marks_heap [OF same]
  have fr: "vm_frame vm2 = vm_frame vm" using same by (simp add: same_but_marks_def)
  note frame = same_frame [OF fr]
  let ?hp = "str_view (vm_heap vm2)"
  have inv: "table_inv ?hp (vm_strings vm2)"
    using ready table_inv_home [OF str_view_home [OF heap(3)]] frame(2)
    by (simp add: gc_ready_def strings_ready_def)
  have sub: "set [0..<tcapacity (vm_strings vm2)] \<subseteq> {..<tcapacity (vm_strings vm2)}" by auto
  from removeWhite_slots_spec [OF inv sub] obtain strs where strs:
    "tableRemoveWhite ?hp (vm_strings vm2) = Some strs" "table_inv ?hp strs"
    "\<forall>a. os_markers (?hp a) \<noteq> 0 \<longrightarrow> table_map strs a = table_map (vm_strings vm2) a"
    "table_map strs \<subseteq>\<^sub>m table_map (vm_strings vm2)"
    unfolding tableRemoveWhite_def by (elim exE conjE)
  let ?vm3 = "vm2\<lparr>vm_strings := strs\<rparr>"
  have main3: "vm_main ?vm3 = vm_main vm" using heap(1) by simp
  have mk3: "marker ?vm3 a = marker vm2 a" for a by (simp add: marker_def)
  have "distinct (vm_main vm)" "\<forall>a\<in>set (vm_main vm). vm_heap ?vm3 a \<noteq> None"
    using ready heap(2) by (auto simp: gc_ready_def)
  from sweep_list_spec [OF this] obtain vm4 where vm4:
    "sweep_list (vm_main vm) ?vm3 = Some (filter (\<lambda>a. marker ?vm3 a \<noteq> 0) (vm_main vm), vm4)"
    "\<forall>a. vm_heap vm4 a = (if a \<in> set (vm_main vm) then (if marker ?vm3 a = 0 then None
       else map_option (c_markers_update (\<lambda>m. m AND NOT 3)) (vm_heap ?vm3 a)) else vm_heap ?vm3 a)"
    "vm_frame (vm4\<lparr>vm_bytes := 0\<rparr>) = vm_frame (?vm3\<lparr>vm_bytes := 0\<rparr>)"
    "vm_grayStack vm4 = vm_grayStack ?vm3" "vm_grayOverflow vm4 = vm_grayOverflow ?vm3"
    by (elim exE conjE)
  have kept: "filter (\<lambda>a. marker ?vm3 a \<noteq> 0) (vm_main vm) = filter (reach vm) (vm_main vm)"
    by (rule filter_cong [OF refl]) (simp add: mk3 mark)
  note frame4 = same_frame [OF vm4(3)]
  let ?vm5 = "vm4\<lparr>vm_main := filter (reach vm) (vm_main vm)\<rparr>"
  let ?vm6 = "?vm5\<lparr>vm_nextGC := vm_bytes ?vm5 * GC_HEAP_GROW_FACTOR\<rparr>"
  have sw: "sweep ?vm3 = Some ?vm5"
    using vm4(1) by (simp add: sweep_def main3 kept del: vm.simps)
  have h: "vm_heap vm4 a = (if a \<in> set (vm_main vm) \<and> \<not> reach vm a then None else vm_heap vm a)" for a
  proof (cases "a \<in> set (vm_main vm)")
    case True
    then show ?thesis
      using vm4(2) mk3 mark [OF True] reached_cell [OF ready True same] by (cases "reach vm a") auto
  next
    case False
    then have "vm_heap vm2 a = vm_heap vm a" using same by (simp add: same_but_marks_def)
    with False vm4(2) show ?thesis by simp
  qed
  have strs_kept: "table_map strs a = table_map (vm_strings vm) a" if a: "a \<notin> set (vm_main vm) \<or> reach vm a" for a
  proof (cases "table_map (vm_strings vm) a")
    case None
    then show ?thesis using strs(4) frame(2) by (metis domIff map_le_def)
  next
    case (Some v)
    then have "a \<in> dom (table_map (vm_strings vm))" by blast
    moreover have "strings_ready vm" using ready by (simp add: gc_ready_def)
    ultimately obtain chars hash where "map_option c_obj (vm_heap vm a) = Some (OString chars hash)"
      unfolding strings_ready_def by blast
    then obtain c where c: "vm_heap vm a = Some c" "c_obj c = OString chars hash" by auto
    have "obj_at (vm_heap vm2) a = OString chars hash" using heap(3) [of a] c by (simp add: obj_at_def)
    then have "os_markers (?hp a) = marker vm2 a" by (simp add: str_view_def marker_def)
    moreover have "marker vm2 a \<noteq> 0"
    proof (cases "a \<in> set (vm_main vm)")
      case True
      with a mark show ?thesis by simp
    next
      case False
      then have "vm_heap vm2 a = Some c" using same c by (simp add: same_but_marks_def)
      moreover have "c_markers c = MARKER_BLACK" using ready False c(1) unfolding gc_ready_def by blast
      ultimately show ?thesis by (simp add: marker_def MARKER_BLACK_def)
    qed
    ultimately show ?thesis using strs(3) frame(2) by metis
  qed
  show thesis
  proof (rule that)
    show "collectGarbage mem vm = Some ?vm6"
      by (simp add: collectGarbage_def m strs(1) sw)
    show "vm_heap ?vm6 a = (if a \<in> set (vm_main vm) \<and> \<not> reach vm a then None else vm_heap vm a)" for a
      using h [of a] by simp
    have s6: "vm_strings ?vm6 = strs" using frame4(2) by simp
    show "table_map (vm_strings ?vm6) a = table_map (vm_strings vm) a" if "a \<notin> set (vm_main vm) \<or> reach vm a" for a
      using strs_kept [OF that] s6 by simp
    show "table_map (vm_strings ?vm6) \<subseteq>\<^sub>m table_map (vm_strings vm)" using strs(4) frame(2) s6 by simp
    show "root_refs ?vm6 = root_refs vm" using frame4(3) frame(3) by (simp add: root_refs_def)
    show "vm_nextGC ?vm6 = vm_bytes ?vm6 * 2" by (simp add: GC_HEAP_GROW_FACTOR_def)
  qed (use vm4(4,5) gray in simp_all)
qed

section \<open>Properties\<close>

text \<open>
  A machine with one array on the stack of its initial fiber, which refers to a string pair, and a
  map nothing refers to.
\<close>

definition blank_vm :: "heap \<Rightarrow> addr list \<Rightarrow> val list \<Rightarrow> table \<Rightarrow> vm" where
  "blank_vm h main stack strings = \<lparr>vm_heap = h, vm_main = main, vm_usePerm = False, vm_perm = [],
     vm_strings = strings,
     vm_initFiber = Some \<lparr>fb_frames = [], fb_stack = stack, fb_openUpvalues = [], fb_temps = []\<rparr>,
     vm_globalNames = initValueTable, vm_globalValues = initValueArray, vm_compilers = [],
     vm_handles = [], vm_bytes = 0, vm_nextGC = 1024, vm_grayOverflow = False, vm_grayStack = [],
     vm_grayCapacity = 0, vm_freeFrames = 64, vm_builtinSymbols = initTable \<lparr>tcount = 0, tcapacity = 0, tshift = 0, tentries = []\<rparr>,
     vm_builtinValues = initValueArray,
     vm_modules = initTable \<lparr>tcount = 0, tcapacity = 0, tshift = 0, tentries = []\<rparr>\<rparr>"

lemma blank_vm_roots: "root_refs (blank_vm h main stack strings) = map val_ref stack"
  by (simp add: blank_vm_def root_refs_def fiber_refs_def value_table_refs_def array_refs_def
      compiler_refs_def)

lemma blank_vm_fields [simp]:
  "vm_heap (blank_vm h main stack strings) = h" "vm_main (blank_vm h main stack strings) = main"
  "vm_strings (blank_vm h main stack strings) = strings"
  "vm_grayStack (blank_vm h main stack strings) = []" "\<not> vm_grayOverflow (blank_vm h main stack strings)"
  by (simp_all add: blank_vm_def)

definition sample_objects :: heap where
  "sample_objects = [1 \<mapsto> \<lparr>c_markers = 0, c_obj = OArray \<lparr>ar_size = 1, ar_capacity = 8, ar_modCount = 0, ar_items = [VObj 2]\<rparr>\<rparr>,
     2 \<mapsto> \<lparr>c_markers = 0, c_obj = OStringPair None None 0\<rparr>,
     3 \<mapsto> \<lparr>c_markers = 0, c_obj = OHashMap initValueTable\<rparr>]"

definition sample_vm :: vm where
  "sample_vm = blank_vm sample_objects [3, 2, 1] [VNil, VObj 1] blank_table"

lemma blank_table_map: "table_map blank_table = Map.empty"
  by (simp add: blank_table_def)

lemma sample_reach: "reach sample_vm a \<longleftrightarrow> a = 1 \<or> a = 2"
proof
  show "a = 1 \<or> a = 2" if "reach sample_vm a"
    using that
  proof (induction rule: reach.induct)
    case (root a)
    then show ?case by (auto simp: sample_vm_def blank_vm_roots)
  next
    case (step b c a)
    then show ?case by (auto simp: sample_vm_def sample_objects_def)
  qed
  have r: "reach sample_vm 1" by (rule reach.root) (simp_all add: sample_vm_def blank_vm_roots)
  show "reach sample_vm a" if "a = 1 \<or> a = 2"
    using that
  proof
    assume "a = 2"
    show ?thesis unfolding \<open>a = 2\<close>
      by (rule reach.step [OF r, where c = "the (sample_objects 1)"])
        (simp_all add: sample_vm_def sample_objects_def)
  qed (use r in simp)
qed

lemma sample_ready: "gc_ready sample_vm"
  unfolding gc_ready_def
proof (intro conjI)
  show "children_live sample_vm"
    unfolding children_live_def sample_reach by (auto simp: sample_vm_def sample_objects_def)
  show "\<forall>a c. vm_heap sample_vm a = Some c \<and> a \<notin> set (vm_main sample_vm) \<longrightarrow> c_markers c = MARKER_BLACK"
    by (auto simp: sample_vm_def sample_objects_def split: if_splits)
  show "strings_ready sample_vm" by (simp add: strings_ready_def sample_vm_def blank_table_map)
qed (auto simp: sample_vm_def sample_objects_def blank_vm_roots)



definition bare_class :: "val \<Rightarrow> obj_class" where
  "bare_class super = \<lparr>cs_typeCheckOffset = 0, cs_name = None,
     cs_typeInfo = \<lparr>ti_rptDisplay = [], ti_rssList = [], ti_depth = 0\<rparr>, cs_initializer = VNil,
     cs_hashCode = None, cs_equals = None, cs_super = super, cs_fields = blank_table,
     cs_methods = blank_table, cs_statics = blank_table, cs_staticValues = initValueArray,
     cs_memberRefs = [], cs_abstract = False\<rparr>"


definition two_strings :: heap where
  "two_strings = [1 \<mapsto> \<lparr>c_markers = 0, c_obj = OString [97] 0\<rparr>, 2 \<mapsto> \<lparr>c_markers = 0, c_obj = OString [98] 0\<rparr>]"


end
