(* ===== verification/HeapStrings.thy ===== *)
theory HeapStrings
  imports Values
begin

text \<open>
  The growable character buffers of \<open>object.c\<close> (\<open>HeapCString\<close>).  The block is a list
  of bytes as long as the block really is; a byte nobody has written is \<open>None\<close>.  A store
  outside the block has no defined result.  \<open>alloc n\<close> says whether the allocator provides
  \<open>n\<close> bytes.
\<close>

record heap_cstring =
  hs_block :: "byte option list"
  hs_length :: int
  hs_capacity :: int

section \<open>Operations\<close>

text \<open>Stores of a run of bytes at an offset.\<close>

definition store_bytes :: "byte option list \<Rightarrow> int \<Rightarrow> byte list \<Rightarrow> byte option list option" where
  "store_bytes block at bs =
     (if at < 0 \<or> int (length block) < at + int (length bs) then None
      else Some (take (nat at) block @ map Some bs @ drop (nat at + length bs) block))"

definition initHeapStringWithSize :: "(nat \<Rightarrow> bool) \<Rightarrow> int \<Rightarrow> heap_cstring option option" where
  "initHeapStringWithSize alloc initialCapacity =
     (if \<not> alloc (nat initialCapacity) then Some None
      else do { block \<leftarrow> store_bytes (replicate (nat initialCapacity) None) 0 [0];
                Some (Some \<lparr>hs_block = block, hs_length = 0, hs_capacity = initialCapacity\<rparr>) })"

definition initHeapString :: "(nat \<Rightarrow> bool) \<Rightarrow> heap_cstring option option" where
  "initHeapString alloc = initHeapStringWithSize alloc 8"

definition grow_capacity_int :: "int \<Rightarrow> int" where
  "grow_capacity_int capacity = (if capacity < 8 then 8 else capacity * 2)"

text \<open>A reallocated block keeps its bytes; the new ones are not initialised.\<close>

definition grow_block :: "heap_cstring \<Rightarrow> int \<Rightarrow> heap_cstring" where
  "grow_block s newCapacity = s\<lparr>hs_block := take (nat newCapacity) (hs_block s @
       replicate (nat newCapacity - length (hs_block s)) None), hs_capacity := newCapacity\<rparr>"

text \<open>The offset where the reserved bytes begin (\<open>None\<close>: out of memory).\<close>

definition reserveHeapString :: "(nat \<Rightarrow> bool) \<Rightarrow> heap_cstring \<Rightarrow> int \<Rightarrow> (int option \<times> heap_cstring) option" where
  "reserveHeapString alloc s len =
     (let available = hs_capacity s - hs_length s - 1;
          required = len + 1;
          requiredCapacity = hs_length s + required + 1;
          newCapacity = max (grow_capacity_int (hs_capacity s)) requiredCapacity
      in if required > available \<and> \<not> alloc (nat newCapacity) then Some (None, s)
         else let s1 = (if required > available then grow_block s newCapacity else s)
              in do { block \<leftarrow> store_bytes (hs_block s1) (hs_length s1 + len) [0];
                      Some (Some (hs_length s1),
                            s1\<lparr>hs_block := block, hs_length := hs_length s1 + len\<rparr>) })"

definition heapStringAddString :: "(nat \<Rightarrow> bool) \<Rightarrow> heap_cstring \<Rightarrow> byte list \<Rightarrow> (bool \<times> heap_cstring) option" where
  "heapStringAddString alloc s str =
     do { (buffer, s1) \<leftarrow> reserveHeapString alloc s (int (length str));
          case buffer of
            None \<Rightarrow> Some (False, s1)
          | Some at \<Rightarrow> do { block \<leftarrow> store_bytes (hs_block s1) at str;
                           Some (True, s1\<lparr>hs_block := block\<rparr>) } }"

definition heapStringAddChar :: "(nat \<Rightarrow> bool) \<Rightarrow> heap_cstring \<Rightarrow> byte \<Rightarrow> (bool \<times> heap_cstring) option" where
  "heapStringAddChar alloc s ch =
     do { (buffer, s1) \<leftarrow> reserveHeapString alloc s 1;
          case buffer of
            None \<Rightarrow> Some (False, s1)
          | Some at \<Rightarrow> do { block \<leftarrow> store_bytes (hs_block s1) at [ch];
                           Some (True, s1\<lparr>hs_block := block\<rparr>) } }"

text \<open>
  \<open>vsnprintf(dst, n, ...)\<close> for a format that expands to \<open>out\<close>: it stores at most
  \<open>n - 1\<close> bytes of it and a terminating 0 and returns the length of \<open>out\<close>.
\<close>

definition vsnprintf_store :: "byte option list \<Rightarrow> int \<Rightarrow> int \<Rightarrow> byte list \<Rightarrow> byte option list option" where
  "vsnprintf_store block at n out =
     (if n \<le> 0 then Some block else store_bytes block at (take (nat (n - 1)) out @ [0]))"

definition heapStringAddVFmt :: "(nat \<Rightarrow> bool) \<Rightarrow> heap_cstring \<Rightarrow> byte list \<Rightarrow> (bool \<times> heap_cstring) option" where
  "heapStringAddVFmt alloc s out =
     (let available = hs_capacity s - hs_length s - 1;
          required = int (length out)
      in do { block \<leftarrow> vsnprintf_store (hs_block s) (hs_length s) available out;
              let s1 = s\<lparr>hs_block := block\<rparr>
              in if required \<le> available then Some (True, s1\<lparr>hs_length := hs_length s1 + required\<rparr>)
                 else let requiredCapacity = hs_length s1 + required + 1;
                          newCapacity = max (grow_capacity_int (hs_capacity s1)) requiredCapacity
                      in if \<not> alloc (nat newCapacity) then Some (False, s1)
                         else let s2 = grow_block s1 newCapacity
                              in do { block \<leftarrow> vsnprintf_store (hs_block s2) (hs_length s2)
                                                 (hs_capacity s2 - hs_length s2) out;
                                      Some (True, s2\<lparr>hs_block := block,
                                                     hs_length := hs_length s2 + required\<rparr>) } })"

section \<open>Content\<close>

text \<open>A well-formed buffer: the content is initialised and followed by a terminating 0.\<close>

definition hs_holds :: "heap_cstring \<Rightarrow> byte list \<Rightarrow> bool" where
  "hs_holds s bs \<longleftrightarrow>
     hs_length s = int (length bs) \<and> hs_capacity s = int (length (hs_block s)) \<and>
     (\<exists>rest. hs_block s = map Some bs @ Some 0 # rest)"

lemma store_bytes_at:
  "store_bytes (pre @ mid @ post) (int (length pre)) bs = Some (pre @ map Some bs @ post)"
  if "length mid = length bs"
  using that by (simp add: store_bytes_def)

lemma init_spec:
  assumes "1 \<le> n" and "alloc (nat n)"
  shows "\<exists>s. initHeapStringWithSize alloc n = Some (Some s) \<and> hs_holds s []"
proof -
  have "replicate (nat n) (None :: byte option) = [] @ [None] @ replicate (nat n - 1) None"
    using assms(1) by (cases "nat n") auto
  then have "store_bytes (replicate (nat n) None) 0 [0] = Some ([] @ map Some [0] @ replicate (nat n - 1) None)"
    using store_bytes_at [of "[None]" "[0]" "[]" "replicate (nat n - 1) None"] by simp
  then show ?thesis
    using assms by (simp add: initHeapStringWithSize_def hs_holds_def of_nat_diff)
qed

lemma reserve_spec:
  assumes s: "hs_holds s bs" and len: "0 \<le> len"
  obtains s' rest mid where "reserveHeapString alloc s len = Some (Some (int (length bs)), s')"
      "hs_block s' = map Some bs @ mid @ Some 0 # rest" "length mid = nat len"
      "hs_length s' = int (length bs) + len" "hs_capacity s' = int (length (hs_block s'))"
  | n where "reserveHeapString alloc s len = Some (None, s)" "\<not> alloc n"
proof -
  note reserved = that(1) and oom = that(2)
  let ?cap = "hs_capacity s" and ?l = "hs_length s"
  let ?new = "max (grow_capacity_int ?cap) (?l + (len + 1) + 1)"
  let ?s1 = "if len + 1 > ?cap - ?l - 1 then grow_block s ?new else s"
  obtain rest where block: "hs_block s = map Some bs @ Some 0 # rest" and l: "?l = int (length bs)"
    and cap: "?cap = int (length (hs_block s))" using s by (auto simp: hs_holds_def)
  have cap0: "0 \<le> ?cap" using cap by simp
  have grown: "hs_block (grow_block s ?new) = hs_block s @ replicate (nat ?new - length (hs_block s)) None"
    "length (hs_block (grow_block s ?new)) = nat ?new"
  proof -
    have "length (hs_block s) \<le> nat ?new" using cap cap0 by (auto simp: grow_capacity_int_def)
    then show "hs_block (grow_block s ?new) = hs_block s @ replicate (nat ?new - length (hs_block s)) None"
      "length (hs_block (grow_block s ?new)) = nat ?new" by (simp_all add: grow_block_def)
  qed
  show thesis
  proof (cases "len + 1 > ?cap - ?l - 1 \<and> \<not> alloc (nat ?new)")
    case True
    then show thesis by (intro oom [of "nat ?new"]) (auto simp: reserveHeapString_def Let_def)
  next
    case False
    obtain tail where s1: "hs_block ?s1 = map Some bs @ tail"
      using block grown(1) by (cases "len + 1 > ?cap - ?l - 1") auto
    have l1: "hs_length ?s1 = int (length bs)" using l by (simp add: grow_block_def)
    have c1: "hs_capacity ?s1 = int (length (hs_block ?s1))"
      using cap grown(2) cap0 by (auto simp: grow_block_def grow_capacity_int_def)
    have "int (length bs) + len + 1 \<le> hs_capacity ?s1"
      using l by (auto simp: grow_block_def)
    then have fit: "nat len < length tail" using c1 s1 len by simp
    let ?mid = "take (nat len) tail" and ?post = "drop (Suc (nat len)) tail"
    have tail: "tail = ?mid @ [tail ! nat len] @ ?post" using fit by (simp add: Cons_nth_drop_Suc)
    have "store_bytes (hs_block ?s1) (hs_length ?s1 + len) [0] = Some (map Some bs @ ?mid @ Some 0 # ?post)"
    proof -
      have "hs_block ?s1 = (map Some bs @ ?mid) @ [tail ! nat len] @ ?post" using s1 tail by simp
      moreover have "hs_length ?s1 + len = int (length (map Some bs @ ?mid))" using l1 fit len by simp
      ultimately show ?thesis
        using store_bytes_at [of "[tail ! nat len]" "[0]" "map Some bs @ ?mid" ?post] by simp
    qed
    then have "reserveHeapString alloc s len = Some (Some (int (length bs)),
        ?s1\<lparr>hs_block := map Some bs @ ?mid @ Some 0 # ?post, hs_length := int (length bs) + len\<rparr>)"
      using False l1 unfolding reserveHeapString_def Let_def by auto
    moreover have "hs_capacity ?s1 = int (length (map Some bs @ ?mid @ Some 0 # ?post))"
      using c1 s1 fit by simp
    ultimately show thesis using fit by (intro reserved) auto
  qed
qed

lemma addString_spec:
  assumes "hs_holds s bs"
  obtains s' where "heapStringAddString alloc s str = Some (True, s')" "hs_holds s' (bs @ str)"
  | n where "heapStringAddString alloc s str = Some (False, s)" "\<not> alloc n"
proof (rule reserve_spec [OF assms, of "int (length str)" alloc])
  fix s' rest mid
  assume r: "reserveHeapString alloc s (int (length str)) = Some (Some (int (length bs)), s')"
    "hs_block s' = map Some bs @ mid @ Some 0 # rest" "length mid = nat (int (length str))"
    "hs_length s' = int (length bs) + int (length str)" "hs_capacity s' = int (length (hs_block s'))"
  have "store_bytes (hs_block s') (int (length bs)) str = Some (map Some bs @ map Some str @ Some 0 # rest)"
    using store_bytes_at [of mid str "map Some bs" "Some 0 # rest"] r(2,3) by simp
  with r show thesis
    by (intro that(1) [of "s'\<lparr>hs_block := map Some bs @ map Some str @ Some 0 # rest\<rparr>"])
      (auto simp: heapStringAddString_def hs_holds_def)
qed (use that(2) in \<open>auto simp: heapStringAddString_def\<close>)

lemma addChar_string: "heapStringAddChar alloc s ch = heapStringAddString alloc s [ch]"
  by (simp add: heapStringAddChar_def heapStringAddString_def)

lemma store_prefix:
  assumes "length bs \<le> length tail"
  shows "store_bytes (pre @ tail) (int (length pre)) bs = Some (pre @ map Some bs @ drop (length bs) tail)"
  using assms by (simp add: store_bytes_def)

text \<open>The first, tentative \<open>vsnprintf\<close> never stores outside the block.\<close>

lemma tentative_print:
  assumes s: "hs_holds s bs"
  obtains tail' where "vsnprintf_store (hs_block s) (hs_length s) (hs_capacity s - hs_length s - 1) out
      = Some (map Some bs @ tail')" "length (map Some bs @ tail') = length (hs_block s)"
    "int (length out) < hs_capacity s - hs_length s - 1 \<longrightarrow> (\<exists>rest. tail' = map Some out @ Some 0 # rest)"
    "0 < hs_capacity s - hs_length s - 1 \<longrightarrow>
       (\<exists>rest. tail' = map Some (take (nat (hs_capacity s - hs_length s - 2)) out) @ Some 0 # rest)"
proof -
  let ?av = "hs_capacity s - hs_length s - 1"
  obtain rest where block: "hs_block s = map Some bs @ Some 0 # rest" and l: "hs_length s = int (length bs)"
    and cap: "hs_capacity s = int (length (hs_block s))" using s by (auto simp: hs_holds_def)
  have av: "?av = int (length rest)" using block l cap by simp
  show thesis
  proof (cases "rest = []")
    case True
    then have "?av = 0" using av by simp
    then show thesis using block by (intro that [of "Some 0 # rest"]) (auto simp: vsnprintf_store_def)
  next
    case False
    let ?w = "take (length rest - 1) out @ [0]"
    have n: "nat (?av - 1) = length rest - 1" using av by simp
    have fit: "length ?w \<le> length (Some 0 # rest)" using False by simp
    have "store_bytes (map Some bs @ Some 0 # rest) (int (length (map Some bs))) ?w =
        Some (map Some bs @ map Some ?w @ drop (length ?w) (Some 0 # rest))"
      by (rule store_prefix [OF fit])
    then have st: "vsnprintf_store (hs_block s) (hs_length s) ?av out =
        Some (map Some bs @ map Some ?w @ drop (length ?w) (Some 0 # rest))"
      using False av block l n by (simp add: vsnprintf_store_def)
    have "nat (hs_capacity s - hs_length s - 2) = length rest - 1" using av by simp
    then show thesis
      using st fit block av by (intro that [OF st]) (auto simp: take_map)
  qed
qed

lemma addVFmt_spec:
  assumes s: "hs_holds s bs" and exact: "int (length out) \<noteq> hs_capacity s - hs_length s - 1"
  obtains s' where "heapStringAddVFmt alloc s out = Some (True, s')" "hs_holds s' (bs @ out)"
  | s' n where "heapStringAddVFmt alloc s out = Some (False, s')" "\<not> alloc n"
      "take (length bs) (hs_block s') = map Some bs"
proof -
  note ok = that(1) and oom = that(2)
  let ?av = "hs_capacity s - hs_length s - 1"
  obtain tail where first: "vsnprintf_store (hs_block s) (hs_length s) ?av out = Some (map Some bs @ tail)"
    and len: "length (map Some bs @ tail) = length (hs_block s)"
    and fits: "int (length out) < ?av \<longrightarrow> (\<exists>rest. tail = map Some out @ Some 0 # rest)"
    by (rule tentative_print [OF s])
  have l: "hs_length s = int (length bs)" and cap: "hs_capacity s = int (length (hs_block s))"
    using s by (auto simp: hs_holds_def)
  show thesis
  proof (cases "int (length out) \<le> ?av")
    case True
    then obtain rest where "tail = map Some out @ Some 0 # rest" using fits exact by auto
    then show thesis
      using True first l len cap by (intro ok) (auto simp: heapStringAddVFmt_def Let_def hs_holds_def)
  next
    case False
    let ?s1 = "s\<lparr>hs_block := map Some bs @ tail\<rparr>"
    let ?new = "max (grow_capacity_int (hs_capacity s)) (hs_length s + int (length out) + 1)"
    show thesis
    proof (cases "alloc (nat ?new)")
      case no: False
      with False first show thesis
        by (intro oom [of ?s1 "nat ?new"]) (auto simp: heapStringAddVFmt_def Let_def)
    next
      case yes: True
      let ?more = "tail @ replicate (nat ?new - length (hs_block s)) None"
      have room: "int (length bs) + int (length out) + 1 \<le> ?new" using l by simp
      have "length (hs_block s) \<le> nat ?new" using cap by (auto simp: grow_capacity_int_def)
      then have grown: "hs_block (grow_block ?s1 ?new) = map Some bs @ ?more"
        "length (map Some bs @ ?more) = nat ?new"
        using len by (simp_all add: grow_block_def)
      have le: "length out + 1 \<le> length ?more" using grown(2) room by simp
      then have fit: "length (out @ [0]) \<le> length ?more" by simp
      have "store_bytes (map Some bs @ ?more) (int (length (map Some bs))) (out @ [0]) =
          Some (map Some bs @ map Some (out @ [0]) @ drop (length (out @ [0])) ?more)"
        by (rule store_prefix [OF fit])
      moreover have "\<not> ?new - hs_length s \<le> 0" using room l by simp
      moreover have "take (nat (?new - hs_length s - 1)) out = out" using room l by simp
      ultimately have "vsnprintf_store (hs_block (grow_block ?s1 ?new)) (hs_length s) (?new - hs_length s) out =
          Some (map Some bs @ map Some out @ Some 0 # drop (length out + 1) ?more)"
        using l grown(1) by (simp add: vsnprintf_store_def)
      then have run: "heapStringAddVFmt alloc s out = Some (True, (grow_block ?s1 ?new)\<lparr>
          hs_block := map Some bs @ map Some out @ Some 0 # drop (length out + 1) ?more,
          hs_length := hs_length s + int (length out)\<rparr>)"
        using False first yes by (simp add: heapStringAddVFmt_def Let_def) (simp add: grow_block_def)
      moreover have "int (length (map Some bs @ map Some out @ Some 0 # drop (length out + 1) ?more)) = ?new"
      proof -
        have "length (map Some bs @ map Some out @ Some 0 # drop (length out + 1) ?more) = length (map Some bs @ ?more)"
          using le by (simp only: length_append length_map list.size(4) length_drop) linarith
        then show ?thesis using grown(2) room by (simp only:) linarith
      qed
      ultimately show thesis using l by (intro ok [OF run]) (auto simp: hs_holds_def grow_block_def)
    qed
  qed
qed

section \<open>Properties\<close>

text \<open>
  appending a string to a well-formed buffer never stores outside its block: either the
  allocator refused a larger block and the buffer is unchanged, or the content is extended by exactly
  the string and terminated again.
\<close>

theorem heapStringAddString_correct:
  assumes "hs_holds s bs"
  shows "(\<exists>s'. heapStringAddString alloc s str = Some (True, s') \<and> hs_holds s' (bs @ str)) \<or>
         heapStringAddString alloc s str = Some (False, s) \<and> (\<exists>n. \<not> alloc n)"
  by (rule addString_spec [OF assms, of alloc str]) auto

text \<open>
  Formatted printing into a well-formed buffer appends exactly the expansion, unless the
  allocator refuses or the expansion has exactly the size the buffer takes for available.
\<close>

theorem heapStringAddVFmt_correct:
  assumes "hs_holds s bs" and "int (length out) \<noteq> hs_capacity s - hs_length s - 1"
  shows "(\<exists>s'. heapStringAddVFmt alloc s out = Some (True, s') \<and> hs_holds s' (bs @ out)) \<or>
    (\<exists>s' n. heapStringAddVFmt alloc s out = Some (False, s') \<and> \<not> alloc n \<and>
       take (length bs) (hs_block s') = map Some bs)"
  by (rule addVFmt_spec [OF assms, of alloc]) blast+

lemma heapStringAddVFmt_correct_witness:
  "\<exists>s'. heapStringAddVFmt (\<lambda>_. True) \<lparr>hs_block = [Some 97, Some 0], hs_length = 1, hs_capacity = 2\<rparr> [98, 99]
      = Some (True, s') \<and> hs_holds s' [97, 98, 99]"
proof -
  have "hs_holds \<lparr>hs_block = [Some 97, Some 0], hs_length = 1, hs_capacity = 2\<rparr> [97]"
    by (simp add: hs_holds_def)
  from heapStringAddVFmt_correct [OF this, of "[98, 99]" "\<lambda>_. True"] show ?thesis by simp
qed

text \<open>
  C38: an expansion of exactly that size is truncated although the call reports success: its
  last character is overwritten by the terminator, which is then counted as content.
\<close>

theorem heapStringAddVFmt_truncates:
  assumes "hs_holds s bs" and "int (length out) = hs_capacity s - hs_length s - 1" and "out \<noteq> []"
  shows "\<exists>s'. heapStringAddVFmt alloc s out = Some (True, s') \<and>
    hs_length s' = int (length bs + length out) \<and>
    (\<exists>rest. hs_block s' = map Some bs @ map Some (butlast out) @ Some 0 # rest)"
proof -
  let ?av = "hs_capacity s - hs_length s - 1"
  obtain tail where first: "vsnprintf_store (hs_block s) (hs_length s) ?av out = Some (map Some bs @ tail)"
    and "0 < ?av \<longrightarrow> (\<exists>rest. tail = map Some (take (nat (hs_capacity s - hs_length s - 2)) out) @ Some 0 # rest)"
    by (rule tentative_print [OF assms(1), of out]) blast
  moreover have "0 < ?av" using assms(2,3) by (cases out) auto
  moreover have "nat (hs_capacity s - hs_length s - 2) = length out - 1" using assms(2) by simp
  ultimately obtain rest where "tail = map Some (butlast out) @ Some 0 # rest"
    by (auto simp: butlast_conv_take)
  then show ?thesis
    using first assms(1,2) by (auto simp: heapStringAddVFmt_def Let_def hs_holds_def)
qed

lemma heapStringAddVFmt_truncates_witness:
  "\<exists>s'. heapStringAddVFmt (\<lambda>_. True) \<lparr>hs_block = Some 0 # replicate 3 None, hs_length = 0, hs_capacity = 4\<rparr>
       [97, 98, 99] = Some (True, s') \<and> hs_length s' = 3 \<and> hs_block s' ! 2 = Some 0"
proof -
  have "hs_holds \<lparr>hs_block = Some 0 # replicate 3 None, hs_length = 0, hs_capacity = 4\<rparr> []"
    by (simp add: hs_holds_def)
  from heapStringAddVFmt_truncates [OF this, of "[97, 98, 99]" "\<lambda>_. True"] show ?thesis by auto
qed

end
