(* ===== verification/Alloc.thy ===== *)
theory Alloc
  imports Gc
begin

text \<open>
  Object allocation and construction (\<open>object.c\<close>) and the interning of strings.  Every
  allocation may run the collector first, so the constructors work on the whole machine.  The
  allocator is \<open>env\<close>: the address it returns for a request of so many bytes
  (\<open>None\<close>: refused); for blocks other than objects only the success matters.
  \<open>rc\<close> selects the fiber of the running context: the initial one, or that of a handle.
\<close>

type_synonym env = "vm \<Rightarrow> nat \<Rightarrow> addr option"
type_synonym run_ctx = "nat option"

section \<open>The active fiber\<close>

definition upd_fiber :: "run_ctx \<Rightarrow> (fiber \<Rightarrow> fiber) \<Rightarrow> vm \<Rightarrow> vm" where
  "upd_fiber rc f vm = (case rc of
       None \<Rightarrow> vm\<lparr>vm_initFiber := map_option f (vm_initFiber vm)\<rparr>
     | Some i \<Rightarrow> vm\<lparr>vm_handles := (vm_handles vm)[i := (case vm_handles vm ! i of
                    RunCtxHandle fb \<Rightarrow> RunCtxHandle (map_option f fb) | h \<Rightarrow> h)]\<rparr>)"

definition push :: "run_ctx \<Rightarrow> val \<Rightarrow> vm \<Rightarrow> vm" where
  "push rc v = upd_fiber rc (\<lambda>f. f\<lparr>fb_stack := fb_stack f @ [v]\<rparr>)"

definition pop :: "run_ctx \<Rightarrow> vm \<Rightarrow> vm" where
  "pop rc = upd_fiber rc (\<lambda>f. f\<lparr>fb_stack := butlast (fb_stack f)\<rparr>)"

text \<open>\<open>pushTemp\<close> on the fiber's list of temporaries; \<open>releaseTemps\<close> of a scope that
  pushed \<open>n\<close> of them.\<close>

definition pushTemp :: "run_ctx \<Rightarrow> val \<Rightarrow> vm \<Rightarrow> vm" where
  "pushTemp rc v = upd_fiber rc (\<lambda>f. f\<lparr>fb_temps := v # fb_temps f\<rparr>)"

definition releaseTemps :: "run_ctx \<Rightarrow> nat \<Rightarrow> vm \<Rightarrow> vm" where
  "releaseTemps rc n = upd_fiber rc (\<lambda>f. f\<lparr>fb_temps := drop n (fb_temps f)\<rparr>)"

section \<open>Allocation\<close>

text \<open>\<open>ALLOCATE\<close> of a block; a request for no bytes yields \<open>NULL\<close>.\<close>

definition alloc_block :: "(nat \<Rightarrow> bool) \<Rightarrow> env \<Rightarrow> nat \<Rightarrow> vm \<Rightarrow> (bool \<times> vm) option" where
  "alloc_block mem env n vm =
     do { (_, vm1) \<leftarrow> reallocate mem True 0 n vm; Some (n \<noteq> 0 \<and> env vm1 n \<noteq> None, vm1) }"

definition free_block :: "(nat \<Rightarrow> bool) \<Rightarrow> nat \<Rightarrow> vm \<Rightarrow> vm option" where
  "free_block mem n vm = map_option snd (reallocate mem True n 0 vm)"

definition link_object :: "addr \<Rightarrow> obj \<Rightarrow> vm \<Rightarrow> vm" where
  "link_object a ob vm =
     (let vm1 = vm\<lparr>vm_heap := (vm_heap vm)(a \<mapsto>
            \<lparr>c_markers = (if vm_usePerm vm then MARKER_BLACK else 0), c_obj = ob\<rparr>)\<rparr>
      in if vm_usePerm vm then vm1\<lparr>vm_perm := a # vm_perm vm1\<rparr> else vm1\<lparr>vm_main := a # vm_main vm1\<rparr>)"

text \<open>
  \<open>allocateObject\<close> with the stores a constructor makes before it allocates again
  (\<open>mk\<close>, which may read the machine as the collection has left it).
\<close>

definition allocateObject ::
  "(nat \<Rightarrow> bool) \<Rightarrow> env \<Rightarrow> obj_type \<Rightarrow> (vm \<Rightarrow> obj option) \<Rightarrow> vm \<Rightarrow> (addr option \<times> vm) option" where
  "allocateObject mem env ty mk vm =
     do { (_, vm1) \<leftarrow> reallocate mem True 0 (obj_size ty) vm;
          case env vm1 (obj_size ty) of
            None \<Rightarrow> Some (None, vm1)
          | Some a \<Rightarrow> do { ob \<leftarrow> mk vm1; Some (Some a, link_object a ob vm1) } }"

text \<open>A store to the fields of an object, which must be live.\<close>

definition set_obj :: "addr \<Rightarrow> obj \<Rightarrow> vm \<Rightarrow> vm option" where
  "set_obj a ob vm = do { c \<leftarrow> vm_heap vm a; Some (vm\<lparr>vm_heap := (vm_heap vm)(a \<mapsto> c\<lparr>c_obj := ob\<rparr>)\<rparr>) }"

definition get_obj :: "vm \<Rightarrow> addr \<Rightarrow> obj option" where
  "get_obj vm a = map_option c_obj (vm_heap vm a)"

definition as_class :: "obj option \<Rightarrow> obj_class option" where
  "as_class ob = (case ob of Some (OClass c) \<Rightarrow> Some c | _ \<Rightarrow> None)"

definition as_function :: "obj option \<Rightarrow> obj_function option" where
  "as_function ob = (case ob of Some (OFunction f) \<Rightarrow> Some f | _ \<Rightarrow> None)"

definition as_instance :: "obj option \<Rightarrow> obj_instance option" where
  "as_instance ob = (case ob of Some (OInstance i) \<Rightarrow> Some i | _ \<Rightarrow> None)"

definition as_interface :: "obj option \<Rightarrow> obj_interface option" where
  "as_interface ob = (case ob of Some (OInterface i) \<Rightarrow> Some i | _ \<Rightarrow> None)"

definition as_native :: "obj option \<Rightarrow> obj_native option" where
  "as_native ob = (case ob of Some (ONative n) \<Rightarrow> Some n | _ \<Rightarrow> None)"

definition as_nativeClosure :: "obj option \<Rightarrow> obj_native_closure option" where
  "as_nativeClosure ob = (case ob of Some (ONativeClosure n) \<Rightarrow> Some n | _ \<Rightarrow> None)"

section \<open>Simple constructors\<close>

definition newBoundMethod ::
  "(nat \<Rightarrow> bool) \<Rightarrow> env \<Rightarrow> val \<Rightarrow> addr \<Rightarrow> vm \<Rightarrow> (addr option \<times> vm) option" where
  "newBoundMethod mem env receiver method vm =
     allocateObject mem env OBJ_BOUND_METHOD (\<lambda>vm. case get_obj vm method of
         Some (OMethod _ callable) \<Rightarrow> Some (OBoundMethod receiver callable) | _ \<Rightarrow> None) vm"

definition newMethod ::
  "(nat \<Rightarrow> bool) \<Rightarrow> env \<Rightarrow> addr \<Rightarrow> addr \<Rightarrow> vm \<Rightarrow> (addr option \<times> vm) option" where
  "newMethod mem env clazz callable vm =
     allocateObject mem env OBJ_METHOD (\<lambda>_. Some (OMethod (Some clazz) (Some callable))) vm"

text \<open>The arity parameter is a \<open>uint8_t\<close>.\<close>

definition newMethodDesc ::
  "(nat \<Rightarrow> bool) \<Rightarrow> env \<Rightarrow> nat \<Rightarrow> bool \<Rightarrow> vm \<Rightarrow> (addr option \<times> vm) option" where
  "newMethodDesc mem env arity hasVarargs vm =
     allocateObject mem env OBJ_METHOD_DESC (\<lambda>_. Some (OMethodDesc (arity mod 2 ^ 8) hasVarargs)) vm"

definition ELOX_CLASS_DISPLAY_SIZE :: nat where "ELOX_CLASS_DISPLAY_SIZE = 8"

definition empty_table :: table where
  "empty_table = initTable \<lparr>tcount = 0, tcapacity = 0, tshift = 0, tentries = []\<rparr>"

definition newInterface :: "(nat \<Rightarrow> bool) \<Rightarrow> env \<Rightarrow> addr \<Rightarrow> vm \<Rightarrow> (addr option \<times> vm) option" where
  "newInterface mem env name vm =
     allocateObject mem env OBJ_INTERFACE (\<lambda>_. Some (OInterface
       \<lparr>if_typeCheckOffset = ELOX_CLASS_DISPLAY_SIZE, if_name = Some name, if_methods = empty_table\<rparr>)) vm"

definition newClosure :: "(nat \<Rightarrow> bool) \<Rightarrow> env \<Rightarrow> addr \<Rightarrow> vm \<Rightarrow> (addr option \<times> vm) option" where
  "newClosure mem env function vm =
     do { f \<leftarrow> as_function (get_obj vm function);
          let n = fn_upvalueCount f
          in do { (ok, vm1) \<leftarrow> alloc_block mem env (8 * n) vm;
                  if \<not> ok then Some (None, vm1)
                  else do { (closure, vm2) \<leftarrow> allocateObject mem env OBJ_CLOSURE (\<lambda>_. Some (OClosure
                              \<lparr>cl_function = function, cl_upvalues = replicate n None, cl_upvalueCount = n\<rparr>)) vm1;
                            if closure = None
                            then do { vm3 \<leftarrow> free_block mem (8 * n) vm2; Some (None, vm3) }
                            else Some (closure, vm2) } } }"

text \<open>The closure is not protected while its default arguments are allocated.\<close>

definition newNativeClosure ::
  "(nat \<Rightarrow> bool) \<Rightarrow> env \<Rightarrow> nat \<Rightarrow> nat \<Rightarrow> nat \<Rightarrow> vm \<Rightarrow> (addr option \<times> vm) option" where
  "newNativeClosure mem env function arity numUpvalues vm =
     do { (ok, vm1) \<leftarrow> alloc_block mem env (16 * numUpvalues) vm;
          if \<not> ok then Some (None, vm1)
          else do { (closure, vm2) \<leftarrow> allocateObject mem env OBJ_NATIVE_CLOSURE (\<lambda>_. Some (ONativeClosure
                      \<lparr>nc_function = function, nc_arity = arity, nc_maxArgs = 0, nc_defaultArgs = None,
                       nc_upvalueCount = numUpvalues, nc_upvalues = Some (replicate numUpvalues VNil)\<rparr>)) vm1;
                    case closure of
                      None \<Rightarrow> do { vm3 \<leftarrow> free_block mem (16 * numUpvalues) vm2; Some (None, vm3) }
                    | Some a \<Rightarrow>
                        if arity = 0 then Some (Some a, vm2)
                        else do { (ok, vm3) \<leftarrow> alloc_block mem env (16 * arity) vm2;
                                  nc \<leftarrow> as_nativeClosure (get_obj vm3 a);
                                  if ok
                                  then do { vm4 \<leftarrow> set_obj a (ONativeClosure
                                              (nc\<lparr>nc_defaultArgs := Some (replicate arity VNil)\<rparr>)) vm3;
                                            Some (Some a, vm4) }
                                  else do { vm4 \<leftarrow> free_block mem (16 * numUpvalues) vm3;
                                            vm5 \<leftarrow> set_obj a (ONativeClosure (nc\<lparr>nc_upvalues := None\<rparr>)) vm4;
                                            Some (None, vm5) } } } }"

definition newFunction :: "(nat \<Rightarrow> bool) \<Rightarrow> env \<Rightarrow> addr option \<Rightarrow> vm \<Rightarrow> (addr option \<times> vm) option" where
  "newFunction mem env fileName vm =
     allocateObject mem env OBJ_FUNCTION (\<lambda>_. Some (OFunction \<lparr>fn_isMethod = False, fn_arity = 0,
       fn_maxArgs = 0, fn_upvalueCount = 0, fn_refOffset = 0, fn_chunk = initChunk fileName,
       fn_name = None, fn_parentClass = None, fn_defaultArgs = None\<rparr>)) vm"

definition inst_flags :: "obj_class \<Rightarrow> byte" where
  "inst_flags c = (if cs_hashCode c \<noteq> None then INST_HAS_HASHCODE else 0) OR
                  (if cs_equals c \<noteq> None then INST_HAS_EQUALS else 0)"

text \<open>\<open>rnd\<close> is the next number of the machine's generator.\<close>

definition newInstance ::
  "(nat \<Rightarrow> bool) \<Rightarrow> env \<Rightarrow> run_ctx \<Rightarrow> u64 \<Rightarrow> addr \<Rightarrow> vm \<Rightarrow> (addr option \<times> vm) option" where
  "newInstance mem env rc rnd clazz vm =
     do { (inst, vm1) \<leftarrow> allocateObject mem env OBJ_INSTANCE (\<lambda>_. Some (OInstance
            \<lparr>in_clazz = clazz, in_identityHash = 0, in_flags = 0, in_fields = initValueArray\<rparr>)) vm;
          case inst of
            None \<Rightarrow> Some (None, vm1)
          | Some a \<Rightarrow>
              let vm2 = pushTemp rc (VObj a) vm1
              in do { c \<leftarrow> as_class (get_obj vm2 clazz);
                      let n = tcount (cs_fields c)
                      in do { (ok, vm3) \<leftarrow> (if n = 0 then Some (True, vm2) else alloc_block mem env (16 * n) vm2);
                              if \<not> ok then Some (None, releaseTemps rc 1 vm3)
                              else do { c' \<leftarrow> as_class (get_obj vm3 clazz);
                                        vm4 \<leftarrow> set_obj a (OInstance \<lparr>in_clazz = clazz,
                                          in_identityHash = ucast (rnd AND 0xFFFFFFFF), in_flags = inst_flags c',
                                          in_fields = \<lparr>va_capacity = n, va_slots = n, va_values = replicate n VNil\<rparr>\<rparr>) vm3;
                                        Some (Some a, releaseTemps rc 1 vm4) } } } }"

definition newNative ::
  "(nat \<Rightarrow> bool) \<Rightarrow> env \<Rightarrow> run_ctx \<Rightarrow> nat \<Rightarrow> nat \<Rightarrow> vm \<Rightarrow> (addr option \<times> vm) option" where
  "newNative mem env rc function arity vm =
     do { (native, vm1) \<leftarrow> allocateObject mem env OBJ_NATIVE (\<lambda>_. Some (ONative
            \<lparr>nt_function = function, nt_arity = arity, nt_maxArgs = 0, nt_defaultArgs = None\<rparr>)) vm;
          case native of
            None \<Rightarrow> Some (None, vm1)
          | Some a \<Rightarrow>
              if arity = 0 then Some (Some a, vm1)
              else let vm2 = pushTemp rc (VObj a) vm1
                   in do { (ok, vm3) \<leftarrow> alloc_block mem env (16 * arity) vm2;
                           if \<not> ok then Some (None, releaseTemps rc 1 vm3)
                           else do { n \<leftarrow> as_native (get_obj vm3 a);
                                     vm4 \<leftarrow> set_obj a (ONative (n\<lparr>nt_defaultArgs := Some (replicate arity VNil)\<rparr>)) vm3;
                                     Some (Some a, releaseTemps rc 1 vm4) } } }"

definition newUpvalue :: "(nat \<Rightarrow> bool) \<Rightarrow> env \<Rightarrow> nat \<Rightarrow> vm \<Rightarrow> (addr option \<times> vm) option" where
  "newUpvalue mem env slot vm =
     allocateObject mem env OBJ_UPVALUE (\<lambda>_. Some (OUpvalue
       \<lparr>uv_location = StackSlot slot, uv_closed = VNil\<rparr>)) vm"

definition newHashMap :: "(nat \<Rightarrow> bool) \<Rightarrow> env \<Rightarrow> vm \<Rightarrow> (addr option \<times> vm) option" where
  "newHashMap mem env vm = allocateObject mem env OBJ_HASHMAP (\<lambda>_. Some (OHashMap initValueTable)) vm"

section \<open>Tables inside the machine\<close>

text \<open>
  \<open>tableSet\<close> on a table that lives in the machine (\<open>get\<close>, \<open>put\<close>): the
  allocation of the larger array may collect garbage and thereby change that very table.  The flag
  says that the error was raised; the value that \<open>OOM\<close> then pushes is popped by the callers
  modelled here.
\<close>

definition vm_tableSet ::
  "(nat \<Rightarrow> bool) \<Rightarrow> env \<Rightarrow> (vm \<Rightarrow> table option) \<Rightarrow> (table \<Rightarrow> vm \<Rightarrow> vm) \<Rightarrow> addr \<Rightarrow> val \<Rightarrow> vm \<Rightarrow> (bool \<times> vm) option" where
  "vm_tableSet mem env get put key value vm =
     do { t \<leftarrow> get vm;
          let newCapacity = grow_capacity (tcapacity t)
          in if \<not> needs_growth t
             then do { i \<leftarrow> findEntry (str_view (vm_heap vm)) (tentries t) (tcapacity t) (tshift t) key;
                       Some (False, put (store_entry t i key value) vm) }
             else do { (ok, vm1) \<leftarrow> alloc_block mem env (24 * newCapacity) vm;
                       if \<not> ok then Some (True, vm1)
                       else do { t1 \<leftarrow> get vm1;
                                 (_, t2) \<leftarrow> adjustCapacity (\<lambda>_. True) (str_view (vm_heap vm1)) t1 newCapacity;
                                 vm2 \<leftarrow> free_block mem (24 * tcapacity t1) vm1;
                                 i \<leftarrow> findEntry (str_view (vm_heap vm2)) (tentries t2) (tcapacity t2) (tshift t2) key;
                                 Some (False, put (store_entry t2 i key value) vm2) } } }"

section \<open>Strings\<close>

definition set_strings :: "table \<Rightarrow> vm \<Rightarrow> vm" where
  "set_strings t vm = vm\<lparr>vm_strings := t\<rparr>"

definition allocateString ::
  "(nat \<Rightarrow> bool) \<Rightarrow> env \<Rightarrow> run_ctx \<Rightarrow> byte list \<Rightarrow> u32 \<Rightarrow> vm \<Rightarrow> (addr option \<times> vm) option" where
  "allocateString mem env rc chars hash vm =
     do { (string, vm1) \<leftarrow> allocateObject mem env OBJ_STRING (\<lambda>_. Some (OString chars hash)) vm;
          case string of
            None \<Rightarrow> Some (None, vm1)
          | Some a \<Rightarrow>
              do { (raised, vm2) \<leftarrow> vm_tableSet mem env (\<lambda>vm. Some (vm_strings vm)) set_strings a VNil
                                      (pushTemp rc (VObj a) vm1);
                   Some (if raised then None else Some a, releaseTemps rc 1 vm2) } }"

definition copyString ::
  "(nat \<Rightarrow> bool) \<Rightarrow> env \<Rightarrow> run_ctx \<Rightarrow> byte list \<Rightarrow> vm \<Rightarrow> (addr option \<times> vm) option" where
  "copyString mem env rc chars vm =
     do { interned \<leftarrow> tableFindString (str_view (vm_heap vm)) (vm_strings vm) chars (hashString chars);
          case interned of
            Some a \<Rightarrow> Some (Some a, vm)
          | None \<Rightarrow> do { (ok, vm1) \<leftarrow> alloc_block mem env (length chars + 1) vm;
                        if \<not> ok then Some (None, vm1)
                        else allocateString mem env rc chars (hashString chars) vm1 } }"

definition takeString ::
  "(nat \<Rightarrow> bool) \<Rightarrow> env \<Rightarrow> run_ctx \<Rightarrow> byte list \<Rightarrow> nat \<Rightarrow> vm \<Rightarrow> (addr option \<times> vm) option" where
  "takeString mem env rc chars capacity vm =
     do { interned \<leftarrow> tableFindString (str_view (vm_heap vm)) (vm_strings vm) chars (hashString chars);
          case interned of
            Some a \<Rightarrow> do { vm1 \<leftarrow> free_block mem capacity vm; Some (Some a, vm1) }
          | None \<Rightarrow> allocateString mem env rc chars (hashString chars) vm }"

text \<open>Raised flag and the string; nothing happens when the error was raised before.\<close>

definition internString ::
  "(nat \<Rightarrow> bool) \<Rightarrow> env \<Rightarrow> run_ctx \<Rightarrow> byte list \<Rightarrow> bool \<Rightarrow> vm \<Rightarrow> (bool \<times> addr option \<times> vm) option" where
  "internString mem env rc chars raised vm =
     (if raised then Some (True, None, vm)
      else do { (str, vm1) \<leftarrow> copyString mem env rc chars vm; Some (str = None, str, vm1) })"

text \<open>On failure the pair stays on the stack.\<close>

definition copyStrings ::
  "(nat \<Rightarrow> bool) \<Rightarrow> env \<Rightarrow> run_ctx \<Rightarrow> byte list \<Rightarrow> byte list \<Rightarrow> vm \<Rightarrow> (addr option \<times> vm) option" where
  "copyStrings mem env rc chars1 chars2 vm =
     do { (pair, vm1) \<leftarrow> allocateObject mem env OBJ_STRINGPAIR (\<lambda>_. Some (OStringPair None None 0)) vm;
          case pair of
            None \<Rightarrow> Some (None, vm1)
          | Some p \<Rightarrow>
              do { (str1, vm2) \<leftarrow> copyString mem env rc chars1 (push rc (VObj p) vm1);
                   vm3 \<leftarrow> set_obj p (OStringPair str1 None 0) vm2;
                   if str1 = None then Some (None, vm3)
                   else do { (str2, vm4) \<leftarrow> copyString mem env rc chars2 vm3;
                             vm5 \<leftarrow> set_obj p (OStringPair str1 str2 0) vm4;
                             if str2 = None then Some (None, vm5)
                             else do { vm6 \<leftarrow> set_obj p (OStringPair str1 str2
                                         (os_hash (str_view (vm_heap vm5) (the str1)) +
                                          os_hash (str_view (vm_heap vm5) (the str2)))) vm5;
                                       Some (Some p, pop rc vm6) } } } }"

section \<open>Classes and their members\<close>

text \<open>
  \<open>newClass\<close>; \<open>anon\<close> is the expansion of \<open>"Class_%lu"\<close> for the next random
  number, used when the name is empty (its buffer has capacity 16 unless that is too small).
\<close>

definition fresh_class :: "addr option \<Rightarrow> bool \<Rightarrow> obj_class" where
  "fresh_class name abstract = \<lparr>cs_typeCheckOffset = 0, cs_name = name,
     cs_typeInfo = \<lparr>ti_rptDisplay = replicate (ELOX_CLASS_DISPLAY_SIZE + 1) None, ti_rssList = [], ti_depth = 0\<rparr>,
     cs_initializer = VNil, cs_hashCode = None, cs_equals = None, cs_super = VNil, cs_fields = empty_table,
     cs_methods = empty_table, cs_statics = empty_table, cs_staticValues = initValueArray,
     cs_memberRefs = [], cs_abstract = abstract\<rparr>"

definition newClass ::
  "(nat \<Rightarrow> bool) \<Rightarrow> env \<Rightarrow> run_ctx \<Rightarrow> byte list \<Rightarrow> addr \<Rightarrow> bool \<Rightarrow> vm \<Rightarrow> (addr option \<times> vm) option" where
  "newClass mem env rc anon name abstract vm =
     (case get_obj vm name of
        Some (OString chars _) \<Rightarrow>
          if chars \<noteq> []
          then allocateObject mem env OBJ_CLASS (\<lambda>_. Some (OClass (fresh_class (Some name) abstract))) vm
          else do { (ok, vm1) \<leftarrow> alloc_block mem env 16 vm;
                    if \<not> ok then Some (None, vm1)
                    else do { (className, vm2) \<leftarrow> takeString mem env rc anon 16 vm1;
                              case className of
                                None \<Rightarrow> Some (None, vm2)
                              | Some cn \<Rightarrow>
                                  do { (clazz, vm3) \<leftarrow> allocateObject mem env OBJ_CLASS
                                         (\<lambda>_. Some (OClass (fresh_class (Some cn) abstract))) (push rc (VObj cn) vm2);
                                       Some (clazz, if clazz = None then vm3 else pop rc vm3) } } }
      | _ \<Rightarrow> None)"

definition class_table :: "(obj_class \<Rightarrow> table) \<Rightarrow> addr \<Rightarrow> vm \<Rightarrow> table option" where
  "class_table sel clazz vm = map_option sel (as_class (get_obj vm clazz))"

definition upd_class :: "addr \<Rightarrow> (obj_class \<Rightarrow> obj_class) \<Rightarrow> vm \<Rightarrow> vm" where
  "upd_class clazz f vm = (case vm_heap vm clazz of
       Some c \<Rightarrow> (case c_obj c of
           OClass k \<Rightarrow> vm\<lparr>vm_heap := (vm_heap vm)(clazz \<mapsto> c\<lparr>c_obj := OClass (f k)\<rparr>)\<rparr>
         | _ \<Rightarrow> vm)
     | None \<Rightarrow> vm)"

definition addClassField ::
  "(nat \<Rightarrow> bool) \<Rightarrow> env \<Rightarrow> addr \<Rightarrow> addr \<Rightarrow> bool \<Rightarrow> vm \<Rightarrow> (bool \<times> int \<times> vm) option" where
  "addClassField mem env clazz fieldName raised vm =
     (if raised then Some (True, -1, vm)
      else do { fields \<leftarrow> class_table cs_fields clazz vm;
                let index = int (tcount fields)
                in do { (raised, vm1) \<leftarrow> vm_tableSet mem env (class_table cs_fields clazz)
                           (\<lambda>t. upd_class clazz (cs_fields_update (\<lambda>_. t))) fieldName
                           (VNumber (dbl_of_int index)) vm;
                        Some (raised, if raised then -1 else index, vm1) } })"

definition interface_table :: "addr \<Rightarrow> vm \<Rightarrow> table option" where
  "interface_table intf vm = map_option if_methods (as_interface (get_obj vm intf))"

definition upd_interface :: "addr \<Rightarrow> table \<Rightarrow> vm \<Rightarrow> vm" where
  "upd_interface intf t vm = (case vm_heap vm intf of
       Some c \<Rightarrow> (case c_obj c of
           OInterface k \<Rightarrow> vm\<lparr>vm_heap := (vm_heap vm)(intf \<mapsto> c\<lparr>c_obj := OInterface (k\<lparr>if_methods := t\<rparr>)\<rparr>)\<rparr>
         | _ \<Rightarrow> vm)
     | None \<Rightarrow> vm)"

definition addMethod ::
  "(nat \<Rightarrow> bool) \<Rightarrow> env \<Rightarrow> run_ctx \<Rightarrow> addr \<Rightarrow> addr \<Rightarrow> nat \<Rightarrow> bool \<Rightarrow> bool \<Rightarrow> vm \<Rightarrow> (bool \<times> vm) option" where
  "addMethod mem env rc intf methodName arity hasVarargs raised vm =
     (if raised then Some (True, vm)
      else do { (desc, vm1) \<leftarrow> newMethodDesc mem env arity hasVarargs vm;
                case desc of
                  None \<Rightarrow> Some (True, vm1)
                | Some d \<Rightarrow>
                    do { (raised, vm2) \<leftarrow> vm_tableSet mem env (interface_table intf) (upd_interface intf)
                                            methodName (VObj d) (pushTemp rc (VObj d) vm1);
                         Some (raised, releaseTemps rc 1 vm2) } })"

definition ELOX_MAX_ARGS :: nat where "ELOX_MAX_ARGS = 65535"

text \<open>\<open>hcs\<close> and \<open>eqs\<close> are the interned names of \<open>hashCode\<close> and
  \<open>equals\<close>.  The method's receiver counts as an argument.\<close>

definition addNativeMethod ::
  "(nat \<Rightarrow> bool) \<Rightarrow> env \<Rightarrow> run_ctx \<Rightarrow> addr \<Rightarrow> addr \<Rightarrow> addr \<Rightarrow> addr \<Rightarrow> nat \<Rightarrow> nat \<Rightarrow> bool \<Rightarrow> bool \<Rightarrow> vm
   \<Rightarrow> (bool \<times> addr option \<times> vm) option" where
  "addNativeMethod mem env rc hcs eqs clazz methodName function arity0 hasVarargs raised vm =
     (if raised then Some (True, None, vm)
      else let arity = (arity0 + 1) mod 2 ^ 16
      in do { (nativeObj, vm1) \<leftarrow> newNative mem env rc function arity vm;
              case nativeObj of
                None \<Rightarrow> Some (True, None, vm1)
              | Some n \<Rightarrow>
                  let vm2 = pushTemp rc (VObj n) vm1;
                      finish = (\<lambda>temps vm. do { nat' \<leftarrow> as_native (get_obj vm n);
                                  vm' \<leftarrow> set_obj n (ONative (nat'\<lparr>nt_arity := arity,
                                          nt_maxArgs := (if hasVarargs then ELOX_MAX_ARGS else arity)\<rparr>)) vm;
                                  Some (False, Some n, releaseTemps rc temps vm') })
                  in do { c \<leftarrow> as_class (get_obj vm2 clazz);
                          if cs_name c = Some methodName
                          then finish 1 (upd_class clazz (cs_initializer_update (\<lambda>_. VObj n)) vm2)
                          else do { (method, vm3) \<leftarrow> newMethod mem env clazz n vm2;
                                    case method of
                                      None \<Rightarrow> Some (True, None, releaseTemps rc 1 vm3)
                                    | Some m \<Rightarrow>
                                        do { (raised, vm4) \<leftarrow> vm_tableSet mem env (class_table cs_methods clazz)
                                               (\<lambda>t. upd_class clazz (cs_methods_update (\<lambda>_. t))) methodName
                                               (VObj m) (pushTemp rc (VObj m) vm3);
                                             if raised then Some (True, None, releaseTemps rc 2 vm4)
                                             else finish 2
                                               (if methodName = hcs then upd_class clazz (cs_hashCode_update (\<lambda>_. Some m)) vm4
                                                else if methodName = eqs then upd_class clazz (cs_equals_update (\<lambda>_. Some m)) vm4
                                                else vm4) } } } })"

end
