(* ===== verification/Interning.thy ===== *)
theory Interning
  imports Alloc
begin

text \<open>
  String interning: as long as no collection runs, \<open>copyString\<close> returns one and the same
  object for equal contents, so that strings can be compared by address.  A collection runs when the
  bytes allocated exceed the threshold; \<open>quiet vm n\<close> says that \<open>n\<close> further bytes stay
  below it.  The allocator is only assumed never to hand out the address of a live object.
\<close>

definition quiet :: "vm \<Rightarrow> nat \<Rightarrow> bool" where
  "quiet vm n \<longleftrightarrow> unat (vm_bytes vm) + n \<le> unat (vm_nextGC vm)"

definition fresh_env :: "env \<Rightarrow> bool" where
  "fresh_env env \<longleftrightarrow> (\<forall>vm n a. env vm n = Some a \<longrightarrow> vm_heap vm a = None)"

text \<open>Each key of the table is a live string under its own hash, and no content occurs twice.\<close>

definition interned_string :: "heap \<Rightarrow> addr \<Rightarrow> byte list \<Rightarrow> bool" where
  "interned_string h a chars \<longleftrightarrow> map_option c_obj (h a) = Some (OString chars (hashString chars))"

definition intern_inv :: "vm \<Rightarrow> bool" where
  "intern_inv vm \<longleftrightarrow> table_inv (str_view (vm_heap vm)) (vm_strings vm) \<and>
     (\<forall>a\<in>dom (table_map (vm_strings vm)). \<exists>chars. interned_string (vm_heap vm) a chars) \<and>
     (\<forall>a\<in>dom (table_map (vm_strings vm)). \<forall>b\<in>dom (table_map (vm_strings vm)). \<forall>chars.
        interned_string (vm_heap vm) a chars \<and> interned_string (vm_heap vm) b chars \<longrightarrow> a = b)"

section \<open>Allocation without a collection\<close>

text \<open>Only the count of allocated bytes differs.\<close>

definition bytes_frame :: "vm \<Rightarrow> vm \<Rightarrow> bool" where
  "bytes_frame vm vm' \<longleftrightarrow> (\<exists>b. vm' = vm\<lparr>vm_bytes := b\<rparr>)"

lemma bytes_frameD:
  assumes "bytes_frame vm vm'"
  shows "vm_heap vm' = vm_heap vm" "vm_strings vm' = vm_strings vm" "vm_nextGC vm' = vm_nextGC vm"
    "vm_usePerm vm' = vm_usePerm vm"
  using assms by (auto simp: bytes_frame_def)

lemma reallocate_quiet:
  assumes "quiet vm (n + k)"
  shows "\<exists>vm'. reallocate mem avail 0 n vm = Some (n \<noteq> 0 \<and> avail, vm') \<and> quiet vm' k \<and> bytes_frame vm vm'"
proof -
  let ?vm = "vm\<lparr>vm_bytes := vm_bytes vm + word_of_nat n\<rparr>"
  have b: "unat (vm_bytes vm) + n \<le> unat (vm_nextGC vm)" using assms by (simp add: quiet_def)
  moreover have lim: "unat (vm_nextGC vm) < 2 ^ 64" using unsigned_less [of "vm_nextGC vm"] by simp
  ultimately have n: "n < 2 ^ 64" by linarith
  then have un: "unat (word_of_nat n :: u64) = n" by (simp add: unat_of_nat)
  then have sum: "unat (vm_bytes vm + word_of_nat n) = unat (vm_bytes vm) + n"
    using b lim by (subst unat_add_lem [THEN iffD1]) (simp_all add: un)
  then have "\<not> vm_bytes ?vm > vm_nextGC ?vm" using b by (simp add: word_less_nat_alt not_less)
  then have "reallocate mem avail 0 n vm = Some (n \<noteq> 0 \<and> avail, ?vm)"
    by (simp add: reallocate_def Let_def)
  moreover have "quiet ?vm k" using assms sum by (simp add: quiet_def)
  moreover have "bytes_frame vm ?vm" unfolding bytes_frame_def by blast
  ultimately show ?thesis by blast
qed

lemma alloc_block_quiet:
  assumes "quiet vm (n + k)"
  shows "\<exists>vm' ok. alloc_block mem env n vm = Some (ok, vm') \<and> quiet vm' k \<and> bytes_frame vm vm'"
proof -
  from reallocate_quiet [OF assms, of mem True] obtain vm' where
    "reallocate mem True 0 n vm = Some (n \<noteq> 0 \<and> True, vm')" "quiet vm' k" "bytes_frame vm vm'" by blast
  then show ?thesis by (simp add: alloc_block_def)
qed

lemma free_block_frame: "\<exists>vm'. free_block mem n vm = Some vm' \<and> bytes_frame vm vm'"
  by (auto simp add: free_block_def reallocate_def Let_def bytes_frame_def)

lemma upd_fiber_fields [simp]:
  "vm_heap (upd_fiber rc f vm) = vm_heap vm" "vm_strings (upd_fiber rc f vm) = vm_strings vm"
  "vm_bytes (upd_fiber rc f vm) = vm_bytes vm" "vm_nextGC (upd_fiber rc f vm) = vm_nextGC vm"
  by (simp_all add: upd_fiber_def split: option.split)

lemma temps_fields [simp]:
  "vm_heap (pushTemp rc v vm) = vm_heap vm" "vm_strings (pushTemp rc v vm) = vm_strings vm"
  "vm_heap (releaseTemps rc n vm) = vm_heap vm" "vm_strings (releaseTemps rc n vm) = vm_strings vm"
  "quiet (pushTemp rc v vm) k = quiet vm k"
  by (simp_all add: pushTemp_def releaseTemps_def quiet_def)

lemma allocateObject_quiet:
  assumes env: "fresh_env env" and q: "quiet vm (obj_size ty + k)"
  obtains vm' where "allocateObject mem env ty (\<lambda>_. Some ob) vm = Some (None, vm')" "quiet vm' k"
      "vm_heap vm' = vm_heap vm" "vm_strings vm' = vm_strings vm"
  | vm' a m where "allocateObject mem env ty (\<lambda>_. Some ob) vm = Some (Some a, vm')" "quiet vm' k"
      "vm_heap vm a = None" "vm_heap vm' = (vm_heap vm)(a \<mapsto> \<lparr>c_markers = m, c_obj = ob\<rparr>)"
      "vm_strings vm' = vm_strings vm"
proof -
  from reallocate_quiet [OF q, of mem True] obtain vm1 ok where r:
    "reallocate mem True 0 (obj_size ty) vm = Some (ok, vm1)" "quiet vm1 k" "bytes_frame vm vm1"
    by blast
  note same = bytes_frameD [OF r(3)]
  show thesis
  proof (cases "env vm1 (obj_size ty)")
    case None
    then show thesis using r(1,2) same by (intro that(1) [of vm1]) (auto simp: allocateObject_def)
  next
    case (Some a)
    then have free: "vm_heap vm a = None" using env same by (metis fresh_env_def)
    have "quiet (link_object a ob vm1) k" using r(2) by (simp add: quiet_def link_object_def Let_def)
    moreover have "vm_strings (link_object a ob vm1) = vm_strings vm" using same by (simp add: link_object_def Let_def)
    moreover have "vm_heap (link_object a ob vm1) =
        (vm_heap vm)(a \<mapsto> \<lparr>c_markers = (if vm_usePerm vm1 then MARKER_BLACK else 0), c_obj = ob\<rparr>)"
      using same by (simp add: link_object_def Let_def)
    ultimately show thesis
      using Some r(1) free by (intro that(2) [of a "link_object a ob vm1"]) (auto simp: allocateObject_def)
  qed
qed

section \<open>The table of strings in the machine\<close>

lemma entry_key_dom: "e \<in> set (tentries t) \<Longrightarrow> ekey e = Some a \<Longrightarrow> a \<in> dom (table_map t)"
  using set_entry_pairs [of "tentries t"]
  by (auto simp: table_map_def bindings_def in_set_conv_nth dom_map_of_conv_image_fst image_iff)

lemma probe_ok_cong:
  assumes "probe_ok f H es" and "\<forall>i<length es. \<forall>a. ekey (es ! i) = Some a \<longrightarrow> g a = f a"
  shows "probe_ok g H es"
  unfolding probe_ok_def
proof (intro allI impI)
  fix i a
  assume i: "i < length es" and a: "i \<notin> H \<and> ekey (es ! i) = Some a"
  have g: "g a = f a" using assms(2) i a by blast
  show "g a < length es \<and>
      (\<forall>j<length es. j \<notin> H \<and> cyc_dist (length es) (g a) j < cyc_dist (length es) (g a) i \<longrightarrow> ekey (es ! j) \<noteq> None) \<and>
      (\<forall>j<length es. j \<notin> H \<and> ekey (es ! j) = Some a \<longrightarrow> j = i)"
    unfolding g by (rule assms(1) [unfolded probe_ok_def, rule_format, OF i a])
qed

lemma table_inv_cong:
  assumes "\<And>a. a \<in> dom (table_map t) \<Longrightarrow> os_hash (hp' a) = os_hash (hp a)" and "table_inv hp t"
  shows "table_inv hp' t"
proof -
  have same: "\<forall>i<length (tentries t). \<forall>a. ekey (tentries t ! i) = Some a \<longrightarrow> os_hash (hp' a) = os_hash (hp a)"
    by (intro allI impI assms(1) entry_key_dom [OF nth_mem])
  have "probe_ok (home hp' s) {} (tentries t)" if "probe_ok (home hp s) {} (tentries t)" for s
    by (rule probe_ok_cong [OF that]) (use same in simp)
  then show ?thesis using assms(2) unfolding table_inv_def by blast
qed

text \<open>Below the threshold the table in the machine behaves like a table on its own.\<close>

lemma vm_tableSet_quiet:
  assumes q: "quiet vm (24 * grow_capacity (tcapacity (vm_strings vm)))"
    and inv: "table_inv (str_view (vm_heap vm)) (vm_strings vm)" and cap: "tcapacity (vm_strings vm) < 2 ^ 30"
  obtains vm' where "vm_tableSet mem env (\<lambda>vm. Some (vm_strings vm)) set_strings key v vm = Some (False, vm')"
      "vm_heap vm' = vm_heap vm" "table_inv (str_view (vm_heap vm)) (vm_strings vm')"
      "table_map (vm_strings vm') = (table_map (vm_strings vm))(key \<mapsto> v)"
  | vm' where "vm_tableSet mem env (\<lambda>vm. Some (vm_strings vm)) set_strings key v vm = Some (True, vm')"
      "vm_heap vm' = vm_heap vm" "vm_strings vm' = vm_strings vm"
proof -
  note stored = that(1) and failed = that(2)
  let ?t = "vm_strings vm" and ?hp = "str_view (vm_heap vm)"
  have mem: "memory_for (\<lambda>_. True) ?t" using cap by (simp add: memory_for_def)
  obtain t' where set: "tableSet (\<lambda>_. True) ?hp ?t key v = Some (SetDone (table_map ?t key = None) t')"
    and t': "table_inv ?hp t'" "table_map t' = (table_map ?t)(key \<mapsto> v)"
    by (rule tableSet_spec [OF inv mem, of key v]) blast
  show thesis
  proof (cases "needs_growth ?t")
    case False
    then obtain i where "findEntry ?hp (tentries ?t) (tcapacity ?t) (tshift ?t) key = Some i"
      "t' = store_entry ?t i key v"
      using set by (auto simp: tableSet_def bind_eq_Some_conv)
    then show thesis
      using False t' by (intro stored [of "set_strings t' vm"]) (auto simp: vm_tableSet_def set_strings_def)
  next
    case True
    obtain vm1 ok where a: "alloc_block mem env (24 * grow_capacity (tcapacity ?t)) vm = Some (ok, vm1)"
      "bytes_frame vm vm1"
      using alloc_block_quiet [of vm "24 * grow_capacity (tcapacity ?t)" 0 mem env] q by auto
    note same = bytes_frameD [OF a(2)]
    show thesis
    proof (cases ok)
      case False
      then show thesis using True a(1) same by (intro failed [of vm1]) (auto simp: vm_tableSet_def)
    next
      case ok: True
      obtain vm2 where f: "free_block mem (24 * tcapacity ?t) vm1 = Some vm2" "bytes_frame vm1 vm2"
        using free_block_frame by blast
      note same2 = bytes_frameD [OF f(2)]
      obtain b t2 i where adj: "adjustCapacity (\<lambda>_. True) ?hp ?t (grow_capacity (tcapacity ?t)) = Some (b, t2)"
        "b" "findEntry ?hp (tentries t2) (tcapacity t2) (tshift t2) key = Some i" "t' = store_entry t2 i key v"
        using set True by (auto simp: tableSet_def bind_eq_Some_conv split: if_splits)
      have "vm_tableSet mem env (\<lambda>vm. Some (vm_strings vm)) set_strings key v vm
          = Some (False, set_strings t' vm2)"
        using True ok a(1) f(1) adj same same2 by (simp add: vm_tableSet_def)
      then show thesis
        using t' same same2 by (intro stored [of "set_strings t' vm2"]) (auto simp: set_strings_def)
    qed
  qed
qed

section \<open>Interning\<close>

lemma str_view_string:
  "interned_string h a chars \<Longrightarrow> os_chars (str_view h a) = chars \<and> os_hash (str_view h a) = hashString chars"
  by (auto simp: interned_string_def str_view_def obj_at_def)

lemma str_view_cong: "h' a = h a \<Longrightarrow> str_view h' a = str_view h a"
  by (cases "c_obj (the (h a))") (simp_all add: str_view_def obj_at_def)

lemma interned_string_cong: "h' a = h a \<Longrightarrow> interned_string h' a chars = interned_string h a chars"
  by (simp add: interned_string_def)

lemma interned_string_unique: "interned_string h a c1 \<Longrightarrow> interned_string h a c2 \<Longrightarrow> c1 = c2"
  by (auto simp: interned_string_def)

text \<open>Searching the table by content.\<close>

lemma find_interned:
  assumes "intern_inv vm"
  obtains a where "tableFindString (str_view (vm_heap vm)) (vm_strings vm) chars (hashString chars) = Some (Some a)"
      "a \<in> dom (table_map (vm_strings vm))" "interned_string (vm_heap vm) a chars"
  | "tableFindString (str_view (vm_heap vm)) (vm_strings vm) chars (hashString chars) = Some None"
      "\<forall>a\<in>dom (table_map (vm_strings vm)). \<not> interned_string (vm_heap vm) a chars"
proof -
  note found = that(1) and absent = that(2)
  let ?hp = "str_view (vm_heap vm)"
  have inv: "table_inv ?hp (vm_strings vm)" using assms by (simp add: intern_inv_def)
  have same: "same_string ?hp chars (hashString chars) a \<longleftrightarrow> interned_string (vm_heap vm) a chars"
    if "a \<in> dom (table_map (vm_strings vm))" for a
  proof -
    obtain c where "interned_string (vm_heap vm) a c" using assms \<open>a \<in> _\<close> unfolding intern_inv_def by blast
    then show ?thesis
      using str_view_string [of "vm_heap vm" a c] interned_string_unique [of "vm_heap vm" a c chars]
      by (auto simp: same_string_def)
  qed
  obtain r where r: "tableFindString ?hp (vm_strings vm) chars (hashString chars) = Some r"
    "\<And>a. r = Some a \<Longrightarrow> a \<in> dom (table_map (vm_strings vm)) \<and> same_string ?hp chars (hashString chars) a"
    "r = None \<Longrightarrow> \<forall>a\<in>dom (table_map (vm_strings vm)). \<not> same_string ?hp chars (hashString chars) a"
    by (rule tableFindString_spec [OF inv, of chars "hashString chars"]) blast
  show thesis
  proof (cases r)
    case None
    then show thesis using r(1,3) same by (intro absent) auto
  next
    case (Some a)
    then show thesis using r(1,2) same by (intro found [of a]) auto
  qed
qed

text \<open>Allocating a string object and entering it into the table.\<close>

lemma allocateString_spec:
  assumes env: "fresh_env env" and inv: "intern_inv vm" and cap: "tcapacity (vm_strings vm) < 2 ^ 30"
    and new: "\<forall>a\<in>dom (table_map (vm_strings vm)). \<not> interned_string (vm_heap vm) a chars"
    and q: "quiet vm (40 + 24 * grow_capacity (tcapacity (vm_strings vm)))"
  shows "\<exists>r vm'. allocateString mem env rc chars (hashString chars) vm = Some (r, vm') \<and> intern_inv vm' \<and>
    (\<forall>b. vm_heap vm b \<noteq> None \<longrightarrow> vm_heap vm' b = vm_heap vm b) \<and>
    dom (table_map (vm_strings vm)) \<subseteq> dom (table_map (vm_strings vm')) \<and>
    (\<forall>a. r = Some a \<longrightarrow> a \<in> dom (table_map (vm_strings vm')) \<and> interned_string (vm_heap vm') a chars)"
proof -
  have q': "quiet vm (obj_size OBJ_STRING + 24 * grow_capacity (tcapacity (vm_strings vm)))" using q by simp
  show ?thesis
  proof (rule allocateObject_quiet [OF env q', of mem "OString chars (hashString chars)"])
    fix vm1
    assume "allocateObject mem env OBJ_STRING (\<lambda>_. Some (OString chars (hashString chars))) vm = Some (None, vm1)"
      "vm_heap vm1 = vm_heap vm" "vm_strings vm1 = vm_strings vm"
    then show ?thesis using inv by (simp add: allocateString_def intern_inv_def)
  next
    fix vm1 a m
    assume al: "allocateObject mem env OBJ_STRING (\<lambda>_. Some (OString chars (hashString chars))) vm = Some (Some a, vm1)"
      "quiet vm1 (24 * grow_capacity (tcapacity (vm_strings vm)))" "vm_heap vm a = None"
      "vm_heap vm1 = (vm_heap vm)(a \<mapsto> \<lparr>c_markers = m, c_obj = OString chars (hashString chars)\<rparr>)"
      "vm_strings vm1 = vm_strings vm"
    let ?t = "vm_strings vm" and ?vm2 = "pushTemp rc (VObj a) vm1"
    have notin: "a \<notin> dom (table_map ?t)"
    proof
      assume "a \<in> dom (table_map ?t)"
      then obtain c where "interned_string (vm_heap vm) a c" using inv unfolding intern_inv_def by blast
      then show False using al(3) by (simp add: interned_string_def)
    qed
    have old: "vm_heap vm1 b = vm_heap vm b" if "vm_heap vm b \<noteq> None" for b using that al(3,4) by auto
    have old_dom: "vm_heap vm1 b = vm_heap vm b" if "b \<in> dom (table_map ?t)" for b
      using that notin al(4) by auto
    have "table_inv (str_view (vm_heap vm1)) ?t"
    proof (rule table_inv_cong)
      show "os_hash (str_view (vm_heap vm1) b) = os_hash (str_view (vm_heap vm) b)"
        if "b \<in> dom (table_map ?t)" for b
        using str_view_cong [of "vm_heap vm1" b "vm_heap vm"] old_dom [OF that] by simp
      show "table_inv (str_view (vm_heap vm)) ?t" using inv by (simp add: intern_inv_def)
    qed
    then have inv2: "table_inv (str_view (vm_heap ?vm2)) (vm_strings ?vm2)" by (simp add: al(5))
    have a_str: "interned_string (vm_heap vm1) a chars" by (simp add: al(4) interned_string_def)
    have strs: "interned_string (vm_heap vm1) b c \<longleftrightarrow> interned_string (vm_heap vm) b c"
      if "b \<in> dom (table_map ?t)" for b c by (rule interned_string_cong) (rule old_dom [OF that])
    have live: "\<exists>c. interned_string (vm_heap vm) b c" if "b \<in> dom (table_map ?t)" for b
      using inv that unfolding intern_inv_def by blast
    have uniq: "b = c" if "b \<in> dom (table_map ?t)" "c \<in> dom (table_map ?t)"
      "interned_string (vm_heap vm) b s" "interned_string (vm_heap vm) c s" for b c s
      using inv that unfolding intern_inv_def by blast
    have q2: "quiet ?vm2 (24 * grow_capacity (tcapacity (vm_strings ?vm2)))" using al(2) by (simp add: al(5))
    have cap2: "tcapacity (vm_strings ?vm2) < 2 ^ 30" using cap by (simp add: al(5))
    show ?thesis
    proof (rule vm_tableSet_quiet [OF q2 inv2 cap2, of mem env a VNil])
      fix vm3
      assume s: "vm_tableSet mem env (\<lambda>vm. Some (vm_strings vm)) set_strings a VNil ?vm2 = Some (False, vm3)"
        "vm_heap vm3 = vm_heap ?vm2" "table_inv (str_view (vm_heap ?vm2)) (vm_strings vm3)"
        "table_map (vm_strings vm3) = (table_map (vm_strings ?vm2))(a \<mapsto> VNil)"
      have h3: "vm_heap vm3 = vm_heap vm1" using s(2) by simp
      have d3: "dom (table_map (vm_strings vm3)) = insert a (dom (table_map ?t))" using s(4) by (simp add: al(5))
      have "intern_inv vm3"
        unfolding intern_inv_def h3 d3
      proof (intro conjI ballI allI impI)
        show "table_inv (str_view (vm_heap vm1)) (vm_strings vm3)" using s(3) by simp
        show "\<exists>c. interned_string (vm_heap vm1) b c" if "b \<in> insert a (dom (table_map ?t))" for b
          using that a_str live strs by blast
        show "b = c" if "b \<in> insert a (dom (table_map ?t))" "c \<in> insert a (dom (table_map ?t))"
          "interned_string (vm_heap vm1) b s \<and> interned_string (vm_heap vm1) c s" for b c s
          using that new a_str strs uniq interned_string_unique by (metis insertE)
      qed
      then have "intern_inv (releaseTemps rc 1 vm3)" by (simp add: intern_inv_def)
      then show ?thesis
        using al(1) s(1) h3 d3 a_str old by (auto simp: allocateString_def)
    next
      fix vm3
      assume s: "vm_tableSet mem env (\<lambda>vm. Some (vm_strings vm)) set_strings a VNil ?vm2 = Some (True, vm3)"
        "vm_heap vm3 = vm_heap ?vm2" "vm_strings vm3 = vm_strings ?vm2"
      have h3: "vm_heap vm3 = vm_heap vm1" "vm_strings vm3 = ?t" using s(2,3) al(5) by simp_all
      have "intern_inv (releaseTemps rc 1 vm3)"
        unfolding intern_inv_def temps_fields h3
      proof (intro conjI ballI allI impI)
        show "table_inv (str_view (vm_heap vm1)) ?t" by fact
        show "\<exists>c. interned_string (vm_heap vm1) b c" if "b \<in> dom (table_map ?t)" for b
          using that live strs by blast
        show "b = c" if "b \<in> dom (table_map ?t)" "c \<in> dom (table_map ?t)"
          "interned_string (vm_heap vm1) b s \<and> interned_string (vm_heap vm1) c s" for b c s
          using that strs uniq by metis
      qed
      then show ?thesis
        using al(1) s(1) h3 old by (auto simp: allocateString_def)
    qed
  qed
qed

definition string_budget :: "byte list \<Rightarrow> vm \<Rightarrow> nat" where
  "string_budget chars vm = length chars + 41 + 24 * grow_capacity (tcapacity (vm_strings vm))"

lemma copyString_spec:
  assumes env: "fresh_env env" and inv: "intern_inv vm" and cap: "tcapacity (vm_strings vm) < 2 ^ 30"
    and q: "quiet vm (string_budget chars vm)"
  shows "\<exists>r vm'. copyString mem env rc chars vm = Some (r, vm') \<and> intern_inv vm' \<and>
    (\<forall>b. vm_heap vm b \<noteq> None \<longrightarrow> vm_heap vm' b = vm_heap vm b) \<and>
    dom (table_map (vm_strings vm)) \<subseteq> dom (table_map (vm_strings vm')) \<and>
    (\<forall>a. r = Some a \<longrightarrow> a \<in> dom (table_map (vm_strings vm')) \<and> interned_string (vm_heap vm') a chars)"
proof (rule find_interned [OF inv, of chars])
  fix a
  assume "tableFindString (str_view (vm_heap vm)) (vm_strings vm) chars (hashString chars) = Some (Some a)"
    "a \<in> dom (table_map (vm_strings vm))" "interned_string (vm_heap vm) a chars"
  then show ?thesis using inv by (simp add: copyString_def)
next
  assume find: "tableFindString (str_view (vm_heap vm)) (vm_strings vm) chars (hashString chars) = Some None"
    and new: "\<forall>a\<in>dom (table_map (vm_strings vm)). \<not> interned_string (vm_heap vm) a chars"
  have q': "quiet vm (length chars + 1 + (40 + 24 * grow_capacity (tcapacity (vm_strings vm))))"
    using q by (simp add: string_budget_def ac_simps)
  from alloc_block_quiet [OF q', of mem env] obtain vm1 ok where
    al: "alloc_block mem env (length chars + 1) vm = Some (ok, vm1)"
    "quiet vm1 (40 + 24 * grow_capacity (tcapacity (vm_strings vm)))" "bytes_frame vm vm1" by blast
  note same = bytes_frameD [OF al(3)]
  have inv1: "intern_inv vm1" using inv same by (simp add: intern_inv_def)
  show ?thesis
  proof (cases ok)
    case False
    then show ?thesis using find al(1) inv1 same by (simp add: copyString_def)
  next
    case True
    have "\<exists>r vm'. allocateString mem env rc chars (hashString chars) vm1 = Some (r, vm') \<and> intern_inv vm' \<and>
      (\<forall>b. vm_heap vm1 b \<noteq> None \<longrightarrow> vm_heap vm' b = vm_heap vm1 b) \<and>
      dom (table_map (vm_strings vm1)) \<subseteq> dom (table_map (vm_strings vm')) \<and>
      (\<forall>a. r = Some a \<longrightarrow> a \<in> dom (table_map (vm_strings vm')) \<and> interned_string (vm_heap vm') a chars)"
      using cap new al(2) by (intro allocateString_spec [OF env inv1]) (simp_all add: same)
    then show ?thesis using find al(1) True by (simp add: copyString_def same)
  qed
qed

text \<open>An allocator with two addresses to give, and a machine without strings.\<close>

definition two_cells :: env where
  "two_cells vm n = (if vm_heap vm 7 = None then Some 7 else if vm_heap vm 8 = None then Some 8 else None)"

lemma two_cells_fresh: "fresh_env two_cells"
  by (auto simp: fresh_env_def two_cells_def split: if_splits)

definition empty_vm :: vm where
  "empty_vm = blank_vm Map.empty [] [] blank_table"

lemma empty_vm_ready:
  "intern_inv empty_vm" "tcapacity (vm_strings empty_vm) < 2 ^ 30"
  "length chars \<le> 100 \<Longrightarrow> quiet empty_vm (string_budget chars empty_vm)"
proof -
  show "intern_inv empty_vm" by (simp add: intern_inv_def empty_vm_def blank_table_map)
  have "tcapacity (vm_strings empty_vm) = 0" by (simp add: empty_vm_def blank_table_def initTable_def)
  then show "tcapacity (vm_strings empty_vm) < 2 ^ 30"
    and "length chars \<le> 100 \<Longrightarrow> quiet empty_vm (string_budget chars empty_vm)"
    by (simp_all add: quiet_def string_budget_def grow_capacity_def, simp add: empty_vm_def blank_vm_def)
qed

text \<open>
  C7: Interning a string below the collection threshold always returns (a string or \<open>NULL\<close>),
  keeps the table of strings free of duplicates and stale hashes, changes no live object, forgets no
  interned string, and what it returns is a live string with the requested content that the table
  holds.
\<close>

theorem copyString_correct:
  assumes "fresh_env env" and "intern_inv vm" and "tcapacity (vm_strings vm) < 2 ^ 30"
    and "quiet vm (string_budget chars vm)"
  shows "\<exists>r vm'. copyString mem env rc chars vm = Some (r, vm') \<and> intern_inv vm' \<and>
    (\<forall>b. vm_heap vm b \<noteq> None \<longrightarrow> vm_heap vm' b = vm_heap vm b) \<and>
    dom (table_map (vm_strings vm)) \<subseteq> dom (table_map (vm_strings vm')) \<and>
    (\<forall>a. r = Some a \<longrightarrow> a \<in> dom (table_map (vm_strings vm')) \<and> interned_string (vm_heap vm') a chars)"
  by (rule copyString_spec [OF assms])

lemma copyString_correct_witness:
  "\<exists>r vm'. copyString (\<lambda>_. True) two_cells None [97, 98] empty_vm = Some (r, vm') \<and> intern_inv vm' \<and>
    (\<forall>a. r = Some a \<longrightarrow> interned_string (vm_heap vm') a [97, 98])"
  using copyString_correct [OF two_cells_fresh empty_vm_ready(1,2) empty_vm_ready(3), of "[97, 98]" "\<lambda>_. True" None]
  by auto


lemma copyString_twice:
  "copyString (\<lambda>_. True) two_cells None [97] empty_vm \<bind>
     (\<lambda>(r, vm). copyString (\<lambda>_. True) two_cells None [98] vm \<bind> (\<lambda>(r', vm').
        Some (r, r', tcapacity (vm_strings vm), quiet vm (string_budget [98] vm))))
   = Some (Some 7, Some 8, 8, True)"
  by code_simp


end
