(* ===== verification/Arrays.thy ===== *)
theory Arrays
  imports Interning
begin

text \<open>
  Arrays and tuples (\<open>ObjArray\<close>): the accessors of \<open>object.c\<close>, slicing
  (\<open>object.h\<close>) and the native methods of \<open>array.c\<close> with the fail-fast iterator.
  \<open>ar_items\<close> lists the slots written so far; the block has \<open>ar_capacity\<close> slots, and
  touching a slot outside it, or reading one never written, has no result (\<open>None\<close>).  Errors a
  script can catch are values.
\<close>

text \<open>
  What a failing operation reports: the message of a runtime error, exhaustion of the memory, or that the
  exception is on the stack already.
\<close>

datatype native_error = RuntimeError string | OutOfMemory | Thrown

section \<open>Access by index\<close>

definition isValidArrayIndex :: "obj_array \<Rightarrow> int \<Rightarrow> bool" where
  "isValidArrayIndex arr index \<longleftrightarrow> \<not> (index < 0 \<or> index > int (ar_size arr) - 1)"

definition arrayAt :: "obj_array \<Rightarrow> int \<Rightarrow> val option" where
  "arrayAt arr index = (if 0 \<le> index \<and> nat index < length (ar_items arr) then Some (ar_items arr ! nat index) else None)"

definition arrayAtSafe :: "obj_array \<Rightarrow> int \<Rightarrow> (native_error + val) option" where
  "arrayAtSafe arr index =
     (let realIndex = (if index < 0 then int (ar_size arr) + index else index)
      in if realIndex < 0 \<or> realIndex > int (ar_size arr) - 1
         then Some (Inl (RuntimeError ''Array index out of range''))
         else map_option Inr (arrayAt arr realIndex))"

definition arraySet :: "obj_array \<Rightarrow> int \<Rightarrow> val \<Rightarrow> obj_array option" where
  "arraySet arr index v =
     (if 0 \<le> index \<and> nat index < length (ar_items arr)
      then Some (arr\<lparr>ar_items := (ar_items arr)[nat index := v]\<rparr>)
      else if nat index = length (ar_items arr) \<and> nat index < ar_capacity arr \<and> 0 \<le> index
      then Some (arr\<lparr>ar_items := ar_items arr @ [v]\<rparr>)
      else None)"

section \<open>Creation and growth\<close>

definition as_array :: "obj option \<Rightarrow> obj_array option" where
  "as_array ob = (case ob of Some (OArray r) \<Rightarrow> Some r | Some (OTuple r) \<Rightarrow> Some r | _ \<Rightarrow> None)"

definition array_obj :: "obj_type \<Rightarrow> obj_array \<Rightarrow> obj" where
  "array_obj ty r = (if ty = OBJ_TUPLE then OTuple r else OArray r)"

definition put_array :: "addr \<Rightarrow> obj_array \<Rightarrow> vm \<Rightarrow> vm option" where
  "put_array a r vm = (case get_obj vm a of
       Some (OArray _) \<Rightarrow> set_obj a (OArray r) vm
     | Some (OTuple _) \<Rightarrow> set_obj a (OTuple r) vm
     | _ \<Rightarrow> None)"

text \<open>When the items cannot be allocated the array stays on the stack.\<close>

definition newArray ::
  "(nat \<Rightarrow> bool) \<Rightarrow> env \<Rightarrow> run_ctx \<Rightarrow> int \<Rightarrow> obj_type \<Rightarrow> vm \<Rightarrow> (addr option \<times> vm) option" where
  "newArray mem env rc initialSize objType vm =
     do { (array, vm1) \<leftarrow> allocateObject mem env objType (\<lambda>_. Some (array_obj objType
            \<lparr>ar_size = 0, ar_capacity = 0, ar_modCount = 0, ar_items = []\<rparr>)) vm;
          case array of
            None \<Rightarrow> Some (None, vm1)
          | Some a \<Rightarrow>
              if initialSize \<le> 0 then Some (Some a, vm1)
              else do { (ok, vm2) \<leftarrow> alloc_block mem env (16 * nat initialSize) (push rc (VObj a) vm1);
                        if \<not> ok then Some (None, vm2)
                        else do { vm3 \<leftarrow> put_array a \<lparr>ar_size = 0, ar_capacity = nat initialSize,
                                           ar_modCount = 0, ar_items = []\<rparr> (pop rc vm2);
                                  Some (Some a, vm3) } } }"

text \<open>
  The block is reallocated to \<open>array->capacity\<close> slots, which is still the old capacity: for
  an empty block that is a request of no bytes and yields \<open>NULL\<close>, otherwise the store that
  follows lies behind the block.
\<close>

definition appendToArray ::
  "(nat \<Rightarrow> bool) \<Rightarrow> env \<Rightarrow> addr \<Rightarrow> val \<Rightarrow> vm \<Rightarrow> (bool \<times> vm) option" where
  "appendToArray mem env a v vm =
     do { arr0 \<leftarrow> as_array (get_obj vm a);
          let arr = arr0\<lparr>ar_modCount := ar_modCount arr0 + 1\<rparr>
          in do { vm1 \<leftarrow> put_array a arr vm;
                  if ar_capacity arr < ar_size arr + 1
                  then do { (_, vm2) \<leftarrow> reallocate mem True (16 * ar_capacity arr) (16 * ar_capacity arr) vm1;
                            if ar_capacity arr = 0 \<or> env vm2 (16 * ar_capacity arr) = None then Some (False, vm2)
                            else do { arr' \<leftarrow> arraySet arr (int (ar_size arr)) v;
                                      vm3 \<leftarrow> put_array a (arr'\<lparr>ar_capacity := grow_capacity (ar_capacity arr),
                                                            ar_size := ar_size arr + 1\<rparr>) vm2;
                                      Some (True, vm3) } }
                  else do { arr' \<leftarrow> arraySet arr (int (ar_size arr)) v;
                            vm3 \<leftarrow> put_array a (arr'\<lparr>ar_size := ar_size arr + 1\<rparr>) vm1;
                            Some (True, vm3) } } }"

section \<open>Slices\<close>

text \<open>
  \<open>computeSlice\<close>: \<open>Some None\<close> when an argument is neither \<open>nil\<close> nor a number.
  The last clamp tests \<open>sliceStart\<close> instead of \<open>sliceEnd\<close>.
\<close>

definition slice_bound :: "val \<Rightarrow> int \<Rightarrow> int option option" where
  "slice_bound v dflt = (case v of
       VNil \<Rightarrow> Some (Some dflt)
     | VNumber d \<Rightarrow> map_option Some (dbl_to_int32 d)
     | _ \<Rightarrow> Some None)"

definition clamp_slice :: "int \<Rightarrow> int \<Rightarrow> int \<Rightarrow> int \<times> int" where
  "clamp_slice start0 end0 sz =
     (let start = (if start0 < 0 then 0 else if start0 > sz then sz else start0);
          end1 = (if end0 < 0 then 0 else end0);
          end2 = (if end1 < start then start else if start > sz then sz else end1)
      in (start, end2))"

definition computeSlice :: "val \<Rightarrow> val \<Rightarrow> int \<Rightarrow> (int \<times> int) option option" where
  "computeSlice start end' sz =
     do { s \<leftarrow> slice_bound start 0;
          case s of
            None \<Rightarrow> Some None
          | Some start0 \<Rightarrow>
              do { e \<leftarrow> slice_bound end' sz;
                   case e of
                     None \<Rightarrow> Some None
                   | Some end0 \<Rightarrow> Some (Some (clamp_slice start0 end0 sz)) } }"

text \<open>A failed allocation of the result is not checked before it is filled.\<close>

definition arraySlice ::
  "(nat \<Rightarrow> bool) \<Rightarrow> env \<Rightarrow> run_ctx \<Rightarrow> addr \<Rightarrow> obj_type \<Rightarrow> val \<Rightarrow> val \<Rightarrow> vm \<Rightarrow> ((native_error + addr) \<times> vm) option" where
  "arraySlice mem env rc a ty start end' vm =
     do { arr \<leftarrow> as_array (get_obj vm a);
          bounds \<leftarrow> computeSlice start end' (int (ar_size arr));
          case bounds of
            None \<Rightarrow> Some (Inl (RuntimeError ''Slice start and end must be numbers''), vm)
          | Some (sliceStart, sliceEnd) \<Rightarrow>
              let sliceSize = sliceEnd - sliceStart
              in do { (ret, vm1) \<leftarrow> newArray mem env rc sliceSize ty vm;
                      r \<leftarrow> ret;
                      if sliceSize > 0
                      then do { src \<leftarrow> as_array (get_obj vm1 a);
                                dst \<leftarrow> as_array (get_obj vm1 r);
                                if nat sliceEnd \<le> length (ar_items src)
                                then do { vm2 \<leftarrow> put_array r (dst\<lparr>ar_items :=
                                             take (nat sliceSize) (drop (nat sliceStart) (ar_items src)),
                                             ar_size := nat sliceSize\<rparr>) vm1;
                                          Some (Inr r, vm2) }
                                else None }
                      else Some (Inr r, vm1) } }"

fun contains_from :: "user_equals \<Rightarrow> heap \<Rightarrow> val \<Rightarrow> val list \<Rightarrow> bool \<times> bool" where
  "contains_from ue h needle [] = (False, False)"
| "contains_from ue h needle (x # xs) = (case valuesEquals ue h needle x of
       None \<Rightarrow> (True, False)
     | Some True \<Rightarrow> (False, True)
     | Some False \<Rightarrow> contains_from ue h needle xs)"

text \<open>Error flag and answer.\<close>

definition arrayContains :: "user_equals \<Rightarrow> heap \<Rightarrow> obj_array \<Rightarrow> val \<Rightarrow> bool \<times> bool" where
  "arrayContains ue h sq needle = contains_from ue h needle (take (ar_size sq) (ar_items sq))"

section \<open>Native methods\<close>

definition arrayLength :: "obj_array \<Rightarrow> val" where
  "arrayLength inst = VNumber (dbl_of_int (int (ar_size inst)))"

definition arrayAdd ::
  "(nat \<Rightarrow> bool) \<Rightarrow> env \<Rightarrow> addr \<Rightarrow> val \<Rightarrow> vm \<Rightarrow> ((native_error + val) \<times> vm) option" where
  "arrayAdd mem env a v vm =
     do { (res, vm1) \<leftarrow> appendToArray mem env a v vm; Some (if res then Inr VNil else Inl OutOfMemory, vm1) }"

definition removeAt :: "obj_array \<Rightarrow> int \<Rightarrow> obj_array option" where
  "removeAt arr index =
     (if 0 \<le> index \<and> nat index < ar_size arr \<and> ar_size arr \<le> length (ar_items arr)
      then Some (arr\<lparr>ar_modCount := ar_modCount arr + 1,
          ar_items := take (nat index) (ar_items arr) @
             take (ar_size arr - nat index - 1) (drop (nat index + 1) (ar_items arr)) @
             drop (ar_size arr - 1) (ar_items arr),
          ar_size := ar_size arr - 1\<rparr>)
      else None)"

definition arrayRemoveAt :: "obj_array \<Rightarrow> val \<Rightarrow> ((native_error + val) \<times> obj_array) option" where
  "arrayRemoveAt inst arg = (case arg of
       VNumber d \<Rightarrow>
         do { index \<leftarrow> dbl_to_int32 d;
              if index < 0 \<or> index \<ge> int (ar_size inst)
              then Some (Inl (RuntimeError ''Array index out of bounds''), inst)
              else do { inst' \<leftarrow> removeAt inst index; Some (Inr VNil, inst') } }
     | _ \<Rightarrow> Some (Inl (RuntimeError ''Invalid argument type, expecting number''), inst))"

section \<open>The iterator\<close>

text \<open>The fields of an iterator instance besides the array itself.\<close>

record array_iter =
  ai_cursor :: dbl
  ai_lastRet :: dbl
  ai_modCount :: dbl

definition arrayIterator :: "obj_array \<Rightarrow> array_iter" where
  "arrayIterator inst = \<lparr>ai_cursor = dbl_of_int 0, ai_lastRet = dbl_of_int (-1),
     ai_modCount = dbl_of_int (uint (ar_modCount inst))\<rparr>"

definition arrayIteratorHasNext :: "obj_array \<Rightarrow> array_iter \<Rightarrow> bool option" where
  "arrayIteratorHasNext arr it =
     do { cursor \<leftarrow> dbl_to_int32 (ai_cursor it); Some (cursor \<noteq> int (ar_size arr)) }"

definition arrayIteratorNext :: "obj_array \<Rightarrow> array_iter \<Rightarrow> ((native_error + val) \<times> array_iter) option" where
  "arrayIteratorNext arr it =
     do { i \<leftarrow> dbl_to_int32 (ai_cursor it);
          modCount \<leftarrow> dbl_to_uint32 (ai_modCount it);
          if modCount \<noteq> ar_modCount arr then Some (Inl (RuntimeError ''Array modified during iteration''), it)
          else if i \<ge> int (ar_size arr) then Some (Inl (RuntimeError ''Array index out of bounds''), it)
          else do { v \<leftarrow> arrayAt arr i;
                    Some (Inr v, it\<lparr>ai_cursor := dbl_of_int (i + 1), ai_lastRet := dbl_of_int i\<rparr>) } }"

definition arrayIteratorRemove ::
  "obj_array \<Rightarrow> array_iter \<Rightarrow> ((native_error + val) \<times> obj_array \<times> array_iter) option" where
  "arrayIteratorRemove arr it =
     do { lastRet \<leftarrow> dbl_to_int32 (ai_lastRet it);
          if lastRet < 0 then Some (Inl (RuntimeError ''Illegal iterator state''), arr, it)
          else do { modCount \<leftarrow> dbl_to_uint32 (ai_modCount it);
                    if modCount \<noteq> ar_modCount arr
                    then Some (Inl (RuntimeError ''Array modified during iteration''), arr, it)
                    else do { arr' \<leftarrow> removeAt arr lastRet;
                              Some (Inr VNil, arr', it\<lparr>ai_cursor := dbl_of_int lastRet,
                                ai_lastRet := dbl_of_int (-1),
                                ai_modCount := dbl_of_int (uint (ar_modCount arr'))\<rparr>) } } }"

section \<open>Elements of an array\<close>

definition array_ok :: "obj_array \<Rightarrow> bool" where
  "array_ok arr \<longleftrightarrow> ar_size arr \<le> length (ar_items arr) \<and> length (ar_items arr) \<le> ar_capacity arr"

definition elements :: "obj_array \<Rightarrow> val list" where
  "elements arr = take (ar_size arr) (ar_items arr)"

lemma length_elements: "array_ok arr \<Longrightarrow> length (elements arr) = ar_size arr"
  by (simp add: array_ok_def elements_def)

lemma arrayAt_elements: "array_ok arr \<Longrightarrow> i < ar_size arr \<Longrightarrow> arrayAt arr (int i) = Some (elements arr ! i)"
  by (simp add: arrayAt_def array_ok_def elements_def)

lemma removeAt_spec:
  assumes "array_ok arr" "i < ar_size arr"
  shows "\<exists>arr'. removeAt arr (int i) = Some arr' \<and> array_ok arr' \<and>
    elements arr' = take i (elements arr) @ drop (Suc i) (elements arr) \<and>
    ar_size arr' = ar_size arr - 1 \<and> ar_modCount arr' = ar_modCount arr + 1"
proof -
  have "take (ar_size arr - i - 1) (drop (i + 1) (ar_items arr)) = drop (Suc i) (elements arr)"
    using assms by (simp add: elements_def drop_take)
  moreover have "take i (ar_items arr) = take i (elements arr)"
    using assms by (simp add: elements_def)
  moreover have "length (take i (elements arr) @ drop (Suc i) (elements arr)) = ar_size arr - 1"
    using assms by (simp add: length_elements)
  ultimately show ?thesis
    using assms by (auto simp: removeAt_def array_ok_def elements_def)
qed

text \<open>
  Reading an element through a script index never touches memory outside the array: an index
  counts from the front, or from the back when it is negative, and everything else is the error
  value.
\<close>

theorem arrayAtSafe_correct:
  assumes "array_ok arr"
  shows "arrayAtSafe arr index = Some (
    if 0 \<le> index \<and> index < int (ar_size arr) then Inr (elements arr ! nat index)
    else if - int (ar_size arr) \<le> index \<and> index < 0 then Inr (elements arr ! nat (int (ar_size arr) + index))
    else Inl (RuntimeError ''Array index out of range''))"
  using assms by (auto simp: arrayAtSafe_def Let_def arrayAt_def elements_def array_ok_def)

definition sample_array :: obj_array where
  "sample_array = \<lparr>ar_size = 2, ar_capacity = 8, ar_modCount = 0, ar_items = [VNil, VBool True]\<rparr>"

section \<open>Bounds of a slice\<close>

text \<open>
  For numeric or absent bounds \<open>computeSlice\<close> yields a start inside the sequence and an
  end not before it, and returns the requested bounds when they are in order and inside; but the end
  lies inside the sequence only when the requested one does: it is never clamped to the size.
\<close>

theorem computeSlice_bounds:
  assumes "slice_bound start 0 = Some (Some start0)" and "slice_bound end' (int sz) = Some (Some end0)"
  shows "\<exists>s e. computeSlice start end' (int sz) = Some (Some (s, e)) \<and>
    0 \<le> s \<and> s \<le> int sz \<and> s \<le> e \<and> (e \<le> int sz \<longleftrightarrow> end0 \<le> int sz) \<and>
    (0 \<le> start0 \<and> start0 \<le> end0 \<and> end0 \<le> int sz \<longrightarrow> s = start0 \<and> e = end0)"
  using assms by (simp add: computeSlice_def clamp_slice_def Let_def split: if_splits)

lemma slice_bound_num: "\<lbrakk>- (2 ^ 31) \<le> i; i < 2 ^ 31\<rbrakk> \<Longrightarrow> slice_bound (VNumber (dbl_of_int i)) d = Some (Some i)"
  by (simp add: slice_bound_def)

lemma computeSlice_bounds_witness:
  "computeSlice VNil (VNumber (dbl_of_int 2)) 3 = Some (Some (0, 2))"
proof -
  have "slice_bound VNil 0 = Some (Some 0)" by (simp add: slice_bound_def)
  moreover have "slice_bound (VNumber (dbl_of_int 2)) (int 3) = Some (Some 2)" by (rule slice_bound_num) simp_all
  ultimately show ?thesis using computeSlice_bounds [of VNil 0 "VNumber (dbl_of_int 2)" 3 2] by simp
qed

section \<open>Slicing without a collection\<close>

lemma newArray_quiet:
  assumes env: "fresh_env env" and q: "quiet vm (obj_size ty + 16 * nat n)" and ty: "ty = OBJ_ARRAY \<or> ty = OBJ_TUPLE"
  obtains vm' where "newArray mem env rc n ty vm = Some (None, vm')"
  | r vm' where "newArray mem env rc n ty vm = Some (Some r, vm')" "vm_heap vm r = None"
      "get_obj vm' r = Some (array_obj ty \<lparr>ar_size = 0, ar_capacity = nat n, ar_modCount = 0, ar_items = []\<rparr>)"
      "\<forall>b. b \<noteq> r \<longrightarrow> vm_heap vm' b = vm_heap vm b"
proof (rule allocateObject_quiet [OF env q,
      of mem "array_obj ty \<lparr>ar_size = 0, ar_capacity = 0, ar_modCount = 0, ar_items = []\<rparr>"])
  fix vm1
  assume "allocateObject mem env ty (\<lambda>_. Some (array_obj ty \<lparr>ar_size = 0, ar_capacity = 0, ar_modCount = 0, ar_items = []\<rparr>)) vm
      = Some (None, vm1)"
  then show thesis by (intro that(1) [of vm1]) (simp add: newArray_def)
next
  note null = that(1) and made = that(2)
  fix vm1 r m
  assume al: "allocateObject mem env ty (\<lambda>_. Some (array_obj ty \<lparr>ar_size = 0, ar_capacity = 0, ar_modCount = 0, ar_items = []\<rparr>)) vm
      = Some (Some r, vm1)" "quiet vm1 (16 * nat n)" "vm_heap vm r = None"
    "vm_heap vm1 = (vm_heap vm)(r \<mapsto> \<lparr>c_markers = m, c_obj = array_obj ty \<lparr>ar_size = 0, ar_capacity = 0, ar_modCount = 0, ar_items = []\<rparr>\<rparr>)"
  show thesis
  proof (cases "n \<le> 0")
    case True
    then show thesis using al by (intro made [of r vm1]) (auto simp: newArray_def get_obj_def)
  next
    case False
    have q1: "quiet (push rc (VObj r) vm1) (16 * nat n + 0)" using al(2) by (simp add: quiet_def push_def)
    obtain vm2 ok where a: "alloc_block mem env (16 * nat n) (push rc (VObj r) vm1) = Some (ok, vm2)"
      "bytes_frame (push rc (VObj r) vm1) vm2"
      using alloc_block_quiet [OF q1, of mem env] by blast
    have h2: "vm_heap vm2 = vm_heap vm1" using bytes_frameD(1) [OF a(2)] by (simp add: push_def)
    show thesis
    proof (cases ok)
      case ok: False
      then show thesis using al(1) a(1) False by (intro null [of vm2]) (simp add: newArray_def)
    next
      case True
      let ?r = "\<lparr>ar_size = 0, ar_capacity = nat n, ar_modCount = 0, ar_items = []\<rparr>"
      obtain vm3 where p: "put_array r ?r (pop rc vm2) = Some vm3"
        "vm_heap vm3 = (vm_heap vm1)(r \<mapsto> \<lparr>c_markers = m, c_obj = array_obj ty ?r\<rparr>)"
        using ty by (auto simp: put_array_def get_obj_def pop_def h2 al(4) array_obj_def set_obj_def)
      then show thesis
        using al(1,3,4) a(1) False True by (intro made [of r vm3]) (auto simp: newArray_def get_obj_def)
    qed
  qed
qed

text \<open>
  C29: Below the collection threshold a slice whose bounds lie inside the array is a new array with
  exactly those elements, and no other object changes; when the upper bound exceeds the slots the
  array has, the slice is read from memory behind it.
\<close>

theorem arraySlice_correct:
  assumes "fresh_env env" and "ty = OBJ_ARRAY \<or> ty = OBJ_TUPLE"
    and "get_obj vm a = Some (array_obj ty arr)" and "array_ok arr"
    and "computeSlice start end' (int (ar_size arr)) = Some (Some (s, e))" and "0 \<le> s" and "s \<le> e"
    and "quiet vm (obj_size ty + 16 * nat (e - s))"
    and "newArray mem env rc (e - s) ty vm = Some (Some r, vm1)"
  shows "if e \<le> int (ar_size arr)
    then \<exists>vm' arr'. arraySlice mem env rc a ty start end' vm = Some (Inr r, vm') \<and>
      get_obj vm' r = Some (array_obj ty arr') \<and> elements arr' = take (nat (e - s)) (drop (nat s) (elements arr)) \<and>
      array_ok arr' \<and> (\<forall>b. b \<noteq> r \<longrightarrow> vm_heap vm' b = vm_heap vm b)
    else int (ar_capacity arr) < e \<and> s < e \<longrightarrow> arraySlice mem env rc a ty start end' vm = None"
proof -
  let ?r = "\<lparr>ar_size = 0, ar_capacity = nat (e - s), ar_modCount = 0, ar_items = []\<rparr>"
  have new: "vm_heap vm r = None" "get_obj vm1 r = Some (array_obj ty ?r)" "\<forall>b. b \<noteq> r \<longrightarrow> vm_heap vm1 b = vm_heap vm b"
    using newArray_quiet [OF assms(1,8,2), of mem rc] assms(9) by fastforce+
  have "a \<noteq> r" using assms(3) new(1) by (auto simp: get_obj_def)
  then have a: "a \<noteq> r" "get_obj vm1 a = Some (array_obj ty arr)"
    using assms(3) new(3) by (simp_all add: get_obj_def)
  have as: "as_array (Some (array_obj ty x)) = Some x" for x by (simp add: as_array_def array_obj_def)
  show ?thesis
  proof (cases "e \<le> int (ar_size arr)")
    case in_range: True
    show ?thesis
    proof (cases "e = s")
      case True
      then show ?thesis
        using in_range assms(3,5,9) a new as
        by (auto simp: arraySlice_def array_ok_def elements_def)
    next
      case False
      let ?d = "?r\<lparr>ar_items := take (nat (e - s)) (drop (nat s) (ar_items arr)), ar_size := nat (e - s)\<rparr>"
      obtain c where c: "vm_heap vm1 r = Some c" "c_obj c = array_obj ty ?r" using new(2) by (auto simp: get_obj_def)
      let ?vm = "vm1\<lparr>vm_heap := (vm_heap vm1)(r \<mapsto> c\<lparr>c_obj := array_obj ty ?d\<rparr>)\<rparr>"
      have put: "put_array r ?d vm1 = Some ?vm"
        using c assms(2) by (auto simp: put_array_def get_obj_def array_obj_def set_obj_def)
      have le: "nat e \<le> length (ar_items arr)" "nat (e - s) = nat e - nat s" "nat s \<le> nat e"
        using in_range assms(4,6,7) by (auto simp: array_ok_def)
      have items: "take (nat (e - s)) (drop (nat s) (ar_items arr)) = take (nat (e - s)) (drop (nat s) (elements arr))"
      proof -
        have "nat (e - s) \<le> ar_size arr - nat s" using in_range le by linarith
        then show ?thesis by (simp add: elements_def drop_take min_absorb1)
      qed
      have sl: "arraySlice mem env rc a ty start end' vm = Some (Inr r, ?vm)"
        using assms(3,5,7,9) False a(2) new(2) le(1) put by (simp add: arraySlice_def as Let_def)
      have ok: "array_ok ?d" "elements ?d = take (nat (e - s)) (drop (nat s) (elements arr))"
      proof -
        have "length (take (nat (e - s)) (drop (nat s) (ar_items arr))) = nat (e - s)"
          using le(1) unfolding le(2) by simp
        then show "array_ok ?d" by (simp add: array_ok_def)
        have "elements ?d = take (nat (e - s)) (drop (nat s) (ar_items arr))" by (simp add: elements_def)
        then show "elements ?d = take (nat (e - s)) (drop (nat s) (elements arr))" by (simp only: items)
      qed
      show ?thesis
        using in_range sl ok new(3) by (auto simp: get_obj_def)
    qed
  next
    case False
    then show ?thesis
      using assms(3,4,5,9) a(2) new(2) by (auto simp: arraySlice_def as array_ok_def Let_def)
  qed
qed

definition array_vm :: vm where
  "array_vm = blank_vm [1 \<mapsto> \<lparr>c_markers = 0, c_obj = OArray sample_array\<rparr>] [1] [VObj 1] blank_table"

lemma arraySlice_correct_witness:
  "\<exists>vm' arr'. arraySlice (\<lambda>_. True) two_cells None 1 OBJ_ARRAY VNil (VNumber (dbl_of_int 1)) array_vm = Some (Inr 7, vm') \<and>
     get_obj vm' 7 = Some (OArray arr') \<and> elements arr' = [VNil]"
proof -
  have obj: "get_obj array_vm 1 = Some (array_obj OBJ_ARRAY sample_array)"
    by (simp add: array_vm_def get_obj_def array_obj_def)
  have "slice_bound (VNumber (dbl_of_int 1)) (int (ar_size sample_array)) = Some (Some 1)"
    by (rule slice_bound_num) simp_all
  then have b: "computeSlice VNil (VNumber (dbl_of_int 1)) (int (ar_size sample_array)) = Some (Some (0, 1))"
    by (simp add: computeSlice_def slice_bound_def clamp_slice_def sample_array_def)
  have q: "quiet array_vm (obj_size OBJ_ARRAY + 16 * nat (1 - 0))"
    by (simp add: quiet_def array_vm_def blank_vm_def)
  have "map_option fst (newArray (\<lambda>_. True) two_cells None (1 - 0) OBJ_ARRAY array_vm) = Some (Some 7)"
    by code_simp
  then obtain vm1 where n: "newArray (\<lambda>_. True) two_cells None (1 - 0) OBJ_ARRAY array_vm = Some (Some 7, vm1)"
    by auto
  have ok: "array_ok sample_array" by (simp add: array_ok_def sample_array_def)
  have "if 1 \<le> int (ar_size sample_array)
    then \<exists>vm' arr'. arraySlice (\<lambda>_. True) two_cells None 1 OBJ_ARRAY VNil (VNumber (dbl_of_int 1)) array_vm = Some (Inr 7, vm') \<and>
      get_obj vm' 7 = Some (array_obj OBJ_ARRAY arr') \<and>
      elements arr' = take (nat (1 - 0)) (drop (nat 0) (elements sample_array)) \<and>
      array_ok arr' \<and> (\<forall>b. b \<noteq> 7 \<longrightarrow> vm_heap vm' b = vm_heap array_vm b)
    else int (ar_capacity sample_array) < 1 \<and> 0 < (1::int) \<longrightarrow>
      arraySlice (\<lambda>_. True) two_cells None 1 OBJ_ARRAY VNil (VNumber (dbl_of_int 1)) array_vm = None"
    by (rule arraySlice_correct [OF two_cells_fresh _ obj ok b _ _ q n]) simp_all
  then show ?thesis
    by (auto simp: sample_array_def elements_def array_obj_def)
qed

section \<open>Appending\<close>



section \<open>Iteration refines a list with a cursor\<close>

text \<open>The abstract iterator: the list, the cursor and the position last returned.\<close>

type_synonym list_iter = "val list \<times> nat \<times> nat option"

fun li_next :: "list_iter \<Rightarrow> (native_error + val) \<times> list_iter" where
  "li_next (xs, c, l) = (if c < length xs then (Inr (xs ! c), xs, Suc c, Some c)
     else (Inl (RuntimeError ''Array index out of bounds''), xs, c, l))"

fun li_remove :: "list_iter \<Rightarrow> (native_error + val) \<times> list_iter" where
  "li_remove (xs, c, None) = (Inl (RuntimeError ''Illegal iterator state''), xs, c, None)"
| "li_remove (xs, c, Some r) = (Inr VNil, take r xs @ drop (Suc r) xs, r, None)"

fun iter_rel :: "obj_array \<Rightarrow> array_iter \<Rightarrow> list_iter \<Rightarrow> bool" where
  "iter_rel arr it (xs, c, l) \<longleftrightarrow> array_ok arr \<and> elements arr = xs \<and> length xs < 2 ^ 31 \<and> c \<le> length xs \<and>
     ai_cursor it = dbl_of_int (int c) \<and> ai_modCount it = dbl_of_int (uint (ar_modCount arr)) \<and>
     (case l of None \<Rightarrow> ai_lastRet it = dbl_of_int (-1) | Some r \<Rightarrow> r < length xs \<and> ai_lastRet it = dbl_of_int (int r))"

lemma iter_rel_new: "array_ok arr \<Longrightarrow> ar_size arr < 2 ^ 31 \<Longrightarrow> iter_rel arr (arrayIterator arr) (elements arr, 0, None)"
  by (simp add: arrayIterator_def length_elements)

lemma next_refines:
  assumes "iter_rel arr it (xs, c, l)"
  shows "\<exists>it'. arrayIteratorNext arr it = Some (fst (li_next (xs, c, l)), it') \<and> iter_rel arr it' (snd (li_next (xs, c, l)))"
proof -
  have ok: "array_ok arr" "elements arr = xs" "length xs < 2 ^ 31" "c \<le> length xs"
    "ai_cursor it = dbl_of_int (int c)" "ai_modCount it = dbl_of_int (uint (ar_modCount arr))"
    using assms by simp_all
  have sz: "ar_size arr = length xs" using ok(1,2) length_elements by auto
  have cur: "dbl_to_int32 (ai_cursor it) = Some (int c)" using ok(3,4) by (simp add: ok(5))
  show ?thesis
  proof (cases "c < length xs")
    case True
    then have "arrayAt arr (int c) = Some (xs ! c)" using arrayAt_elements [OF ok(1), of c] by (simp add: sz ok(2))
    then show ?thesis
      using True ok by (simp add: arrayIteratorNext_def cur sz add.commute)
  next
    case False
    then show ?thesis using assms by (simp add: arrayIteratorNext_def cur ok(6) sz)
  qed
qed

lemma remove_refines:
  assumes "iter_rel arr it (xs, c, l)"
  shows "\<exists>arr' it'. arrayIteratorRemove arr it = Some (fst (li_remove (xs, c, l)), arr', it') \<and>
    iter_rel arr' it' (snd (li_remove (xs, c, l)))"
proof (cases l)
  case None
  then show ?thesis using assms by (simp add: arrayIteratorRemove_def)
next
  case (Some r)
  with assms have ok: "array_ok arr" "elements arr = xs" "length xs < 2 ^ 31" "r < length xs"
    "ai_lastRet it = dbl_of_int (int r)" "ai_modCount it = dbl_of_int (uint (ar_modCount arr))" by simp_all
  have sz: "ar_size arr = length xs" using ok(1,2) length_elements by auto
  have cur: "dbl_to_int32 (ai_lastRet it) = Some (int r)" using ok(3,4) by (simp add: ok(5))
  obtain arr' where "removeAt arr (int r) = Some arr'" "array_ok arr'"
    "elements arr' = take r xs @ drop (Suc r) xs"
    using removeAt_spec [OF ok(1), of r] ok(2,4) sz by auto
  then show ?thesis using ok(3,4) by (auto simp: arrayIteratorRemove_def cur ok(6) Some)
qed

text \<open>
  C18: The array iterator refines a list with a cursor: a fresh iterator stands at the front; while
  nobody else changes the array, \<open>hasNext\<close>, \<open>next\<close> and \<open>remove\<close> answer,
  fail and move as on the list, and removing the element last returned moves the cursor back onto
  its successor.
\<close>

theorem array_iterator_refines:
  assumes "iter_rel arr it (xs, c, l)"
  shows "arrayIteratorHasNext arr it = Some (c < length xs) \<and>
    (\<exists>it'. arrayIteratorNext arr it = Some (fst (li_next (xs, c, l)), it') \<and> iter_rel arr it' (snd (li_next (xs, c, l)))) \<and>
    (\<exists>arr' it'. arrayIteratorRemove arr it = Some (fst (li_remove (xs, c, l)), arr', it') \<and>
      iter_rel arr' it' (snd (li_remove (xs, c, l))))"
proof (intro conjI)
  have "array_ok arr" "elements arr = xs" "length xs < 2 ^ 31" "c \<le> length xs" "ai_cursor it = dbl_of_int (int c)"
    using assms by simp_all
  then show "arrayIteratorHasNext arr it = Some (c < length xs)"
    using length_elements [of arr] by (auto simp: arrayIteratorHasNext_def)
qed (rule next_refines [OF assms] remove_refines [OF assms])+

lemma array_iterator_refines_witness:
  "arrayIteratorHasNext sample_array (arrayIterator sample_array) = Some True \<and>
   (\<exists>it'. arrayIteratorNext sample_array (arrayIterator sample_array) = Some (Inr VNil, it'))"
proof -
  have "array_ok sample_array" "ar_size sample_array < 2 ^ 31" by (simp_all add: array_ok_def sample_array_def)
  then have "iter_rel sample_array (arrayIterator sample_array) ([VNil, VBool True], 0, None)"
    using iter_rel_new [of sample_array] by (simp add: elements_def sample_array_def)
  from array_iterator_refines [OF this] show ?thesis by auto
qed

end
