(* ===== verification/NanBoxing.thy ===== *)
theory NanBoxing
  imports Objects
begin

text \<open>
  The alternative representation of values (\<open>ELOX_ENABLE_NAN_BOXING\<close>): one 64-bit word that is
  a double, or a tag or an object pointer in the payload of a quiet NaN.  \<open>box\<close> and
  \<open>unbox\<close> relate it to the tagged union of \<open>Values\<close>; the two builds agree on hashing
  but not on the equality of booleans and of \<open>nil\<close>.
\<close>

section \<open>Words and macros\<close>

definition SIGN_BIT :: u64 where "SIGN_BIT = 0x8000000000000000"
definition QNAN :: u64 where "QNAN = 0x7ffc000000000000"
definition TAGSHIFT :: nat where "TAGSHIFT = 46"
definition TAG_NIL :: u64 where "TAG_NIL = push_bit TAGSHIFT 1"
definition TAG_BOOL :: u64 where "TAG_BOOL = push_bit TAGSHIFT 2"
definition TAG_EXCEPTION :: u64 where "TAG_EXCEPTION = push_bit TAGSHIFT 3"
definition TAG_UNDEFINED :: u64 where "TAG_UNDEFINED = push_bit TAGSHIFT 4"
definition TAG_MASK :: u64 where "TAG_MASK = push_bit TAGSHIFT 15"
definition BOOL_BIT :: u64 where "BOOL_BIT = 1"

definition FALSE_VAL :: u64 where "FALSE_VAL = QNAN OR TAG_BOOL"
definition TRUE_VAL :: u64 where "TRUE_VAL = QNAN OR BOOL_BIT OR TAG_BOOL"
definition NIL_VAL :: u64 where "NIL_VAL = QNAN OR TAG_NIL"
definition EXCEPTION_VAL :: u64 where "EXCEPTION_VAL = QNAN OR TAG_EXCEPTION"
definition UNDEFINED_VAL :: u64 where "UNDEFINED_VAL = QNAN OR TAG_UNDEFINED"
definition BOOL_VAL :: "bool \<Rightarrow> u64" where "BOOL_VAL b = (if b then TRUE_VAL else FALSE_VAL)"
definition OBJ_VAL :: "addr \<Rightarrow> u64" where "OBJ_VAL a = SIGN_BIT OR QNAN OR word_of_nat a"

definition IS_BOOL :: "u64 \<Rightarrow> bool" where "IS_BOOL v \<longleftrightarrow> (v OR BOOL_BIT) = TRUE_VAL"
definition IS_NIL :: "u64 \<Rightarrow> bool" where "IS_NIL v \<longleftrightarrow> v = NIL_VAL"
definition IS_EXCEPTION :: "u64 \<Rightarrow> bool" where "IS_EXCEPTION v \<longleftrightarrow> v = EXCEPTION_VAL"
definition IS_UNDEFINED :: "u64 \<Rightarrow> bool" where "IS_UNDEFINED v \<longleftrightarrow> v = UNDEFINED_VAL"
definition IS_NUMBER :: "u64 \<Rightarrow> bool" where "IS_NUMBER v \<longleftrightarrow> (v AND QNAN) \<noteq> QNAN"
definition IS_OBJ :: "u64 \<Rightarrow> bool" where
  "IS_OBJ v \<longleftrightarrow> (v AND (QNAN OR SIGN_BIT)) = (QNAN OR SIGN_BIT)"
definition AS_BOOL :: "u64 \<Rightarrow> bool" where "AS_BOOL v \<longleftrightarrow> v = TRUE_VAL"
definition AS_OBJ :: "u64 \<Rightarrow> addr" where "AS_OBJ v = unat (v AND NOT (SIGN_BIT OR QNAN))"

text \<open>\<open>NUMBER_VAL\<close> and \<open>AS_NUMBER\<close> copy the bits, which is what a double is here.\<close>

definition numToValue :: "dbl \<Rightarrow> u64" where "numToValue d = d"
definition valueToNum :: "u64 \<Rightarrow> dbl" where "valueToNum v = v"

definition nb_valueTypeId :: "heap \<Rightarrow> u64 \<Rightarrow> nat" where
  "nb_valueTypeId h v =
     (if IS_NUMBER v then 0
      else if IS_OBJ v then obj_type_tag (type_of (obj_at h (AS_OBJ v)))
      else unat (drop_bit TAGSHIFT (v AND TAG_MASK)))"

definition nb_valuesEqual :: "u64 \<Rightarrow> u64 \<Rightarrow> bool" where
  "nb_valuesEqual a b = (if IS_NUMBER a \<and> IS_NUMBER b then dbl_eq (valueToNum a) (valueToNum b) else a = b)"

definition nb_hashValue :: "user_hash \<Rightarrow> heap \<Rightarrow> u64 \<Rightarrow> u32 option" where
  "nb_hashValue uh h v =
     (if IS_OBJ v
      then (case obj_at h (AS_OBJ v) of
              OString _ hash \<Rightarrow> Some hash
            | OStringPair _ _ hash \<Rightarrow> Some hash
            | OInstance inst \<Rightarrow> instanceHash uh h (AS_OBJ v) inst
            | _ \<Rightarrow> Some 0)
      else if IS_BOOL v then Some (if AS_BOOL v then 1 else 0)
      else if IS_NUMBER v then Some (doubleHash (valueToNum v))
      else Some 0)"

definition nb_isString :: "heap \<Rightarrow> u64 \<Rightarrow> bool" where
  "nb_isString h v \<longleftrightarrow> IS_OBJ v \<and> type_of (obj_at h (AS_OBJ v)) = OBJ_STRING"

definition nb_valuesEquals :: "user_equals \<Rightarrow> heap \<Rightarrow> u64 \<Rightarrow> u64 \<Rightarrow> bool option" where
  "nb_valuesEquals ue h a b =
     (if nb_isString h a \<and> nb_isString h b then Some (AS_OBJ a = AS_OBJ b)
      else if IS_NUMBER a \<and> IS_NUMBER b then Some (dbl_eq (valueToNum a) (valueToNum b))
      else if IS_OBJ a \<and> IS_OBJ b
      then (let ao = AS_OBJ a; bo = AS_OBJ b
            in if type_of (obj_at h ao) \<noteq> type_of (obj_at h bo) then Some False
               else (case (obj_at h ao, obj_at h bo) of
                       (OInstance ai, OInstance bi) \<Rightarrow> instanceEquals ue h ao ai bo bi
                     | (OStringPair s1 s2 _, OStringPair r1 r2 _) \<Rightarrow> Some (s1 = r1 \<and> s2 = r2)
                     | _ \<Rightarrow> Some (ao = bo)))
      else Some False)"

section \<open>Boxing and unboxing\<close>

definition box :: "val \<Rightarrow> u64" where
  "box v = (case v of VNumber d \<Rightarrow> numToValue d | VNil \<Rightarrow> NIL_VAL | VBool b \<Rightarrow> BOOL_VAL b
     | VException \<Rightarrow> EXCEPTION_VAL | VUndefined \<Rightarrow> UNDEFINED_VAL | VObj a \<Rightarrow> OBJ_VAL a)"

text \<open>The value a word stands for, by the tests of the macros.\<close>

definition unbox :: "u64 \<Rightarrow> val option" where
  "unbox w =
     (if IS_NUMBER w then Some (VNumber (valueToNum w))
      else if IS_OBJ w then Some (VObj (AS_OBJ w))
      else if IS_BOOL w then Some (VBool (AS_BOOL w))
      else if IS_NIL w then Some VNil
      else if IS_EXCEPTION w then Some VException
      else if IS_UNDEFINED w then Some VUndefined
      else None)"

text \<open>Values the representation can hold: 50-bit pointers and no NaN with the top fraction bits set.\<close>

definition boxable :: "val \<Rightarrow> bool" where
  "boxable v = (case v of VNumber d \<Rightarrow> IS_NUMBER d | VObj a \<Rightarrow> a < 2 ^ 50 | _ \<Rightarrow> True)"

lemma tag_consts:
  "FALSE_VAL = 0x7ffc800000000000" "TRUE_VAL = 0x7ffc800000000001" "NIL_VAL = 0x7ffc400000000000"
  "EXCEPTION_VAL = 0x7ffcc00000000000" "UNDEFINED_VAL = 0x7ffd000000000000"
  by (simp_all add: FALSE_VAL_def TRUE_VAL_def NIL_VAL_def EXCEPTION_VAL_def UNDEFINED_VAL_def QNAN_def
      TAG_NIL_def TAG_BOOL_def TAG_EXCEPTION_def TAG_UNDEFINED_def TAGSHIFT_def BOOL_BIT_def push_bit_eq_mult)

lemma high_mask: "SIGN_BIT OR QNAN = NOT (mask 50)" "QNAN OR SIGN_BIT = NOT (mask 50)"
  by (simp_all add: SIGN_BIT_def QNAN_def mask_eq_exp_minus_1)

lemma obj_word:
  assumes "a < 2 ^ 50"
  shows "IS_OBJ (OBJ_VAL a)" "AS_OBJ (OBJ_VAL a) = a" "\<not> IS_NUMBER (OBJ_VAL a)"
proof -
  let ?w = "word_of_nat a :: u64"
  have "unat ?w = a" using assms by (simp add: unat_of_nat)
  then have "unat (take_bit 50 ?w) = unat ?w"
    using assms by (simp only: unsigned_take_bit_eq) (simp add: take_bit_eq_mod)
  then have w: "?w AND mask 50 = ?w" by (simp only: word_unat_eq_iff take_bit_eq_mask)
  have "(NOT (mask 50) OR ?w) AND NOT (mask 50) = NOT (mask 50)" by (rule bit_word_eqI) (auto simp: bit_simps)
  then show "IS_OBJ (OBJ_VAL a)" by (simp add: IS_OBJ_def OBJ_VAL_def or.assoc [symmetric] high_mask)
  have "(NOT (mask 50) OR ?w) AND NOT (NOT (mask 50)) = ?w AND mask 50"
    by (rule bit_word_eqI) (auto simp: bit_simps)
  then have "AS_OBJ (OBJ_VAL a) = unat ?w" by (simp add: AS_OBJ_def OBJ_VAL_def or.assoc [symmetric] high_mask w)
  also have "\<dots> = a" using assms by (simp add: unat_of_nat)
  finally show "AS_OBJ (OBJ_VAL a) = a" .
  have "(SIGN_BIT OR QNAN OR ?w) AND QNAN = QNAN" by (rule bit_word_eqI) (auto simp: bit_simps)
  then show "\<not> IS_NUMBER (OBJ_VAL a)" by (simp add: IS_NUMBER_def OBJ_VAL_def)
qed

lemma tag_words:
  "\<not> IS_NUMBER (BOOL_VAL b)" "\<not> IS_OBJ (BOOL_VAL b)" "IS_BOOL (BOOL_VAL b)" "AS_BOOL (BOOL_VAL b) = b"
  "\<not> IS_NUMBER NIL_VAL" "\<not> IS_OBJ NIL_VAL" "\<not> IS_BOOL NIL_VAL"
  "\<not> IS_NUMBER EXCEPTION_VAL" "\<not> IS_OBJ EXCEPTION_VAL" "\<not> IS_BOOL EXCEPTION_VAL"
  "\<not> IS_NUMBER UNDEFINED_VAL" "\<not> IS_OBJ UNDEFINED_VAL" "\<not> IS_BOOL UNDEFINED_VAL"
  "EXCEPTION_VAL \<noteq> NIL_VAL" "UNDEFINED_VAL \<noteq> NIL_VAL" "UNDEFINED_VAL \<noteq> EXCEPTION_VAL"
  by (simp_all add: IS_NUMBER_def IS_OBJ_def IS_BOOL_def AS_BOOL_def BOOL_VAL_def tag_consts QNAN_def
      SIGN_BIT_def BOOL_BIT_def)

lemma is_number_not_obj: "IS_NUMBER w \<Longrightarrow> \<not> IS_OBJ w"
proof
  assume "IS_NUMBER w" "IS_OBJ w"
  have "w AND QNAN = (w AND (QNAN OR SIGN_BIT)) AND QNAN" by (rule bit_word_eqI) (auto simp: bit_simps)
  also have "\<dots> = (QNAN OR SIGN_BIT) AND QNAN" using \<open>IS_OBJ w\<close> by (simp add: IS_OBJ_def)
  also have "\<dots> = QNAN" by (simp add: QNAN_def SIGN_BIT_def)
  finally show False using \<open>IS_NUMBER w\<close> by (simp add: IS_NUMBER_def)
qed

lemma number_not_bool: "IS_NUMBER w \<Longrightarrow> \<not> IS_BOOL w"
proof
  assume n: "IS_NUMBER w" and "IS_BOOL w"
  have "(w OR BOOL_BIT) AND QNAN = w AND QNAN"
    by (rule bit_word_eqI) (auto simp: bit_simps BOOL_BIT_def QNAN_def)
  then have "w AND QNAN = TRUE_VAL AND QNAN" using \<open>IS_BOOL w\<close> by (simp add: IS_BOOL_def)
  also have "\<dots> = QNAN" by (simp add: tag_consts QNAN_def)
  finally show False using n by (simp add: IS_NUMBER_def)
qed

text \<open>
  C28: Boxing loses nothing: every value whose pointer has at most 50 bits, or whose number is not a
  NaN with all the bits of \<open>QNAN\<close>, comes back through the type tests of the macros, and its
  type identifier is that of the tagged build.
\<close>

theorem nan_box_roundtrip:
  assumes "boxable v"
  shows "unbox (box v) = Some v \<and> nb_valueTypeId h (box v) = valueTypeId h v"
proof
  show "unbox (box v) = Some v"
    using assms by (cases v) (auto simp: boxable_def box_def unbox_def obj_word tag_words numToValue_def
        valueToNum_def IS_NIL_def IS_EXCEPTION_def IS_UNDEFINED_def)
  have "unat (drop_bit TAGSHIFT (NIL_VAL AND TAG_MASK)) = 1" "unat (drop_bit TAGSHIFT (BOOL_VAL b AND TAG_MASK)) = 2"
    "unat (drop_bit TAGSHIFT (EXCEPTION_VAL AND TAG_MASK)) = 3" "unat (drop_bit TAGSHIFT (UNDEFINED_VAL AND TAG_MASK)) = 4" for b
    by (simp_all add: tag_consts BOOL_VAL_def TAG_MASK_def TAGSHIFT_def push_bit_eq_mult drop_bit_eq_div)
  then show "nb_valueTypeId h (box v) = valueTypeId h v"
    using assms by (cases v) (auto simp: boxable_def box_def nb_valueTypeId_def valueTypeId_def obj_word tag_words numToValue_def)
qed

lemma nan_box_roundtrip_witness:
  "unbox (box (VObj 4096)) = Some (VObj 4096) \<and> nb_valueTypeId (\<lambda>_. None) (box (VBool True)) = 2"
proof -
  have "boxable (VObj 4096)" "boxable (VBool True)" by (simp_all add: boxable_def)
  from nan_box_roundtrip [OF this(1)] nan_box_roundtrip [OF this(2), of "\<lambda>_. None"]
  show ?thesis by (simp add: valueTypeId_def)
qed

section \<open>The two builds compared\<close>

text \<open>
  Both representations give every value the same hash, so the order and contents of maps do not
  depend on the build.
\<close>

theorem nan_box_same_hash:
  assumes "boxable v"
  shows "nb_hashValue uh h (box v) = hashValue uh h v"
proof (cases v)
  case (VNumber d)
  then have "\<not> IS_OBJ d" "\<not> IS_BOOL d" "IS_NUMBER d"
    using assms is_number_not_obj number_not_bool by (auto simp: boxable_def)
  then show ?thesis using VNumber by (simp add: box_def nb_hashValue_def hashValue_def numToValue_def valueToNum_def)
next
  case (VObj a)
  then show ?thesis
    using assms by (simp add: boxable_def box_def nb_hashValue_def hashValue_def obj_word split: obj.split)
qed (simp_all add: box_def nb_hashValue_def hashValue_def tag_words)

text \<open>
  The equality of the two builds agrees on all values except the booleans and \<open>nil\<close>:
  with NaN boxing neither \<open>true == true\<close> nor \<open>nil == nil\<close> holds.
\<close>

theorem nan_box_equality_differs:
  assumes "boxable a" and "boxable b"
  shows "nb_valuesEquals ue h (box a) (box b) =
    (if (a = VNil \<and> b = VNil) \<or> ((\<exists>x. a = VBool x) \<and> (\<exists>y. b = VBool y)) then Some False
     else valuesEquals ue h a b)"
proof -
  have num: "\<not> IS_OBJ d" if "IS_NUMBER d" for d using that by (rule is_number_not_obj)
  show ?thesis
  proof (cases "\<exists>x y. a = VObj x \<and> b = VObj y")
    case True
    then obtain x y where xy: "a = VObj x" "b = VObj y" by blast
    have "x < 2 ^ 50" "y < 2 ^ 50" using assms xy by (simp_all add: boxable_def)
    then show ?thesis
      unfolding xy
      by (cases "obj_at h x"; cases "obj_at h y")
        (simp_all add: box_def nb_valuesEquals_def valuesEquals_def nb_isString_def obj_word Let_def)
  next
    case False
    then show ?thesis
      using assms num
      by (cases a; cases b)
        (simp_all add: box_def nb_valuesEquals_def valuesEquals_def nb_isString_def tag_words boxable_def
          obj_word numToValue_def valueToNum_def)
  qed
qed

lemma nan_box_equality_differs_witness:
  "nb_valuesEquals (\<lambda>_ _. None) (\<lambda>_. None) (box VNil) (box VNil) = Some False \<and>
   valuesEquals (\<lambda>_ _. None) (\<lambda>_. None) VNil VNil = Some True"
proof -
  have "boxable VNil" by (simp add: boxable_def)
  from nan_box_equality_differs [OF this this, of "\<lambda>_ _. None" "\<lambda>_. None"]
  show ?thesis by (simp add: valuesEquals_def)
qed

end
