(* ===== verification/Scanner.thy ===== *)
theory Scanner
  imports Prelude
begin

text \<open>
  The scanner (\<open>scanner.h\<close>, \<open>scanner.c\<close>): tokens, nested block comments, keywords,
  string literals decoded in place, and interpolated strings.  The source is a byte list that ends
  with a NUL; reading or writing outside it has no result (\<open>None\<close>).  A token carries the
  bytes it spans at the moment it is made, an error token its message.
\<close>

definition bytes :: "string \<Rightarrow> byte list" where
  "bytes s = map of_char s"

datatype (plugins only: code size) token_type =
    TOKEN_LEFT_PAREN | TOKEN_RIGHT_PAREN | TOKEN_LEFT_BRACE | TOKEN_RIGHT_BRACE
    | TOKEN_LEFT_BRACKET | TOKEN_RIGHT_BRACKET | TOKEN_COLON | TOKEN_DOUBLE_COLON | TOKEN_COMMA
    | TOKEN_DOT | TOKEN_DOT_DOT | TOKEN_ELLIPSIS | TOKEN_MINUS | TOKEN_PERCENT | TOKEN_PLUS
    | TOKEN_SEMICOLON | TOKEN_SLASH | TOKEN_STAR | TOKEN_BANG | TOKEN_BANG_EQUAL | TOKEN_EQUAL
    | TOKEN_EQUAL_EQUAL | TOKEN_COLON_EQUAL | TOKEN_GREATER | TOKEN_GREATER_EQUAL | TOKEN_LESS
    | TOKEN_LESS_EQUAL | TOKEN_PLUS_EQUAL | TOKEN_MINUS_EQUAL | TOKEN_SLASH_EQUAL
    | TOKEN_STAR_EQUAL | TOKEN_PERCENT_EQUAL | TOKEN_IDENTIFIER | TOKEN_STRING | TOKEN_NUMBER
    | TOKEN_FSTRING_START | TOKEN_FSTRING | TOKEN_FSTRING_END | TOKEN_AND | TOKEN_BREAK
    | TOKEN_CATCH | TOKEN_CONTINUE | TOKEN_CLASS | TOKEN_ELSE | TOKEN_EXTENDS | TOKEN_FALSE
    | TOKEN_FINALLY | TOKEN_FOR | TOKEN_FOREACH | TOKEN_FROM | TOKEN_FUNCTION | TOKEN_IF
    | TOKEN_IMPLEMENTS | TOKEN_IMPORT | TOKEN_IN | TOKEN_INSTANCEOF | TOKEN_INTERFACE | TOKEN_NIL
    | TOKEN_OR | TOKEN_RETURN | TOKEN_SUPER | TOKEN_THIS | TOKEN_THROW | TOKEN_TRUE | TOKEN_TRY
    | TOKEN_WHILE | TOKEN_ABSTRACT | TOKEN_GLOBAL | TOKEN_LOCAL | TOKEN_ERROR | TOKEN_EOF

record token =
  tk_type :: token_type
  tk_chars :: "byte list"
  tk_line :: nat

definition MAX_INTERP_DEPTH :: nat where "MAX_INTERP_DEPTH = 8"

record fstring =
  fs_delim :: byte
  fs_hasExpr :: bool
  fs_openBraces :: "16 word"

record scanner =
  sc_src :: "byte list"
  sc_start :: nat
  sc_current :: nat
  sc_line :: nat
  sc_openFStrings :: nat
  sc_fStrings :: "fstring list"

section \<open>Character classes\<close>

text \<open>\<open>eloxCTable\<close>: 1 alphabetic (and the underscore), 2 digit, 4 hexadecimal, 8 space.\<close>

definition eloxCTable :: "byte \<Rightarrow> byte" where
  "eloxCTable c =
     (if c \<in> {9, 10, 13, 32} then 8
      else if 48 \<le> c \<and> c \<le> 57 then 6
      else if 65 \<le> c \<and> c \<le> 70 \<or> 97 \<le> c \<and> c \<le> 102 then 5
      else if 71 \<le> c \<and> c \<le> 90 \<or> 103 \<le> c \<and> c \<le> 122 \<or> c = 95 then 1
      else 0)"

definition isAlpha :: "byte \<Rightarrow> bool" where "isAlpha c \<longleftrightarrow> eloxCTable c AND 1 \<noteq> 0"
definition isDigit :: "byte \<Rightarrow> bool" where "isDigit c \<longleftrightarrow> eloxCTable c AND 2 \<noteq> 0"
definition isHex :: "byte \<Rightarrow> bool" where "isHex c \<longleftrightarrow> eloxCTable c AND 4 \<noteq> 0"
definition isWhitespace :: "byte \<Rightarrow> bool" where "isWhitespace c \<longleftrightarrow> eloxCTable c AND 8 \<noteq> 0"

section \<open>Decoding UTF-8\<close>

definition elox_utf8d :: "nat list" where
  "elox_utf8d = [
     0, 0, 0, 0, 0, 0, 0, 0, 0, 0, 0, 0, 0, 0, 0, 0, 0, 0, 0, 0, 0, 0, 0, 0, 0, 0, 0, 0, 0, 0, 0, 0,
     0, 0, 0, 0, 0, 0, 0, 0, 0, 0, 0, 0, 0, 0, 0, 0, 0, 0, 0, 0, 0, 0, 0, 0, 0, 0, 0, 0, 0, 0, 0, 0,
     0, 0, 0, 0, 0, 0, 0, 0, 0, 0, 0, 0, 0, 0, 0, 0, 0, 0, 0, 0, 0, 0, 0, 0, 0, 0, 0, 0, 0, 0, 0, 0,
     0, 0, 0, 0, 0, 0, 0, 0, 0, 0, 0, 0, 0, 0, 0, 0, 0, 0, 0, 0, 0, 0, 0, 0, 0, 0, 0, 0, 0, 0, 0, 0,
     1, 1, 1, 1, 1, 1, 1, 1, 1, 1, 1, 1, 1, 1, 1, 1, 9, 9, 9, 9, 9, 9, 9, 9, 9, 9, 9, 9, 9, 9, 9, 9,
     7, 7, 7, 7, 7, 7, 7, 7, 7, 7, 7, 7, 7, 7, 7, 7, 7, 7, 7, 7, 7, 7, 7, 7, 7, 7, 7, 7, 7, 7, 7, 7,
     8, 8, 2, 2, 2, 2, 2, 2, 2, 2, 2, 2, 2, 2, 2, 2, 2, 2, 2, 2, 2, 2, 2, 2, 2, 2, 2, 2, 2, 2, 2, 2,
     10, 3, 3, 3, 3, 3, 3, 3, 3, 3, 3, 3, 3, 4, 3, 3, 11, 6, 6, 6, 5, 8, 8, 8, 8, 8, 8, 8, 8, 8, 8, 8,
     0, 12, 24, 36, 60, 96, 84, 12, 12, 12, 48, 72, 12, 12, 12, 12, 12, 12, 12, 12, 12, 12, 12, 12, 12, 0, 12, 12, 12, 12, 12, 0,
     12, 0, 12, 12, 12, 24, 12, 12, 12, 12, 12, 24, 12, 24, 12, 12, 12, 12, 12, 12, 12, 12, 12, 24, 12, 12, 12, 12, 12, 24, 12, 12,
     12, 12, 12, 12, 12, 24, 12, 12, 12, 12, 12, 12, 12, 12, 12, 36, 12, 36, 12, 12, 12, 36, 12, 12, 12, 12, 12, 36, 12, 36, 12, 12,
     12, 36, 12, 12, 12, 12, 12, 12, 12, 12, 12, 12]"

definition elox_utf8_decode :: "nat \<Rightarrow> u32 \<Rightarrow> byte \<Rightarrow> nat \<times> u32" where
  "elox_utf8_decode state codepoint b =
     (let type = elox_utf8d ! unat b;
          cp = (if state \<noteq> 0 then (ucast b AND 0x3f) OR push_bit 6 codepoint
                else drop_bit type 0xff AND ucast b)
      in (elox_utf8d ! (256 + state + type), cp))"

definition INVALID_UTF8 :: u32 where "INVALID_UTF8 = 0xFFFFFFFF"

fun utf8_loop :: "nat \<Rightarrow> u32 \<Rightarrow> byte list \<Rightarrow> (u32 \<times> byte list) option" where
  "utf8_loop state codepoint [] = None"
| "utf8_loop state codepoint (ch # rest) =
     (let (state', codepoint') = elox_utf8_decode state codepoint ch
      in if state' = 0 then Some (codepoint', rest)
         else if state' = 12 then Some (INVALID_UTF8, rest)
         else if ch > 0 then utf8_loop state' codepoint' rest
         else Some (codepoint', rest))"

section \<open>Reading the source\<close>

definition byte_at :: "byte list \<Rightarrow> nat \<Rightarrow> byte option" where
  "byte_at xs i = (if i < length xs then Some (xs ! i) else None)"

definition initScanner :: "byte list \<Rightarrow> scanner \<Rightarrow> scanner" where
  "initScanner source sc = sc\<lparr>sc_src := source, sc_start := 0, sc_current := 0, sc_line := 1\<rparr>"

definition rest_of :: "scanner \<Rightarrow> byte list" where
  "rest_of sc = drop (sc_current sc) (sc_src sc)"

definition move_to :: "byte list \<Rightarrow> scanner \<Rightarrow> scanner" where
  "move_to rest sc = sc\<lparr>sc_current := length (sc_src sc) - length rest\<rparr>"

definition scanPeek :: "scanner \<Rightarrow> byte option" where
  "scanPeek sc = byte_at (sc_src sc) (sc_current sc)"

definition isAtEnd :: "scanner \<Rightarrow> bool option" where
  "isAtEnd sc = map_option (\<lambda>c. c = 0) (scanPeek sc)"

definition scanLookBack :: "scanner \<Rightarrow> byte option" where
  "scanLookBack sc = (if sc_current sc = 0 then None else byte_at (sc_src sc) (sc_current sc - 1))"

definition scanPeekNext :: "scanner \<Rightarrow> byte option" where
  "scanPeekNext sc = do { e \<leftarrow> isAtEnd sc; if e then Some 0 else byte_at (sc_src sc) (sc_current sc + 1) }"

definition sc_advance :: "scanner \<Rightarrow> (byte \<times> scanner) option" where
  "sc_advance sc = do { c \<leftarrow> scanPeek sc; Some (c, sc\<lparr>sc_current := sc_current sc + 1\<rparr>) }"

definition utf8_advance :: "scanner \<Rightarrow> (u32 \<times> scanner) option" where
  "utf8_advance sc = do { (cp, rest) \<leftarrow> utf8_loop 0 0 (rest_of sc); Some (cp, move_to rest sc) }"

definition advanceIfMatch :: "byte \<Rightarrow> scanner \<Rightarrow> (bool \<times> scanner) option" where
  "advanceIfMatch expected sc =
     do { e \<leftarrow> isAtEnd sc;
          if e then Some (False, sc)
          else do { c \<leftarrow> scanPeek sc;
                    if c \<noteq> expected then Some (False, sc)
                    else Some (True, sc\<lparr>sc_current := sc_current sc + 1\<rparr>) } }"

definition advanceIfMatch2 :: "byte \<Rightarrow> byte \<Rightarrow> scanner \<Rightarrow> (bool \<times> scanner) option" where
  "advanceIfMatch2 xa xb sc =
     do { e \<leftarrow> isAtEnd sc;
          if e then Some (False, sc)
          else do { a \<leftarrow> scanPeek sc;
                    if a \<noteq> xa then Some (False, sc)
                    else let sc1 = sc\<lparr>sc_current := sc_current sc + 1\<rparr>
                         in do { e1 \<leftarrow> isAtEnd sc1;
                                 if e1 then Some (False, sc)
                                 else do { b \<leftarrow> scanPeek sc1;
                                           if b \<noteq> xb then Some (False, sc)
                                           else Some (True, sc1\<lparr>sc_current := sc_current sc1 + 1\<rparr>) } } } }"

definition makeTrimmedToken :: "scanner \<Rightarrow> token_type \<Rightarrow> nat \<Rightarrow> token" where
  "makeTrimmedToken sc type len =
     \<lparr>tk_type = type, tk_chars = take len (drop (sc_start sc) (sc_src sc)), tk_line = sc_line sc\<rparr>"

definition makeToken :: "scanner \<Rightarrow> token_type \<Rightarrow> token" where
  "makeToken sc type = makeTrimmedToken sc type (sc_current sc - sc_start sc)"

definition errorToken :: "scanner \<Rightarrow> string \<Rightarrow> token" where
  "errorToken sc message = \<lparr>tk_type = TOKEN_ERROR, tk_chars = bytes message, tk_line = sc_line sc\<rparr>"

section \<open>White space and comments\<close>

datatype wss_state = WSS_SCAN | WSS_STAR | WSS_DONE

fun block_comment :: "wss_state \<Rightarrow> nat \<Rightarrow> byte list \<Rightarrow> (wss_state \<times> nat \<times> byte list) option" where
  "block_comment state line [] = None"
| "block_comment state line (ch # rest) =
     (if ch = 0 then Some (state, line, ch # rest)
      else case state of
        WSS_SCAN \<Rightarrow> if ch = 42 then block_comment WSS_STAR line rest
                    else if ch = 10 then block_comment WSS_SCAN (line + 1) rest
                    else block_comment WSS_SCAN line rest
      | WSS_STAR \<Rightarrow> if ch = 35 then Some (WSS_DONE, line, rest)
                    else if ch = 10 then block_comment WSS_SCAN (line + 1) rest
                    else block_comment WSS_SCAN line rest
      | WSS_DONE \<Rightarrow> Some (WSS_DONE, line, rest))"

fun line_comment :: "byte list \<Rightarrow> byte list option" where
  "line_comment [] = None"
| "line_comment (ch # rest) = (if ch = 10 \<or> ch = 0 then Some (ch # rest) else line_comment rest)"

lemma block_comment_shorter: "block_comment st l xs = Some (st', l', ys) \<Longrightarrow> length ys \<le> length xs"
  by (induction st l xs rule: block_comment.induct) (auto split: if_splits wss_state.splits)

lemma line_comment_shorter: "line_comment xs = Some ys \<Longrightarrow> length ys \<le> length xs"
  by (induction xs) (auto split: if_splits)

text \<open>False: a block comment is not closed.\<close>

function skip_ws :: "nat \<Rightarrow> byte list \<Rightarrow> (bool \<times> nat \<times> byte list) option" where
  "skip_ws line [] = None"
| "skip_ws line (c # rest) =
     (if c = 32 \<or> c = 13 \<or> c = 9 then skip_ws line rest
      else if c = 10 then skip_ws (line + 1) rest
      else if c = 35
      then (case rest of
              [] \<Rightarrow> None
            | n # _ \<Rightarrow>
                if n = 42
                then (case block_comment WSS_SCAN line rest of
                        None \<Rightarrow> None
                      | Some (state, line', rest') \<Rightarrow>
                          if state \<noteq> WSS_DONE then Some (False, line', rest') else skip_ws line' rest')
                else (case line_comment rest of None \<Rightarrow> None | Some rest' \<Rightarrow> skip_ws line rest'))
      else Some (True, line, c # rest))"
  by pat_completeness auto
termination
  by (relation "measure (length \<circ> snd)")
    (auto simp del: block_comment.simps line_comment.simps dest!: block_comment_shorter line_comment_shorter)

definition skipWhitespace :: "scanner \<Rightarrow> (bool \<times> scanner) option" where
  "skipWhitespace sc = do { (ok, line, rest) \<leftarrow> skip_ws (sc_line sc) (rest_of sc);
                            Some (ok, move_to rest (sc\<lparr>sc_line := line\<rparr>)) }"

section \<open>Keywords\<close>

definition checkKeyword :: "byte list \<Rightarrow> nat \<Rightarrow> nat \<Rightarrow> string \<Rightarrow> token_type \<Rightarrow> token_type" where
  "checkKeyword text start len rest type =
     (if length text = start + len \<and> take len (drop start text) = take len (bytes rest)
      then type else TOKEN_IDENTIFIER)"

definition chr :: "char \<Rightarrow> byte" where "chr c = of_char c"

text \<open>The decision tree on the first characters; \<open>text\<close> is what the token spans.\<close>

definition kw_a :: "byte list \<Rightarrow> token_type" where
  "kw_a text = (if length text > 1
     then if text ! 1 = chr (CHR ''b'') then checkKeyword text 2 6 ''stract'' TOKEN_ABSTRACT
          else if text ! 1 = chr (CHR ''n'') then checkKeyword text 2 1 ''d'' TOKEN_AND
          else TOKEN_IDENTIFIER
     else TOKEN_IDENTIFIER)"

definition kw_c :: "byte list \<Rightarrow> token_type" where
  "kw_c text = (if length text > 1
     then if text ! 1 = chr (CHR ''a'') then checkKeyword text 2 3 ''tch'' TOKEN_CATCH
          else if text ! 1 = chr (CHR ''l'') then checkKeyword text 2 3 ''ass'' TOKEN_CLASS
          else if text ! 1 = chr (CHR ''o'') then checkKeyword text 2 6 ''ntinue'' TOKEN_CONTINUE
          else TOKEN_IDENTIFIER
     else TOKEN_IDENTIFIER)"

definition kw_e :: "byte list \<Rightarrow> token_type" where
  "kw_e text = (if length text > 1
     then if text ! 1 = chr (CHR ''l'') then checkKeyword text 2 2 ''se'' TOKEN_ELSE
          else if text ! 1 = chr (CHR ''x'') then checkKeyword text 2 5 ''tends'' TOKEN_EXTENDS
          else TOKEN_IDENTIFIER
     else TOKEN_IDENTIFIER)"

definition kw_f :: "byte list \<Rightarrow> token_type" where
  "kw_f text = (if length text > 1
     then if text ! 1 = chr (CHR ''a'') then checkKeyword text 2 3 ''lse'' TOKEN_FALSE
          else if text ! 1 = chr (CHR ''i'') then checkKeyword text 2 5 ''nally'' TOKEN_FINALLY
          else if text ! 1 = chr (CHR ''o'')
          then if length text > 2 \<and> text ! 2 = chr (CHR ''r'')
               then if length text > 3
                    then if text ! 3 = chr (CHR ''e'') then checkKeyword text 3 4 ''each'' TOKEN_FOREACH
                         else checkKeyword text 3 0 '''' TOKEN_FOR
                    else checkKeyword text 3 0 '''' TOKEN_FOR
               else checkKeyword text 2 1 ''r'' TOKEN_FOR
          else if text ! 1 = chr (CHR ''r'') then checkKeyword text 2 2 ''om'' TOKEN_FROM
          else if text ! 1 = chr (CHR ''u'') then checkKeyword text 2 6 ''nction'' TOKEN_FUNCTION
          else TOKEN_IDENTIFIER
     else TOKEN_IDENTIFIER)"

definition kw_i :: "byte list \<Rightarrow> token_type" where
  "kw_i text = (if length text > 1
     then if text ! 1 = chr (CHR ''f'') then checkKeyword text 2 0 '''' TOKEN_IF
          else if text ! 1 = chr (CHR ''m'')
          then if length text > 2
               then if text ! 2 = chr (CHR ''p'')
                    then if length text > 3
                         then if text ! 3 = chr (CHR ''o'') then checkKeyword text 3 3 ''ort'' TOKEN_IMPORT
                              else checkKeyword text 3 7 ''lements'' TOKEN_IMPLEMENTS
                         else TOKEN_IDENTIFIER
                    else TOKEN_IDENTIFIER
               else TOKEN_IDENTIFIER
          else if text ! 1 = chr (CHR ''n'')
          then if length text > 2
               then if text ! 2 = chr (CHR ''s'') then checkKeyword text 2 8 ''stanceof'' TOKEN_INSTANCEOF
                    else if text ! 2 = chr (CHR ''t'') then checkKeyword text 2 7 ''terface'' TOKEN_INTERFACE
                    else checkKeyword text 2 0 '''' TOKEN_IN
               else checkKeyword text 2 0 '''' TOKEN_IN
          else TOKEN_IDENTIFIER
     else TOKEN_IDENTIFIER)"

definition kw_t :: "byte list \<Rightarrow> token_type" where
  "kw_t text = (if length text > 1
     then if text ! 1 = chr (CHR ''h'')
          then if length text > 2
               then if text ! 2 = chr (CHR ''i'') then checkKeyword text 3 1 ''s'' TOKEN_THIS
                    else if text ! 2 = chr (CHR ''r'') then checkKeyword text 3 2 ''ow'' TOKEN_THROW
                    else TOKEN_IDENTIFIER
               else TOKEN_IDENTIFIER
          else if text ! 1 = chr (CHR ''r'')
          then if length text > 2
               then if text ! 2 = chr (CHR ''u'') then checkKeyword text 3 1 ''e'' TOKEN_TRUE
                    else if text ! 2 = chr (CHR ''y'') then checkKeyword text 3 0 '''' TOKEN_TRY
                    else TOKEN_IDENTIFIER
               else TOKEN_IDENTIFIER
          else TOKEN_IDENTIFIER
     else TOKEN_IDENTIFIER)"

definition identifierType :: "byte list \<Rightarrow> token_type" where
  "identifierType text =
     (let c = hd text
      in if c = chr (CHR ''a'') then kw_a text
         else if c = chr (CHR ''b'') then checkKeyword text 1 4 ''reak'' TOKEN_BREAK
         else if c = chr (CHR ''c'') then kw_c text
         else if c = chr (CHR ''e'') then kw_e text
         else if c = chr (CHR ''f'') then kw_f text
         else if c = chr (CHR ''g'') then checkKeyword text 1 5 ''lobal'' TOKEN_GLOBAL
         else if c = chr (CHR ''i'') then kw_i text
         else if c = chr (CHR ''l'') then checkKeyword text 1 4 ''ocal'' TOKEN_LOCAL
         else if c = chr (CHR ''n'') then checkKeyword text 1 2 ''il'' TOKEN_NIL
         else if c = chr (CHR ''o'') then checkKeyword text 1 1 ''r'' TOKEN_OR
         else if c = chr (CHR ''r'') then checkKeyword text 1 5 ''eturn'' TOKEN_RETURN
         else if c = chr (CHR ''s'') then checkKeyword text 1 4 ''uper'' TOKEN_SUPER
         else if c = chr (CHR ''t'') then kw_t text
         else if c = chr (CHR ''w'') then checkKeyword text 1 4 ''hile'' TOKEN_WHILE
         else TOKEN_IDENTIFIER)"

section \<open>Identifiers and numbers\<close>

text \<open>The first byte outside a class.\<close>

fun span_class :: "(byte \<Rightarrow> bool) \<Rightarrow> byte list \<Rightarrow> byte list option" where
  "span_class P [] = None"
| "span_class P (c # rest) = (if P c then span_class P rest else Some (c # rest))"

definition sc_identifier :: "scanner \<Rightarrow> (token \<times> scanner) option" where
  "sc_identifier sc =
     do { rest \<leftarrow> span_class (\<lambda>c. isAlpha c \<or> isDigit c) (rest_of sc);
          let sc' = move_to rest sc
          in Some (makeToken sc' (identifierType (take (sc_current sc' - sc_start sc') (drop (sc_start sc') (sc_src sc')))), sc') }"

definition sc_number :: "scanner \<Rightarrow> (token \<times> scanner) option" where
  "sc_number sc =
     do { back \<leftarrow> scanLookBack sc;
          c \<leftarrow> scanPeek sc;
          if back = 48 \<and> (c = 120 \<or> c = 88)
          then do { (_, sc1) \<leftarrow> sc_advance sc;
                    rest \<leftarrow> span_class isHex (rest_of sc1);
                    let sc2 = move_to rest sc1 in Some (makeToken sc2 TOKEN_NUMBER, sc2) }
          else do { rest \<leftarrow> span_class isDigit (rest_of sc);
                    let sc1 = move_to rest sc
                    in do { p \<leftarrow> scanPeek sc1;
                            n \<leftarrow> (if p = 46 then scanPeekNext sc1 else Some 0);
                            if p = 46 \<and> isDigit n
                            then do { (_, sc2) \<leftarrow> sc_advance sc1;
                                      rest2 \<leftarrow> span_class isDigit (rest_of sc2);
                                      let sc3 = move_to rest2 sc2 in Some (makeToken sc3 TOKEN_NUMBER, sc3) }
                            else Some (makeToken sc1 TOKEN_NUMBER, sc1) } } }"

section \<open>String literals\<close>

text \<open>
  \<open>outputUtf8\<close> encodes a code point into the buffer at the output position (\<open>Some None\<close>:
  not a code point); the literal is decoded over its own source text.
\<close>

definition utf8_bytes :: "u32 \<Rightarrow> byte list option" where
  "utf8_bytes cp =
     (if cp \<le> 0x7F then Some [ucast cp]
      else if cp \<le> 0x07FF
      then Some [ucast ((drop_bit 6 cp AND 0x1F) OR 0xC0), ucast ((cp AND 0x3F) OR 0x80)]
      else if cp \<le> 0xFFFF
      then Some [ucast ((drop_bit 12 cp AND 0x0F) OR 0xE0), ucast ((drop_bit 6 cp AND 0x3F) OR 0x80),
                 ucast ((cp AND 0x3F) OR 0x80)]
      else if cp \<le> 0x10FFFF
      then Some [ucast ((drop_bit 18 cp AND 0x07) OR 0xF0), ucast ((drop_bit 12 cp AND 0x3F) OR 0x80),
                 ucast ((drop_bit 6 cp AND 0x3F) OR 0x80), ucast ((cp AND 0x3F) OR 0x80)]
      else None)"

definition put_bytes :: "byte list \<Rightarrow> nat \<Rightarrow> byte list \<Rightarrow> byte list option" where
  "put_bytes bs i src =
     (if i + length bs \<le> length src then Some (take i src @ bs @ drop (i + length bs) src) else None)"

definition outputUtf8 :: "u32 \<Rightarrow> nat \<Rightarrow> scanner \<Rightarrow> (bool \<times> nat \<times> scanner) option" where
  "outputUtf8 codepoint output sc = (case utf8_bytes codepoint of
       None \<Rightarrow> Some (False, output, sc)
     | Some bs \<Rightarrow> do { src \<leftarrow> put_bytes bs output (sc_src sc);
                       Some (True, output + length bs, sc\<lparr>sc_src := src\<rparr>) })"

definition output_byte :: "byte \<Rightarrow> nat \<Rightarrow> scanner \<Rightarrow> (nat \<times> scanner) option" where
  "output_byte b output sc =
     do { src \<leftarrow> put_bytes [b] output (sc_src sc); Some (output + 1, sc\<lparr>sc_src := src\<rparr>) }"

text \<open>The innermost open interpolated string.\<close>

definition crt_fstring :: "scanner \<Rightarrow> fstring option" where
  "crt_fstring sc = (if 0 < sc_openFStrings sc \<and> sc_openFStrings sc \<le> length (sc_fStrings sc)
     then Some (sc_fStrings sc ! (sc_openFStrings sc - 1)) else None)"

definition set_fstring :: "fstring \<Rightarrow> scanner \<Rightarrow> scanner" where
  "set_fstring f sc = sc\<lparr>sc_fStrings := (sc_fStrings sc)[sc_openFStrings sc - 1 := f]\<rparr>"

datatype ss_mode = SS_SCAN | SS_ESCAPE | SS_UNICODE nat u32

text \<open>
  What one code point does: the literal is complete (and whether by its delimiter), an error, or
  scanning goes on.
\<close>

datatype ss_step = SS_Complete bool | SS_Error string | SS_More ss_mode

definition ss_scan :: "byte \<Rightarrow> bool \<Rightarrow> u32 \<Rightarrow> nat \<Rightarrow> scanner \<Rightarrow> (ss_step \<times> nat \<times> scanner) option" where
  "ss_scan delim fString cp output sc =
     (if cp = ucast delim
      then do { (_, output', sc') \<leftarrow> outputUtf8 cp output sc; Some (SS_Complete True, output', sc') }
      else if cp = 92 then Some (SS_More SS_ESCAPE, output, sc)
      else if cp = 0 then Some (SS_Error ''Unterminated string'', output, sc)
      else if cp = INVALID_UTF8 then Some (SS_Error ''Invalid UTF-8 character'', output, sc)
      else if fString \<and> cp = 123
      then do { (_, output', sc') \<leftarrow> outputUtf8 cp output sc;
                f \<leftarrow> crt_fstring sc';
                Some (SS_Complete False, output',
                  set_fstring (f\<lparr>fs_openBraces := fs_openBraces f + 1, fs_hasExpr := True\<rparr>) sc') }
      else do { (_, output', sc') \<leftarrow> outputUtf8 cp output sc; Some (SS_More SS_SCAN, output', sc') })"

definition ss_escape :: "u32 \<Rightarrow> nat \<Rightarrow> scanner \<Rightarrow> (ss_step \<times> nat \<times> scanner) option" where
  "ss_escape cp output sc =
     (if cp = 39 \<or> cp = 92 \<or> cp = 34
      then do { (_, output', sc') \<leftarrow> outputUtf8 cp output sc; Some (SS_More SS_SCAN, output', sc') }
      else if cp = 110 then do { (o', sc') \<leftarrow> output_byte 10 output sc; Some (SS_More SS_SCAN, o', sc') }
      else if cp = 114 then do { (o', sc') \<leftarrow> output_byte 13 output sc; Some (SS_More SS_SCAN, o', sc') }
      else if cp = 116 then do { (o', sc') \<leftarrow> output_byte 9 output sc; Some (SS_More SS_SCAN, o', sc') }
      else if cp = 117 then Some (SS_More (SS_UNICODE 0 0), output, sc)
      else if cp = 0 then Some (SS_Error ''Unterminated string'', output, sc)
      else if cp = INVALID_UTF8 then Some (SS_Error ''Invalid UTF-8 character'', output, sc)
      else Some (SS_Error ''Invalid escape sequence'', output, sc))"

definition ss_unicode :: "nat \<Rightarrow> u32 \<Rightarrow> u32 \<Rightarrow> nat \<Rightarrow> scanner \<Rightarrow> (ss_step \<times> nat \<times> scanner) option" where
  "ss_unicode numUChars codepoint cp output sc =
     (if \<not> (48 \<le> cp \<and> cp \<le> 57 \<or> 97 \<le> cp \<and> cp \<le> 102 \<or> 65 \<le> cp \<and> cp \<le> 70)
      then Some (SS_Error ''Invalid character in Unicode escape'', output, sc)
      else let digit = (if 48 \<le> cp \<and> cp \<le> 57 then cp - 48
                        else if 97 \<le> cp \<and> cp \<le> 102 then cp - 97 + 10 else cp - 65 + 10);
               codepoint' = push_bit 4 codepoint OR digit;
               num = numUChars + 1
           in if num = 4
              then do { (ok, output', sc') \<leftarrow> outputUtf8 codepoint' output sc;
                        Some (if ok then SS_More SS_SCAN else SS_Error ''Invalid UTF-8 unicode escape'', output', sc') }
              else Some (SS_More (SS_UNICODE num codepoint'), output, sc))"

definition ss_step_mode ::
  "byte \<Rightarrow> bool \<Rightarrow> ss_mode \<Rightarrow> u32 \<Rightarrow> nat \<Rightarrow> scanner \<Rightarrow> (ss_step \<times> nat \<times> scanner) option" where
  "ss_step_mode delim fString mode cp output sc = (case mode of
       SS_SCAN \<Rightarrow> ss_scan delim fString cp output sc
     | SS_ESCAPE \<Rightarrow> ss_escape cp output sc
     | SS_UNICODE n c \<Rightarrow> ss_unicode n c cp output sc)"

text \<open>
  The loop, with a bound on the number of code points: each takes at least a byte of the source.
  \<open>Inl\<close>: an error message, \<open>Inr\<close>: closed by the delimiter or by a brace.
\<close>

fun string_loop ::
  "nat \<Rightarrow> byte \<Rightarrow> bool \<Rightarrow> ss_mode \<Rightarrow> nat \<Rightarrow> scanner \<Rightarrow> ((string + bool) \<times> nat \<times> scanner) option" where
  "string_loop 0 delim fString mode output sc = None"
| "string_loop (Suc n) delim fString mode output sc =
     do { e \<leftarrow> isAtEnd sc;
          if e then Some (Inl ''Unterminated string'', output, sc)
          else do { (cp, sc1) \<leftarrow> utf8_advance sc;
                    (r, output', sc2) \<leftarrow> ss_step_mode delim fString mode cp output sc1;
                    case r of
                      SS_Complete byDelim \<Rightarrow> Some (Inr byDelim, output', sc2)
                    | SS_Error m \<Rightarrow> Some (Inl m, output', sc2)
                    | SS_More mode' \<Rightarrow> string_loop n delim fString mode' output' sc2 } }"

definition sc_string :: "byte \<Rightarrow> bool \<Rightarrow> bool \<Rightarrow> scanner \<Rightarrow> (token \<times> scanner) option" where
  "sc_string delim fString fStringStart sc =
     do { (r, output, sc1) \<leftarrow> string_loop (length (sc_src sc) + 1) delim fString SS_SCAN (sc_current sc) sc;
          case r of
            Inl message \<Rightarrow> Some (errorToken sc1 message, sc1)
          | Inr endFString \<Rightarrow>
              let len = output - sc_current sc
              in if fString
                 then if endFString
                      then do { f \<leftarrow> crt_fstring sc1;
                                let sc2 = sc1\<lparr>sc_openFStrings := sc_openFStrings sc1 - 1\<rparr>
                                in Some (makeTrimmedToken sc2 (if fs_hasExpr f then TOKEN_FSTRING_END else TOKEN_STRING)
                                           (len + 1), sc2) }
                      else Some (makeTrimmedToken sc1 (if fStringStart then TOKEN_FSTRING_START else TOKEN_FSTRING)
                                   (len + 1), sc1)
                 else Some (makeTrimmedToken sc1 TOKEN_STRING (len + 1), sc1) }"

fun raw_loop :: "byte \<Rightarrow> byte list \<Rightarrow> (bool \<times> byte list) option" where
  "raw_loop delim [] = None"
| "raw_loop delim (ch # rest) =
     (if ch = 0 then Some (False, ch # rest)
      else if ch = delim then Some (True, rest)
      else raw_loop delim rest)"

definition rawString :: "byte \<Rightarrow> scanner \<Rightarrow> (token \<times> scanner) option" where
  "rawString delim sc =
     do { (ok, rest) \<leftarrow> raw_loop delim (rest_of sc);
          let sc' = move_to rest sc
          in Some (if ok then makeToken sc' TOKEN_STRING else errorToken sc' ''Unterminated string'', sc') }"

definition fString :: "byte \<Rightarrow> scanner \<Rightarrow> (token \<times> scanner) option" where
  "fString delim sc =
     (if sc_openFStrings sc \<ge> MAX_INTERP_DEPTH
      then Some (errorToken sc ''Interpolation nesting limit exceeded'', sc)
      else sc_string delim True True
             (sc\<lparr>sc_fStrings := (sc_fStrings sc)[sc_openFStrings sc :=
                   \<lparr>fs_delim = delim, fs_hasExpr = False, fs_openBraces = 0\<rparr>],
                sc_openFStrings := sc_openFStrings sc + 1\<rparr>))"

section \<open>Tokens\<close>

definition token_if_match :: "byte \<Rightarrow> token_type \<Rightarrow> token_type \<Rightarrow> scanner \<Rightarrow> (token \<times> scanner) option" where
  "token_if_match expected yes no sc =
     do { (m, sc') \<leftarrow> advanceIfMatch expected sc; Some (makeToken sc' (if m then yes else no), sc') }"

text \<open>An \<open>r\<close> or \<open>f\<close> directly before a quote, discarded from the token.\<close>

definition prefixed_string ::
  "(byte \<Rightarrow> scanner \<Rightarrow> (token \<times> scanner) option) \<Rightarrow> scanner \<Rightarrow> (token \<times> scanner) option" where
  "prefixed_string scan sc =
     do { (dq, sc1) \<leftarrow> advanceIfMatch 34 sc;
          if dq then scan 34 (sc1\<lparr>sc_start := sc_start sc1 + 1\<rparr>)
          else do { (sq, sc2) \<leftarrow> advanceIfMatch 39 sc1;
                    if sq then scan 39 (sc2\<lparr>sc_start := sc_start sc2 + 1\<rparr>) else sc_identifier sc2 } }"

definition close_brace :: "scanner \<Rightarrow> (token \<times> scanner) option" where
  "close_brace sc =
     (if sc_openFStrings sc > 0
      then do { f \<leftarrow> crt_fstring sc;
                if fs_openBraces f = 1
                then sc_string (fs_delim f) True False (set_fstring (f\<lparr>fs_openBraces := 0\<rparr>) sc)
                else let sc1 = set_fstring (f\<lparr>fs_openBraces := fs_openBraces f - 1\<rparr>) sc
                     in Some (makeToken sc1 TOKEN_RIGHT_BRACE, sc1) }
      else Some (makeToken sc TOKEN_RIGHT_BRACE, sc))"

definition punctuation :: "byte \<Rightarrow> scanner \<Rightarrow> (token \<times> scanner) option" where
  "punctuation c sc =
     (if c = 40 then Some (makeToken sc TOKEN_LEFT_PAREN, sc)
      else if c = 41 then Some (makeToken sc TOKEN_RIGHT_PAREN, sc)
      else if c = 123 then Some (makeToken sc TOKEN_LEFT_BRACE, sc)
      else if c = 125 then close_brace sc
      else if c = 91 then Some (makeToken sc TOKEN_LEFT_BRACKET, sc)
      else if c = 93 then Some (makeToken sc TOKEN_RIGHT_BRACKET, sc)
      else if c = 58
      then do { (dc, sc1) \<leftarrow> advanceIfMatch 58 sc;
                if dc then Some (makeToken sc1 TOKEN_DOUBLE_COLON, sc1)
                else token_if_match 61 TOKEN_COLON_EQUAL TOKEN_COLON sc1 }
      else if c = 59 then Some (makeToken sc TOKEN_SEMICOLON, sc)
      else if c = 44 then Some (makeToken sc TOKEN_COMMA, sc)
      else if c = 46
      then do { (el, sc1) \<leftarrow> advanceIfMatch2 46 46 sc;
                if el then Some (makeToken sc1 TOKEN_ELLIPSIS, sc1)
                else token_if_match 46 TOKEN_DOT_DOT TOKEN_DOT sc1 }
      else if c = 45 then token_if_match 61 TOKEN_MINUS_EQUAL TOKEN_MINUS sc
      else if c = 43 then token_if_match 61 TOKEN_PLUS_EQUAL TOKEN_PLUS sc
      else if c = 47 then token_if_match 61 TOKEN_SLASH_EQUAL TOKEN_SLASH sc
      else if c = 37 then token_if_match 61 TOKEN_PERCENT_EQUAL TOKEN_PERCENT sc
      else if c = 42 then token_if_match 61 TOKEN_STAR_EQUAL TOKEN_STAR sc
      else if c = 33 then token_if_match 61 TOKEN_BANG_EQUAL TOKEN_BANG sc
      else if c = 61 then token_if_match 61 TOKEN_EQUAL_EQUAL TOKEN_EQUAL sc
      else if c = 60 then token_if_match 61 TOKEN_LESS_EQUAL TOKEN_LESS sc
      else if c = 62 then token_if_match 61 TOKEN_GREATER_EQUAL TOKEN_GREATER sc
      else if c = 34 then sc_string 34 False False sc
      else if c = 39 then sc_string 39 False False sc
      else Some (errorToken sc ''Unexpected character.'', sc))"

definition scanToken :: "scanner \<Rightarrow> (token \<times> scanner) option" where
  "scanToken sc0 =
     do { (closed, sc1) \<leftarrow> skipWhitespace sc0;
          if \<not> closed then Some (errorToken sc1 ''Unterminated comment'', sc1)
          else let sc2 = sc1\<lparr>sc_start := sc_current sc1\<rparr>
               in do { e \<leftarrow> isAtEnd sc2;
                       if e then Some (makeToken sc2 TOKEN_EOF, sc2)
                       else do { (c, sc3) \<leftarrow> sc_advance sc2;
                                 if isAlpha c
                                 then if c = 114 then prefixed_string rawString sc3
                                      else if c = 102 then prefixed_string fString sc3
                                      else sc_identifier sc3
                                 else if isDigit c then sc_number sc3
                                 else punctuation c sc3 } } }"

section \<open>Keyword recognition\<close>

text \<open>The language's keyword_table, as a table.\<close>

definition keyword_table :: "(byte list \<times> token_type) list" where
  "keyword_table = map (\<lambda>(s, t). (bytes s, t))
     [(''abstract'', TOKEN_ABSTRACT), (''and'', TOKEN_AND), (''break'', TOKEN_BREAK), (''catch'', TOKEN_CATCH),
      (''class'', TOKEN_CLASS), (''continue'', TOKEN_CONTINUE), (''else'', TOKEN_ELSE),
      (''extends'', TOKEN_EXTENDS), (''false'', TOKEN_FALSE), (''finally'', TOKEN_FINALLY), (''for'', TOKEN_FOR),
      (''foreach'', TOKEN_FOREACH), (''from'', TOKEN_FROM), (''function'', TOKEN_FUNCTION),
      (''global'', TOKEN_GLOBAL), (''if'', TOKEN_IF), (''import'', TOKEN_IMPORT),
      (''implements'', TOKEN_IMPLEMENTS), (''in'', TOKEN_IN), (''instanceof'', TOKEN_INSTANCEOF),
      (''interface'', TOKEN_INTERFACE), (''local'', TOKEN_LOCAL), (''nil'', TOKEN_NIL), (''or'', TOKEN_OR),
      (''return'', TOKEN_RETURN), (''super'', TOKEN_SUPER), (''this'', TOKEN_THIS), (''throw'', TOKEN_THROW),
      (''true'', TOKEN_TRUE), (''try'', TOKEN_TRY), (''while'', TOKEN_WHILE)]"

lemma keyword_table_recognised: "list_all (\<lambda>(k, t). identifierType k = t \<and> t \<noteq> TOKEN_IDENTIFIER) keyword_table"
  by code_simp

definition prefix_of :: "nat \<Rightarrow> byte list \<Rightarrow> byte list" where
  "prefix_of n xs = take n xs"

lemma checkKeyword_hit:
  assumes "checkKeyword text start len rest type \<noteq> TOKEN_IDENTIFIER"
  shows "text = prefix_of start text @ take len (bytes rest) \<and> length text = start + len"
proof -
  have l: "length text = start + len" and t: "take len (drop start text) = take len (bytes rest)"
    using assms by (auto simp: checkKeyword_def split: if_splits)
  have "drop start text = take len (bytes rest)" using l t by simp
  then show ?thesis using l append_take_drop_id [of start "text"] by (simp only: prefix_of_def)
qed

lemma prefix_1: "text \<noteq> [] \<Longrightarrow> prefix_of (Suc 0) text = [hd text]"
  by (cases "text") (auto simp: prefix_of_def)

lemma prefix_2: "Suc 0 < length text \<Longrightarrow> prefix_of 2 text = [hd text, text ! Suc 0]"
  by (cases "text", simp, cases "tl text") (auto simp: prefix_of_def numeral_2_eq_2)

lemma prefix_3: "2 < length text \<Longrightarrow> prefix_of 3 text = [hd text, text ! Suc 0, text ! 2]"
  by (cases "text", simp, cases "tl text", simp, cases "tl (tl text)")
    (auto simp: prefix_of_def numeral_3_eq_3 numeral_2_eq_2)

text \<open>What the decision tree accepts, branch by branch.\<close>

abbreviation is_keyword :: "byte list \<Rightarrow> bool" where
  "is_keyword text \<equiv> text \<in> fst ` set keyword_table"

lemmas keyword_eval = keyword_table_def bytes_def chr_def

lemma kw_tree_hits:
  assumes "text \<noteq> []"
  shows "hd text = chr (CHR ''a'') \<Longrightarrow> kw_a text \<noteq> TOKEN_IDENTIFIER \<Longrightarrow> is_keyword text"
    and "hd text = chr (CHR ''c'') \<Longrightarrow> kw_c text \<noteq> TOKEN_IDENTIFIER \<Longrightarrow> is_keyword text"
    and "hd text = chr (CHR ''e'') \<Longrightarrow> kw_e text \<noteq> TOKEN_IDENTIFIER \<Longrightarrow> is_keyword text"
    and "hd text = chr (CHR ''f'') \<Longrightarrow> kw_f text \<noteq> TOKEN_IDENTIFIER \<Longrightarrow> is_keyword text"
    and "hd text = chr (CHR ''i'') \<Longrightarrow> kw_i text \<noteq> TOKEN_IDENTIFIER \<Longrightarrow> is_keyword text"
    and "hd text = chr (CHR ''t'') \<Longrightarrow> kw_t text \<noteq> TOKEN_IDENTIFIER \<Longrightarrow> is_keyword text"
  using assms
  by (auto simp: kw_a_def kw_c_def kw_e_def kw_f_def kw_i_def kw_t_def prefix_1 prefix_2 prefix_3 keyword_eval
      dest!: checkKeyword_hit split: if_splits)

lemma one_letter_hits:
  assumes "text \<noteq> []"
  shows "hd text = chr (CHR ''b'') \<Longrightarrow> checkKeyword text 1 4 ''reak'' TOKEN_BREAK \<noteq> TOKEN_IDENTIFIER \<Longrightarrow> is_keyword text"
    and "hd text = chr (CHR ''g'') \<Longrightarrow> checkKeyword text 1 5 ''lobal'' TOKEN_GLOBAL \<noteq> TOKEN_IDENTIFIER \<Longrightarrow> is_keyword text"
    and "hd text = chr (CHR ''l'') \<Longrightarrow> checkKeyword text 1 4 ''ocal'' TOKEN_LOCAL \<noteq> TOKEN_IDENTIFIER \<Longrightarrow> is_keyword text"
    and "hd text = chr (CHR ''n'') \<Longrightarrow> checkKeyword text 1 2 ''il'' TOKEN_NIL \<noteq> TOKEN_IDENTIFIER \<Longrightarrow> is_keyword text"
    and "hd text = chr (CHR ''o'') \<Longrightarrow> checkKeyword text 1 1 ''r'' TOKEN_OR \<noteq> TOKEN_IDENTIFIER \<Longrightarrow> is_keyword text"
    and "hd text = chr (CHR ''r'') \<Longrightarrow> checkKeyword text 1 5 ''eturn'' TOKEN_RETURN \<noteq> TOKEN_IDENTIFIER \<Longrightarrow> is_keyword text"
    and "hd text = chr (CHR ''s'') \<Longrightarrow> checkKeyword text 1 4 ''uper'' TOKEN_SUPER \<noteq> TOKEN_IDENTIFIER \<Longrightarrow> is_keyword text"
    and "hd text = chr (CHR ''w'') \<Longrightarrow> checkKeyword text 1 4 ''hile'' TOKEN_WHILE \<noteq> TOKEN_IDENTIFIER \<Longrightarrow> is_keyword text"
  using assms by (auto simp: prefix_1 keyword_eval dest!: checkKeyword_hit)

lemma identifierType_hits:
  assumes "text \<noteq> []" and "identifierType text \<noteq> TOKEN_IDENTIFIER"
  shows "is_keyword text"
  using assms(2) kw_tree_hits [OF assms(1)] one_letter_hits [OF assms(1)]
  unfolding identifierType_def Let_def by presburger

text \<open>
  C30: The hand-written decision tree of the scanner agrees with a lookup in the table of keywords:
  exactly the keywords of the language are recognised, each as its own token, and every other word
  is an identifier.
\<close>

theorem identifierType_correct:
  assumes "text \<noteq> []"
  shows "identifierType text = (case map_of keyword_table text of Some t \<Rightarrow> t | None \<Rightarrow> TOKEN_IDENTIFIER)"
proof (cases "map_of keyword_table text")
  case (Some t)
  then have "(text, t) \<in> set keyword_table" by (rule map_of_SomeD)
  then show ?thesis using Some keyword_table_recognised by (auto simp: list_all_iff)
next
  case None
  then have "\<not> is_keyword text" by (simp add: map_of_eq_None_iff)
  then have "identifierType text = TOKEN_IDENTIFIER" using identifierType_hits [OF assms] by blast
  with None show ?thesis by simp
qed

lemma identifierType_correct_witness:
  "identifierType (bytes ''foreach'') = TOKEN_FOREACH \<and> identifierType (bytes ''fore'') = TOKEN_IDENTIFIER"
proof -
  have "map_of keyword_table (bytes ''foreach'') = Some TOKEN_FOREACH" "map_of keyword_table (bytes ''fore'') = None"
    by code_simp+
  then show ?thesis
    using identifierType_correct [of "bytes ''foreach''"] identifierType_correct [of "bytes ''fore''"]
    by (simp add: bytes_def)
qed

section \<open>Literals of ASCII text\<close>

lemma ascii_class: "i < 128 \<Longrightarrow> elox_utf8d ! i = 0"
proof -
  have "list_all (\<lambda>i. elox_utf8d ! i = 0) [0..<128]" by code_simp
  then show "i < 128 \<Longrightarrow> elox_utf8d ! i = 0" by (simp add: list_all_iff)
qed

lemma utf8_ascii:
  assumes "b < 128"
  shows "utf8_loop 0 0 (b # rest) = Some (ucast b, rest)"
proof -
  have "unat b < 128" using assms by (simp add: word_less_nat_alt)
  then have "elox_utf8d ! unat b = 0" by (rule ascii_class)
  moreover have "elox_utf8d ! 256 = 0" by (simp add: elox_utf8d_def)
  moreover have "(0xff :: u32) AND ucast b = ucast b"
  proof (rule bit_word_eqI)
    fix n assume "n < LENGTH(32)"
    have m: "(0xff :: u32) = mask 8" by (simp add: mask_eq_exp_minus_1)
    show "bit ((0xff :: u32) AND ucast b) n = bit (ucast b :: u32) n"
      unfolding m by (auto simp: bit_simps dest: bit_imp_le_length)
  qed
  ultimately show ?thesis by (simp add: elox_utf8_decode_def Let_def)
qed

lemma utf8_advance_ascii:
  assumes "rest_of sc = b # rest" and "b < 128"
  shows "utf8_advance sc = Some (ucast b, sc\<lparr>sc_current := sc_current sc + 1\<rparr>)"
proof -
  have "length (sc_src sc) - sc_current sc = Suc (length rest)"
    using arg_cong [OF assms(1), of length] by (simp add: rest_of_def)
  then have "length (sc_src sc) - length rest = sc_current sc + 1" by linarith
  then show ?thesis using utf8_ascii [OF assms(2)] by (simp add: utf8_advance_def assms(1) move_to_def)
qed

text \<open>How a program writes a text between double quotes.\<close>

fun escape_byte :: "byte \<Rightarrow> byte list" where
  "escape_byte b = (if b = 34 \<or> b = 92 then [92, b] else if b = 10 then [92, 110]
     else if b = 13 then [92, 114] else if b = 9 then [92, 116] else [b])"

definition escape_text :: "byte list \<Rightarrow> byte list" where
  "escape_text s = concat (map escape_byte s)"

text \<open>Writing one byte behind the reading position.\<close>

definition emit :: "byte \<Rightarrow> nat \<Rightarrow> nat \<Rightarrow> scanner \<Rightarrow> scanner" where
  "emit b k output sc = sc\<lparr>sc_src := take output (sc_src sc) @ [b] @ drop (output + 1) (sc_src sc),
     sc_current := sc_current sc + k\<rparr>"

lemma emit_props:
  assumes "output < sc_current sc + k" "output < length (sc_src sc)"
  shows "rest_of (emit b k output sc) = drop k (rest_of sc)"
    and "length (sc_src (emit b k output sc)) = length (sc_src sc)"
    and "take (Suc output) (sc_src (emit b k output sc)) = take output (sc_src sc) @ [b]"
proof -
  have "drop (sc_current sc + k) (take output (sc_src sc) @ [b] @ drop (output + 1) (sc_src sc))
      = drop (sc_current sc + k) (sc_src sc)"
    using assms by (cases "sc_current sc + k") (auto simp: drop_Cons' min_def)
  then show "rest_of (emit b k output sc) = drop k (rest_of sc)"
    by (simp add: emit_def rest_of_def add.commute)
qed (use assms in \<open>simp_all add: emit_def min_def\<close>)

lemma rest_of_Cons:
  assumes "rest_of sc = b # rest"
  shows "scanPeek sc = Some b" "sc_current sc < length (sc_src sc)"
    "rest_of (sc\<lparr>sc_current := Suc (sc_current sc)\<rparr>) = rest"
proof -
  show l: "sc_current sc < length (sc_src sc)"
    using assms by (metis drop_eq_Nil2 leI list.distinct(1) rest_of_def)
  show "scanPeek sc = Some b"
    using assms l by (simp add: scanPeek_def byte_at_def rest_of_def) (metis Cons_nth_drop_Suc list.inject)
  show "rest_of (sc\<lparr>sc_current := Suc (sc_current sc)\<rparr>) = rest"
    using assms l by (simp add: rest_of_def) (metis Cons_nth_drop_Suc list.inject)
qed

lemma unat_byte: "unat (b :: byte) < 256"
  using unsigned_less [of b, where ?'a = nat] by simp

lemma unat_u32_of_byte: "unat (ucast (b :: byte) :: u32) = unat b"
proof -
  have "unat b < 2 ^ 32" using unat_byte [of b] by simp
  then show ?thesis by (simp add: unsigned_ucast_eq take_bit_nat_eq_self)
qed

lemma byte_of_u32_of_byte: "ucast (ucast (b :: byte) :: u32) = b"
proof -
  have "unat (ucast w :: byte) = take_bit LENGTH(8) (unat w)" for w :: u32 by (rule unsigned_ucast_eq)
  then have "unat (ucast (ucast b :: u32) :: byte) = take_bit LENGTH(8) (unat (ucast b :: u32))" .
  also have "\<dots> = unat b" using unat_byte [of b] by (simp only: unat_u32_of_byte) (simp add: take_bit_nat_eq_self)
  finally show ?thesis by (simp only: word_unat_eq_iff)
qed

lemma u32_of_byte_eq: "(ucast (b :: byte) :: u32) = ucast (c :: byte) \<longleftrightarrow> b = c"
  by (simp add: word_unat_eq_iff unat_u32_of_byte)

lemma u32_of_byte_consts:
  "(ucast (b :: byte) :: u32) = 92 \<longleftrightarrow> b = 92" "(ucast b :: u32) = 0 \<longleftrightarrow> b = 0"
  "(ucast b :: u32) \<noteq> INVALID_UTF8" "(ucast b :: u32) = 34 \<longleftrightarrow> b = 34"
  using u32_of_byte_eq [of b 92] u32_of_byte_eq [of b 0] u32_of_byte_eq [of b 34] unat_byte [of b]
  by (auto simp: word_unat_eq_iff unat_u32_of_byte INVALID_UTF8_def)

lemma output_ascii:
  assumes "b < 128" "output < length (sc_src sc)"
  shows "outputUtf8 (ucast b) output sc = Some (True, output + 1, emit b 0 output sc)"
    and "output_byte b output sc = Some (output + 1, emit b 0 output sc)"
proof -
  have "unat b \<le> 127" using assms(1) by (simp add: word_less_nat_alt)
  then have "(ucast b :: u32) \<le> 0x7F" by (simp add: word_le_nat_alt unat_u32_of_byte)
  then have "utf8_bytes (ucast b) = Some [b]" by (simp add: utf8_bytes_def byte_of_u32_of_byte)
  then show "outputUtf8 (ucast b) output sc = Some (True, output + 1, emit b 0 output sc)"
    and "output_byte b output sc = Some (output + 1, emit b 0 output sc)"
    using assms(2) by (simp_all add: outputUtf8_def output_byte_def put_bytes_def emit_def)
qed

lemma emit_moved: "emit b 0 output (sc\<lparr>sc_current := sc_current sc + k\<rparr>) = emit b k output sc"
  by (simp add: emit_def)

text \<open>One plain character, and one escaped character, of a literal between double quotes.\<close>

lemma loop_plain:
  assumes "rest_of sc = b # rest" "b < 128" "b \<noteq> 0" "b \<noteq> 34" "b \<noteq> 92" "output \<le> sc_current sc"
  shows "string_loop (Suc n) 34 False SS_SCAN output sc = string_loop n 34 False SS_SCAN (Suc output) (emit b 1 output sc)"
proof -
  have o: "output < length (sc_src sc)" using rest_of_Cons(2) [OF assms(1)] assms(6) by linarith
  have out: "outputUtf8 (ucast b) output (sc\<lparr>sc_current := sc_current sc + 1\<rparr>)
      = Some (True, output + 1, emit b 0 output (sc\<lparr>sc_current := sc_current sc + 1\<rparr>))"
    by (rule output_ascii(1)) (use assms(2) o in simp_all)
  show ?thesis
    using assms(3-5) rest_of_Cons(1) [OF assms(1)] utf8_advance_ascii [OF assms(1,2)] out
    by (simp add: isAtEnd_def ss_step_mode_def ss_scan_def u32_of_byte_consts emit_moved [of _ _ _ 1, simplified])
qed

lemma loop_escape:
  assumes r: "rest_of sc = 92 # e # rest" and e: "(e, b) \<in> {(34, 34), (92, 92), (110, 10), (114, 13), (116, 9)}"
    and "output \<le> sc_current sc"
  shows "string_loop (Suc (Suc n)) 34 False SS_SCAN output sc
    = string_loop n 34 False SS_SCAN (Suc output) (emit b 2 output sc)"
proof -
  let ?sc = "sc\<lparr>sc_current := Suc (sc_current sc)\<rparr>"
  have o: "output < length (sc_src sc)" using rest_of_Cons(2) [OF r] assms(3) by linarith
  have e128: "e < 128" "e \<noteq> 0" "b < 128" using e by auto
  have r2: "rest_of ?sc = e # rest" by (rule rest_of_Cons(3) [OF r])
  have one: "string_loop (Suc (Suc n)) 34 False SS_SCAN output sc = string_loop (Suc n) 34 False SS_ESCAPE output ?sc"
    using rest_of_Cons(1) [OF r] utf8_advance_ascii [OF r]
    by (simp add: isAtEnd_def ss_step_mode_def ss_scan_def)
  have out: "outputUtf8 (ucast b) output (?sc\<lparr>sc_current := Suc (Suc (sc_current sc))\<rparr>)
      = Some (True, output + 1, emit b 2 output sc)"
    "output_byte b output (?sc\<lparr>sc_current := Suc (Suc (sc_current sc))\<rparr>) = Some (output + 1, emit b 2 output sc)"
    using output_ascii [of b "output" "?sc\<lparr>sc_current := Suc (Suc (sc_current sc))\<rparr>"] e128 o
      emit_moved [of b "output" sc 2] by (simp_all add: emit_def)
  have "string_loop (Suc n) 34 False SS_ESCAPE output ?sc = string_loop n 34 False SS_SCAN (Suc output) (emit b 2 output sc)"
    using e e128 rest_of_Cons(1) [OF r2] utf8_advance_ascii [OF r2] out
    by (auto simp: isAtEnd_def ss_step_mode_def ss_escape_def INVALID_UTF8_def)
  with one show ?thesis by simp
qed

lemma loop_close:
  assumes "rest_of sc = 34 # rest" "output \<le> sc_current sc"
  shows "string_loop (Suc n) 34 False SS_SCAN output sc = Some (Inr True, Suc output, emit 34 1 output sc)"
proof -
  have o: "output < length (sc_src sc)" using rest_of_Cons(2) [OF assms(1)] assms(2) by linarith
  have "outputUtf8 (ucast (34 :: byte)) output (sc\<lparr>sc_current := sc_current sc + 1\<rparr>)
      = Some (True, output + 1, emit 34 0 output (sc\<lparr>sc_current := sc_current sc + 1\<rparr>))"
    by (rule output_ascii(1)) (use o in simp_all)
  then show ?thesis
    using rest_of_Cons(1) [OF assms(1)] utf8_advance_ascii [OF assms(1)]
    by (simp add: isAtEnd_def ss_step_mode_def ss_scan_def emit_moved [of _ _ _ 1, simplified])
qed

lemma loop_text:
  assumes "rest_of sc = escape_text s @ 34 # post" and "\<forall>b\<in>set s. b \<noteq> 0 \<and> b < 128"
    and "output \<le> sc_current sc" and "length (escape_text s) < n"
  shows "\<exists>sc'. string_loop n 34 False SS_SCAN output sc = Some (Inr True, output + length s + 1, sc') \<and>
    take (output + length s + 1) (sc_src sc') = take output (sc_src sc) @ s @ [34] \<and>
    rest_of sc' = post \<and> sc_start sc' = sc_start sc \<and> sc_line sc' = sc_line sc \<and>
    sc_openFStrings sc' = sc_openFStrings sc \<and> sc_fStrings sc' = sc_fStrings sc \<and>
    length (sc_src sc') = length (sc_src sc)"
  using assms
proof (induction s arbitrary: sc "output" n)
  case Nil
  then obtain m where m: "n = Suc m" by (cases n) auto
  have r: "rest_of sc = 34 # post" using Nil.prems(1) by (simp add: escape_text_def)
  have o: "output < sc_current sc + 1" "output < length (sc_src sc)"
    using rest_of_Cons(2) [OF r] Nil.prems(3) by linarith+
  show ?case
    using loop_close [OF r Nil.prems(3), of m] emit_props [OF o, of 34] r
    by (simp add: m) (simp add: emit_def)
next
  case (Cons b s)
  have len: "length (escape_text (b # s)) = length (escape_byte b) + length (escape_text s)"
    by (simp add: escape_text_def)
  have step: "\<exists>k e. rest_of sc = e @ escape_text s @ 34 # post \<and> length e = k \<and> 0 < k \<and> k = length (escape_byte b) \<and>
      (\<forall>m. string_loop (k + m) 34 False SS_SCAN output sc = string_loop m 34 False SS_SCAN (Suc output) (emit b k output sc))"
  proof (cases "escape_byte b = [b]")
    case True
    then have "b \<noteq> 34" "b \<noteq> 92" by auto
    moreover have r: "rest_of sc = b # escape_text s @ 34 # post"
      using Cons.prems(1) True by (simp add: escape_text_def del: escape_byte.simps)
    ultimately show ?thesis
      using loop_plain [OF r, of "output"] Cons.prems(2,3) True by (intro exI [of _ 1] exI [of _ "[b]"]) simp
  next
    case False
    then obtain e where e: "(e, b) \<in> {(34, 34), (92, 92), (110, 10), (114, 13), (116, 9)}" "escape_byte b = [92, e]"
      by (auto split: if_splits)
    have r: "rest_of sc = 92 # e # escape_text s @ 34 # post"
      using Cons.prems(1) e(2) by (simp add: escape_text_def del: escape_byte.simps)
    show ?thesis
      using loop_escape [OF r e(1) Cons.prems(3)] e(2) r
      by (intro exI [of _ 2] exI [of _ "[92, e]"]) (simp del: escape_byte.simps)
  qed
  then obtain k e where k: "rest_of sc = e @ escape_text s @ 34 # post" "length e = k" "0 < k" "k = length (escape_byte b)"
    "\<And>m. string_loop (k + m) 34 False SS_SCAN output sc = string_loop m 34 False SS_SCAN (Suc output) (emit b k output sc)"
    by blast
  have "output < length (sc_src sc)"
    using k(1,2,3) Cons.prems(3) by (cases e) (use rest_of_Cons(2) [of sc] in fastforce)+
  then have o: "output < sc_current sc + k" "output < length (sc_src sc)" using Cons.prems(3) k(3) by auto
  note em = emit_props [OF o, of b]
  have r': "rest_of (emit b k output sc) = escape_text s @ 34 # post" using em(1) k(1,2) by simp
  have n: "n = k + (n - k)" "length (escape_text s) < n - k" using Cons.prems(4) len k(4) by linarith+
  have c: "Suc output \<le> sc_current (emit b k output sc)" using Cons.prems(3) k(3) by (simp add: emit_def)
  have ih: "\<exists>sc'. string_loop (n - k) 34 False SS_SCAN (Suc output) (emit b k output sc)
      = Some (Inr True, Suc output + length s + 1, sc') \<and>
    take (Suc output + length s + 1) (sc_src sc') = take (Suc output) (sc_src (emit b k output sc)) @ s @ [34] \<and>
    rest_of sc' = post \<and> sc_start sc' = sc_start (emit b k output sc) \<and> sc_line sc' = sc_line (emit b k output sc) \<and>
    sc_openFStrings sc' = sc_openFStrings (emit b k output sc) \<and> sc_fStrings sc' = sc_fStrings (emit b k output sc) \<and>
    length (sc_src sc') = length (sc_src (emit b k output sc))"
    by (rule Cons.IH [OF r' _ c n(2)]) (use Cons.prems(2) in simp)
  have "string_loop n 34 False SS_SCAN output sc = string_loop (n - k) 34 False SS_SCAN (Suc output) (emit b k output sc)"
    using k(5) [of "n - k"] n(1) by simp
  with ih em(2,3) show ?case by (auto simp: emit_def)
qed

text \<open>
  C17: A text of ASCII characters written between double quotes, with quotes, backslashes and line
  ends escaped, is scanned into one string token that carries exactly this text between its quotes,
  and scanning continues right behind the closing quote.
\<close>

theorem string_literal_roundtrip:
  assumes "sc_src sc = pre @ 34 # escape_text s @ 34 # post" and "sc_start sc = length pre"
    and "sc_current sc = Suc (length pre)" and "\<forall>b\<in>set s. b \<noteq> 0 \<and> b < 128"
  shows "\<exists>sc'. sc_string 34 False False sc =
      Some (\<lparr>tk_type = TOKEN_STRING, tk_chars = 34 # s @ [34], tk_line = sc_line sc\<rparr>, sc') \<and> rest_of sc' = post"
proof -
  have r: "rest_of sc = escape_text s @ 34 # post" using assms(1,3) by (simp add: rest_of_def)
  have n: "length (escape_text s) < length (sc_src sc) + 1" using assms(1) by simp
  from loop_text [OF r assms(4) order_refl n] obtain sc' where sc':
    "string_loop (length (sc_src sc) + 1) 34 False SS_SCAN (sc_current sc) sc
      = Some (Inr True, sc_current sc + length s + 1, sc')"
    "take (sc_current sc + length s + 1) (sc_src sc') = take (sc_current sc) (sc_src sc) @ s @ [34]"
    "rest_of sc' = post" "sc_start sc' = sc_start sc" "sc_line sc' = sc_line sc" by blast
  have split: "take (length s + 2) (drop (length pre) xs) = drop (length pre) (take (length pre + (length s + 2)) xs)"
    for xs :: "byte list" by (simp add: drop_take)
  have "take (length s + 2) (drop (sc_start sc') (sc_src sc')) = 34 # s @ [34]"
    unfolding sc'(4) assms(2) split using sc'(2) by (simp add: assms(1,3))
  then show ?thesis
    using sc'(1,3,5) by (simp add: sc_string_def makeTrimmedToken_def)
qed

lemma string_literal_roundtrip_witness:
  "\<exists>sc'. sc_string 34 False False
      \<lparr>sc_src = [34, 97, 92, 110, 92, 34, 34, 0], sc_start = 0, sc_current = 1, sc_line = 1, sc_openFStrings = 0,
       sc_fStrings = []\<rparr>
    = Some (\<lparr>tk_type = TOKEN_STRING, tk_chars = [34, 97, 10, 34, 34], tk_line = 1\<rparr>, sc') \<and> rest_of sc' = [0]"
  using string_literal_roundtrip [of "\<lparr>sc_src = [34, 97, 92, 110, 92, 34, 34, 0], sc_start = 0, sc_current = 1,
      sc_line = 1, sc_openFStrings = 0, sc_fStrings = []\<rparr>" "[]" "[97, 10, 34]" "[0]"]
  by (simp add: escape_text_def)

section \<open>Block comments\<close>

text \<open>
  A block comment closed by two stars and a hash is not recognised as closed: the second star
  resets the search for the end of the comment.
\<close>

theorem block_comment_double_star:
  "map_option fst (scanToken (initScanner (bytes ''#* c **# x'' @ [0])
     \<lparr>sc_src = [], sc_start = 0, sc_current = 0, sc_line = 0, sc_openFStrings = 0, sc_fStrings = []\<rparr>))
   = Some (errorToken \<lparr>sc_src = [], sc_start = 0, sc_current = 0, sc_line = 1, sc_openFStrings = 0,
       sc_fStrings = []\<rparr> ''Unterminated comment'')"
  by code_simp

text \<open>
  When the NUL at the end of the source cuts a UTF-8 sequence inside a string literal, the
  scanner steps over it: the literal is reported as invalid, and the next token is read from memory
  behind the source.
\<close>

theorem scanner_past_end:
  "(let sc = initScanner [34, 0xC3, 0]
      \<lparr>sc_src = [], sc_start = 0, sc_current = 0, sc_line = 0, sc_openFStrings = 0, sc_fStrings = []\<rparr>
    in case scanToken sc of Some (t, sc') \<Rightarrow> (tk_type t, sc_current sc', scanToken sc') | None \<Rightarrow> undefined)
   = (TOKEN_ERROR, 3, None)"
  by code_simp

end
