(* ===== verification/ScannerProgress.thy ===== *)
theory ScannerProgress
  imports Scanner
begin

text \<open>
  Progress of the scanner: on an ASCII source that ends with its NUL every call of \<open>scanToken\<close>
  returns and moves on, so that the tokens of the whole source are found.
\<close>

section \<open>Progress on ASCII sources\<close>

text \<open>What is left to scan: ASCII text up to the NUL, which is the last byte.\<close>

definition ascii_z :: "byte list \<Rightarrow> bool" where
  "ascii_z xs \<longleftrightarrow> (\<exists>ys. xs = ys @ [0] \<and> (\<forall>b\<in>set ys. b \<noteq> 0 \<and> b < 128))"

definition scan_ok :: "scanner \<Rightarrow> bool" where
  "scan_ok sc \<longleftrightarrow> ascii_z (rest_of sc) \<and> length (sc_fStrings sc) = MAX_INTERP_DEPTH \<and> sc_openFStrings sc \<le> MAX_INTERP_DEPTH"

text \<open>\<open>sc'\<close> is at least \<open>k\<close> bytes further on, not behind the NUL.\<close>

definition ahead :: "nat \<Rightarrow> scanner \<Rightarrow> scanner \<Rightarrow> bool" where
  "ahead k sc sc' \<longleftrightarrow> (\<exists>m. k \<le> m \<and> m < length (rest_of sc) \<and> rest_of sc' = drop m (rest_of sc)) \<and>
     length (sc_fStrings sc') = length (sc_fStrings sc) \<and>
     (sc_openFStrings sc \<le> MAX_INTERP_DEPTH \<longrightarrow> sc_openFStrings sc' \<le> MAX_INTERP_DEPTH)"

lemma ascii_z_drop: "ascii_z xs \<Longrightarrow> m < length xs \<Longrightarrow> ascii_z (drop m xs)"
proof -
  assume "ascii_z xs" "m < length xs"
  then obtain ys where ys: "xs = ys @ [0]" "\<forall>b\<in>set ys. b \<noteq> 0 \<and> b < 128" by (auto simp: ascii_z_def)
  have "drop m xs = drop m ys @ [0]" using ys(1) \<open>m < length xs\<close> by simp
  moreover have "\<forall>b\<in>set (drop m ys). b \<noteq> 0 \<and> b < 128" using ys(2) set_drop_subset [of m ys] by blast
  ultimately show "ascii_z (drop m xs)" unfolding ascii_z_def by blast
qed

lemma ascii_z_Cons: "ascii_z (b # xs) \<longleftrightarrow> (b = 0 \<and> xs = []) \<or> (b \<noteq> 0 \<and> b < 128 \<and> ascii_z xs)"
  by (auto simp: ascii_z_def Cons_eq_append_conv)

lemma ascii_z_nonempty: "ascii_z xs \<Longrightarrow> xs \<noteq> []"
  by (auto simp: ascii_z_def)

lemma ahead_ok: "scan_ok sc \<Longrightarrow> ahead k sc sc' \<Longrightarrow> scan_ok sc'"
  by (auto simp: scan_ok_def ahead_def ascii_z_drop)

lemma ahead_refl: "scan_ok sc \<Longrightarrow> ahead 0 sc sc"
  by (auto simp: scan_ok_def ahead_def dest!: ascii_z_nonempty intro!: exI [of _ 0])

lemma ahead_trans:
  assumes "ahead k sc sc1" and "ahead l sc1 sc2"
  shows "ahead (k + l) sc sc2"
proof -
  obtain m1 where m1: "k \<le> m1" "m1 < length (rest_of sc)" "rest_of sc1 = drop m1 (rest_of sc)"
    using assms(1) by (auto simp: ahead_def)
  obtain m2 where m2: "l \<le> m2" "m2 < length (rest_of sc1)" "rest_of sc2 = drop m2 (rest_of sc1)"
    using assms(2) by (auto simp: ahead_def)
  have "k + l \<le> m1 + m2 \<and> m1 + m2 < length (rest_of sc) \<and> rest_of sc2 = drop (m1 + m2) (rest_of sc)"
    using m1 m2 by (auto simp: add.commute)
  then show ?thesis using assms unfolding ahead_def by auto
qed

lemma ahead_mono: "ahead k sc sc' \<Longrightarrow> l \<le> k \<Longrightarrow> ahead l sc sc'"
  unfolding ahead_def using le_trans by blast

lemma ahead_length: "ahead k sc sc' \<Longrightarrow> length (rest_of sc') + k \<le> length (rest_of sc)"
  by (auto simp: ahead_def)

text \<open>Changes that do not move the position.\<close>

lemma ahead_cong:
  "ahead k sc (sc'\<lparr>sc_start := s\<rparr>) = ahead k sc sc'" "ahead k sc (sc'\<lparr>sc_line := l\<rparr>) = ahead k sc sc'"
  "ahead k (sc\<lparr>sc_start := s\<rparr>) sc' = ahead k sc sc'" "scan_ok (sc\<lparr>sc_start := s\<rparr>) = scan_ok sc"
  "rest_of (sc\<lparr>sc_start := s\<rparr>) = rest_of sc" "rest_of (sc\<lparr>sc_line := l\<rparr>) = rest_of sc"
  by (simp_all add: ahead_def rest_of_def scan_ok_def)

lemma move_to_drop:
  assumes "m < length (rest_of sc)"
  shows "rest_of (move_to (drop m (rest_of sc)) sc) = drop m (rest_of sc)"
proof -
  have "sc_current sc + m = length (sc_src sc) - (length (sc_src sc) - sc_current sc - m)"
    using assms by (simp add: rest_of_def)
  then show ?thesis by (simp add: move_to_def rest_of_def add.commute)
qed

lemma move_to_ahead:
  assumes "k \<le> m" "m < length (rest_of sc)"
  shows "ahead k sc (move_to (drop m (rest_of sc)) sc)"
  unfolding ahead_def move_to_drop [OF assms(2)] using assms by (auto simp: move_to_def)

lemma scan_peek:
  assumes "scan_ok sc"
  obtains b r where "rest_of sc = b # r" "scanPeek sc = Some b" "isAtEnd sc = Some (b = 0)"
proof -
  obtain b r where r: "rest_of sc = b # r"
    using assms by (cases "rest_of sc") (auto simp: scan_ok_def dest: ascii_z_nonempty)
  then show ?thesis using that rest_of_Cons(1) [OF r] by (simp add: isAtEnd_def)
qed

text \<open>Stepping over one byte that is not the NUL.\<close>

lemma ahead_one:
  assumes "scan_ok sc" "rest_of sc = b # r" "b \<noteq> 0"
  shows "ahead 1 sc (sc\<lparr>sc_current := Suc (sc_current sc)\<rparr>)"
proof -
  have "ascii_z r" using assms by (auto simp: scan_ok_def ascii_z_Cons)
  then have "1 < length (rest_of sc)" using assms(2) ascii_z_nonempty by auto
  then show ?thesis
    using rest_of_Cons(3) [OF assms(2)] assms(2) by (auto simp: ahead_def intro!: exI [of _ 1])
qed

text \<open>Operations that return and move at least \<open>k\<close> bytes.\<close>

definition goes :: "nat \<Rightarrow> scanner \<Rightarrow> ('a \<times> scanner) option \<Rightarrow> bool" where
  "goes k sc r \<longleftrightarrow> (\<exists>x sc'. r = Some (x, sc') \<and> ahead k sc sc')"

lemma goes_Some [simp]: "goes k sc (Some (x, sc')) = ahead k sc sc'"
  by (simp add: goes_def)

lemma goes_bind:
  assumes "goes k sc r" and "scan_ok sc"
    and "\<And>x sc'. r = Some (x, sc') \<Longrightarrow> ahead k sc sc' \<Longrightarrow> scan_ok sc' \<Longrightarrow> goes l sc' (g x sc')"
  shows "goes (k + l) sc (r \<bind> (\<lambda>(x, sc'). g x sc'))"
proof -
  obtain x sc' where r: "r = Some (x, sc')" "ahead k sc sc'" using assms(1) by (auto simp: goes_def)
  have "goes l sc' (g x sc')" using assms(3) [OF r] ahead_ok [OF assms(2) r(2)] by blast
  then show ?thesis using r ahead_trans by (auto simp: goes_def)
qed

lemma goes_mono: "goes k sc r \<Longrightarrow> l \<le> k \<Longrightarrow> goes l sc r"
  unfolding goes_def using ahead_mono by blast

lemma goes_bind0:
  assumes "goes 0 sc r" and "scan_ok sc"
    and "\<And>x sc'. r = Some (x, sc') \<Longrightarrow> ahead 0 sc sc' \<Longrightarrow> scan_ok sc' \<Longrightarrow> goes 0 sc' (g x sc')"
  shows "goes 0 sc (r \<bind> (\<lambda>(x, sc'). g x sc'))"
  using goes_bind [of 0 sc r 0 g, OF assms(1,2)] assms(3) by simp

lemma match_goes:
  assumes "scan_ok sc"
  shows "goes 0 sc (advanceIfMatch c sc)"
  using assms
proof (rule scan_peek)
  fix b r assume b: "rest_of sc = b # r" "scanPeek sc = Some b" "isAtEnd sc = Some (b = 0)"
  show ?thesis
    using ahead_refl [OF assms] ahead_mono [OF ahead_one [OF assms b(1)], of 0] b(2,3)
    by (simp add: advanceIfMatch_def)
qed

lemma match2_goes:
  assumes "scan_ok sc"
  shows "goes 0 sc (advanceIfMatch2 c d sc)"
  using assms
proof (rule scan_peek)
  fix b r assume b: "rest_of sc = b # r" "scanPeek sc = Some b" "isAtEnd sc = Some (b = 0)"
  let ?sc = "sc\<lparr>sc_current := Suc (sc_current sc)\<rparr>"
  show ?thesis
  proof (cases "b = 0 \<or> b \<noteq> c")
    case True
    then show ?thesis using ahead_refl [OF assms] b(2,3) by (auto simp: advanceIfMatch2_def)
  next
    case False
    then have one: "ahead 1 sc ?sc" by (intro ahead_one [OF assms b(1)]) (use False in auto)
    have ok: "scan_ok ?sc" by (rule ahead_ok [OF assms one])
    from ok show ?thesis
    proof (rule scan_peek)
      fix b2 r2 assume b2: "rest_of ?sc = b2 # r2" "scanPeek ?sc = Some b2" "isAtEnd ?sc = Some (b2 = 0)"
      have "ahead 0 sc (?sc\<lparr>sc_current := Suc (sc_current ?sc)\<rparr>)" if "b2 \<noteq> 0"
        by (rule ahead_mono [OF ahead_trans [OF one ahead_one [OF ok b2(1) that]]]) simp
      then show ?thesis
        using False b(2,3) b2(2,3) ahead_refl [OF assms] by (auto simp: advanceIfMatch2_def Let_def)
    qed
  qed
qed

lemma token_if_match_goes: "scan_ok sc \<Longrightarrow> goes 0 sc (token_if_match c y n sc)"
  unfolding token_if_match_def by (rule goes_bind0 [OF match_goes]) (auto simp: ahead_refl)

lemma span_class_drop:
  "ascii_z xs \<Longrightarrow> \<not> P 0 \<Longrightarrow> \<exists>m < length xs. span_class P xs = Some (drop m xs)"
proof (induction xs)
  case Nil
  then show ?case by (simp add: ascii_z_def)
next
  case (Cons c xs)
  show ?case
  proof (cases "P c")
    case True
    then have "ascii_z xs" using Cons.prems by (auto simp: ascii_z_Cons)
    then obtain m where "m < length xs" "span_class P xs = Some (drop m xs)" using Cons.IH Cons.prems(2) by blast
    then show ?thesis using True by (intro exI [of _ "Suc m"]) simp
  qed (intro exI [of _ 0], simp)
qed

lemma span_goes:
  assumes "scan_ok sc" "\<not> P 0"
  shows "\<exists>rest. span_class P (rest_of sc) = Some rest \<and> ahead 0 sc (move_to rest sc)"
proof -
  have "ascii_z (rest_of sc)" using assms(1) by (simp add: scan_ok_def)
  then obtain m where "m < length (rest_of sc)" "span_class P (rest_of sc) = Some (drop m (rest_of sc))"
    using span_class_drop [of "rest_of sc" P] assms(2) by blast
  then show ?thesis using move_to_ahead [of 0 m sc] by blast
qed

lemma class_NUL [simp]: "\<not> isAlpha 0" "\<not> isDigit 0" "\<not> isHex 0"
  by (simp_all add: isAlpha_def isDigit_def isHex_def eloxCTable_def)

lemma identifier_goes: "scan_ok sc \<Longrightarrow> goes 0 sc (sc_identifier sc)"
  using span_goes [of sc "\<lambda>c. isAlpha c \<or> isDigit c"] by (auto simp: sc_identifier_def Let_def)

lemma advance_goes:
  assumes "scan_ok sc" "scanPeek sc = Some b" "b \<noteq> 0"
  shows "sc_advance sc = Some (b, sc\<lparr>sc_current := Suc (sc_current sc)\<rparr>)"
    and "ahead 1 sc (sc\<lparr>sc_current := Suc (sc_current sc)\<rparr>)"
    and "scan_ok (sc\<lparr>sc_current := Suc (sc_current sc)\<rparr>)"
proof -
  from assms(1) obtain r where r: "rest_of sc = b # r" by (rule scan_peek) (use assms(2) in auto)
  show "sc_advance sc = Some (b, sc\<lparr>sc_current := Suc (sc_current sc)\<rparr>)"
    using assms(2) by (simp add: sc_advance_def)
  show a: "ahead 1 sc (sc\<lparr>sc_current := Suc (sc_current sc)\<rparr>)" by (rule ahead_one [OF assms(1) r assms(3)])
  show "scan_ok (sc\<lparr>sc_current := Suc (sc_current sc)\<rparr>)" by (rule ahead_ok [OF assms(1) a])
qed

lemma number_goes:
  assumes ok: "scan_ok sc" and lb: "scanLookBack sc \<noteq> None"
  shows "goes 0 sc (sc_number sc)"
proof -
  obtain k where k: "scanLookBack sc = Some k" using lb by auto
  from ok obtain c where c: "scanPeek sc = Some c" by (rule scan_peek)
  let ?step = "\<lambda>sc. sc\<lparr>sc_current := Suc (sc_current sc)\<rparr>"
  have aft: "\<exists>rest. span_class P (rest_of (?step s)) = Some rest \<and> ahead 0 sc (move_to rest (?step s))"
    if "scan_ok s" "ahead 0 sc s" "scanPeek s = Some b" "b \<noteq> 0" "\<not> P 0" for s b P
  proof -
    note adv = advance_goes [OF that(1,3,4)]
    from span_goes [OF adv(3), of P, OF that(5)] obtain rest where
      "span_class P (rest_of (?step s)) = Some rest" "ahead 0 (?step s) (move_to rest (?step s))" by blast
    then show ?thesis
      using ahead_trans [OF ahead_mono [OF adv(2), of 0]] ahead_trans [OF that(2)] by fastforce
  qed
  show ?thesis
  proof (cases "k = 48 \<and> (c = 120 \<or> c = 88)")
    case True
    then have "c \<noteq> 0" by auto
    from aft [OF ok ahead_refl [OF ok] c this, of isHex] show ?thesis
      using True k c advance_goes(1) [OF ok c] by (auto simp: sc_number_def Let_def)
  next
    case False
    from span_goes [OF ok, of isDigit] obtain rest where
      r: "span_class isDigit (rest_of sc) = Some rest" "ahead 0 sc (move_to rest sc)" by auto
    let ?sc1 = "move_to rest sc"
    have ok1: "scan_ok ?sc1" by (rule ahead_ok [OF ok r(2)])
    from ok1 obtain p where p: "scanPeek ?sc1 = Some p" "isAtEnd ?sc1 = Some (p = 0)" by (rule scan_peek)
    show ?thesis
    proof (cases "p = 46")
      case dot: True
      then have p0: "p \<noteq> 0" by simp
      have "scan_ok (?step ?sc1)" using advance_goes(3) [OF ok1 p(1) p0] .
      then obtain n where n: "scanPeek (?step ?sc1) = Some n" by (rule scan_peek)
      then have "scanPeekNext ?sc1 = Some n" using p(2) p0 by (simp add: scanPeekNext_def scanPeek_def)
      moreover from aft [OF ok1 r(2) p(1) p0, of isDigit] obtain rest2 where
        "span_class isDigit (rest_of (?step ?sc1)) = Some rest2" "ahead 0 sc (move_to rest2 (?step ?sc1))" by auto
      ultimately show ?thesis
        using False k c r p dot advance_goes(1) [OF ok1 p(1) p0] by (auto simp: sc_number_def Let_def)
    next
      case other: False
      then show ?thesis using False k c r p(1) by (auto simp: sc_number_def Let_def)
    qed
  qed
qed

lemma raw_loop_drop: "ascii_z xs \<Longrightarrow> d \<noteq> 0 \<Longrightarrow> \<exists>ok. \<exists>m < length xs. raw_loop d xs = Some (ok, drop m xs)"
proof (induction xs)
  case Nil
  then show ?case by (simp add: ascii_z_def)
next
  case (Cons c xs)
  show ?case
  proof (cases "c = 0")
    case True
    then show ?thesis by (intro exI [of _ False] exI [of _ 0]) simp
  next
    case False
    then have z: "ascii_z xs" using Cons.prems(1) by (auto simp: ascii_z_Cons)
    then have "xs \<noteq> []" by (rule ascii_z_nonempty)
    show ?thesis
    proof (cases "c = d")
      case True
      then show ?thesis using False \<open>xs \<noteq> []\<close> by (intro exI [of _ True] exI [of _ 1]) simp
    next
      case other: False
      obtain ok m where "m < length xs" "raw_loop d xs = Some (ok, drop m xs)" using Cons.IH [OF z Cons.prems(2)] by blast
      then show ?thesis using False other by (intro exI [of _ ok] exI [of _ "Suc m"]) simp
    qed
  qed
qed

lemma rawString_goes:
  assumes "scan_ok sc" "d \<noteq> 0"
  shows "goes 0 sc (rawString d sc)"
proof -
  obtain ok m where "m < length (rest_of sc)" "raw_loop d (rest_of sc) = Some (ok, drop m (rest_of sc))"
    using raw_loop_drop [OF _ assms(2), of "rest_of sc"] assms(1) by (auto simp: scan_ok_def)
  then show ?thesis using move_to_ahead [of 0 m sc] by (auto simp: rawString_def Let_def)
qed

section \<open>String literals\<close>

text \<open>
  Decoded text is written behind the reading position: at least \<open>pend\<close> bytes behind it in
  every mode of the scan.
\<close>

definition pend :: "ss_mode \<Rightarrow> nat" where
  "pend mode = (case mode of SS_SCAN \<Rightarrow> 0 | SS_ESCAPE \<Rightarrow> 1 | SS_UNICODE n _ \<Rightarrow> 2 + n)"

definition same_pos :: "scanner \<Rightarrow> scanner \<Rightarrow> bool" where
  "same_pos sc sc' \<longleftrightarrow> rest_of sc' = rest_of sc \<and> sc_current sc' = sc_current sc \<and>
     length (sc_fStrings sc') = length (sc_fStrings sc) \<and> sc_openFStrings sc' = sc_openFStrings sc"

lemma same_pos_refl [simp]: "same_pos sc sc"
  by (simp add: same_pos_def)

lemma same_pos_trans: "same_pos a b \<Longrightarrow> same_pos b c \<Longrightarrow> same_pos a c"
  by (simp add: same_pos_def)

lemma same_pos_set [simp]: "same_pos sc (set_fstring f sc')= same_pos sc sc'"
  by (simp add: same_pos_def set_fstring_def rest_of_def)

lemma same_pos_ok: "same_pos sc sc' \<Longrightarrow> scan_ok sc \<Longrightarrow> scan_ok sc'"
  by (simp add: same_pos_def scan_ok_def)

lemma put_bytes_behind:
  assumes "scan_ok sc" "output + length bs \<le> sc_current sc"
  shows "\<exists>src. put_bytes bs output (sc_src sc) = Some src \<and> same_pos sc (sc\<lparr>sc_src := src\<rparr>)"
proof -
  have l: "sc_current sc < length (sc_src sc)"
    using assms(1) by (elim scan_peek) (rule rest_of_Cons(2))
  let ?src = "take output (sc_src sc) @ bs @ drop (output + length bs) (sc_src sc)"
  have "drop (sc_current sc) ?src = drop (sc_current sc) (sc_src sc)"
    using assms(2) l by (simp add: min_def)
  then have "same_pos sc (sc\<lparr>sc_src := ?src\<rparr>)" by (simp add: same_pos_def rest_of_def)
  then show ?thesis using assms(2) l by (simp add: put_bytes_def)
qed

lemma utf8_bytes_length: "utf8_bytes cp = Some bs \<Longrightarrow> length bs \<le> (if cp \<le> 0x7F then 1 else 4)"
  by (auto simp: utf8_bytes_def split: if_splits)

lemma outputUtf8_behind:
  assumes "scan_ok sc" "output + (if cp \<le> 0x7F then 1 else 4) \<le> sc_current sc"
  shows "\<exists>ok output' sc'. outputUtf8 cp output sc = Some (ok, output', sc') \<and> same_pos sc sc' \<and>
    output' \<le> output + (if cp \<le> 0x7F then 1 else 4)"
proof (cases "utf8_bytes cp")
  case None
  then show ?thesis by (auto simp: outputUtf8_def)
next
  case (Some bs)
  note len = utf8_bytes_length [OF Some]
  then have "output + length bs \<le> sc_current sc" using assms(2) by linarith
  from put_bytes_behind [OF assms(1) this] obtain src where
    "put_bytes bs output (sc_src sc) = Some src" "same_pos sc (sc\<lparr>sc_src := src\<rparr>)" by blast
  then show ?thesis using Some len by (auto simp: outputUtf8_def)
qed

lemma ascii_small: "(b :: byte) < 128 \<Longrightarrow> (ucast b :: u32) \<le> 0x7F"
  by (simp add: word_less_nat_alt word_le_nat_alt unat_u32_of_byte)

lemma output_ascii_behind:
  assumes "scan_ok sc" "(b :: byte) < 128" "output < sc_current sc"
  shows "\<exists>ok output' sc'. outputUtf8 (ucast b) output sc = Some (ok, output', sc') \<and> same_pos sc sc' \<and> output' \<le> output + 1"
  using outputUtf8_behind [of sc "output" "ucast b"] assms ascii_small [OF assms(2)] by simp

lemma output_byte_behind:
  assumes "scan_ok sc" "output < sc_current sc"
  shows "\<exists>sc'. output_byte b output sc = Some (output + 1, sc') \<and> same_pos sc sc'"
  using put_bytes_behind [of sc "output" "[b]"] assms by (auto simp: output_byte_def)

lemma open_fstring:
  assumes "scan_ok sc" "0 < sc_openFStrings sc"
  shows "crt_fstring sc \<noteq> None"
  using assms by (auto simp: crt_fstring_def scan_ok_def)

text \<open>One step of the scan returns and keeps its output behind the reading position.\<close>

definition step_fine :: "scanner \<Rightarrow> (ss_step \<times> nat \<times> scanner) option \<Rightarrow> bool" where
  "step_fine sc res \<longleftrightarrow> (\<exists>r output' sc'. res = Some (r, output', sc') \<and> same_pos sc sc' \<and>
     (\<forall>m. r = SS_More m \<longrightarrow> output' + pend m \<le> sc_current sc'))"

lemma step_fine_Some [simp]:
  "step_fine sc (Some (r, output', sc')) \<longleftrightarrow> same_pos sc sc' \<and> (\<forall>m. r = SS_More m \<longrightarrow> output' + pend m \<le> sc_current sc')"
  by (simp add: step_fine_def)

lemma same_pos_current: "same_pos sc sc' \<Longrightarrow> sc_current sc' = sc_current sc"
  by (simp add: same_pos_def)

lemma ss_scan_fine:
  assumes "scan_ok sc" "(b :: byte) < 128" "output < sc_current sc" "fs \<Longrightarrow> 0 < sc_openFStrings sc"
  shows "step_fine sc (ss_scan delim fs (ucast b) output sc)"
proof -
  obtain ok o' sc' where u: "outputUtf8 (ucast b) output sc = Some (ok, o', sc')" "same_pos sc sc'" "o' \<le> output + 1"
    using output_ascii_behind [OF assms(1-3)] by blast
  have "fs \<Longrightarrow> crt_fstring sc' \<noteq> None"
    using open_fstring [OF same_pos_ok [OF u(2) assms(1)]] assms(4) u(2) by (simp add: same_pos_def)
  then show ?thesis
    using u assms(3) same_pos_current [OF u(2)] by (auto simp: ss_scan_def pend_def)
qed

lemma ss_escape_fine:
  assumes "scan_ok sc" "(b :: byte) < 128" "output + 1 < sc_current sc"
  shows "step_fine sc (ss_escape (ucast b) output sc)"
proof -
  obtain ok o' sc' where u: "outputUtf8 (ucast b) output sc = Some (ok, o', sc')" "same_pos sc sc'" "o' \<le> output + 1"
    using output_ascii_behind [OF assms(1,2), of "output"] assms(3) by auto
  have w: "\<exists>sc'. output_byte c output sc = Some (output + 1, sc') \<and> same_pos sc sc'" for c
    using output_byte_behind [OF assms(1)] assms(3) by simp
  obtain s1 s2 s3 where s: "output_byte 10 output sc = Some (output + 1, s1)" "same_pos sc s1"
    "output_byte 13 output sc = Some (output + 1, s2)" "same_pos sc s2"
    "output_byte 9 output sc = Some (output + 1, s3)" "same_pos sc s3"
    using w [of 10] w [of 13] w [of 9] by auto
  note cur = u(2) [THEN same_pos_current] s(2,4,6) [THEN same_pos_current]
  show ?thesis using u s cur assms(3) by (simp add: ss_escape_def pend_def)
qed

lemma ss_unicode_fine:
  assumes "scan_ok sc" "output + 2 + n < sc_current sc"
  shows "step_fine sc (ss_unicode n cp0 cp output sc)"
proof -
  have out: "\<exists>ok o' sc'. outputUtf8 c output sc = Some (ok, o', sc') \<and> same_pos sc sc' \<and> o' \<le> output + 4" if "n = 3" for c
    using outputUtf8_behind [OF assms(1), of "output" c] assms(2) that by (fastforce split: if_splits)
  show ?thesis
  proof (cases "n = 3")
    case True
    define digit where "digit = (if 48 \<le> cp \<and> cp \<le> 57 then cp - 48
      else if 97 \<le> cp \<and> cp \<le> 102 then cp - 97 + 10 else cp - 65 + 10)"
    have d: "ss_unicode n cp0 cp output sc =
      (if \<not> (48 \<le> cp \<and> cp \<le> 57 \<or> 97 \<le> cp \<and> cp \<le> 102 \<or> 65 \<le> cp \<and> cp \<le> 70)
       then Some (SS_Error ''Invalid character in Unicode escape'', output, sc)
       else outputUtf8 (push_bit 4 cp0 OR digit) output sc \<bind> (\<lambda>(ok, output', sc').
         Some (if ok then SS_More SS_SCAN else SS_Error ''Invalid UTF-8 unicode escape'', output', sc')))"
      unfolding ss_unicode_def Let_def True digit_def by simp
    from out [OF True, of "push_bit 4 cp0 OR digit"] obtain ok o' sc' where
      "outputUtf8 (push_bit 4 cp0 OR digit) output sc = Some (ok, o', sc')" "same_pos sc sc'" "o' \<le> output + 4" by blast
    then show ?thesis unfolding d using assms(2) True same_pos_current [of sc sc'] by (simp add: pend_def)
  next
    case False
    then show ?thesis using assms(2) by (auto simp: ss_unicode_def Let_def pend_def)
  qed
qed

lemma ss_step_fine:
  assumes "scan_ok sc" "(b :: byte) < 128" "output + pend mode < sc_current sc" "fs \<Longrightarrow> 0 < sc_openFStrings sc"
  shows "step_fine sc (ss_step_mode delim fs mode (ucast b) output sc)"
  using assms ss_scan_fine [of sc b "output" fs delim] ss_escape_fine [of sc b "output"]
    ss_unicode_fine [of sc "output"] by (cases mode) (auto simp: ss_step_mode_def pend_def)

lemma string_loop_goes:
  assumes "scan_ok sc" "length (rest_of sc) \<le> n" "output + pend mode \<le> sc_current sc" "fs \<Longrightarrow> 0 < sc_openFStrings sc"
  shows "\<exists>r o' sc'. string_loop n delim fs mode output sc = Some (r, o', sc') \<and> ahead 0 sc sc' \<and>
    sc_openFStrings sc' = sc_openFStrings sc"
  using assms
proof (induction n arbitrary: mode "output" sc)
  case 0
  then show ?case by (auto simp: scan_ok_def dest: ascii_z_nonempty)
next
  case (Suc n)
  from Suc.prems(1) show ?case
  proof (rule scan_peek)
    fix b r assume b: "rest_of sc = b # r" "scanPeek sc = Some b" "isAtEnd sc = Some (b = 0)"
    show ?case
    proof (cases "b = 0")
      case True
      then show ?thesis using b(3) ahead_refl [OF Suc.prems(1)] by simp
    next
      case False
      let ?sc = "sc\<lparr>sc_current := sc_current sc + 1\<rparr>"
      have asc: "b < 128" using Suc.prems(1) b(1) False by (simp add: scan_ok_def ascii_z_Cons)
      have adv: "utf8_advance sc = Some (ucast b, ?sc)" by (rule utf8_advance_ascii [OF b(1) asc])
      have a1: "ahead 1 sc ?sc" and ok1: "scan_ok ?sc"
        using advance_goes(2,3) [OF Suc.prems(1) b(2) False] by simp_all
      have "step_fine ?sc (ss_step_mode delim fs mode (ucast b) output ?sc)"
        by (rule ss_step_fine [OF ok1 asc]) (use Suc.prems(3,4) in simp_all)
      then obtain st o2 sc2 where st: "ss_step_mode delim fs mode (ucast b) output ?sc = Some (st, o2, sc2)"
        "same_pos ?sc sc2" "\<And>m. st = SS_More m \<Longrightarrow> o2 + pend m \<le> sc_current sc2" by (auto simp: step_fine_def)
      have ok2: "scan_ok sc2" by (rule same_pos_ok [OF st(2) ok1])
      have open2: "sc_openFStrings sc2 = sc_openFStrings sc" using st(2) by (simp add: same_pos_def)
      have a2: "ahead 0 sc sc2"
        using ahead_mono [OF a1, of 0] st(2) by (simp add: ahead_def same_pos_def)
      show ?thesis
      proof (cases st)
        case (SS_More m)
        have "length (rest_of sc2) \<le> n"
          using ahead_length [OF a1] Suc.prems(2) st(2) by (simp add: same_pos_def)
        from Suc.IH [OF ok2 this st(3) [OF SS_More]] Suc.prems(4) open2 obtain r o' sc' where
          "string_loop n delim fs m o2 sc2 = Some (r, o', sc')" "ahead 0 sc2 sc'" "sc_openFStrings sc' = sc_openFStrings sc2"
          by auto
        then show ?thesis using SS_More b(3) False adv st(1) ahead_trans [OF a2, of 0 sc'] open2 by simp
      qed (use b(3) False adv st(1) a2 open2 in simp_all)
    qed
  qed
qed

lemma rest_of_length: "length (rest_of sc) \<le> length (sc_src sc)"
  by (simp add: rest_of_def)

lemma sc_string_goes:
  assumes "scan_ok sc" "fs \<Longrightarrow> 0 < sc_openFStrings sc"
  shows "goes 0 sc (sc_string delim fs start sc)"
proof -
  have "length (rest_of sc) \<le> length (sc_src sc) + 1" using rest_of_length [of sc] by simp
  moreover have "sc_current sc + pend SS_SCAN \<le> sc_current sc" by (simp add: pend_def)
  ultimately have "\<exists>r o' sc'. string_loop (length (sc_src sc) + 1) delim fs SS_SCAN (sc_current sc) sc = Some (r, o', sc') \<and>
      ahead 0 sc sc' \<and> sc_openFStrings sc' = sc_openFStrings sc"
    using assms(2) by (rule string_loop_goes [OF assms(1)])
  then obtain r o' sc1 where
    l: "string_loop (length (sc_src sc) + 1) delim fs SS_SCAN (sc_current sc) sc = Some (r, o', sc1)" "ahead 0 sc sc1"
    "sc_openFStrings sc1 = sc_openFStrings sc" by blast
  have "fs \<Longrightarrow> crt_fstring sc1 \<noteq> None"
    using open_fstring [OF ahead_ok [OF assms(1) l(2)]] l(3) assms(2) by simp
  moreover have "ahead 0 sc (sc1\<lparr>sc_openFStrings := sc_openFStrings sc1 - 1\<rparr>)"
    using l(2) by (auto simp: ahead_def rest_of_def)
  ultimately show ?thesis using l by (auto simp: sc_string_def Let_def simp del: string_loop.simps split: sum.splits)
qed

lemma goes_moved:
  assumes "goes 0 sc' r" "rest_of sc' = rest_of sc" "length (sc_fStrings sc') = length (sc_fStrings sc)"
    "sc_openFStrings sc' \<le> MAX_INTERP_DEPTH"
  shows "goes 0 sc r"
  using assms by (auto simp: goes_def ahead_def)

lemma fString_goes:
  assumes "scan_ok sc"
  shows "goes 0 sc (fString delim sc)"
proof (cases "sc_openFStrings sc \<ge> MAX_INTERP_DEPTH")
  case True
  then show ?thesis using ahead_refl [OF assms] by (simp add: fString_def)
next
  case False
  let ?sc = "sc\<lparr>sc_fStrings := (sc_fStrings sc)[sc_openFStrings sc :=
      \<lparr>fs_delim = delim, fs_hasExpr = False, fs_openBraces = 0\<rparr>], sc_openFStrings := sc_openFStrings sc + 1\<rparr>"
  have r: "rest_of ?sc = rest_of sc" by (simp add: rest_of_def)
  have "scan_ok ?sc" using assms False by (simp add: scan_ok_def rest_of_def)
  then have "goes 0 ?sc (sc_string delim True True ?sc)" by (rule sc_string_goes) simp
  from goes_moved [OF this r] show ?thesis using False by (simp add: fString_def)
qed

lemma close_brace_goes:
  assumes "scan_ok sc"
  shows "goes 0 sc (close_brace sc)"
proof (cases "sc_openFStrings sc > 0")
  case False
  then show ?thesis using ahead_refl [OF assms] by (simp add: close_brace_def)
next
  case True
  then obtain f where f: "crt_fstring sc = Some f" using open_fstring [OF assms] by auto
  have same: "same_pos sc (set_fstring g sc)" for g by simp
  have str: "goes 0 (set_fstring g sc) (sc_string (fs_delim f) True False (set_fstring g sc))" for g
    by (rule sc_string_goes [OF same_pos_ok [OF same assms]]) (use True in \<open>simp add: set_fstring_def\<close>)
  have "goes 0 sc (sc_string (fs_delim f) True False (set_fstring g sc))" for g
    by (rule goes_moved [OF str]) (use same [of g] assms in \<open>simp_all add: same_pos_def scan_ok_def\<close>)
  moreover have "ahead 0 sc (set_fstring g sc)" for g
    using same [of g] ahead_refl [OF assms] by (simp add: ahead_def same_pos_def)
  ultimately show ?thesis using True f by (simp add: close_brace_def Let_def)
qed

lemma prefixed_goes:
  assumes "scan_ok sc" and scan: "\<And>d sc. scan_ok sc \<Longrightarrow> d \<noteq> 0 \<Longrightarrow> goes 0 sc (scan d sc)"
  shows "goes 0 sc (prefixed_string scan sc)"
  unfolding prefixed_string_def
proof (rule goes_bind0 [OF match_goes [OF assms(1)] assms(1)])
  fix dq sc1 assume ok: "scan_ok sc1"
  have moved: "goes 0 s (scan d (s\<lparr>sc_start := k\<rparr>))" if "scan_ok s" "d \<noteq> 0" for s d k
    by (rule goes_moved [OF scan]) (use that in \<open>simp_all add: ahead_cong, simp add: scan_ok_def\<close>)
  have "goes 0 sc1 (advanceIfMatch 39 sc1 \<bind> (\<lambda>(sq, sc2).
      if sq then scan 39 (sc2\<lparr>sc_start := sc_start sc2 + 1\<rparr>) else sc_identifier sc2))"
    by (rule goes_bind0 [OF match_goes [OF ok] ok]) (use moved identifier_goes in auto)
  then show "goes 0 sc1 (if dq then scan 34 (sc1\<lparr>sc_start := sc_start sc1 + 1\<rparr>)
      else advanceIfMatch 39 sc1 \<bind> (\<lambda>(sq, sc2).
        if sq then scan 39 (sc2\<lparr>sc_start := sc_start sc2 + 1\<rparr>) else sc_identifier sc2))"
    using moved [OF ok] by simp
qed

lemma punctuation_goes:
  assumes "scan_ok sc"
  shows "goes 0 sc (punctuation c sc)"
proof -
  have colon: "goes 0 sc (advanceIfMatch 58 sc \<bind> (\<lambda>(dc, sc1).
      if dc then Some (makeToken sc1 TOKEN_DOUBLE_COLON, sc1) else token_if_match 61 TOKEN_COLON_EQUAL TOKEN_COLON sc1))"
    by (rule goes_bind0 [OF match_goes [OF assms] assms]) (simp add: ahead_refl token_if_match_goes)
  have dots: "goes 0 sc (advanceIfMatch2 46 46 sc \<bind> (\<lambda>(el, sc1).
      if el then Some (makeToken sc1 TOKEN_ELLIPSIS, sc1) else token_if_match 46 TOKEN_DOT_DOT TOKEN_DOT sc1))"
    by (rule goes_bind0 [OF match2_goes [OF assms] assms]) (simp add: ahead_refl token_if_match_goes)
  have str: "goes 0 sc (sc_string d False False sc)" for d by (rule sc_string_goes [OF assms]) simp
  show ?thesis
    unfolding punctuation_def
    using colon dots str close_brace_goes [OF assms] ahead_refl [OF assms] token_if_match_goes [OF assms]
    by simp
qed

section \<open>White space\<close>

definition comment_ends :: "byte list \<Rightarrow> (wss_state \<times> nat \<times> byte list) option \<Rightarrow> bool" where
  "comment_ends xs r \<longleftrightarrow> (\<exists>st' l' m. m < length xs \<and> r = Some (st', l', drop m xs))"

lemma comment_ends_Cons: "comment_ends rest r \<Longrightarrow> comment_ends (ch # rest) r"
proof -
  assume "comment_ends rest r"
  then obtain st' l' m where "m < length rest" "r = Some (st', l', drop m rest)" unfolding comment_ends_def by blast
  then show ?thesis
    unfolding comment_ends_def by (intro exI [of _ st'] exI [of _ l'] exI [of _ "Suc m"]) simp
qed

lemma comment_ends_here: "ys \<noteq> [] \<Longrightarrow> comment_ends ys (Some (st, l, ys))"
  unfolding comment_ends_def by (intro exI [of _ st] exI [of _ l] exI [of _ 0]) simp

lemma block_comment_ends: "ascii_z xs \<Longrightarrow> comment_ends xs (block_comment st l xs)"
proof (induction xs arbitrary: st l)
  case Nil
  then show ?case by (simp add: ascii_z_def)
next
  case (Cons ch rest)
  show ?case
  proof (cases "ch = 0")
    case True
    then show ?thesis by (simp add: comment_ends_here)
  next
    case False
    then have z: "ascii_z rest" using Cons.prems by (simp add: ascii_z_Cons)
    then have "comment_ends (ch # rest) (Some (WSS_DONE, l, rest))"
      by (intro comment_ends_Cons comment_ends_here ascii_z_nonempty)
    then show ?thesis using comment_ends_Cons [OF Cons.IH [OF z]] False by (cases st) auto
  qed
qed

lemma line_comment_drop: "ascii_z xs \<Longrightarrow> \<exists>m < length xs. line_comment xs = Some (drop m xs)"
proof (induction xs)
  case Nil
  then show ?case by (simp add: ascii_z_def)
next
  case (Cons ch xs)
  show ?case
  proof (cases "ch = 10 \<or> ch = 0")
    case True
    then show ?thesis by (intro exI [of _ 0]) auto
  next
    case False
    then have "ascii_z xs" using Cons.prems by (auto simp: ascii_z_Cons)
    with Cons.IH obtain m where "m < length xs" "line_comment xs = Some (drop m xs)" by blast
    then show ?thesis using False by (intro exI [of _ "Suc m"]) simp
  qed
qed

text \<open>White space ends; an unclosed comment has moved on.\<close>

definition ws_ends :: "byte list \<Rightarrow> (bool \<times> nat \<times> byte list) option \<Rightarrow> bool" where
  "ws_ends xs r \<longleftrightarrow> (\<exists>ok l' m. m < length xs \<and> (ok \<or> 0 < m) \<and> r = Some (ok, l', drop m xs))"

lemma ws_ends_later:
  assumes "ws_ends (drop k xs) r" "k < length xs"
  shows "ws_ends xs r"
proof -
  from assms(1) obtain ok l' m where "m < length (drop k xs)" "ok \<or> 0 < m" "r = Some (ok, l', drop m (drop k xs))"
    unfolding ws_ends_def by blast
  then show ?thesis
    unfolding ws_ends_def by (intro exI [of _ ok] exI [of _ l'] exI [of _ "m + k"]) (use assms(2) in auto)
qed

lemma skip_ws_ends: "ascii_z xs \<Longrightarrow> ws_ends xs (skip_ws l xs)"
proof (induction "length xs" arbitrary: l xs rule: less_induct)
  case less
  then obtain c rest where xs: "xs = c # rest" by (cases xs) (auto simp: ascii_z_def)
  have next_byte: "ws_ends xs (skip_ws l' rest)" if "c \<noteq> 0" for l'
  proof -
    have z: "ascii_z rest" using less.prems that by (simp add: xs ascii_z_Cons)
    have "ws_ends (drop 1 xs) (skip_ws l' rest)" using less.hyps [OF _ z] by (simp add: xs)
    then show ?thesis by (rule ws_ends_later) (use ascii_z_nonempty [OF z] in \<open>simp add: xs\<close>)
  qed
  show ?case
  proof (cases "c = 35")
    case False
    have "ws_ends xs (Some (True, l, xs))" using xs by (auto simp: ws_ends_def intro!: exI [of _ 0])
    then show ?thesis using next_byte False by (auto simp: xs)
  next
    case True
    then have z: "ascii_z rest" using less.prems by (simp add: xs ascii_z_Cons)
    then obtain n r2 where n: "rest = n # r2" by (cases rest) (auto simp: ascii_z_def)
    have later: "ws_ends xs (skip_ws l' (drop m rest))" if "m < length rest" for l' m
    proof -
      have "ws_ends (drop (Suc m) xs) (skip_ws l' (drop m rest))"
        using less.hyps [OF _ ascii_z_drop [OF z that]] by (simp add: xs)
      then show ?thesis by (rule ws_ends_later) (use that in \<open>simp add: xs\<close>)
    qed
    have unclosed: "ws_ends xs (Some (False, l', drop m rest))" if "m < length rest" for l' m
      unfolding ws_ends_def using that by (intro exI [of _ False] exI [of _ l'] exI [of _ "Suc m"]) (simp add: xs)
    obtain st' l' m where b: "m < length rest" "block_comment WSS_SCAN l rest = Some (st', l', drop m rest)"
      using block_comment_ends [OF z] unfolding comment_ends_def by blast
    obtain k where k: "k < length rest" "line_comment rest = Some (drop k rest)" using line_comment_drop [OF z] by blast
    have "skip_ws l xs = (if n = 42 then if st' \<noteq> WSS_DONE then Some (False, l', drop m rest) else skip_ws l' (drop m rest)
        else skip_ws l (drop k rest))"
      using True n b(2) k(2) by (auto simp: xs simp del: block_comment.simps line_comment.simps)
    then show ?thesis using later b(1) k(1) unclosed by simp
  qed
qed

lemma skipWhitespace_goes:
  assumes "scan_ok sc"
  shows "\<exists>ok sc'. skipWhitespace sc = Some (ok, sc') \<and> ahead (if ok then 0 else 1) sc sc'"
proof -
  have "ws_ends (rest_of sc) (skip_ws (sc_line sc) (rest_of sc))" using assms by (intro skip_ws_ends) (simp add: scan_ok_def)
  then obtain ok l' m where m: "m < length (rest_of sc)" "ok \<or> 0 < m"
    "skip_ws (sc_line sc) (rest_of sc) = Some (ok, l', drop m (rest_of sc))" unfolding ws_ends_def by blast
  let ?sc = "sc\<lparr>sc_line := l'\<rparr>"
  have "ahead (if ok then 0 else 1) ?sc (move_to (drop m (rest_of ?sc)) ?sc)"
    by (rule move_to_ahead) (use m(1,2) in \<open>auto simp: ahead_cong\<close>)
  then have "ahead (if ok then 0 else 1) sc (move_to (drop m (rest_of sc)) ?sc)"
    by (simp add: ahead_cong(6) ahead_def)
  then show ?thesis using m(3) by (simp add: skipWhitespace_def)
qed

section \<open>The whole source\<close>

lemma scanToken_progress:
  assumes "scan_ok sc"
  shows "\<exists>t sc'. scanToken sc = Some (t, sc') \<and> scan_ok sc' \<and>
    (if rest_of sc' = [0] \<and> tk_type t = TOKEN_EOF then True else length (rest_of sc') < length (rest_of sc))"
proof -
  obtain closed sc1 where ws: "skipWhitespace sc = Some (closed, sc1)" "ahead (if closed then 0 else 1) sc sc1"
    using skipWhitespace_goes [OF assms] by blast
  have ok1: "scan_ok sc1" by (rule ahead_ok [OF assms ws(2)])
  show ?thesis
  proof (cases closed)
    case False
    then show ?thesis using ws ok1 ahead_length [OF ws(2)] by (auto simp: scanToken_def)
  next
    case True
    let ?sc2 = "sc1\<lparr>sc_start := sc_current sc1\<rparr>"
    have ok2: "scan_ok ?sc2" using ok1 by (simp add: ahead_cong)
    from ok2 show ?thesis
    proof (rule scan_peek)
      fix b r assume b: "rest_of ?sc2 = b # r" "scanPeek ?sc2 = Some b" "isAtEnd ?sc2 = Some (b = 0)"
      show ?thesis
      proof (cases "b = 0")
        case zero: True
        then have "rest_of ?sc2 = [0]" using ok2 b(1) by (simp add: scan_ok_def ascii_z_Cons)
        then show ?thesis
          using True ws(1) b(3) zero ok2 by (simp add: scanToken_def makeToken_def makeTrimmedToken_def)
      next
        case False
        let ?sc3 = "?sc2\<lparr>sc_current := Suc (sc_current ?sc2)\<rparr>"
        note adv = advance_goes [OF ok2 b(2) False]
        have lb: "scanLookBack ?sc3 \<noteq> None"
          using b(2) by (auto simp: scanLookBack_def scanPeek_def byte_at_def split: if_splits)
        have "goes 0 ?sc3 (if isAlpha b
             then if b = 114 then prefixed_string rawString ?sc3
                  else if b = 102 then prefixed_string fString ?sc3 else sc_identifier ?sc3
             else if isDigit b then sc_number ?sc3 else punctuation b ?sc3)"
          using prefixed_goes [OF adv(3) rawString_goes] prefixed_goes [OF adv(3) fString_goes]
            identifier_goes [OF adv(3)] number_goes [OF adv(3) lb] punctuation_goes [OF adv(3)] by simp
        moreover have "scanToken sc = (if isAlpha b
             then if b = 114 then prefixed_string rawString ?sc3
                  else if b = 102 then prefixed_string fString ?sc3 else sc_identifier ?sc3
             else if isDigit b then sc_number ?sc3 else punctuation b ?sc3)"
          using True ws(1) b(3) False adv(1) by (simp add: scanToken_def)
        ultimately obtain t sc' where t: "scanToken sc = Some (t, sc')" "ahead 0 ?sc3 sc'" by (auto simp: goes_def)
        have "ahead 0 sc ?sc2" using ws(2) True by (simp add: ahead_cong)
        from ahead_trans [OF this ahead_trans [OF adv(2) t(2)]] have a: "ahead 1 sc sc'" by simp
        then show ?thesis using t(1) ahead_ok [OF assms a] ahead_length [OF a] by auto
      qed
    qed
  qed
qed

text \<open>All tokens of the source, as the compiler asks for them: up to the end of the source.\<close>

fun scan_all :: "nat \<Rightarrow> scanner \<Rightarrow> token list option" where
  "scan_all 0 sc = None"
| "scan_all (Suc n) sc =
     do { (t, sc') \<leftarrow> scanToken sc;
          if tk_type t = TOKEN_EOF then Some [t]
          else do { ts \<leftarrow> scan_all n sc'; Some (t # ts) } }"

lemma scan_all_rest:
  "scan_ok sc \<Longrightarrow> length (rest_of sc) \<le> n \<Longrightarrow>
    \<exists>ts. scan_all n sc = Some ts \<and> ts \<noteq> [] \<and> tk_type (last ts) = TOKEN_EOF \<and> length ts \<le> n"
proof (induction n arbitrary: sc)
  case 0
  then show ?case by (auto simp: scan_ok_def dest: ascii_z_nonempty)
next
  case (Suc n)
  obtain t sc' where t: "scanToken sc = Some (t, sc')" "scan_ok sc'"
    "if rest_of sc' = [0] \<and> tk_type t = TOKEN_EOF then True else length (rest_of sc') < length (rest_of sc)"
    using scanToken_progress [OF Suc.prems(1)] by blast
  show ?case
  proof (cases "tk_type t = TOKEN_EOF")
    case True
    then show ?thesis using t(1) by simp
  next
    case False
    then have "length (rest_of sc') \<le> n" using t(3) Suc.prems(2) by simp
    from Suc.IH [OF t(2) this] show ?thesis using False t(1) by auto
  qed
qed



end
