(* ===== verification/Strings.thy ===== *)
theory Strings
  imports Arrays Scanner
begin

text \<open>
  The native methods of strings (\<open>string.c\<close>): prefixes and suffixes, case, trimming,
  substring search and slices.  A native method reads the string it is called on from the first
  argument slot, which the machine guarantees to be one; a wrong type in a later slot is an error
  value.  The bytes of a string are followed by a NUL.
\<close>

section \<open>Arguments\<close>

definition AS_STRING :: "heap \<Rightarrow> val \<Rightarrow> byte list option" where
  "AS_STRING h v = (case v of
       VObj a \<Rightarrow> (case map_option c_obj (h a) of Some (OString chars _) \<Rightarrow> Some chars | _ \<Rightarrow> None)
     | _ \<Rightarrow> None)"

definition get_string_arg :: "heap \<Rightarrow> val \<Rightarrow> native_error + byte list" where
  "get_string_arg h v = (case AS_STRING h v of
       Some chars \<Rightarrow> Inr chars
     | None \<Rightarrow> Inl (RuntimeError ''Invalid argument type, expecting string''))"

text \<open>What the methods do with the string they have made: \<open>NULL\<close> is the error for no memory.\<close>

definition string_result :: "(addr option \<times> vm) option \<Rightarrow> ((native_error + val) \<times> vm) option" where
  "string_result r = do { (s, vm) \<leftarrow> r; Some (case s of None \<Rightarrow> Inl OutOfMemory | Some a \<Rightarrow> Inr (VObj a), vm) }"

section \<open>Methods\<close>

definition stringAtSafe ::
  "(nat \<Rightarrow> bool) \<Rightarrow> env \<Rightarrow> run_ctx \<Rightarrow> byte list \<Rightarrow> int \<Rightarrow> vm \<Rightarrow> ((native_error + val) \<times> vm) option" where
  "stringAtSafe mem env rc str index vm =
     (let realIndex = (if index < 0 then int (length str) + index else index)
      in if realIndex < 0 \<or> realIndex > int (length str) - 1
         then Some (Inl (RuntimeError ''String index out of range''), vm)
         else string_result (copyString mem env rc (take 1 (drop (nat realIndex) str)) vm))"

definition stringStartsWith :: "heap \<Rightarrow> val \<Rightarrow> val \<Rightarrow> (native_error + val) option" where
  "stringStartsWith h inst arg =
     do { str \<leftarrow> AS_STRING h inst;
          case get_string_arg h arg of
            Inl e \<Rightarrow> Some (Inl e)
          | Inr prefix \<Rightarrow>
              Some (Inr (VBool (if length prefix > length str then False
                                else take (length prefix) str = prefix))) }"

definition stringEndsWith :: "heap \<Rightarrow> val \<Rightarrow> val \<Rightarrow> (native_error + val) option" where
  "stringEndsWith h inst arg =
     do { str \<leftarrow> AS_STRING h inst;
          case get_string_arg h arg of
            Inl e \<Rightarrow> Some (Inl e)
          | Inr suffix \<Rightarrow>
              Some (Inr (VBool (if length suffix > length str then False
                                else take (length suffix) (drop (length str - length suffix) str) = suffix))) }"

definition upperLookup :: "byte \<Rightarrow> byte" where
  "upperLookup c = (if 0x61 \<le> c \<and> c \<le> 0x7a then c - 0x20 else c)"

definition lowerLookup :: "byte \<Rightarrow> byte" where
  "lowerLookup c = (if 0x41 \<le> c \<and> c \<le> 0x5a then c + 0x20 else c)"

text \<open>
  The buffer for the converted bytes is not checked: when it cannot be allocated, writing to it is
  undefined.
\<close>

definition stringUpper ::
  "(nat \<Rightarrow> bool) \<Rightarrow> env \<Rightarrow> run_ctx \<Rightarrow> val \<Rightarrow> vm \<Rightarrow> ((native_error + val) \<times> vm) option" where
  "stringUpper mem env rc inst vm =
     do { str \<leftarrow> AS_STRING (vm_heap vm) inst;
          (ok, vm1) \<leftarrow> alloc_block mem env (length str + 1) vm;
          if \<not> ok then None
          else string_result (takeString mem env rc (map upperLookup str) (length str + 1) vm1) }"

definition stringLower ::
  "(nat \<Rightarrow> bool) \<Rightarrow> env \<Rightarrow> run_ctx \<Rightarrow> val \<Rightarrow> vm \<Rightarrow> ((native_error + val) \<times> vm) option" where
  "stringLower mem env rc inst vm =
     do { str \<leftarrow> AS_STRING (vm_heap vm) inst;
          (ok, vm1) \<leftarrow> alloc_block mem env (length str + 1) vm;
          if \<not> ok then None
          else string_result (takeString mem env rc (map lowerLookup str) (length str + 1) vm1) }"

text \<open>The two loops of \<open>stringTrim\<close>.\<close>

fun trim_front :: "byte list \<Rightarrow> nat" where
  "trim_front [] = 0"
| "trim_front (c # cs) = (if isWhitespace c then Suc (trim_front cs) else 0)"

fun trim_back :: "byte list \<Rightarrow> nat \<Rightarrow> nat" where
  "trim_back str 0 = 0"
| "trim_back str (Suc b) = (if isWhitespace (str ! b) then trim_back str b else Suc b)"

definition stringTrim ::
  "(nat \<Rightarrow> bool) \<Rightarrow> env \<Rightarrow> run_ctx \<Rightarrow> val \<Rightarrow> vm \<Rightarrow> ((native_error + val) \<times> vm) option" where
  "stringTrim mem env rc inst vm =
     do { str \<leftarrow> AS_STRING (vm_heap vm) inst;
          let a = trim_front str; b = trim_back str (length str)
          in string_result (copyString mem env rc (if b > a then take (b - a) (drop a str) else []) vm) }"

section \<open>Substrings\<close>

text \<open>
  The search loop of the library's own \<open>memmem\<close>, for a needle \<open>x\<close> of at least two
  bytes: the offset of the occurrence.
\<close>

function memmem_loop :: "byte list \<Rightarrow> byte list \<Rightarrow> nat \<Rightarrow> nat option" where
  "memmem_loop y x j =
     (let k = (if x ! 0 = x ! 1 then 2 else 1);
          ell = (if x ! 0 = x ! 1 then 1 else 2)
      in if j + length x \<le> length y
         then if x ! 1 \<noteq> y ! (j + 1) then memmem_loop y x (j + k)
              else if take (length x - 2) (drop 2 x) = take (length x - 2) (drop (j + 2) y) \<and> x ! 0 = y ! j
              then Some j
              else memmem_loop y x (j + ell)
         else None)"
  by pat_completeness auto
termination
  by (relation "measure (\<lambda>(y, x, j). Suc (length y) - (j + length x))") (auto split: if_splits)

declare memmem_loop.simps [simp del]

text \<open>\<open>memchr\<close> of the standard library.\<close>

fun memchr :: "byte list \<Rightarrow> byte \<Rightarrow> nat option" where
  "memchr [] c = None"
| "memchr (b # bs) c = (if b = c then Some 0 else map_option Suc (memchr bs c))"

definition memmem :: "byte list \<Rightarrow> byte list \<Rightarrow> nat option" where
  "memmem haystack needle =
     (if length needle > length haystack \<or> length needle = 0 \<or> length haystack = 0 then None
      else if length needle > 1 then memmem_loop haystack needle 0
      else memchr haystack (needle ! 0))"

text \<open>
  \<open>mm\<close> is this function, or with GNU C the one of the C library.
\<close>

definition stringContains :: "(byte list \<Rightarrow> byte list \<Rightarrow> nat option) \<Rightarrow> byte list \<Rightarrow> byte list \<Rightarrow> bool" where
  "stringContains mm sq needle \<longleftrightarrow> mm sq needle \<noteq> None"

text \<open>The slice may reach the NUL behind the bytes, as its end is not clamped to the length.\<close>

definition stringSlice ::
  "(nat \<Rightarrow> bool) \<Rightarrow> env \<Rightarrow> run_ctx \<Rightarrow> byte list \<Rightarrow> val \<Rightarrow> val \<Rightarrow> vm \<Rightarrow> ((native_error + val) \<times> vm) option" where
  "stringSlice mem env rc str start end' vm =
     do { bounds \<leftarrow> computeSlice start end' (int (length str));
          case bounds of
            None \<Rightarrow> Some (Inl (RuntimeError ''Slice start and end must be numbers''), vm)
          | Some (sliceStart, sliceEnd) \<Rightarrow>
              let sliceSize = sliceEnd - sliceStart; buffer = str @ [0]
              in if sliceSize > 0
                 then if nat sliceEnd \<le> length buffer
                      then string_result (copyString mem env rc
                             (take (nat sliceSize) (drop (nat sliceStart) buffer)) vm)
                      else None
                 else string_result (copyString mem env rc [] vm) }"

section \<open>The search finds the first occurrence\<close>

definition occurs_at :: "byte list \<Rightarrow> byte list \<Rightarrow> nat \<Rightarrow> bool" where
  "occurs_at y x j \<longleftrightarrow> j + length x \<le> length y \<and> take (length x) (drop j y) = x"

definition first_occurrence :: "byte list \<Rightarrow> byte list \<Rightarrow> nat option \<Rightarrow> bool" where
  "first_occurrence y x r \<longleftrightarrow> (case r of
       Some j \<Rightarrow> occurs_at y x j \<and> (\<forall>i<j. \<not> occurs_at y x i)
     | None \<Rightarrow> \<forall>i. \<not> occurs_at y x i)"

lemma occurs_at_nth:
  assumes "occurs_at y x j" "i < length x"
  shows "y ! (j + i) = x ! i"
proof -
  have "take (length x) (drop j y) ! i = y ! (j + i)"
    using assms by (subst nth_take) (auto simp: occurs_at_def)
  moreover have "take (length x) (drop j y) = x" using assms(1) by (simp add: occurs_at_def)
  ultimately show ?thesis by simp
qed

lemma occurs_at_tested:
  assumes "2 \<le> length x" "j + length x \<le> length y" "x ! 1 = y ! (j + 1)"
  shows "take (length x - 2) (drop 2 x) = take (length x - 2) (drop (j + 2) y) \<and> x ! 0 = y ! j \<longleftrightarrow> occurs_at y x j"
proof -
  obtain a b r where x: "x = a # b # r" using assms(1) by (cases x; cases "tl x") auto
  have "drop j y = y ! j # y ! (j + 1) # drop (j + 2) y"
    using assms(1,2) by (simp add: Cons_nth_drop_Suc)
  then show ?thesis using assms by (auto simp: occurs_at_def x)
qed

text \<open>Where the loop jumps there is nothing to find.\<close>

lemma memmem_loop_first:
  assumes "2 \<le> length x" "\<forall>i<j. \<not> occurs_at y x i"
  shows "first_occurrence y x (memmem_loop y x j)"
  using assms
proof (induction y x j rule: memmem_loop.induct)
  case (1 y x j)
  let ?k = "if x ! 0 = x ! 1 then 2 else 1 :: nat" and ?ell = "if x ! 0 = x ! 1 then 1 else 2 :: nat"
  show ?case
  proof (cases "j + length x \<le> length y")
    case False
    then have "\<not> occurs_at y x i" for i using "1.prems"(2) by (cases "i < j") (auto simp: occurs_at_def)
    then show ?thesis using False by (subst memmem_loop.simps) (simp add: first_occurrence_def)
  next
    case fits: True
    have at1: "x ! 1 = y ! (i + 1)" and at0: "x ! 0 = y ! i" if "occurs_at y x i" for i
    proof -
      have "0 < length x" "1 < length x" using "1.prems"(1) by linarith+
      from occurs_at_nth [OF that this(1)] occurs_at_nth [OF that this(2)]
      show "x ! 1 = y ! (i + 1)" and "x ! 0 = y ! i" by simp_all
    qed
    have skip: "\<forall>i<j + d. \<not> occurs_at y x i" if "d \<le> 2" "\<not> occurs_at y x j" "d = 2 \<Longrightarrow> \<not> occurs_at y x (j + 1)" for d
    proof (intro allI impI)
      fix i assume "i < j + d"
      then consider "i < j" | "i = j" | "i = j + 1" "d = 2" using \<open>d \<le> 2\<close> by linarith
      then show "\<not> occurs_at y x i" using "1.prems"(2) that(2,3) by cases auto
    qed
    show ?thesis
    proof (cases "x ! 1 = y ! (j + 1)")
      case False
      have "\<forall>i<j + ?k. \<not> occurs_at y x i"
        by (rule skip) (use at1 at0 [of "j + 1"] False in \<open>auto split: if_splits\<close>)
      from "1.IH"(1) [OF refl refl fits False "1.prems"(1) this] show ?thesis
        using fits False by (subst memmem_loop.simps) (simp only: Let_def if_True simp_thms)
    next
      case second: True
      show ?thesis
      proof (cases "occurs_at y x j")
        case True
        then have "memmem_loop y x j = Some j"
          using fits second occurs_at_tested [OF "1.prems"(1) fits second]
          by (subst memmem_loop.simps) (simp add: Let_def)
        then show ?thesis using True "1.prems"(2) by (simp add: first_occurrence_def)
      next
        case False
        have nt: "\<not> (take (length x - 2) (drop 2 x) = take (length x - 2) (drop (j + 2) y) \<and> x ! 0 = y ! j)"
          using occurs_at_tested [OF "1.prems"(1) fits second] False by blast
        have "\<forall>i<j + ?ell. \<not> occurs_at y x i"
          by (rule skip) (use at0 [of "j + 1"] second False in \<open>auto split: if_splits\<close>)
        from "1.IH"(2) [OF refl refl fits _ nt "1.prems"(1) this] show ?thesis
          using fits second nt by (subst memmem_loop.simps) (simp only: Let_def if_True if_False simp_thms not_True_eq_False)
      qed
    qed
  qed
qed

lemma memchr_first: "first_occurrence y [c] (memchr y c)"
proof (induction y)
  case Nil
  then show ?case by (simp add: first_occurrence_def occurs_at_def)
next
  case (Cons b y)
  have step: "occurs_at (b # y) [c] i \<longleftrightarrow> (case i of 0 \<Rightarrow> b = c | Suc i' \<Rightarrow> occurs_at y [c] i')" for i
    by (cases i) (auto simp: occurs_at_def)
  show ?case
  proof (cases "b = c")
    case True
    then show ?thesis by (simp add: first_occurrence_def occurs_at_def)
  next
    case False
    then show ?thesis
      using Cons.IH by (auto simp: first_occurrence_def step split: option.splits nat.splits)
  qed
qed

text \<open>
  C22: The bundled substring search, which skips positions by comparing the second byte of the needle
  first, agrees with its specification: for a needle that is not empty it returns the first position
  where the needle occurs, and \<open>NULL\<close> exactly when it occurs nowhere.
\<close>

theorem memmem_correct:
  assumes "needle \<noteq> []"
  shows "first_occurrence haystack needle (memmem haystack needle)"
proof (cases "length needle > length haystack \<or> length haystack = 0")
  case True
  then have "\<not> occurs_at haystack needle i" for i using assms by (auto simp: occurs_at_def)
  then show ?thesis using True by (auto simp: memmem_def first_occurrence_def)
next
  case False
  show ?thesis
  proof (cases "length needle > 1")
    case True
    then show ?thesis
      using memmem_loop_first [of needle 0 haystack] False assms by (simp add: memmem_def)
  next
    case one: False
    then obtain c where "needle = [c]" using assms by (cases needle) auto
    then show ?thesis using memchr_first [of haystack c] False by (simp add: memmem_def)
  qed
qed

lemma memmem_correct_witness: "first_occurrence [1, 1, 2, 1, 1, 1, 3] [1, 1, 3] (Some 4)"
proof -
  have "memmem [1, 1, 2, 1, 1, 1, 3] [1, 1, 3] = Some 4" by code_simp
  then show ?thesis using memmem_correct [of "[1, 1, 3]" "[1, 1, 2, 1, 1, 1, 3]"] by simp
qed

end
