(* ===== verification/Fibers.thy ===== *)
theory Fibers
  imports Arrays
begin

text \<open>
  The parts of \<open>vm.c\<close> that work on a fiber: the capture and closing of upvalues, call frames
  and the layout of arguments, and the stack of exception handlers.  A slot of the value stack is its
  index from the bottom; what lies above \<open>stackTop\<close> is not specified.
\<close>

section \<open>The active fiber\<close>

definition active_fiber :: "run_ctx \<Rightarrow> vm \<Rightarrow> fiber option" where
  "active_fiber rc vm = (case rc of
       None \<Rightarrow> vm_initFiber vm
     | Some i \<Rightarrow> if i < length (vm_handles vm)
                 then (case vm_handles vm ! i of RunCtxHandle fb \<Rightarrow> fb | _ \<Rightarrow> None) else None)"

lemma active_upd_fiber [simp]: "active_fiber rc (upd_fiber rc f vm) = map_option f (active_fiber rc vm)"
  by (auto simp: active_fiber_def upd_fiber_def split: option.splits handle.splits)

definition set_fiber :: "run_ctx \<Rightarrow> fiber \<Rightarrow> vm \<Rightarrow> vm" where
  "set_fiber rc f = upd_fiber rc (\<lambda>_. f)"

text \<open>\<open>popn\<close> takes its count as a \<open>uint8_t\<close>.\<close>

definition popn :: "nat \<Rightarrow> val list \<Rightarrow> val list option" where
  "popn n st = (if n mod 256 \<le> length st then Some (take (length st - n mod 256) st) else None)"

definition peek :: "val list \<Rightarrow> nat \<Rightarrow> val option" where
  "peek st distance = (if distance < length st then Some (st ! (length st - 1 - distance)) else None)"

section \<open>Upvalues\<close>

definition as_upvalue :: "obj option \<Rightarrow> obj_upvalue option" where
  "as_upvalue ob = (case ob of Some (OUpvalue u) \<Rightarrow> Some u | _ \<Rightarrow> None)"

definition open_slot :: "heap \<Rightarrow> addr \<Rightarrow> nat option" where
  "open_slot h a = do { u \<leftarrow> as_upvalue (map_option c_obj (h a));
                        case uv_location u of StackSlot s \<Rightarrow> Some s | OwnValue \<Rightarrow> None }"

text \<open>The search of \<open>captureUpvalue\<close>: the list before and from the place of \<open>local\<close>.\<close>

fun split_upvalues :: "heap \<Rightarrow> nat \<Rightarrow> addr list \<Rightarrow> (addr list \<times> addr list) option" where
  "split_upvalues h local [] = Some ([], [])"
| "split_upvalues h local (u # us) =
     do { s \<leftarrow> open_slot h u;
          if s > local then do { (before, rest) \<leftarrow> split_upvalues h local us; Some (u # before, rest) }
          else Some ([], u # us) }"

definition captureUpvalue ::
  "(nat \<Rightarrow> bool) \<Rightarrow> env \<Rightarrow> run_ctx \<Rightarrow> nat \<Rightarrow> vm \<Rightarrow> (addr option \<times> vm) option" where
  "captureUpvalue mem env rc local vm =
     do { f \<leftarrow> active_fiber rc vm;
          (before, rest) \<leftarrow> split_upvalues (vm_heap vm) local (fb_openUpvalues f);
          case rest of
            u # _ \<Rightarrow> if open_slot (vm_heap vm) u = Some local then Some (Some u, vm)
                     else do { (created, vm1) \<leftarrow> newUpvalue mem env local vm;
                               case created of
                                 None \<Rightarrow> Some (None, vm1)
                               | Some a \<Rightarrow> Some (Some a, upd_fiber rc (fb_openUpvalues_update (\<lambda>_. before @ a # rest)) vm1) }
          | [] \<Rightarrow> do { (created, vm1) \<leftarrow> newUpvalue mem env local vm;
                       case created of
                         None \<Rightarrow> Some (None, vm1)
                       | Some a \<Rightarrow> Some (Some a, upd_fiber rc (fb_openUpvalues_update (\<lambda>_. before @ a # rest)) vm1) } }"

text \<open>Closing one upvalue, and all of them from a slot upwards.\<close>

definition close_one :: "val list \<Rightarrow> addr \<Rightarrow> vm \<Rightarrow> vm option" where
  "close_one stack a vm =
     do { s \<leftarrow> open_slot (vm_heap vm) a;
          if s < length stack
          then set_obj a (OUpvalue \<lparr>uv_location = OwnValue, uv_closed = stack ! s\<rparr>) vm
          else None }"

fun close_list :: "val list \<Rightarrow> nat \<Rightarrow> addr list \<Rightarrow> vm \<Rightarrow> (addr list \<times> vm) option" where
  "close_list stack low [] vm = Some ([], vm)"
| "close_list stack low (a # us) vm =
     do { s \<leftarrow> open_slot (vm_heap vm) a;
          if s \<ge> low then do { vm1 \<leftarrow> close_one stack a vm; close_list stack low us vm1 }
          else Some (a # us, vm) }"

definition closeUpvalues :: "run_ctx \<Rightarrow> nat \<Rightarrow> vm \<Rightarrow> vm option" where
  "closeUpvalues rc low vm =
     do { f \<leftarrow> active_fiber rc vm;
          (us, vm1) \<leftarrow> close_list (fb_stack f) low (fb_openUpvalues f) vm;
          Some (upd_fiber rc (fb_openUpvalues_update (\<lambda>_. us)) vm1) }"

text \<open>Reading and writing through an upvalue (\<open>GET_UPVALUE\<close>, \<open>SET_UPVALUE\<close>).\<close>

definition get_upvalue :: "val list \<Rightarrow> addr \<Rightarrow> heap \<Rightarrow> val option" where
  "get_upvalue stack a h =
     do { u \<leftarrow> as_upvalue (map_option c_obj (h a));
          case uv_location u of
            StackSlot s \<Rightarrow> if s < length stack then Some (stack ! s) else None
          | OwnValue \<Rightarrow> Some (uv_closed u) }"

definition set_upvalue :: "run_ctx \<Rightarrow> addr \<Rightarrow> val \<Rightarrow> vm \<Rightarrow> vm option" where
  "set_upvalue rc a v vm =
     do { f \<leftarrow> active_fiber rc vm;
          u \<leftarrow> as_upvalue (get_obj vm a);
          case uv_location u of
            StackSlot s \<Rightarrow> if s < length (fb_stack f)
                           then Some (upd_fiber rc (fb_stack_update (\<lambda>st. st[s := v])) vm) else None
          | OwnValue \<Rightarrow> set_obj a (OUpvalue (u\<lparr>uv_closed := v\<rparr>)) vm }"

section \<open>Open upvalues\<close>

text \<open>The list is sorted by slot, from the top of the stack downwards, one upvalue for each slot.\<close>

definition upvalues_ok :: "heap \<Rightarrow> nat \<Rightarrow> addr list \<Rightarrow> bool" where
  "upvalues_ok h n us \<longleftrightarrow> (\<forall>a\<in>set us. \<exists>s<n. open_slot h a = Some s) \<and>
     sorted_wrt (\<lambda>a b. the (open_slot h a) > the (open_slot h b)) us"

lemma upvalues_ok_Nil [simp]: "upvalues_ok h n []"
  by (simp add: upvalues_ok_def)

lemma upvalues_ok_Cons:
  "upvalues_ok h n (a # us) \<longleftrightarrow> (\<exists>s<n. open_slot h a = Some s) \<and>
     (\<forall>b\<in>set us. the (open_slot h a) > the (open_slot h b)) \<and> upvalues_ok h n us"
  by (auto simp: upvalues_ok_def)

lemma open_slot_cong: "h' a = h a \<Longrightarrow> open_slot h' a = open_slot h a"
  by (simp add: open_slot_def)

lemma upvalues_ok_cong:
  assumes "\<And>a. a \<in> set us \<Longrightarrow> open_slot h' a = open_slot h a" "upvalues_ok h n us"
  shows "upvalues_ok h' n us"
  using assms by (induction us) (auto simp: upvalues_ok_Cons)

lemma upvalues_ok_distinct: "upvalues_ok h n us \<Longrightarrow> distinct us"
  by (induction us) (auto simp: upvalues_ok_Cons)

lemma split_upvalues_spec:
  assumes "upvalues_ok h n us"
  shows "\<exists>before rest. split_upvalues h local us = Some (before, rest) \<and> us = before @ rest \<and>
    (\<forall>a\<in>set before. the (open_slot h a) > local) \<and> (\<forall>a\<in>set rest. the (open_slot h a) \<le> local)"
  using assms
proof (induction us)
  case Nil
  then show ?case by simp
next
  case (Cons a us)
  then obtain s where s: "open_slot h a = Some s" "\<forall>b\<in>set us. s > the (open_slot h b)" "upvalues_ok h n us"
    by (auto simp: upvalues_ok_Cons)
  show ?case
  proof (cases "s > local")
    case True
    from Cons.IH [OF s(3)] obtain before rest where "split_upvalues h local us = Some (before, rest)" "us = before @ rest"
      "\<forall>a\<in>set before. the (open_slot h a) > local" "\<forall>a\<in>set rest. the (open_slot h a) \<le> local" by blast
    then show ?thesis using True s(1) by simp
  next
    case False
    then show ?thesis using s(1,2) by (intro exI [of _ "[]"] exI [of _ "a # us"]) auto
  qed
qed

text \<open>Inserting the new upvalue keeps the order.\<close>

lemma upvalues_ok_insert:
  assumes "upvalues_ok h n (before @ rest)" and "open_slot h a = Some local" "local < n"
    and "\<forall>b\<in>set before. the (open_slot h b) > local" "\<forall>b\<in>set rest. the (open_slot h b) < local"
  shows "upvalues_ok h n (before @ a # rest)"
  using assms by (auto simp: upvalues_ok_def sorted_wrt_append)

section \<open>Capturing\<close>

definition fiber_ok :: "run_ctx \<Rightarrow> vm \<Rightarrow> fiber \<Rightarrow> bool" where
  "fiber_ok rc vm f \<longleftrightarrow> active_fiber rc vm = Some f \<and> upvalues_ok (vm_heap vm) (length (fb_stack f)) (fb_openUpvalues f)"

lemma newUpvalue_quiet:
  assumes "fresh_env env" "quiet vm 48"
  obtains vm' where "newUpvalue mem env slot vm = Some (None, vm')" "vm_heap vm' = vm_heap vm"
      "active_fiber rc vm' = active_fiber rc vm"
  | vm' a where "newUpvalue mem env slot vm = Some (Some a, vm')" "vm_heap vm a = None"
      "\<forall>b. b \<noteq> a \<longrightarrow> vm_heap vm' b = vm_heap vm b" "open_slot (vm_heap vm') a = Some slot"
      "active_fiber rc vm' = active_fiber rc vm"
proof -
  from reallocate_quiet [of vm 48 0 mem True] assms(2) obtain vm1 where
    r: "reallocate mem True 0 48 vm = Some (True, vm1)" "bytes_frame vm vm1" by auto
  note same = bytes_frameD [OF r(2)]
  have af: "active_fiber rc vm1 = active_fiber rc vm" using r(2) by (auto simp: bytes_frame_def active_fiber_def split: option.split)
  show thesis
  proof (cases "env vm1 48")
    case None
    then show thesis using r(1) same af by (intro that(1) [of vm1]) (simp_all add: newUpvalue_def allocateObject_def)
  next
    case (Some a)
    let ?ob = "OUpvalue \<lparr>uv_location = StackSlot slot, uv_closed = VNil\<rparr>"
    have "vm_heap vm a = None" using Some assms(1) same by (metis fresh_env_def)
    moreover have "newUpvalue mem env slot vm = Some (Some a, link_object a ?ob vm1)"
      using r(1) Some by (simp add: newUpvalue_def allocateObject_def)
    moreover have "active_fiber rc (link_object a ?ob vm1) = active_fiber rc vm"
      unfolding af [symmetric] by (simp add: active_fiber_def link_object_def Let_def split: option.split)
    ultimately show thesis
      using same by (intro that(2) [of a "link_object a ?ob vm1"]) (auto simp: link_object_def Let_def open_slot_def as_upvalue_def)
  qed
qed

text \<open>
  C12: Capturing a variable below the collection threshold keeps the list of open upvalues sorted and
  without two upvalues for one slot, returns an upvalue that is open on exactly this slot (or
  \<open>NULL\<close> for no memory), and returns the same upvalue again when the slot has been captured
  before: closures that capture one variable share it.
\<close>

theorem captureUpvalue_correct:
  assumes "fresh_env env" and "quiet vm 48" and "fiber_ok rc vm f" and "local < length (fb_stack f)"
  shows "\<exists>r vm' f'. captureUpvalue mem env rc local vm = Some (r, vm') \<and> fiber_ok rc vm' f' \<and>
    fb_stack f' = fb_stack f \<and> (\<forall>a. vm_heap vm a \<noteq> None \<longrightarrow> vm_heap vm' a = vm_heap vm a) \<and>
    (case r of
       None \<Rightarrow> fb_openUpvalues f' = fb_openUpvalues f
     | Some a \<Rightarrow> open_slot (vm_heap vm') a = Some local \<and> a \<in> set (fb_openUpvalues f') \<and>
         set (fb_openUpvalues f') = insert a (set (fb_openUpvalues f)) \<and>
         (\<forall>b\<in>set (fb_openUpvalues f). open_slot (vm_heap vm) b = Some local \<longrightarrow> a = b))"
proof -
  let ?h = "vm_heap vm" and ?us = "fb_openUpvalues f" and ?n = "length (fb_stack f)"
  have f: "active_fiber rc vm = Some f" and ok: "upvalues_ok ?h ?n ?us" using assms(3) by (auto simp: fiber_ok_def)
  obtain before rest where sp: "split_upvalues ?h local ?us = Some (before, rest)" "?us = before @ rest"
    "\<forall>a\<in>set before. the (open_slot ?h a) > local" "\<forall>a\<in>set rest. the (open_slot ?h a) \<le> local"
    using split_upvalues_spec [OF ok] by blast
  have slots: "\<exists>s<?n. open_slot ?h a = Some s" if "a \<in> set ?us" for a using ok that by (auto simp: upvalues_ok_def)
  have uniq: "a = b" if "a \<in> set ?us" "b \<in> set ?us" "open_slot ?h a = open_slot ?h b" for a b
  proof (rule ccontr)
    assume "a \<noteq> b"
    from that(1,2) obtain i j where ij: "i < length ?us" "j < length ?us" "?us ! i = a" "?us ! j = b"
      by (auto simp: in_set_conv_nth)
    have gt: "the (open_slot ?h (?us ! k)) > the (open_slot ?h (?us ! l))" if "k < l" "l < length ?us" for k l
      using ok that by (simp add: upvalues_ok_def sorted_wrt_iff_nth_less)
    consider "i < j" | "j < i" using ij \<open>a \<noteq> b\<close> by (metis linorder_neqE_nat)
    then show False using gt [of i j] gt [of j i] ij that(3) by cases auto
  qed
  show ?thesis
  proof (cases "\<exists>u us'. rest = u # us' \<and> open_slot ?h u = Some local")
    case True
    then obtain u us' where u: "rest = u # us'" "open_slot ?h u = Some local" by blast
    have mem: "u \<in> set ?us" using sp(2) u(1) by simp
    have "captureUpvalue mem env rc local vm = Some (Some u, vm)"
      using f sp(1) u by (simp add: captureUpvalue_def)
    then show ?thesis using assms(3) u(2) mem uniq by auto
  next
    case False
    have lt: "\<forall>a\<in>set rest. the (open_slot ?h a) < local"
    proof (cases rest)
      case (Cons u us')
      obtain s where s: "open_slot ?h u = Some s" using slots [of u] sp(2) Cons by auto
      then have "s < local" using sp(4) Cons False by (auto simp: order_less_le)
      moreover have "\<forall>b\<in>set us'. the (open_slot ?h b) < s"
        using ok s unfolding sp(2) Cons by (auto simp: upvalues_ok_def sorted_wrt_append)
      ultimately show ?thesis using s Cons by auto
    qed simp
    have fresh: "open_slot ?h b \<noteq> Some local" if "b \<in> set ?us" for b
      using that sp(2,3) lt by auto
    have cap: "captureUpvalue mem env rc local vm = (newUpvalue mem env local vm \<bind> (\<lambda>(created, vm1).
        case created of None \<Rightarrow> Some (None, vm1)
        | Some a \<Rightarrow> Some (Some a, upd_fiber rc (fb_openUpvalues_update (\<lambda>_. before @ a # rest)) vm1)))"
      using f sp(1) False by (auto simp: captureUpvalue_def split: list.split)
    show ?thesis
    proof (rule newUpvalue_quiet [OF assms(1,2), of mem local rc])
      fix vm1
      assume "newUpvalue mem env local vm = Some (None, vm1)" "vm_heap vm1 = ?h" "active_fiber rc vm1 = active_fiber rc vm"
      then show ?thesis using cap f ok by (auto simp: fiber_ok_def)
    next
      fix vm1 a
      assume n: "newUpvalue mem env local vm = Some (Some a, vm1)" "?h a = None"
        "\<forall>b. b \<noteq> a \<longrightarrow> vm_heap vm1 b = ?h b" "open_slot (vm_heap vm1) a = Some local"
        "active_fiber rc vm1 = active_fiber rc vm"
      let ?f' = "f\<lparr>fb_openUpvalues := before @ a # rest\<rparr>"
      have new: "a \<notin> set ?us" using slots [of a] n(2) by (auto simp: open_slot_def as_upvalue_def)
      have same: "open_slot (vm_heap vm1) b = open_slot ?h b" if "b \<in> set ?us" for b
        using n(3) that new by (intro open_slot_cong) auto
      have ok1: "upvalues_ok (vm_heap vm1) ?n (before @ rest)"
        using upvalues_ok_cong [OF same ok] sp(2) by simp
      have "upvalues_ok (vm_heap vm1) ?n (before @ a # rest)"
        by (rule upvalues_ok_insert [OF ok1 n(4) assms(4)]) (use sp(2,3) lt same in auto)
      then have "fiber_ok rc (upd_fiber rc (fb_openUpvalues_update (\<lambda>_. before @ a # rest)) vm1) ?f'"
        using n(5) f by (simp add: fiber_ok_def)
      moreover have "captureUpvalue mem env rc local vm
          = Some (Some a, upd_fiber rc (fb_openUpvalues_update (\<lambda>_. before @ a # rest)) vm1)"
        using cap n(1) by simp
      moreover have "\<forall>b. ?h b \<noteq> None \<longrightarrow> vm_heap vm1 b = ?h b" using n(2,3) by metis
      ultimately show ?thesis using n(4) fresh sp(2) by (intro exI [of _ "Some a"]) auto
    qed
  qed
qed

definition captured_vm :: vm where
  "captured_vm = blank_vm Map.empty [] [VNil, VBool True] blank_table"

lemma captureUpvalue_correct_witness:
  "\<exists>r vm' f'. captureUpvalue (\<lambda>_. True) two_cells None 1 captured_vm = Some (r, vm') \<and> fiber_ok None vm' f' \<and>
    (\<forall>a. r = Some a \<longrightarrow> open_slot (vm_heap vm') a = Some 1)"
proof -
  have "fiber_ok None captured_vm \<lparr>fb_frames = [], fb_stack = [VNil, VBool True], fb_openUpvalues = [], fb_temps = []\<rparr>"
    by (simp add: fiber_ok_def active_fiber_def captured_vm_def blank_vm_def)
  moreover have "quiet captured_vm 48" by (simp add: quiet_def captured_vm_def blank_vm_def)
  ultimately show ?thesis
    using captureUpvalue_correct [OF two_cells_fresh, of captured_vm None _ 1 "\<lambda>_. True"] by fastforce
qed

section \<open>Closing\<close>

lemma set_obj_heap:
  "set_obj a ob vm = Some vm' \<Longrightarrow> vm_heap vm' a = map_option (\<lambda>c. c\<lparr>c_obj := ob\<rparr>) (vm_heap vm a) \<and>
    (\<forall>b. b \<noteq> a \<longrightarrow> vm_heap vm' b = vm_heap vm b) \<and> active_fiber rc vm' = active_fiber rc vm"
  by (auto simp: set_obj_def bind_eq_Some_conv active_fiber_def split: option.split)

lemma open_slot_obj: "open_slot h a = Some s \<Longrightarrow> \<exists>c. h a = Some c"
  by (auto simp: open_slot_def as_upvalue_def bind_eq_Some_conv split: option.splits)

definition closed_over :: "heap \<Rightarrow> addr \<Rightarrow> val \<Rightarrow> bool" where
  "closed_over h a v \<longleftrightarrow> (\<exists>c. h a = Some (c\<lparr>c_obj := OUpvalue \<lparr>uv_location = OwnValue, uv_closed = v\<rparr>\<rparr>))"

lemma get_upvalue_closed: "closed_over h a v \<Longrightarrow> get_upvalue st a h = Some v"
  by (auto simp: get_upvalue_def as_upvalue_def closed_over_def)

lemma get_upvalue_open: "open_slot h a = Some s \<Longrightarrow> get_upvalue st a h = (if s < length st then Some (st ! s) else None)"
  unfolding open_slot_def get_upvalue_def
  by (cases "as_upvalue (map_option c_obj (h a))") (auto split: location.splits)

lemma get_upvalue_cong: "h' a = h a \<Longrightarrow> get_upvalue st a h' = get_upvalue st a h"
  by (simp add: get_upvalue_def)

lemma close_list_spec:
  assumes "upvalues_ok (vm_heap vm) (length stack) us"
  shows "\<exists>us' vm'. close_list stack low us vm = Some (us', vm') \<and> us' = dropWhile (\<lambda>a. the (open_slot (vm_heap vm) a) \<ge> low) us \<and>
    (\<forall>a\<in>set us. the (open_slot (vm_heap vm) a) \<ge> low \<longrightarrow> closed_over (vm_heap vm') a (stack ! the (open_slot (vm_heap vm) a))) \<and>
    (\<forall>a. a \<notin> set us \<or> the (open_slot (vm_heap vm) a) < low \<longrightarrow> vm_heap vm' a = vm_heap vm a) \<and>
    active_fiber rc vm' = active_fiber rc vm"
  using assms
proof (induction us arbitrary: vm)
  case Nil
  then show ?case by simp
next
  case (Cons a us)
  obtain s where s: "open_slot (vm_heap vm) a = Some s" "s < length stack" and ok: "upvalues_ok (vm_heap vm) (length stack) us"
    and d: "a \<notin> set us" using Cons.prems upvalues_ok_distinct [OF Cons.prems] by (auto simp: upvalues_ok_Cons)
  have below: "\<forall>b\<in>set us. the (open_slot (vm_heap vm) b) < s" using Cons.prems s(1) by (simp add: upvalues_ok_Cons)
  show ?case
  proof (cases "s \<ge> low")
    case False
    then show ?thesis using s below by (intro exI [of _ "a # us"] exI [of _ vm]) auto
  next
    case True
    obtain c where c: "vm_heap vm a = Some c" using open_slot_obj [OF s(1)] by blast
    then obtain vm1 where v1: "set_obj a (OUpvalue \<lparr>uv_location = OwnValue, uv_closed = stack ! s\<rparr>) vm = Some vm1"
      by (simp add: set_obj_def)
    note h1 = set_obj_heap [OF v1, of rc]
    have slots: "open_slot (vm_heap vm1) b = open_slot (vm_heap vm) b" if "b \<in> set us" for b
      using h1 that d by (intro open_slot_cong) auto
    have ok1: "upvalues_ok (vm_heap vm1) (length stack) us" by (rule upvalues_ok_cong [OF slots ok])
    from Cons.IH [OF ok1] obtain us' vm' where r: "close_list stack low us vm1 = Some (us', vm')"
      "us' = dropWhile (\<lambda>a. the (open_slot (vm_heap vm1) a) \<ge> low) us"
      "\<forall>a\<in>set us. the (open_slot (vm_heap vm1) a) \<ge> low \<longrightarrow> closed_over (vm_heap vm') a (stack ! the (open_slot (vm_heap vm1) a))"
      "\<forall>a. a \<notin> set us \<or> the (open_slot (vm_heap vm1) a) < low \<longrightarrow> vm_heap vm' a = vm_heap vm1 a"
      "active_fiber rc vm' = active_fiber rc vm1" by blast
    have us': "us' = dropWhile (\<lambda>a. the (open_slot (vm_heap vm) a) \<ge> low) us"
      unfolding r(2) by (rule dropWhile_cong) (simp_all add: slots)
    have "vm_heap vm' a = vm_heap vm1 a" using r(4) d by blast
    then have a_val: "closed_over (vm_heap vm') a (stack ! s)" using h1 c by (auto simp: closed_over_def)
    have frame: "vm_heap vm' b = vm_heap vm b" if "b \<notin> set (a # us) \<or> the (open_slot (vm_heap vm) b) < low" for b
    proof (cases "b = a")
      case True
      then show ?thesis using that s(1) \<open>s \<ge> low\<close> by simp
    next
      case False
      then have "vm_heap vm1 b = vm_heap vm b" using h1 by blast
      moreover have "b \<notin> set us \<or> the (open_slot (vm_heap vm1) b) < low" using that slots [of b] by (cases "b \<in> set us") simp_all
      ultimately show ?thesis using r(4) by simp
    qed
    show ?thesis
      using True s v1 r(1,3,5) us' a_val slots frame h1
      by (intro exI [of _ us'] exI [of _ vm']) (simp add: close_one_def)
  qed
qed

text \<open>
  Closing the upvalues from a slot upwards (at the end of a scope or when a function returns) never
  fails on a sorted list: those upwards own their values afterwards, nothing else changes.
\<close>

lemma closeUpvalues_spec:
  assumes "fiber_ok rc vm f"
  shows "\<exists>vm' us. closeUpvalues rc low vm = Some vm' \<and> active_fiber rc vm' = Some (f\<lparr>fb_openUpvalues := us\<rparr>) \<and>
    upvalues_ok (vm_heap vm) (length (fb_stack f)) us \<and>
    set us = {a \<in> set (fb_openUpvalues f). the (open_slot (vm_heap vm) a) < low} \<and>
    (\<forall>a\<in>set (fb_openUpvalues f). the (open_slot (vm_heap vm) a) \<ge> low \<longrightarrow>
       closed_over (vm_heap vm') a (fb_stack f ! the (open_slot (vm_heap vm) a))) \<and>
    (\<forall>a. a \<notin> set (fb_openUpvalues f) \<or> a \<in> set us \<longrightarrow> vm_heap vm' a = vm_heap vm a)"
proof -
  let ?h = "vm_heap vm" and ?us = "fb_openUpvalues f" and ?n = "length (fb_stack f)"
  let ?up = "\<lambda>a. the (open_slot ?h a) \<ge> low"
  have f: "active_fiber rc vm = Some f" and ok: "upvalues_ok ?h ?n ?us" using assms by (auto simp: fiber_ok_def)
  obtain us' vm1 where c: "close_list (fb_stack f) low ?us vm = Some (us', vm1)" "us' = dropWhile ?up ?us"
    "\<forall>a\<in>set ?us. ?up a \<longrightarrow> closed_over (vm_heap vm1) a (fb_stack f ! the (open_slot ?h a))"
    "\<forall>a. a \<notin> set ?us \<or> the (open_slot ?h a) < low \<longrightarrow> vm_heap vm1 a = ?h a" "active_fiber rc vm1 = active_fiber rc vm"
    using close_list_spec [OF ok, of low rc] by blast
  have sorted: "sorted_wrt (\<lambda>a b. the (open_slot ?h a) > the (open_slot ?h b)) ?us" using ok by (simp add: upvalues_ok_def)
  have rest: "set (dropWhile ?up us) = {a \<in> set us. the (open_slot ?h a) < low}"
    if "sorted_wrt (\<lambda>a b. the (open_slot ?h a) > the (open_slot ?h b)) us" for us
    using that by (induction us) auto
  have sub: "set us' = {a \<in> set ?us. the (open_slot ?h a) < low}" using rest [OF sorted] c(2) by simp
  have "upvalues_ok ?h ?n us'"
    using ok sub sorted_wrt_drop [OF sorted, of "length (takeWhile ?up ?us)"]
    unfolding c(2) upvalues_ok_def dropWhile_eq_drop by auto
  moreover have "closeUpvalues rc low vm = Some (upd_fiber rc (fb_openUpvalues_update (\<lambda>_. us')) vm1)"
    using f c(1) by (simp add: closeUpvalues_def)
  ultimately show ?thesis
    using sub c(3,4,5) f by (intro exI [of _ "upd_fiber rc (fb_openUpvalues_update (\<lambda>_. us')) vm1"] exI [of _ us']) auto
qed

definition open_vm :: vm where
  "open_vm = (blank_vm [7 \<mapsto> \<lparr>c_markers = 0, c_obj = OUpvalue \<lparr>uv_location = StackSlot 1, uv_closed = VNil\<rparr>\<rparr>] [7]
      [VNil, VBool True] blank_table)\<lparr>vm_initFiber := Some \<lparr>fb_frames = [], fb_stack = [VNil, VBool True],
        fb_openUpvalues = [7], fb_temps = []\<rparr>\<rparr>"

section \<open>Call frames\<close>

text \<open>
  Frames come from the machine's list of free ones.  What a constructor leaves unset in a reused frame
  is not read before it is set.
\<close>

definition unset_frame :: call_frame where
  "unset_frame = \<lparr>cf_closure = None, cf_function = None, cf_ip = 0, cf_slots = 0, cf_fixedArgs = 0, cf_varArgs = 0,
     cf_argOffset = 0, cf_stackArgs = 0, cf_callStart = False, cf_handlers = []\<rparr>"

definition upd_frame :: "run_ctx \<Rightarrow> (call_frame \<Rightarrow> call_frame) \<Rightarrow> vm \<Rightarrow> vm" where
  "upd_frame rc g = upd_fiber rc (fb_frames_update (\<lambda>fs. case fs of [] \<Rightarrow> [] | fr # frs \<Rightarrow> g fr # frs))"

definition active_frame :: "run_ctx \<Rightarrow> vm \<Rightarrow> call_frame option" where
  "active_frame rc vm = do { f \<leftarrow> active_fiber rc vm; case fb_frames f of [] \<Rightarrow> None | fr # _ \<Rightarrow> Some fr }"

definition allocCallFrame :: "(nat \<Rightarrow> bool) \<Rightarrow> env \<Rightarrow> run_ctx \<Rightarrow> vm \<Rightarrow> (bool \<times> vm) option" where
  "allocCallFrame mem env rc vm =
     do { (ok, vm1) \<leftarrow> (if vm_freeFrames vm > 0 then Some (True, vm\<lparr>vm_freeFrames := vm_freeFrames vm - 1\<rparr>)
                        else alloc_block mem env 144 vm);
          Some (ok, if ok then upd_fiber rc (fb_frames_update (\<lambda>fs. unset_frame # fs)) vm1 else vm1) }"

definition releaseCallFrame :: "run_ctx \<Rightarrow> vm \<Rightarrow> vm" where
  "releaseCallFrame rc vm = upd_fiber rc (fb_frames_update tl) (vm\<lparr>vm_freeFrames := vm_freeFrames vm + 1\<rparr>)"

text \<open>The stack, the number of arguments on it and the number of those that were missing.\<close>

definition adjustArgs :: "val list \<Rightarrow> int \<Rightarrow> nat \<Rightarrow> nat \<Rightarrow> val list \<Rightarrow> (val list \<times> int \<times> int) option" where
  "adjustArgs defaultValues argCount arity maxArgs st =
     (if argCount = int arity then Some (st, argCount, 0)
      else if argCount < int arity
      then if 0 \<le> argCount \<and> arity \<le> length defaultValues
           then Some (st @ take (arity - nat argCount) (drop (nat argCount) defaultValues), int arity, int arity - argCount)
           else None
      else if argCount > int maxArgs
      then let extraArgs = argCount - int maxArgs
           in do { st' \<leftarrow> popn (nat extraArgs) st; Some (st', argCount - extraArgs, 0) }
      else Some (st, argCount, 0))"

definition setupStackFrame ::
  "(nat \<Rightarrow> bool) \<Rightarrow> env \<Rightarrow> run_ctx \<Rightarrow> val list \<Rightarrow> int \<Rightarrow> nat \<Rightarrow> nat \<Rightarrow> nat \<Rightarrow> vm \<Rightarrow> (bool \<times> vm) option" where
  "setupStackFrame mem env rc defaultValues argCount arity maxArgs argOffset vm =
     do { (ok, vm1) \<leftarrow> allocCallFrame mem env rc vm;
          if \<not> ok then Some (False, vm1)
          else do { f \<leftarrow> active_fiber rc vm1;
                    (st, stackArgs, missingArgs) \<leftarrow>
                       adjustArgs defaultValues (argCount - int argOffset) arity maxArgs (fb_stack f);
                    let slots = int (length st) - stackArgs - 1
                    in if slots < 0 then None
                       else Some (True, upd_frame rc (\<lambda>fr. fr\<lparr>cf_slots := nat slots, cf_fixedArgs := arity mod 256,
                                    cf_varArgs := nat ((argCount - int argOffset + missingArgs - int arity) mod 256),
                                    cf_argOffset := argOffset\<rparr>)
                                  (upd_fiber rc (fb_stack_update (\<lambda>_. st)) vm1)) } }"

definition setupNativeStackFrame ::
  "(nat \<Rightarrow> bool) \<Rightarrow> env \<Rightarrow> run_ctx \<Rightarrow> val list \<Rightarrow> int \<Rightarrow> nat \<Rightarrow> nat \<Rightarrow> nat \<Rightarrow> vm \<Rightarrow> (bool \<times> vm) option" where
  "setupNativeStackFrame mem env rc defaultValues argCount arity maxArgs argOffset vm =
     do { (ok, vm1) \<leftarrow> allocCallFrame mem env rc vm;
          if \<not> ok then Some (False, vm1)
          else do { f \<leftarrow> active_fiber rc vm1;
                    (st, stackArgs, _) \<leftarrow> adjustArgs defaultValues argCount arity maxArgs (fb_stack f);
                    let slots = int (length st) - stackArgs + int argOffset
                    in if slots < 0 then None
                       else Some (True, upd_frame rc (\<lambda>fr. fr\<lparr>cf_slots := nat slots, cf_argOffset := argOffset,
                                    cf_stackArgs := nat (stackArgs mod 2 ^ 16)\<rparr>)
                                  (upd_fiber rc (fb_stack_update (\<lambda>_. st)) vm1)) } }"

section \<open>Calls\<close>

definition defaults_of :: "val list option \<Rightarrow> val list" where
  "defaults_of d = (case d of None \<Rightarrow> [] | Some vs \<Rightarrow> vs)"

definition call ::
  "(nat \<Rightarrow> bool) \<Rightarrow> env \<Rightarrow> run_ctx \<Rightarrow> addr option \<Rightarrow> addr \<Rightarrow> int \<Rightarrow> nat \<Rightarrow> vm \<Rightarrow> ((native_error + unit) \<times> vm) option" where
  "call mem env rc closure function argCount argOffset vm =
     do { fn \<leftarrow> as_function (get_obj vm function);
          (ok, vm1) \<leftarrow> setupStackFrame mem env rc (defaults_of (fn_defaultArgs fn)) argCount
                          (fn_arity fn - (if fn_isMethod fn then 1 else 0)) (fn_maxArgs fn) argOffset vm;
          if \<not> ok then Some (Inl OutOfMemory, vm1)
          else Some (Inr (), upd_frame rc (\<lambda>fr. fr\<lparr>cf_callStart := False, cf_closure := closure,
                 cf_function := Some function, cf_ip := 0, cf_handlers := []\<rparr>) vm1) }"

definition as_closure :: "obj option \<Rightarrow> obj_closure option" where
  "as_closure ob = (case ob of Some (OClosure c) \<Rightarrow> Some c | _ \<Rightarrow> None)"

definition callClosure ::
  "(nat \<Rightarrow> bool) \<Rightarrow> env \<Rightarrow> run_ctx \<Rightarrow> addr \<Rightarrow> int \<Rightarrow> nat \<Rightarrow> vm \<Rightarrow> ((native_error + unit) \<times> vm) option" where
  "callClosure mem env rc closure argCount argOffset vm =
     do { c \<leftarrow> as_closure (get_obj vm closure);
          call mem env rc (Some closure) (cl_function c) argCount argOffset vm }"

definition callFunction ::
  "(nat \<Rightarrow> bool) \<Rightarrow> env \<Rightarrow> run_ctx \<Rightarrow> addr \<Rightarrow> int \<Rightarrow> nat \<Rightarrow> vm \<Rightarrow> ((native_error + unit) \<times> vm) option" where
  "callFunction mem env rc function argCount argOffset vm = call mem env rc None function argCount argOffset vm"

text \<open>
  \<open>code\<close> runs a native function (for closures, with the address of the closure, whose
  upvalues it gets) on its frame.
\<close>

type_synonym native_code = "nat \<Rightarrow> addr option \<Rightarrow> call_frame \<Rightarrow> vm \<Rightarrow> ((native_error + val) \<times> vm) option"

definition run_native ::
  "native_code \<Rightarrow> run_ctx \<Rightarrow> nat \<Rightarrow> addr option \<Rightarrow> bool \<Rightarrow> vm \<Rightarrow> ((native_error + unit) \<times> vm) option" where
  "run_native code rc function closure method vm =
     do { fr \<leftarrow> active_frame rc vm;
          (result, vm1) \<leftarrow> code function closure fr vm;
          let vm2 = releaseCallFrame rc vm1; n = cf_stackArgs fr + (if method then 0 else 1)
          in case result of
               Inl e \<Rightarrow> Some (Inl e, vm2)
             | Inr v \<Rightarrow> do { f \<leftarrow> active_fiber rc vm2;
                            if n \<le> length (fb_stack f)
                            then Some (Inr (), upd_fiber rc (fb_stack_update (\<lambda>st. take (length st - n) st @ [v])) vm2)
                            else None } }"

definition callNative ::
  "(nat \<Rightarrow> bool) \<Rightarrow> env \<Rightarrow> native_code \<Rightarrow> run_ctx \<Rightarrow> addr \<Rightarrow> int \<Rightarrow> nat \<Rightarrow> bool \<Rightarrow> vm \<Rightarrow> ((native_error + unit) \<times> vm) option" where
  "callNative mem env code rc native argCount argOffset method vm =
     do { n \<leftarrow> as_native (get_obj vm native);
          (ok, vm1) \<leftarrow> setupNativeStackFrame mem env rc (defaults_of (nt_defaultArgs n))
                          (argCount + (if method then 1 else 0)) (nt_arity n) (nt_maxArgs n) argOffset vm;
          if \<not> ok then Some (Inl OutOfMemory, vm1)
          else run_native code rc (nt_function n) None method
                 (upd_frame rc (\<lambda>fr. fr\<lparr>cf_callStart := False, cf_closure := None, cf_function := None\<rparr>) vm1) }"

definition callNativeClosure ::
  "(nat \<Rightarrow> bool) \<Rightarrow> env \<Rightarrow> native_code \<Rightarrow> run_ctx \<Rightarrow> addr \<Rightarrow> int \<Rightarrow> nat \<Rightarrow> bool \<Rightarrow> vm \<Rightarrow> ((native_error + unit) \<times> vm) option" where
  "callNativeClosure mem env code rc closure argCount argOffset method vm =
     do { n \<leftarrow> as_nativeClosure (get_obj vm closure);
          (ok, vm1) \<leftarrow> setupNativeStackFrame mem env rc (defaults_of (nc_defaultArgs n))
                          (argCount + (if method then 1 else 0)) (nc_arity n) (nc_maxArgs n) argOffset vm;
          if \<not> ok then Some (Inl OutOfMemory, vm1)
          else run_native code rc (nc_function n) (Some closure) method (upd_frame rc (cf_callStart_update (\<lambda>_. False)) vm1) }"

text \<open>The flag says whether the callable was native and has already returned.\<close>

definition callMethod ::
  "(nat \<Rightarrow> bool) \<Rightarrow> env \<Rightarrow> native_code \<Rightarrow> run_ctx \<Rightarrow> addr \<Rightarrow> int \<Rightarrow> nat \<Rightarrow> vm \<Rightarrow> ((native_error + unit) \<times> bool \<times> vm) option" where
  "callMethod mem env code rc callable argCount argOffset vm =
     (case get_obj vm callable of
        Some (OFunction _) \<Rightarrow> map_option (\<lambda>(r, vm). (r, False, vm)) (callFunction mem env rc callable argCount argOffset vm)
      | Some (OClosure _) \<Rightarrow> map_option (\<lambda>(r, vm). (r, False, vm)) (callClosure mem env rc callable argCount argOffset vm)
      | Some (ONativeClosure _) \<Rightarrow>
          map_option (\<lambda>(r, vm). (r, True, vm)) (callNativeClosure mem env code rc callable argCount argOffset True vm)
      | Some (ONative _) \<Rightarrow> map_option (\<lambda>(r, vm). (r, True, vm)) (callNative mem env code rc callable argCount argOffset True vm)
      | Some _ \<Rightarrow> Some (Inl (RuntimeError ''Can only call functions and classes''), False, vm)
      | None \<Rightarrow> None)"

section \<open>Local variables and variable arguments\<close>

text \<open>Where \<open>GET_LOCAL\<close> and \<open>SET_LOCAL\<close> find a variable, and where \<open>CLOSURE\<close> does.\<close>

definition local_slot :: "call_frame \<Rightarrow> nat \<Rightarrow> bool \<Rightarrow> nat" where
  "local_slot fr slot postArgs = cf_slots fr + slot + (if postArgs then cf_varArgs fr else 0)"

definition capture_slot :: "call_frame \<Rightarrow> nat \<Rightarrow> nat" where
  "capture_slot fr index = cf_slots fr + index"

text \<open>The variable arguments are pushed, then their number added to that of earlier expansions.\<close>

definition expandVarArgs :: "call_frame \<Rightarrow> bool \<Rightarrow> val list \<Rightarrow> val list option" where
  "expandVarArgs fr firstExpansion st0 =
     do { (prevVarArgs, st) \<leftarrow> (if firstExpansion then Some (0, st0)
             else do { top \<leftarrow> peek st0 0;
                       case top of VNumber d \<Rightarrow> do { n \<leftarrow> dbl_to_int32 d; Some (n, butlast st0) } | _ \<Rightarrow> None });
          let start = cf_slots fr + cf_fixedArgs fr + 1
          in if start + cf_varArgs fr \<le> length st
             then Some (st @ take (cf_varArgs fr) (drop start st) @ [VNumber (dbl_of_int (prevVarArgs + int (cf_varArgs fr)))])
             else None }"

section \<open>The layout of a call\<close>

lemma active_frame_upd [simp]:
  "active_fiber rc (upd_frame rc g vm) = map_option (fb_frames_update (\<lambda>fs. case fs of [] \<Rightarrow> [] | fr # frs \<Rightarrow> g fr # frs)) (active_fiber rc vm)"
  by (simp add: upd_frame_def)

lemma active_fiber_free [simp]: "active_fiber rc (vm\<lparr>vm_freeFrames := n\<rparr>) = active_fiber rc vm"
  by (simp add: active_fiber_def split: option.split)

text \<open>What is on the stack after the arguments have been adjusted to the parameters.\<close>

lemma adjustArgs_spec:
  assumes "arity \<le> maxArgs" and "arity \<le> length d" and "length args - maxArgs < 256"
  shows "adjustArgs d (int (length args)) arity maxArgs (pre @ args) =
    Some (pre @ take maxArgs args @ drop (length args) (take arity d),
          int (max arity (min maxArgs (length args))), int (arity - length args))"
proof (cases "length args \<le> maxArgs")
  case True
  have "take (arity - length args) (drop (length args) d) = drop (length args) (take arity d)" by (simp add: drop_take)
  then show ?thesis using True assms(1,2) by (auto simp: adjustArgs_def of_nat_diff)
next
  case False
  then have "nat (int (length args) - int maxArgs) mod 256 = length args - maxArgs" using assms(3) by (simp add: nat_diff_distrib')
  then have "popn (nat (int (length args) - int maxArgs)) (pre @ args) = Some (pre @ take maxArgs args)"
    using False by (simp add: popn_def)
  then show ?thesis using False assms(1) by (simp add: adjustArgs_def Let_def)
qed

lemma setupStackFrame_free:
  assumes f: "active_fiber rc vm = Some f" and free: "vm_freeFrames vm > 0"
    and adj: "adjustArgs d (argCount - int off) ar mx (fb_stack f) = Some (st, n, missing)"
    and slots: "int (length st) - n - 1 = int s"
  shows "\<exists>vm'. setupStackFrame mem env rc d argCount ar mx off vm = Some (True, vm') \<and>
    active_fiber rc vm' = Some (f\<lparr>fb_stack := st, fb_frames := unset_frame\<lparr>cf_slots := s, cf_fixedArgs := ar mod 256,
      cf_varArgs := nat ((argCount - int off + missing - int ar) mod 256), cf_argOffset := off\<rparr> # fb_frames f\<rparr>)"
proof -
  let ?vm1 = "upd_fiber rc (fb_frames_update (\<lambda>fs. unset_frame # fs)) (vm\<lparr>vm_freeFrames := vm_freeFrames vm - 1\<rparr>)"
  have "allocCallFrame mem env rc vm = Some (True, ?vm1)" using free by (simp add: allocCallFrame_def)
  moreover have "n = int (length st) - 1 - int s" using slots by simp
  ultimately show ?thesis using adj f by (simp add: setupStackFrame_def Let_def)
qed

text \<open>
  C11: Calling a function (not a method) with any number of arguments, up to 255 more than it takes,
  puts a frame on the fiber whose slot 0 is the callee and whose slots 1, 2, ... are the parameters,
  each with its argument or its default value; arguments beyond the maximum are dropped.  The frame's
  count of variable arguments includes the dropped ones, so that the first local variable lies where
  the function will push it exactly when nothing was dropped.
\<close>

theorem call_correct:
  assumes "active_fiber rc vm = Some f" and "fb_stack f = pre @ callee # args" and "vm_freeFrames vm > 0"
    and "get_obj vm a = Some (OFunction fn)" and "\<not> fn_isMethod fn" and "fn_arity fn \<le> fn_maxArgs fn"
    and "fn_arity fn \<le> length (defaults_of (fn_defaultArgs fn))" and "fn_arity fn < 256"
    and "length args - fn_arity fn < 256"
  shows "\<exists>vm' f' fr. call mem env rc closure a (int (length args)) 0 vm = Some (Inr (), vm') \<and>
    active_fiber rc vm' = Some f' \<and> fb_frames f' = fr # fb_frames f \<and>
    cf_function fr = Some a \<and> cf_closure fr = closure \<and> cf_ip fr = 0 \<and> cf_slots fr = length pre \<and>
    fb_stack f' = pre @ callee # take (fn_maxArgs fn) args @ drop (length args) (take (fn_arity fn) (defaults_of (fn_defaultArgs fn))) \<and>
    (\<forall>i<fn_arity fn. fb_stack f' ! (cf_slots fr + 1 + i) =
       (if i < length args then args ! i else defaults_of (fn_defaultArgs fn) ! i)) \<and>
    (local_slot fr (fn_arity fn + 1) True = length (fb_stack f') \<longleftrightarrow> length args \<le> fn_maxArgs fn)"
proof -
  let ?d = "defaults_of (fn_defaultArgs fn)" and ?ar = "fn_arity fn" and ?mx = "fn_maxArgs fn"
  let ?extra = "drop (length args) (take ?ar ?d)"
  let ?st = "(pre @ [callee]) @ take ?mx args @ ?extra"
  have adj: "adjustArgs ?d (int (length args)) ?ar ?mx (fb_stack f) =
      Some (?st, int (max ?ar (min ?mx (length args))), int (?ar - length args))"
    using adjustArgs_spec [of ?ar ?mx ?d args "pre @ [callee]"] assms(2,6,7,9) by simp
  have len: "length ?st = length pre + 1 + max ?ar (min ?mx (length args))"
    using assms(6,7) by (auto simp: min_def max_def)
  then have slots: "int (length ?st) - int (max ?ar (min ?mx (length args))) - 1 = int (length pre)" by simp
  have var: "nat ((int (length args) + int (?ar - length args) - int ?ar) mod 256) = length args - ?ar"
    using assms(9) by (cases "length args \<le> ?ar") (auto simp: of_nat_diff nat_mod_distrib nat_diff_distrib')
  let ?fr = "unset_frame\<lparr>cf_slots := length pre, cf_fixedArgs := ?ar mod 256, cf_varArgs := length args - ?ar,
      cf_argOffset := 0, cf_callStart := False, cf_closure := closure, cf_function := Some a, cf_ip := 0, cf_handlers := []\<rparr>"
  let ?f' = "f\<lparr>fb_stack := ?st, fb_frames := ?fr # fb_frames f\<rparr>"
  have adj': "adjustArgs ?d (int (length args) - int 0) ?ar ?mx (fb_stack f) =
      Some (?st, int (max ?ar (min ?mx (length args))), int (?ar - length args))" using adj by simp
  obtain vm1 where st: "setupStackFrame mem env rc ?d (int (length args)) ?ar ?mx 0 vm = Some (True, vm1)"
    "active_fiber rc vm1 = Some (f\<lparr>fb_stack := ?st, fb_frames := unset_frame\<lparr>cf_slots := length pre, cf_fixedArgs := ?ar mod 256,
      cf_varArgs := length args - ?ar, cf_argOffset := 0\<rparr> # fb_frames f\<rparr>)"
    using setupStackFrame_free [OF assms(1,3) adj' slots, of mem env] var by auto
  let ?vm' = "upd_frame rc (\<lambda>fr. fr\<lparr>cf_callStart := False, cf_closure := closure,
                 cf_function := Some a, cf_ip := 0, cf_handlers := []\<rparr>) vm1"
  have c: "call mem env rc closure a (int (length args)) 0 vm = Some (Inr (), ?vm')"
    using assms(4,5) st(1) by (simp add: call_def as_function_def)
  have c2: "active_fiber rc ?vm' = Some ?f'" using st(2) by simp
  have param: "?st ! (length pre + 1 + i) = (if i < length args then args ! i else ?d ! i)" if "i < ?ar" for i
  proof (cases "i < length args")
    case True
    then have "i < length (take ?mx args)" using that assms(6) by simp
    then have "?st ! (length pre + 1 + i) = take ?mx args ! i" by (simp add: nth_append)
    then show ?thesis using True that assms(6) by simp
  next
    case False
    then have "take ?mx args = args" using that assms(6) by simp
    then have "?st ! (length pre + 1 + i) = ?extra ! (i - length args)" using False by (simp add: nth_append)
    also have "\<dots> = ?d ! i" using False that assms(7) by simp
    finally show ?thesis using False by simp
  qed
  have loc: "local_slot ?fr (?ar + 1) True = length ?st \<longleftrightarrow> length args \<le> ?mx"
    unfolding len using assms(6) by (auto simp: local_slot_def min_def max_def)
  show ?thesis
    using c c2 param loc by (intro exI [of _ ?vm'] exI [of _ ?f'] exI [of _ ?fr]) simp
qed

definition two_params :: obj_function where
  "two_params = \<lparr>fn_isMethod = False, fn_arity = 2, fn_maxArgs = 2, fn_upvalueCount = 0, fn_refOffset = 0,
     fn_chunk = initChunk None, fn_name = None, fn_parentClass = None, fn_defaultArgs = Some [VNil, VBool False]\<rparr>"

lemma call_correct_witness:
  "\<exists>vm' f'. call (\<lambda>_. True) two_cells None None 7 (int (length [VBool True])) 0
      (blank_vm [7 \<mapsto> \<lparr>c_markers = 0, c_obj = OFunction two_params\<rparr>] [7] [VNil, VObj 7, VBool True] blank_table) = Some (Inr (), vm') \<and>
    active_fiber None vm' = Some f' \<and> fb_stack f' = [VNil, VObj 7, VBool True, VBool False]"
proof -
  let ?vm = "blank_vm [7 \<mapsto> \<lparr>c_markers = 0, c_obj = OFunction two_params\<rparr>] [7] [VNil, VObj 7, VBool True] blank_table"
  have "active_fiber None ?vm = Some \<lparr>fb_frames = [], fb_stack = [VNil, VObj 7, VBool True], fb_openUpvalues = [], fb_temps = []\<rparr>"
    "vm_freeFrames ?vm > 0" by (simp_all add: active_fiber_def blank_vm_def)
  from call_correct [OF this(1) _ this(2), of "[VNil]" "VObj 7" "[VBool True]" 7 two_params "\<lambda>_. True" two_cells None]
  show ?thesis by (auto simp: two_params_def defaults_of_def get_obj_def)
qed

section \<open>Closures and returns\<close>

text \<open>
  \<open>CLOSURE\<close> and \<open>RETURN\<close> of the interpreter loop.  The operands of
  \<open>CLOSURE\<close> say for each upvalue whether it is a local variable of the enclosing function,
  and its slot or index.
\<close>

fun capture_all ::
  "(nat \<Rightarrow> bool) \<Rightarrow> env \<Rightarrow> run_ctx \<Rightarrow> call_frame \<Rightarrow> addr \<Rightarrow> nat \<Rightarrow> (bool \<times> nat) list \<Rightarrow> vm \<Rightarrow> (bool \<times> vm) option" where
  "capture_all mem env rc fr closure i [] vm = Some (True, vm)"
| "capture_all mem env rc fr closure i ((isLocal, index) # ops) vm =
     do { (up, vm1) \<leftarrow> (if isLocal then captureUpvalue mem env rc (capture_slot fr index) vm
                        else do { outer \<leftarrow> cf_closure fr; c \<leftarrow> as_closure (get_obj vm outer);
                                  if index < length (cl_upvalues c) then Some (cl_upvalues c ! index, vm) else None });
          c \<leftarrow> as_closure (get_obj vm1 closure);
          vm2 \<leftarrow> set_obj closure (OClosure (c\<lparr>cl_upvalues := (cl_upvalues c)[i := up]\<rparr>)) vm1;
          if isLocal \<and> up = None then Some (False, vm2)
          else capture_all mem env rc fr closure (Suc i) ops vm2 }"

definition op_closure ::
  "(nat \<Rightarrow> bool) \<Rightarrow> env \<Rightarrow> run_ctx \<Rightarrow> addr \<Rightarrow> (bool \<times> nat) list \<Rightarrow> vm \<Rightarrow> ((native_error + unit) \<times> vm) option" where
  "op_closure mem env rc function ops vm =
     do { fr \<leftarrow> active_frame rc vm;
          (closure, vm1) \<leftarrow> newClosure mem env function vm;
          case closure of
            None \<Rightarrow> Some (Inl OutOfMemory, vm1)
          | Some c \<Rightarrow> do { (ok, vm2) \<leftarrow> capture_all mem env rc fr c 0 ops (push rc (VObj c) vm1);
                           Some (if ok then Inr () else Inl OutOfMemory, vm2) } }"

text \<open>The flag: the frame was entered by a call from C code, and the loop ends.\<close>

definition op_return :: "run_ctx \<Rightarrow> vm \<Rightarrow> (bool \<times> vm) option" where
  "op_return rc vm =
     do { f \<leftarrow> active_fiber rc vm;
          fr \<leftarrow> active_frame rc vm;
          result \<leftarrow> peek (fb_stack f) 0;
          vm1 \<leftarrow> closeUpvalues rc (cf_slots fr) vm;
          let vm2 = releaseCallFrame rc vm1; base = cf_slots fr - cf_argOffset fr
          in if cf_argOffset fr \<le> cf_slots fr \<and> base \<le> length (fb_stack f)
             then Some (cf_callStart fr, upd_fiber rc (fb_stack_update (\<lambda>st. take base st @ [result])) vm2)
             else None }"

text \<open>
  C8: Returning from a function removes its frame and its part of the stack, leaves the result in
  place of callee and arguments, and does not change the value of any captured variable: what the
  function's closures have captured moves into the upvalues, what belongs to outer functions stays on
  the stack.
\<close>

theorem op_return_correct:
  assumes "fiber_ok rc vm f" and "fb_frames f = fr # frs" and "fb_stack f \<noteq> []"
    and "cf_argOffset fr \<le> cf_slots fr" and "cf_slots fr < length (fb_stack f)"
    and "\<forall>a\<in>set (fb_openUpvalues f). the (open_slot (vm_heap vm) a) < cf_slots fr - cf_argOffset fr \<or>
      cf_slots fr \<le> the (open_slot (vm_heap vm) a)"
  shows "\<exists>vm' f'. op_return rc vm = Some (cf_callStart fr, vm') \<and> fiber_ok rc vm' f' \<and> fb_frames f' = frs \<and>
    fb_stack f' = take (cf_slots fr - cf_argOffset fr) (fb_stack f) @ [last (fb_stack f)] \<and>
    (\<forall>a\<in>set (fb_openUpvalues f). get_upvalue (fb_stack f') a (vm_heap vm') = get_upvalue (fb_stack f) a (vm_heap vm)) \<and>
    (\<forall>a. a \<notin> set (fb_openUpvalues f) \<longrightarrow> vm_heap vm' a = vm_heap vm a)"
proof -
  let ?low = "cf_slots fr" and ?base = "cf_slots fr - cf_argOffset fr" and ?st = "fb_stack f" and ?us = "fb_openUpvalues f"
  let ?h = "vm_heap vm" and ?st' = "take ?base ?st @ [last ?st]"
  have f: "active_fiber rc vm = Some f" and ok: "upvalues_ok ?h (length ?st) ?us" using assms(1) by (auto simp: fiber_ok_def)
  obtain vm1 us where c: "closeUpvalues rc ?low vm = Some vm1" "active_fiber rc vm1 = Some (f\<lparr>fb_openUpvalues := us\<rparr>)"
    "upvalues_ok ?h (length ?st) us" "set us = {a \<in> set ?us. the (open_slot ?h a) < ?low}"
    "\<forall>a\<in>set ?us. the (open_slot ?h a) \<ge> ?low \<longrightarrow> closed_over (vm_heap vm1) a (?st ! the (open_slot ?h a))"
    "\<forall>a. a \<notin> set ?us \<or> a \<in> set us \<longrightarrow> vm_heap vm1 a = ?h a"
    using closeUpvalues_spec [OF assms(1), of ?low] by blast
  let ?vm' = "upd_fiber rc (fb_stack_update (\<lambda>st. take ?base st @ [last ?st])) (releaseCallFrame rc vm1)"
  let ?f' = "f\<lparr>fb_openUpvalues := us, fb_stack := ?st', fb_frames := frs\<rparr>"
  have "peek ?st 0 = Some (last ?st)" using assms(3) by (simp add: peek_def last_conv_nth)
  then have ret: "op_return rc vm = Some (cf_callStart fr, ?vm')"
    using f c(1) assms(2,4,5) by (simp add: op_return_def active_frame_def Let_def)
  have act: "active_fiber rc ?vm' = Some ?f'" using c(2) assms(2) by (simp add: releaseCallFrame_def)
  have h: "vm_heap ?vm' = vm_heap vm1" by (simp add: releaseCallFrame_def)
  have slot: "\<exists>s<?base. open_slot ?h a = Some s" if a: "a \<in> set us" for a
    using c(3,4) a assms(6) by (fastforce simp: upvalues_ok_def)
  have kept: "open_slot (vm_heap vm1) a = open_slot ?h a" if "a \<in> set us" for a
    using c(6) that by (intro open_slot_cong) blast
  have "upvalues_ok ?h (length ?st') us"
    using c(3) slot assms(4,5) unfolding upvalues_ok_def by fastforce
  then have "upvalues_ok (vm_heap vm1) (length ?st') us" by (rule upvalues_ok_cong [rotated]) (rule kept)
  then have "fiber_ok rc ?vm' ?f'" using act h by (simp add: fiber_ok_def)
  moreover have "get_upvalue ?st' a (vm_heap vm1) = get_upvalue ?st a ?h" if a: "a \<in> set ?us" for a
  proof (cases "a \<in> set us")
    case True
    then obtain s where s: "s < ?base" "open_slot ?h a = Some s" using slot by blast
    moreover have "open_slot (vm_heap vm1) a = Some s" using kept [OF True] s(2) by simp
    ultimately show ?thesis using get_upvalue_open [of _ a s] assms(4,5) by (simp add: nth_append)
  next
    case False
    obtain s where s: "s < length ?st" "open_slot ?h a = Some s" using ok a by (auto simp: upvalues_ok_def)
    then have "closed_over (vm_heap vm1) a (?st ! s)" using False a c(4,5) by auto
    then show ?thesis using get_upvalue_closed get_upvalue_open [OF s(2)] s(1) by simp
  qed
  ultimately show ?thesis using ret c(6) h by (intro exI [of _ ?vm'] exI [of _ ?f']) simp
qed

definition returning :: fiber where
  "returning = \<lparr>fb_frames = [unset_frame\<lparr>cf_slots := 1\<rparr>], fb_stack = [VNil, VObj 3, VBool True, VNumber (dbl_of_int 5)],
     fb_openUpvalues = [7], fb_temps = []\<rparr>"

lemma op_return_correct_witness:
  "\<exists>vm' f'. op_return None ((blank_vm [7 \<mapsto> \<lparr>c_markers = 0, c_obj = OUpvalue \<lparr>uv_location = StackSlot 2, uv_closed = VNil\<rparr>\<rparr>] [7]
      [] blank_table)\<lparr>vm_initFiber := Some returning\<rparr>) = Some (False, vm') \<and> active_fiber None vm' = Some f' \<and>
    fb_stack f' = [VNil, VNumber (dbl_of_int 5)] \<and> get_upvalue (fb_stack f') 7 (vm_heap vm') = Some (VBool True)"
proof -
  let ?vm = "(blank_vm [7 \<mapsto> \<lparr>c_markers = 0, c_obj = OUpvalue \<lparr>uv_location = StackSlot 2, uv_closed = VNil\<rparr>\<rparr>] [7]
      [] blank_table)\<lparr>vm_initFiber := Some returning\<rparr>"
  have "fiber_ok None ?vm returning"
    by (simp add: fiber_ok_def active_fiber_def returning_def upvalues_ok_def open_slot_def as_upvalue_def)
  from op_return_correct [OF this, of "unset_frame\<lparr>cf_slots := 1\<rparr>" "[]"] show ?thesis
    by (fastforce simp: returning_def unset_frame_def open_slot_def as_upvalue_def get_upvalue_def fiber_ok_def)
qed

section \<open>Exception handlers\<close>

definition ELOX_MAX_CATCH_HANDLER_FRAMES :: nat where "ELOX_MAX_CATCH_HANDLER_FRAMES = 16"

text \<open>
  \<open>stackLevel\<close> is the nesting depth the compiler has counted; an entry between the handlers
  in use and it would be uninitialised.
\<close>

definition pushExceptionHandler :: "run_ctx \<Rightarrow> nat \<Rightarrow> nat \<Rightarrow> vm \<Rightarrow> ((native_error + unit) \<times> vm) option" where
  "pushExceptionHandler rc stackLevel handlerTableAddress vm =
     do { f \<leftarrow> active_fiber rc vm;
          fr \<leftarrow> active_frame rc vm;
          let handlerCount = length (cf_handlers fr);
              tryBlock = \<lparr>tb_handlerDataOffset = handlerTableAddress,
                tb_stackOffset = (length (fb_stack f) - cf_slots fr) mod 2 ^ 16, tb_caught = False\<rparr>
          in if handlerCount = ELOX_MAX_CATCH_HANDLER_FRAMES
             then Some (Inl (RuntimeError ''Too many nested exception handlers in one function''), vm)
             else if stackLevel > handlerCount \<or> stackLevel \<ge> ELOX_MAX_CATCH_HANDLER_FRAMES then None
             else Some (Inr (), upd_frame rc (cf_handlers_update
                    (\<lambda>hs. if stackLevel = handlerCount then hs @ [tryBlock] else hs[stackLevel := tryBlock])) vm) }"

text \<open>Unaligned little-endian reads of the code.\<close>

definition code_u16 :: "byte list \<Rightarrow> nat \<Rightarrow> nat option" where
  "code_u16 code i = (if i + 1 < length code then Some (unat (code ! i) + 256 * unat (code ! (i + 1))) else None)"

text \<open>
  Running a \<open>finally\<close> block: the frame continues at its address with the stack of the
  \<open>try\<close>.  \<open>run\<close> is the interpreter loop, which says whether the block ended normally.
\<close>

type_synonym interpreter = "vm \<Rightarrow> (bool \<times> vm) option"

definition frame_code :: "vm \<Rightarrow> call_frame \<Rightarrow> byte list option" where
  "frame_code vm fr = do { fa \<leftarrow> cf_function fr; fn \<leftarrow> as_function (get_obj vm fa); Some (ch_code (fn_chunk fn)) }"

definition cut_stack :: "run_ctx \<Rightarrow> nat \<Rightarrow> vm \<Rightarrow> vm option" where
  "cut_stack rc height vm =
     do { f \<leftarrow> active_fiber rc vm;
          if height \<le> length (fb_stack f) then Some (upd_fiber rc (fb_stack_update (take height)) vm) else None }"

fun unroll_loop :: "interpreter \<Rightarrow> run_ctx \<Rightarrow> nat \<Rightarrow> vm \<Rightarrow> vm option" where
  "unroll_loop run rc 0 vm = Some vm"
| "unroll_loop run rc (Suc n) vm =
     do { fr \<leftarrow> active_frame rc vm;
          code \<leftarrow> frame_code vm fr;
          tb \<leftarrow> (if cf_handlers fr = [] then None else Some (last (cf_handlers fr)));
          finallyAddress \<leftarrow> code_u16 code (tb_handlerDataOffset tb + 1);
          vm1 \<leftarrow> (if finallyAddress > 0
                  then do { vm' \<leftarrow> cut_stack rc (cf_slots fr + tb_stackOffset tb)
                                    (upd_frame rc (cf_ip_update (\<lambda>_. finallyAddress)) vm);
                            (_, vm'') \<leftarrow> run vm'; Some vm'' }
                  else Some vm);
          unroll_loop run rc n (upd_frame rc (cf_handlers_update butlast) vm1) }"

definition unrollExceptionHandlerStack :: "interpreter \<Rightarrow> run_ctx \<Rightarrow> nat \<Rightarrow> bool \<Rightarrow> vm \<Rightarrow> vm option" where
  "unrollExceptionHandlerStack run rc targetLevel restore vm =
     do { f \<leftarrow> active_fiber rc vm;
          fr \<leftarrow> active_frame rc vm;
          saved \<leftarrow> (if restore then peek (fb_stack f) 0 else Some VNil);
          vm1 \<leftarrow> unroll_loop run rc (length (cf_handlers fr) - targetLevel)
                  (if restore then pushTemp rc saved (pop rc vm) else vm);
          Some (if restore then releaseTemps rc 1 (push rc saved vm1) else vm1) }"

end
