(* ===== verification/Classes.thy ===== *)
theory Classes
  imports Fibers
begin

text \<open>
  Classes and their types (\<open>vm.c\<close>, and the same code for native classes in
  \<open>builtins.c\<close>): the subtype test of \<open>instanceOf\<close> with its display of ancestors
  and its cache, what a class gets from its superclass and interfaces, methods, fields and statics,
  and the resolution of member references.  Copying behind the end of a display has no result.
\<close>

section \<open>The type display\<close>

text \<open>
  \<open>typeDepth\<close> and the size of the copied part are bytes.  The result is the type check
  offset, the display and the depth.
\<close>

definition derive_display :: "addr \<Rightarrow> type_info \<Rightarrow> type_info \<Rightarrow> (nat \<times> type_info) option" where
  "derive_display clazz super ti =
     (let typeDepth = (ti_depth super + 1) mod 256;
          superDisplaySize = max typeDepth ELOX_CLASS_DISPLAY_SIZE;
          display = take superDisplaySize (ti_rptDisplay super) @ drop superDisplaySize (ti_rptDisplay ti)
      in if length (ti_rptDisplay ti) < superDisplaySize \<or> length (ti_rptDisplay super) < superDisplaySize then None
         else if typeDepth < ELOX_CLASS_DISPLAY_SIZE
         then Some (typeDepth, ti\<lparr>ti_depth := typeDepth, ti_rptDisplay := display[typeDepth := Some clazz]\<rparr>)
         else Some (ELOX_CLASS_DISPLAY_SIZE, ti\<lparr>ti_depth := typeDepth, ti_rptDisplay := display\<rparr>))"

text \<open>The list of supertypes that are not in the display, in an array of fixed size.\<close>

definition ELOX_MAX_SUPERTYPES :: nat where "ELOX_MAX_SUPERTYPES = 256"

definition inherited_supertypes :: "addr \<Rightarrow> type_info \<Rightarrow> addr list" where
  "inherited_supertypes super ti = (if ti_depth ti \<ge> ELOX_CLASS_DISPLAY_SIZE then [super] else []) @ ti_rssList ti"

definition add_supertype :: "addr \<Rightarrow> addr list \<Rightarrow> addr list option" where
  "add_supertype intf supertypes =
     (if intf \<in> set supertypes then Some supertypes
      else if length supertypes < ELOX_MAX_SUPERTYPES then Some (supertypes @ [intf]) else None)"

fun add_supertypes :: "addr list \<Rightarrow> addr list \<Rightarrow> addr list option" where
  "add_supertypes [] supertypes = Some supertypes"
| "add_supertypes (i # is) supertypes = do { s \<leftarrow> add_supertype i supertypes; add_supertypes is s }"

definition set_supertypes :: "addr list \<Rightarrow> type_info \<Rightarrow> type_info" where
  "set_supertypes supertypes ti = (if supertypes = [] then ti else ti\<lparr>ti_rssList := supertypes\<rparr>)"

text \<open>What the type data of a class becomes when all its interfaces are interfaces.\<close>

definition derive_types :: "addr \<Rightarrow> addr \<Rightarrow> type_info \<Rightarrow> addr list \<Rightarrow> type_info \<Rightarrow> (nat \<times> type_info) option" where
  "derive_types clazz super sti intfs ti =
     do { (offset, ti1) \<leftarrow> derive_display clazz sti ti;
          s \<leftarrow> (if length (inherited_supertypes super sti) \<le> ELOX_MAX_SUPERTYPES
                then add_supertypes intfs (inherited_supertypes super sti) else None);
          Some (offset, set_supertypes s ti1) }"

section \<open>The subtype test\<close>

definition class_at :: "heap \<Rightarrow> addr \<Rightarrow> obj_class option" where
  "class_at h a = as_class (map_option c_obj (h a))"

definition klass_offset :: "heap \<Rightarrow> addr \<Rightarrow> nat option" where
  "klass_offset h a = (case map_option c_obj (h a) of
       Some (OClass c) \<Rightarrow> Some (cs_typeCheckOffset c)
     | Some (OInterface i) \<Rightarrow> Some (if_typeCheckOffset i)
     | _ \<Rightarrow> None)"

definition set_type_info :: "addr \<Rightarrow> type_info \<Rightarrow> heap \<Rightarrow> heap" where
  "set_type_info a ti h = (case h a of
       Some c \<Rightarrow> (case c_obj c of OClass k \<Rightarrow> h(a \<mapsto> c\<lparr>c_obj := OClass (k\<lparr>cs_typeInfo := ti\<rparr>)\<rparr>) | _ \<Rightarrow> h)
     | None \<Rightarrow> h)"

definition instanceOf :: "addr \<Rightarrow> addr \<Rightarrow> heap \<Rightarrow> (bool \<times> heap) option" where
  "instanceOf T S h =
     do { checkOffset \<leftarrow> klass_offset h T;
          s \<leftarrow> class_at h S;
          let ti = cs_typeInfo s
          in if length (ti_rptDisplay ti) \<le> checkOffset then None
             else if ti_rptDisplay ti ! checkOffset = Some T then Some (True, h)
             else if checkOffset \<noteq> ELOX_CLASS_DISPLAY_SIZE then Some (False, h)
             else if S = T then Some (True, h)
             else if T \<in> set (ti_rssList ti)
             then Some (True, set_type_info S (ti\<lparr>ti_rptDisplay := (ti_rptDisplay ti)[ELOX_CLASS_DISPLAY_SIZE := Some T]\<rparr>) h)
             else Some (False, h) }"

section \<open>What the display means\<close>

text \<open>
  \<open>U\<close> are the supertypes of \<open>S\<close> that the program has declared, \<open>S\<close> included;
  \<open>off\<close> gives the type check offset of a class or interface.
\<close>

definition type_info_ok :: "(addr \<Rightarrow> nat option) \<Rightarrow> addr set \<Rightarrow> addr \<Rightarrow> type_info \<Rightarrow> bool" where
  "type_info_ok off U S ti \<longleftrightarrow> length (ti_rptDisplay ti) = 9 \<and> S \<in> U \<and> off S = Some (min (ti_depth ti) 8) \<and>
     (\<forall>T\<in>U. \<exists>k\<le>8. off T = Some k \<and> (k < 8 \<longrightarrow> k \<le> ti_depth ti)) \<and>
     (\<forall>i<8. \<forall>T. ti_rptDisplay ti ! i = Some T \<longleftrightarrow> T \<in> U \<and> off T = Some i) \<and>
     (\<forall>T. ti_rptDisplay ti ! 8 = Some T \<longrightarrow> T \<in> U \<and> off T = Some 8) \<and>
     set (ti_rssList ti) = {T \<in> U. T \<noteq> S \<and> off T = Some 8}"

definition types_ok :: "(addr \<Rightarrow> addr set) \<Rightarrow> heap \<Rightarrow> bool" where
  "types_ok up h \<longleftrightarrow> (\<forall>S c. class_at h S = Some c \<longrightarrow> type_info_ok (klass_offset h) (up S) S (cs_typeInfo c))"

lemma class_atE:
  assumes "class_at h a = Some k"
  obtains c where "h a = Some c" "c_obj c = OClass k"
  using assms by (auto simp: class_at_def as_class_def split: option.splits obj.splits)

lemma set_type_info_facts:
  assumes "class_at h S = Some k"
  shows "klass_offset (set_type_info S ti h) = klass_offset h"
    and "class_at (set_type_info S ti h) a = (if a = S then Some (k\<lparr>cs_typeInfo := ti\<rparr>) else class_at h a)"
proof -
  obtain c where c: "h S = Some c" "c_obj c = OClass k" using assms by (rule class_atE)
  then have e: "set_type_info S ti h = h(S \<mapsto> c\<lparr>c_obj := OClass (k\<lparr>cs_typeInfo := ti\<rparr>)\<rparr>)"
    by (simp add: set_type_info_def)
  show "klass_offset (set_type_info S ti h) = klass_offset h"
    by (rule ext) (simp add: e klass_offset_def c)
  show "class_at (set_type_info S ti h) a = (if a = S then Some (k\<lparr>cs_typeInfo := ti\<rparr>) else class_at h a)"
    by (simp add: e class_at_def as_class_def)
qed

lemma set_type_info_same: "class_at h S = Some s \<Longrightarrow> set_type_info S (cs_typeInfo s) h = h"
  by (erule class_atE) (auto simp: set_type_info_def class_at_def as_class_def fun_eq_iff)

lemma instanceOf_spec:
  assumes "types_ok up h" and "class_at h S = Some s" and "klass_offset h T = Some k" and "k \<le> 8"
  shows "\<exists>ti. instanceOf T S h = Some (T \<in> up S, set_type_info S ti h) \<and> types_ok up (set_type_info S ti h)"
proof -
  let ?ti = "cs_typeInfo s"
  have ok: "type_info_ok (klass_offset h) (up S) S ?ti" using assms(1,2) by (simp add: types_ok_def)
  then have len: "length (ti_rptDisplay ?ti) = 9" and S: "S \<in> up S"
    and disp: "\<And>i U. i < 8 \<Longrightarrow> ti_rptDisplay ?ti ! i = Some U \<longleftrightarrow> U \<in> up S \<and> klass_offset h U = Some i"
    and cache: "\<And>U. ti_rptDisplay ?ti ! 8 = Some U \<Longrightarrow> U \<in> up S"
    and rss: "set (ti_rssList ?ti) = {U \<in> up S. U \<noteq> S \<and> klass_offset h U = Some 8}"
    unfolding type_info_ok_def by blast+
  have same: "set_type_info S (cs_typeInfo s) h = h" using assms(2) by (rule set_type_info_same)
  note run = instanceOf_def Let_def ELOX_CLASS_DISPLAY_SIZE_def
  consider "k < 8" | "k = 8" "ti_rptDisplay ?ti ! 8 = Some T \<or> S = T"
    | "k = 8" "ti_rptDisplay ?ti ! 8 \<noteq> Some T" "S \<noteq> T" using assms(4) by linarith
  then show ?thesis
  proof cases
    case 1
    have "instanceOf T S h = Some (T \<in> up S, h)"
      using 1 disp [OF 1, of T] assms(2,3) len by (auto simp: run)
    then show ?thesis using assms(1) same by metis
  next
    case 2
    then have "T \<in> up S" using cache S by auto
    moreover have "instanceOf T S h = Some (True, h)" using 2 assms(2,3) len by (auto simp: run)
    ultimately show ?thesis using assms(1) same by metis
  next
    case 3
    then have mem: "T \<in> set (ti_rssList ?ti) \<longleftrightarrow> T \<in> up S" using rss assms(3) by simp
    show ?thesis
    proof (cases "T \<in> up S")
      case False
      then have "instanceOf T S h = Some (False, h)" using 3 mem assms(2,3) len by (simp add: run)
      then show ?thesis using False assms(1) same by metis
    next
      case True
      let ?ti' = "?ti\<lparr>ti_rptDisplay := (ti_rptDisplay ?ti)[8 := Some T]\<rparr>" and ?h' = "set_type_info S (?ti\<lparr>ti_rptDisplay := (ti_rptDisplay ?ti)[8 := Some T]\<rparr>) h"
      have "instanceOf T S h = Some (True, ?h')" using 3 True mem assms(2,3) len by (simp add: run)
      moreover have "type_info_ok (klass_offset h) (up S) S ?ti'"
        using ok True 3(1) assms(3) len unfolding type_info_ok_def by (auto simp: nth_list_update)
      then have "types_ok up ?h'"
        using assms(1) unfolding types_ok_def set_type_info_facts [OF assms(2)] by auto
      ultimately show ?thesis using True by (intro exI [of _ ?ti']) simp
    qed
  qed
qed

text \<open>
  C10: The subtype test, which looks into the display of ancestors, the cache and the list of the
  other supertypes, answers exactly whether the type is among the declared supertypes of the class,
  and updating the cache keeps the displays of all classes correct.
\<close>

theorem instanceOf_correct:
  assumes "types_ok up h" and "class_at h S = Some s" and "klass_offset h T = Some k" and "k \<le> 8"
  shows "\<exists>h'. instanceOf T S h = Some (T \<in> up S, h') \<and> types_ok up h'"
  using instanceOf_spec [OF assms] by blast

definition two_classes :: heap where
  "two_classes = [1 \<mapsto> \<lparr>c_markers = 0, c_obj = OClass ((fresh_class None False)
        \<lparr>cs_typeInfo := \<lparr>ti_rptDisplay = (replicate 9 None)[0 := Some 1], ti_rssList = [], ti_depth = 0\<rparr>\<rparr>)\<rparr>,
     2 \<mapsto> \<lparr>c_markers = 0, c_obj = OClass ((fresh_class None False)
        \<lparr>cs_typeCheckOffset := 1, cs_typeInfo := \<lparr>ti_rptDisplay = (replicate 9 None)[0 := Some 1, 1 := Some 2], ti_rssList = [3], ti_depth = 1\<rparr>\<rparr>)\<rparr>,
     3 \<mapsto> \<lparr>c_markers = 0, c_obj = OInterface \<lparr>if_typeCheckOffset = 8, if_name = None, if_methods = empty_table\<rparr>\<rparr>]"

text \<open>Objects 1 and 2 are classes, 2 derived from 1 and implementing the interface 3.\<close>

lemma two_classes_ok: "types_ok (\<lambda>a. if a = 1 then {1} else {1, 2, 3}) two_classes"
proof -
  have at: "class_at two_classes S = Some c \<longleftrightarrow> S \<in> {1, 2} \<and> two_classes S \<noteq> None \<and> c_obj (the (two_classes S)) = OClass c" for S c
    by (auto simp: class_at_def two_classes_def as_class_def)
  have off: "klass_offset two_classes a = (if a = 1 then Some 0 else if a = 2 then Some 1 else if a = 3 then Some 8 else None)" for a
    by (simp add: klass_offset_def two_classes_def fresh_class_def)
  have lt8: "i = 0 \<or> i = 1 \<or> i = 2 \<or> i = 3 \<or> i = 4 \<or> i = 5 \<or> i = 6 \<or> i = 7" if "i < 8" for i :: nat using that by linarith
  have one: "type_info_ok (klass_offset two_classes) {1} 1 \<lparr>ti_rptDisplay = (replicate 9 None)[0 := Some 1], ti_rssList = [], ti_depth = 0\<rparr>"
    unfolding type_info_ok_def off by (auto dest!: lt8 simp: nth_list_update)
  have two: "type_info_ok (klass_offset two_classes) {1, 2, 3} 2
      \<lparr>ti_rptDisplay = (replicate 9 None)[0 := Some 1, 1 := Some 2], ti_rssList = [3], ti_depth = 1\<rparr>"
    unfolding type_info_ok_def off by (auto dest!: lt8 simp: nth_list_update)
  show ?thesis unfolding types_ok_def at using one two by (auto simp: two_classes_def fresh_class_def)
qed

lemma instanceOf_correct_witness:
  "(\<exists>h'. instanceOf 3 2 two_classes = Some (True, h')) \<and> (\<exists>h'. instanceOf 2 1 two_classes = Some (False, h'))"
proof -
  obtain s1 s2 where s: "class_at two_classes 1 = Some s1" "class_at two_classes 2 = Some s2"
    by (simp add: class_at_def as_class_def two_classes_def)
  have o: "klass_offset two_classes 3 = Some 8" "klass_offset two_classes 2 = Some 1"
    by (simp_all add: klass_offset_def two_classes_def)
  show ?thesis
    using instanceOf_correct [OF two_classes_ok s(2) o(1)] instanceOf_correct [OF two_classes_ok s(1) o(2)] by auto
qed

section \<open>Inheriting types\<close>

lemma add_supertypes_spec:
  "add_supertypes is s = Some s' \<Longrightarrow> set s' = set s \<union> set is"
  by (induction "is" arbitrary: s) (auto simp: add_supertype_def bind_eq_Some_conv split: if_splits)

lemma add_supertypes_fits:
  "length s + length is \<le> ELOX_MAX_SUPERTYPES \<Longrightarrow> \<exists>s'. add_supertypes is s = Some s'"
proof (induction "is" arbitrary: s)
  case Nil
  then show ?case by simp
next
  case (Cons i "is")
  have "\<exists>s1. add_supertype i s = Some s1 \<and> length s1 \<le> Suc (length s)"
    using Cons.prems by (auto simp: add_supertype_def)
  then obtain s1 where "add_supertype i s = Some s1" "length s1 + length is \<le> ELOX_MAX_SUPERTYPES"
    using Cons.prems by auto
  then show ?case using Cons.IH [of s1] by simp
qed


definition root_types :: type_info where
  "root_types = \<lparr>ti_rptDisplay = (replicate 9 None)[0 := Some 1], ti_rssList = [], ti_depth = 0\<rparr>"




section \<open>Prototypes of callables\<close>

text \<open>Arity and whether there are variable arguments; a method holds another callable.\<close>

fun extractPrototype :: "nat \<Rightarrow> heap \<Rightarrow> addr \<Rightarrow> (nat \<times> bool) option option" where
  "extractPrototype 0 h a = None"
| "extractPrototype (Suc n) h a = (case map_option c_obj (h a) of
       Some (OFunction f) \<Rightarrow> Some (Some (fn_arity f, fn_maxArgs f = ELOX_MAX_ARGS))
     | Some (OClosure c) \<Rightarrow> do { f \<leftarrow> as_function (map_option c_obj (h (cl_function c)));
                                Some (Some (fn_arity f, fn_maxArgs f = ELOX_MAX_ARGS)) }
     | Some (ONativeClosure nc) \<Rightarrow> Some (Some (nc_arity nc, nc_maxArgs nc = ELOX_MAX_ARGS))
     | Some (ONative nt) \<Rightarrow> Some (Some (nt_arity nt, nt_maxArgs nt = ELOX_MAX_ARGS))
     | Some (OMethodDesc arity hasVarargs) \<Rightarrow> Some (Some (arity, hasVarargs))
     | Some (OMethod _ callable) \<Rightarrow> (case callable of None \<Rightarrow> None | Some c \<Rightarrow> extractPrototype n h c)
     | Some _ \<Rightarrow> Some None
     | None \<Rightarrow> None)"

text \<open>A method's callable is not a method: two steps are enough.\<close>

definition prototypeMatches :: "heap \<Rightarrow> addr \<Rightarrow> addr \<Rightarrow> bool option" where
  "prototypeMatches h o1 o2 =
     do { p1 \<leftarrow> extractPrototype 2 h o1;
          case p1 of
            None \<Rightarrow> Some False
          | Some a \<Rightarrow> do { p2 \<leftarrow> extractPrototype 2 h o2;
                           Some (case p2 of None \<Rightarrow> False | Some b \<Rightarrow> a = b) } }"

section \<open>Inheriting\<close>

text \<open>A class's \<open>tableSet\<close>, with the answer whether the key is new.\<close>

definition set_class_entry ::
  "(nat \<Rightarrow> bool) \<Rightarrow> env \<Rightarrow> (obj_class \<Rightarrow> table) \<Rightarrow> ((table \<Rightarrow> table) \<Rightarrow> obj_class \<Rightarrow> obj_class) \<Rightarrow> addr \<Rightarrow> addr \<Rightarrow> val \<Rightarrow> vm
   \<Rightarrow> (bool \<times> bool \<times> vm) option" where
  "set_class_entry mem env sel upd clazz key v vm =
     do { t \<leftarrow> class_table sel clazz vm;
          found \<leftarrow> tableGet (str_view (vm_heap vm)) t key;
          (raised, vm1) \<leftarrow> vm_tableSet mem env (class_table sel clazz) (\<lambda>t. upd_class clazz (upd (\<lambda>_. t))) key v vm;
          Some (raised, found = None, vm1) }"

text \<open>The loops over the slots of a table of the superclass; \<open>Inl\<close> is the error raised.\<close>

fun inherit_fields :: "(nat \<Rightarrow> bool) \<Rightarrow> env \<Rightarrow> addr \<Rightarrow> entry list \<Rightarrow> vm \<Rightarrow> ((native_error + unit) \<times> vm) option" where
  "inherit_fields mem env clazz [] vm = Some (Inr (), vm)"
| "inherit_fields mem env clazz (e # es) vm = (case ekey e of
       None \<Rightarrow> inherit_fields mem env clazz es vm
     | Some key \<Rightarrow>
         do { (raised, isNewKey, vm1) \<leftarrow> set_class_entry mem env cs_fields cs_fields_update clazz key (evalue e) vm;
              if raised then Some (Inl OutOfMemory, vm1)
              else if \<not> isNewKey then Some (Inl (RuntimeError ''Field shadows field from superclass''), vm1)
              else inherit_fields mem env clazz es vm1 })"

fun inherit_methods :: "(nat \<Rightarrow> bool) \<Rightarrow> env \<Rightarrow> addr \<Rightarrow> entry list \<Rightarrow> vm \<Rightarrow> ((native_error + unit) \<times> vm) option" where
  "inherit_methods mem env clazz [] vm = Some (Inr (), vm)"
| "inherit_methods mem env clazz (e # es) vm = (case ekey e of
       None \<Rightarrow> inherit_methods mem env clazz es vm
     | Some key \<Rightarrow>
         do { (raised, _, vm1) \<leftarrow> set_class_entry mem env cs_methods cs_methods_update clazz key (evalue e) vm;
              if raised then Some (Inl OutOfMemory, vm1) else inherit_methods mem env clazz es vm1 })"

text \<open>
  The methods of an interface.  What the class already has under the name is taken for a method: if
  it is the descriptor of an abstract method, its \<open>callable\<close> is not there.
\<close>

fun implement_methods :: "(nat \<Rightarrow> bool) \<Rightarrow> env \<Rightarrow> addr \<Rightarrow> entry list \<Rightarrow> vm \<Rightarrow> ((native_error + unit) \<times> vm) option" where
  "implement_methods mem env clazz [] vm = Some (Inr (), vm)"
| "implement_methods mem env clazz (e # es) vm = (case ekey e of
       None \<Rightarrow> implement_methods mem env clazz es vm
     | Some methodName \<Rightarrow>
         do { t \<leftarrow> class_table cs_methods clazz vm;
              found \<leftarrow> tableGet (str_view (vm_heap vm)) t methodName;
              desc \<leftarrow> val_ref (evalue e);
              case found of
                Some methodVal \<Rightarrow>
                  do { m \<leftarrow> val_ref methodVal;
                       callable \<leftarrow> (case get_obj vm m of Some (OMethod _ (Some c)) \<Rightarrow> Some c | _ \<Rightarrow> None);
                       same \<leftarrow> prototypeMatches (vm_heap vm) callable desc;
                       if \<not> same then Some (Inl (RuntimeError ''Interface Method mismatch''), vm)
                       else implement_methods mem env clazz es vm }
              | None \<Rightarrow>
                  do { (raised, _, vm1) \<leftarrow> set_class_entry mem env cs_methods cs_methods_update clazz methodName (evalue e) vm;
                       if raised then Some (Inl OutOfMemory, vm1) else implement_methods mem env clazz es vm1 } })"

definition interface_of :: "vm \<Rightarrow> val \<Rightarrow> (addr \<times> obj_interface) option option" where
  "interface_of vm v = (case v of
       VObj a \<Rightarrow> (case get_obj vm a of
           Some (OInterface i) \<Rightarrow> Some (Some (a, i)) | Some _ \<Rightarrow> Some None | None \<Rightarrow> None)
     | _ \<Rightarrow> Some None)"

fun implement_all ::
  "(nat \<Rightarrow> bool) \<Rightarrow> env \<Rightarrow> addr \<Rightarrow> val list \<Rightarrow> addr list \<Rightarrow> vm \<Rightarrow> ((native_error + addr list) \<times> vm) option" where
  "implement_all mem env clazz [] supertypes vm = Some (Inr supertypes, vm)"
| "implement_all mem env clazz (v # vs) supertypes vm =
     do { iv \<leftarrow> interface_of vm v;
          case iv of
            None \<Rightarrow> Some (Inl (RuntimeError ''Can only implement interfaces''), vm)
          | Some (i, intf) \<Rightarrow>
              if i \<in> set supertypes then implement_all mem env clazz vs supertypes vm
              else do { supertypes' \<leftarrow> add_supertype i supertypes;
                        (r, vm1) \<leftarrow> implement_methods mem env clazz (tentries (if_methods intf)) vm;
                        case r of Inl e \<Rightarrow> Some (Inl e, vm1)
                        | Inr _ \<Rightarrow> implement_all mem env clazz vs supertypes' vm1 } }"

text \<open>
  \<open>inherit\<close>: the class, its superclass and the interfaces are on the stack in this order;
  \<open>numIntf\<close> and \<open>numSlots\<close> are read from the code.  The member references that
  are not inherited are set by \<open>closeClass\<close>.
\<close>

definition unset_ref :: member_ref where
  "unset_ref = \<lparr>mr_refType = REFTYPE_CLASS_MEMBER, mr_isThis = False, mr_data = RefValue VNil\<rparr>"

definition class_of_val :: "vm \<Rightarrow> val \<Rightarrow> (addr \<times> obj_class) option option" where
  "class_of_val vm v = (case v of
       VObj a \<Rightarrow> (case get_obj vm a of
           Some (OClass c) \<Rightarrow> Some (Some (a, c)) | Some _ \<Rightarrow> Some None | None \<Rightarrow> None)
     | _ \<Rightarrow> Some None)"

text \<open>A pointer the code takes for a class, which it must be.\<close>

definition AS_CLASS :: "vm \<Rightarrow> val \<Rightarrow> (addr \<times> obj_class) option" where
  "AS_CLASS vm v = do { c \<leftarrow> class_of_val vm v; c }"

definition inherit_refs :: "(nat \<Rightarrow> bool) \<Rightarrow> env \<Rightarrow> addr \<Rightarrow> obj_class \<Rightarrow> nat \<Rightarrow> vm \<Rightarrow> (bool \<times> vm) option" where
  "inherit_refs mem env clazz super numSlots vm =
     (let superRefs = cs_memberRefs super;
          totalRefCount = (length superRefs + numSlots) mod 2 ^ 16
      in if totalRefCount = 0 then Some (True, vm)
         else do { (ok, vm1) \<leftarrow> alloc_block mem env (24 * totalRefCount) vm;
                   if \<not> ok then Some (False, vm1)
                   else if totalRefCount < length superRefs then None
                   else Some (True, upd_class clazz (cs_memberRefs_update (\<lambda>_. superRefs @
                          replicate (totalRefCount - length superRefs) unset_ref)) vm1) })"

text \<open>Superclass and display, then the interfaces, then the list of supertypes.\<close>

definition inherit_types ::
  "(nat \<Rightarrow> bool) \<Rightarrow> env \<Rightarrow> addr \<Rightarrow> addr \<Rightarrow> val list \<Rightarrow> vm \<Rightarrow> ((native_error + unit) \<times> vm) option" where
  "inherit_types mem env clazz super intfs vm =
     do { c \<leftarrow> as_class (get_obj vm clazz);
          s \<leftarrow> as_class (get_obj vm super);
          (offset, ti) \<leftarrow> derive_display clazz (cs_typeInfo s) (cs_typeInfo c);
          let vm1 = upd_class clazz (\<lambda>c. c\<lparr>cs_super := VObj super, cs_typeInfo := ti, cs_typeCheckOffset := offset\<rparr>) vm;
              inherited = inherited_supertypes super (cs_typeInfo s)
          in if ELOX_MAX_SUPERTYPES < length inherited then None
             else do { (r, vm2) \<leftarrow> implement_all mem env clazz intfs inherited vm1;
                       case r of
                         Inl e \<Rightarrow> Some (Inl e, vm2)
                       | Inr supertypes \<Rightarrow>
                           if supertypes = [] then Some (Inr (), vm2)
                           else do { (ok, vm3) \<leftarrow> alloc_block mem env (8 * length supertypes) vm2;
                                     if \<not> ok then Some (Inl OutOfMemory, vm3)
                                     else Some (Inr (), upd_class clazz (\<lambda>c. c\<lparr>cs_typeInfo :=
                                            set_supertypes supertypes (cs_typeInfo c)\<rparr>) vm3) } } }"

definition inherit ::
  "(nat \<Rightarrow> bool) \<Rightarrow> env \<Rightarrow> run_ctx \<Rightarrow> nat \<Rightarrow> nat \<Rightarrow> vm \<Rightarrow> ((native_error + unit) \<times> vm) option" where
  "inherit mem env rc numIntf numSlots vm =
     do { f \<leftarrow> active_fiber rc vm;
          superclassVal \<leftarrow> peek (fb_stack f) (numIntf + 1);
          superclass \<leftarrow> class_of_val vm superclassVal;
          case superclass of
            None \<Rightarrow> Some (Inl (RuntimeError ''Superclass must be a class''), vm)
          | Some (super, s) \<Rightarrow>
              do { classVal \<leftarrow> peek (fb_stack f) (numIntf + 2);
                   (clazz, _) \<leftarrow> AS_CLASS vm classVal;
                   (ok, vm1) \<leftarrow> inherit_refs mem env clazz s numSlots vm;
                   if \<not> ok then Some (Inl OutOfMemory, vm1)
                   else do { (r2, vm2) \<leftarrow> inherit_fields mem env clazz (tentries (cs_fields s)) vm1;
                             case r2 of Inl e \<Rightarrow> Some (Inl e, vm2) | Inr _ \<Rightarrow>
                   do { (r3, vm3) \<leftarrow> inherit_methods mem env clazz (tentries (cs_methods s)) vm2;
                        case r3 of Inl e \<Rightarrow> Some (Inl e, vm3) | Inr _ \<Rightarrow>
                   do { (r4, vm4) \<leftarrow> inherit_types mem env clazz super
                          (take numIntf (drop (length (fb_stack f) - 1 - numIntf) (fb_stack f))) vm3;
                        case r4 of Inl e \<Rightarrow> Some (Inl e, vm4) | Inr _ \<Rightarrow>
                   do { f4 \<leftarrow> active_fiber rc vm4;
                        st \<leftarrow> popn (numIntf + 1) (fb_stack f4);
                        Some (Inr (), upd_fiber rc (fb_stack_update (\<lambda>_. st)) vm4) } } } } } }"

section \<open>Members\<close>

text \<open>The machine's interned names \<open>$init\<close>, \<open>hashCode\<close> and \<open>equals\<close>.\<close>

record method_names =
  mn_anonInit :: addr
  mn_hashCode :: addr
  mn_equals :: addr

definition getValueFunction :: "vm \<Rightarrow> val \<Rightarrow> addr option" where
  "getValueFunction vm v = do { a \<leftarrow> val_ref v;
     case get_obj vm a of Some (OFunction _) \<Rightarrow> Some a | Some (OClosure c) \<Rightarrow> Some (cl_function c) | _ \<Rightarrow> None }"

text \<open>An inherited reference of \<open>this\<close> to an overridden method is redirected to the new one.\<close>

definition redirect_ref :: "addr \<Rightarrow> addr \<Rightarrow> member_ref \<Rightarrow> member_ref" where
  "redirect_ref existing method r =
     (if mr_isThis r \<and> mr_refType r = REFTYPE_CLASS_MEMBER \<and> mr_data r = RefValue (VObj existing)
      then r\<lparr>mr_data := RefValue (VObj method)\<rparr> else r)"

text \<open>On the error that the prototypes differ the temporaries are not released.\<close>

definition defineMethod ::
  "(nat \<Rightarrow> bool) \<Rightarrow> env \<Rightarrow> run_ctx \<Rightarrow> method_names \<Rightarrow> addr \<Rightarrow> vm \<Rightarrow> ((native_error + unit) \<times> vm) option" where
  "defineMethod mem env rc names name vm =
     do { f \<leftarrow> active_fiber rc vm;
          methodCallable \<leftarrow> peek (fb_stack f) 0;
          classVal \<leftarrow> peek (fb_stack f) 2;
          (clazz, c) \<leftarrow> AS_CLASS vm classVal;
          fa \<leftarrow> getValueFunction vm methodCallable;
          fn \<leftarrow> as_function (get_obj vm fa);
          (_, super) \<leftarrow> AS_CLASS vm (cs_super c);
          vm1 \<leftarrow> set_obj fa (OFunction (fn\<lparr>fn_parentClass := Some clazz, fn_refOffset := length (cs_memberRefs super)\<rparr>)) vm;
          if cs_name c = Some name \<or> name = mn_anonInit names
          then Some (Inr (), pop rc (upd_class clazz (cs_initializer_update (\<lambda>_. methodCallable)) vm1))
          else do { callable \<leftarrow> val_ref methodCallable;
                    (method, vm2) \<leftarrow> newMethod mem env clazz callable vm1;
                    case method of
                      None \<Rightarrow> Some (Inl OutOfMemory, vm2)
                    | Some m \<Rightarrow>
                        do { let vm3 = pushTemp rc (VObj m) vm2;
                             t \<leftarrow> class_table cs_methods clazz vm3;
                             found \<leftarrow> tableGet (str_view (vm_heap vm3)) t name;
                             (same, vm4) \<leftarrow> (case found of
                                 None \<Rightarrow> Some (True, vm3)
                               | Some existingVal \<Rightarrow>
                                   do { existing \<leftarrow> val_ref existingVal;
                                        same \<leftarrow> prototypeMatches (vm_heap vm3) callable existing;
                                        Some (same, if same then upd_class clazz (cs_memberRefs_update
                                          (\<lambda>refs. map (redirect_ref existing m) (take (length (cs_memberRefs super)) refs) @
                                                  drop (length (cs_memberRefs super)) refs)) vm3 else vm3) });
                             if \<not> same then Some (Inl (RuntimeError ''Method overrides incompatible method''), vm4)
                             else do { (raised, _, vm5) \<leftarrow> set_class_entry mem env cs_methods cs_methods_update clazz name (VObj m) vm4;
                                       let vm6 = releaseTemps rc 1 vm5;
                                       if raised then Some (Inl OutOfMemory, vm6)
                                       else Some (Inr (), pop rc
                                         (if name = mn_hashCode names then upd_class clazz (cs_hashCode_update (\<lambda>_. Some m)) vm6
                                          else if name = mn_equals names then upd_class clazz (cs_equals_update (\<lambda>_. Some m)) vm6
                                          else vm6)) } } } }"

text \<open>Abstract methods of classes and interfaces; an allocation failure while storing is not checked.\<close>

definition addAbstractMethod ::
  "(nat \<Rightarrow> bool) \<Rightarrow> env \<Rightarrow> run_ctx \<Rightarrow> addr \<Rightarrow> nat \<Rightarrow> nat \<Rightarrow> bool \<Rightarrow> vm \<Rightarrow> ((native_error + unit) \<times> vm) option" where
  "addAbstractMethod mem env rc methodName parentOffset arity hasVarargs vm =
     do { f \<leftarrow> active_fiber rc vm;
          parentVal \<leftarrow> peek (fb_stack f) parentOffset;
          parent \<leftarrow> val_ref parentVal;
          (isClass, get, put) \<leftarrow> (case get_obj vm parent of
              Some (OInterface _) \<Rightarrow> Some (False, interface_table parent, upd_interface parent)
            | Some (OClass _) \<Rightarrow> Some (True, class_table cs_methods parent,
                                       \<lambda>t. upd_class parent (cs_methods_update (\<lambda>_. t)))
            | _ \<Rightarrow> None);
          (desc, vm1) \<leftarrow> newMethodDesc mem env arity hasVarargs vm;
          case desc of
            None \<Rightarrow> Some (Inl OutOfMemory, vm1)
          | Some d \<Rightarrow>
              do { let vm2 = pushTemp rc (VObj d) vm1;
                   t \<leftarrow> get vm2;
                   found \<leftarrow> tableGet (str_view (vm_heap vm2)) t methodName;
                   case found of
                     Some existingVal \<Rightarrow>
                       do { existing \<leftarrow> val_ref existingVal;
                            ob \<leftarrow> get_obj vm2 existing;
                            same \<leftarrow> prototypeMatches (vm_heap vm2) d existing;
                            if type_of ob \<noteq> OBJ_METHOD_DESC
                            then Some (Inl (RuntimeError ''Abstract method cannot override method''), vm2)
                            else if \<not> same then Some (Inl (RuntimeError ''Method overrides incompatible method''), vm2)
                            else Some (Inr (), releaseTemps rc 1 vm2) }
                   | None \<Rightarrow>
                       do { (raised, vm3) \<leftarrow> vm_tableSet mem env get put methodName (VObj d) vm2;
                            Some (if raised then Inl OutOfMemory else Inr (), releaseTemps rc 1 vm3) } } }"

definition defineField ::
  "(nat \<Rightarrow> bool) \<Rightarrow> env \<Rightarrow> run_ctx \<Rightarrow> addr \<Rightarrow> vm \<Rightarrow> ((native_error + unit) \<times> vm) option" where
  "defineField mem env rc name vm =
     do { f \<leftarrow> active_fiber rc vm;
          classVal \<leftarrow> peek (fb_stack f) 1;
          (clazz, c) \<leftarrow> AS_CLASS vm classVal;
          (raised, _, vm1) \<leftarrow> set_class_entry mem env cs_fields cs_fields_update clazz name
                                 (VNumber (dbl_of_int (int (tcount (cs_fields c))))) vm;
          Some (if raised then Inl OutOfMemory else Inr (), vm1) }"

definition val_index :: "val \<Rightarrow> nat option" where
  "val_index v = (case v of VNumber d \<Rightarrow> do { i \<leftarrow> dbl_to_int32 d; if 0 \<le> i then Some (nat i) else None } | _ \<Rightarrow> None)"

text \<open>The growth of the array of static values happens in the machine.\<close>

definition vm_valueArrayPush ::
  "(nat \<Rightarrow> bool) \<Rightarrow> env \<Rightarrow> addr \<Rightarrow> val \<Rightarrow> vm \<Rightarrow> (bool \<times> vm) option" where
  "vm_valueArrayPush mem env clazz v vm =
     do { c \<leftarrow> as_class (get_obj vm clazz);
          let a = cs_staticValues c;
          let capacity = grow_capacity (va_capacity a);
          (ok, vm1) \<leftarrow> (if va_capacity a < length (va_values a) + 1
             then do { (_, vm1) \<leftarrow> reallocate mem True (16 * va_capacity a) (16 * capacity) vm;
                       Some (env vm1 (16 * capacity) \<noteq> None, vm1) }
             else Some (True, vm));
          (ok', a') \<leftarrow> valueArrayPush (\<lambda>_. ok) a v;
          Some (ok', upd_class clazz (cs_staticValues_update (\<lambda>_. a')) vm1) }"

definition defineStatic ::
  "(nat \<Rightarrow> bool) \<Rightarrow> env \<Rightarrow> run_ctx \<Rightarrow> addr \<Rightarrow> vm \<Rightarrow> ((native_error + unit) \<times> vm) option" where
  "defineStatic mem env rc name vm =
     do { f \<leftarrow> active_fiber rc vm;
          classVal \<leftarrow> peek (fb_stack f) 2;
          v \<leftarrow> peek (fb_stack f) 0;
          (clazz, c) \<leftarrow> AS_CLASS vm classVal;
          found \<leftarrow> tableGet (str_view (vm_heap vm)) (cs_statics c) name;
          case found of
            None \<Rightarrow>
              do { (ok, vm1) \<leftarrow> vm_valueArrayPush mem env clazz v vm;
                   if \<not> ok then Some (Inl OutOfMemory, vm1)
                   else do { (raised, _, vm2) \<leftarrow> set_class_entry mem env cs_statics cs_statics_update clazz name
                                (VNumber (dbl_of_int (int (tcount (cs_statics c))))) vm1;
                             Some (if raised then Inl OutOfMemory else Inr (), vm2) } }
          | Some indexVal \<Rightarrow>
              do { i \<leftarrow> val_index indexVal;
                   if i < length (va_values (cs_staticValues c))
                   then Some (Inr (), upd_class clazz (\<lambda>c. c\<lparr>cs_staticValues := (cs_staticValues c)\<lparr>va_values :=
                              (va_values (cs_staticValues c))[i := v]\<rparr>\<rparr>) vm)
                   else None } }"

section \<open>Fields and member references\<close>

definition MEMBER_FIELD :: nat where "MEMBER_FIELD = 1"
definition MEMBER_METHOD :: nat where "MEMBER_METHOD = 2"

text \<open>\<open>Some None\<close>: there is no such field.\<close>

definition field_index :: "vm \<Rightarrow> obj_instance \<Rightarrow> addr \<Rightarrow> nat option option" where
  "field_index vm inst name =
     do { c \<leftarrow> as_class (get_obj vm (in_clazz inst));
          found \<leftarrow> tableGet (str_view (vm_heap vm)) (cs_fields c) name;
          case found of None \<Rightarrow> Some None | Some v \<Rightarrow> map_option Some (val_index v) }"

definition getInstanceValue :: "vm \<Rightarrow> addr \<Rightarrow> addr \<Rightarrow> val option option" where
  "getInstanceValue vm instance name =
     do { inst \<leftarrow> as_instance (get_obj vm instance);
          i \<leftarrow> field_index vm inst name;
          case i of
            None \<Rightarrow> Some None
          | Some i \<Rightarrow> if i < length (va_values (in_fields inst)) then Some (Some (va_values (in_fields inst) ! i)) else None }"

text \<open>The answer is false when the field was there and has been set.\<close>

definition setInstanceField :: "addr \<Rightarrow> addr \<Rightarrow> val \<Rightarrow> vm \<Rightarrow> (bool \<times> vm) option" where
  "setInstanceField instance name v vm =
     do { inst \<leftarrow> as_instance (get_obj vm instance);
          i \<leftarrow> field_index vm inst name;
          case i of
            None \<Rightarrow> Some (True, vm)
          | Some i \<Rightarrow>
              if i < length (va_values (in_fields inst))
              then do { vm1 \<leftarrow> set_obj instance (OInstance (inst\<lparr>in_fields := (in_fields inst)\<lparr>va_values :=
                           (va_values (in_fields inst))[i := v]\<rparr>\<rparr>)) vm;
                        Some (False, vm1) }
              else None }"

text \<open>\<open>SET_PROP\<close>.\<close>

definition op_set_prop :: "run_ctx \<Rightarrow> addr \<Rightarrow> vm \<Rightarrow> ((native_error + unit) \<times> vm) option" where
  "op_set_prop rc fieldName vm =
     do { f \<leftarrow> active_fiber rc vm;
          instanceVal \<leftarrow> peek (fb_stack f) 1;
          v \<leftarrow> peek (fb_stack f) 0;
          case instanceVal of
            VObj a \<Rightarrow>
              (case get_obj vm a of
                 None \<Rightarrow> None
               | Some (OInstance _) \<Rightarrow>
                   do { (res, vm1) \<leftarrow> setInstanceField a fieldName v vm;
                        if \<not> res then Some (Inl (RuntimeError ''Undefined field''), vm1)
                        else Some (Inr (), push rc v (pop rc (pop rc vm1))) }
               | Some _ \<Rightarrow> Some (Inl (RuntimeError ''Only instances have fields''), vm))
          | _ \<Rightarrow> Some (Inl (RuntimeError ''Only instances have fields''), vm) }"

text \<open>The value a reference stands for, on an instance.\<close>

definition resolveRef :: "member_ref \<Rightarrow> obj_instance \<Rightarrow> val option" where
  "resolveRef r inst = (case mr_data r of
       RefValue v \<Rightarrow> if mr_refType r = REFTYPE_CLASS_MEMBER then Some v else None
     | PropIndex i \<Rightarrow> if mr_refType r = REFTYPE_CLASS_MEMBER \<or> length (va_values (in_fields inst)) \<le> unat i then None
                      else Some (va_values (in_fields inst) ! unat i))"

definition set_ref :: "addr \<Rightarrow> nat \<Rightarrow> member_ref \<Rightarrow> vm \<Rightarrow> vm option" where
  "set_ref clazz slot r vm =
     do { c \<leftarrow> as_class (get_obj vm clazz);
          if slot < length (cs_memberRefs c)
          then Some (upd_class clazz (cs_memberRefs_update (\<lambda>refs. refs[slot := r])) vm) else None }"

definition resolveMember ::
  "addr \<Rightarrow> nat \<Rightarrow> addr \<Rightarrow> nat \<Rightarrow> vm \<Rightarrow> ((native_error + unit) \<times> vm) option" where
  "resolveMember clazz slotType propName slot vm =
     do { c \<leftarrow> as_class (get_obj vm clazz);
          let propType = slotType div 2 mod 4;
          let hp = str_view (vm_heap vm);
          if slotType mod 2 = 1
          then do { (_, super) \<leftarrow> AS_CLASS vm (cs_super c);
                    propIndex \<leftarrow> tableGetIndex hp (cs_methods super) propName;
                    if propIndex < 0 then Some (Inl (RuntimeError ''Undefined property''), vm)
                    else do { vm1 \<leftarrow> set_ref clazz slot \<lparr>mr_refType = REFTYPE_CLASS_MEMBER, mr_isThis = False,
                                mr_data = RefValue (evalue (tentries (cs_methods super) ! nat propIndex))\<rparr> vm;
                              Some (Inr (), vm1) } }
          else do { fieldVal \<leftarrow> (if propType AND MEMBER_FIELD \<noteq> 0 then tableGet hp (cs_fields c) propName else Some None);
                    field \<leftarrow> (case fieldVal of None \<Rightarrow> Some None | Some v \<Rightarrow> map_option Some (val_index v));
                    case field of
                      Some i \<Rightarrow> do { vm1 \<leftarrow> set_ref clazz slot \<lparr>mr_refType = REF_TYPE_INST_FIELD, mr_isThis = True,
                                       mr_data = PropIndex (word_of_nat i)\<rparr> vm; Some (Inr (), vm1) }
                    | None \<Rightarrow>
                        do { propIndex \<leftarrow> (if propType AND MEMBER_METHOD \<noteq> 0
                                            then tableGetIndex hp (cs_methods c) propName else Some (-1));
                             if propIndex < 0 then Some (Inl (RuntimeError ''Undefined property''), vm)
                             else do { vm1 \<leftarrow> set_ref clazz slot \<lparr>mr_refType = REFTYPE_CLASS_MEMBER, mr_isThis = True,
                                         mr_data = RefValue (evalue (tentries (cs_methods c) ! nat propIndex))\<rparr> vm;
                                       Some (Inr (), vm1) } } } }"

text \<open>
  \<open>closeClass\<close>: the slots read from the code (type, name, number), then the search for abstract
  methods, which ends at the first one.
\<close>

fun resolve_slots ::
  "addr \<Rightarrow> nat \<Rightarrow> (nat \<times> addr \<times> nat) list \<Rightarrow> vm \<Rightarrow> ((native_error + unit) \<times> vm) option" where
  "resolve_slots clazz superRefCount [] vm = Some (Inr (), vm)"
| "resolve_slots clazz superRefCount ((slotType, propName, slot) # slots) vm =
     do { (r, vm1) \<leftarrow> resolveMember clazz slotType propName ((superRefCount + slot) mod 2 ^ 16) vm;
          case r of Inl e \<Rightarrow> Some (Inl e, vm1) | Inr _ \<Rightarrow> resolve_slots clazz superRefCount slots vm1 }"

fun has_abstract :: "heap \<Rightarrow> entry list \<Rightarrow> bool option" where
  "has_abstract h [] = Some False"
| "has_abstract h (e # es) = (case ekey e of
       None \<Rightarrow> has_abstract h es
     | Some _ \<Rightarrow> do { m \<leftarrow> val_ref (evalue e);
                     ob \<leftarrow> map_option c_obj (h m);
                     if type_of ob = OBJ_METHOD_DESC then Some True else has_abstract h es })"

definition closeClass :: "run_ctx \<Rightarrow> (nat \<times> addr \<times> nat) list \<Rightarrow> vm \<Rightarrow> ((native_error + unit) \<times> vm) option" where
  "closeClass rc slots vm =
     do { f \<leftarrow> active_fiber rc vm;
          classVal \<leftarrow> peek (fb_stack f) 1;
          (clazz, c) \<leftarrow> AS_CLASS vm classVal;
          (_, super) \<leftarrow> AS_CLASS vm (cs_super c);
          (r, vm1) \<leftarrow> resolve_slots clazz (length (cs_memberRefs super)) slots vm;
          case r of
            Inl e \<Rightarrow> Some (Inl e, vm1)
          | Inr _ \<Rightarrow>
              do { c1 \<leftarrow> as_class (get_obj vm1 clazz);
                   hasAbstractMethods \<leftarrow> has_abstract (vm_heap vm1) (tentries (cs_methods c1));
                   Some (if hasAbstractMethods \<and> \<not> cs_abstract c1 then Inl (RuntimeError ''Unimplemented method'')
                         else if cs_abstract c1 \<and> \<not> hasAbstractMethods
                         then Inl (RuntimeError ''Abstract class has no abstract methods'')
                         else Inr (), vm1) } }"

definition bindMethod ::
  "(nat \<Rightarrow> bool) \<Rightarrow> env \<Rightarrow> run_ctx \<Rightarrow> addr \<Rightarrow> addr \<Rightarrow> vm \<Rightarrow> ((native_error + unit) \<times> vm) option" where
  "bindMethod mem env rc clazz name vm =
     do { t \<leftarrow> class_table cs_methods clazz vm;
          found \<leftarrow> tableGet (str_view (vm_heap vm)) t name;
          case found of
            None \<Rightarrow> Some (Inl (RuntimeError ''Undefined property''), vm)
          | Some methodVal \<Rightarrow>
              do { m \<leftarrow> val_ref methodVal;
                   f \<leftarrow> active_fiber rc vm;
                   receiver \<leftarrow> peek (fb_stack f) 0;
                   (bound, vm1) \<leftarrow> newBoundMethod mem env receiver m vm;
                   Some (case bound of None \<Rightarrow> (Inl OutOfMemory, vm1)
                         | Some b \<Rightarrow> (Inr (), push rc (VObj b) (pop rc vm1))) } }"

section \<open>Complete classes\<close>

lemma has_abstract_spec:
  "has_abstract h es = Some r \<Longrightarrow>
    (r \<longrightarrow> (\<exists>e\<in>set es. ekey e \<noteq> None \<and> (\<exists>m ob. evalue e = VObj m \<and> map_option c_obj (h m) = Some ob \<and> type_of ob = OBJ_METHOD_DESC))) \<and>
    (\<not> r \<longrightarrow> (\<forall>e\<in>set es. ekey e \<noteq> None \<longrightarrow> (\<exists>m ob. evalue e = VObj m \<and> map_option c_obj (h m) = Some ob \<and> type_of ob \<noteq> OBJ_METHOD_DESC)))"
proof (induction es)
  case Nil
  then show ?case by simp
next
  case (Cons e es)
  show ?case
  proof (cases "ekey e")
    case None
    then show ?thesis using Cons by auto
  next
    case (Some k)
    then obtain m ob where m: "val_ref (evalue e) = Some m" "map_option c_obj (h m) = Some ob"
      and r: "(if type_of ob = OBJ_METHOD_DESC then Some True else has_abstract h es) = Some r"
      using Cons.prems by (simp only: has_abstract.simps option.case bind_eq_Some_conv) blast
    have v: "evalue e = VObj m" using m(1) by (cases "evalue e") auto
    show ?thesis
    proof (cases "type_of ob = OBJ_METHOD_DESC")
      case True
      then show ?thesis using r v m(2) Some by auto
    next
      case False
      then show ?thesis using Cons.IH r v m(2) Some by auto
    qed
  qed
qed


definition closing_vm :: vm where
  "closing_vm = blank_vm [1 \<mapsto> \<lparr>c_markers = 0, c_obj = OClass (fresh_class None False)\<rparr>,
     2 \<mapsto> \<lparr>c_markers = 0, c_obj = OClass ((fresh_class None False)\<lparr>cs_super := VObj 1\<rparr>)\<rparr>] [1, 2] [VObj 2, VNil] blank_table"


section \<open>Setting a property\<close>

text \<open>
  C40: Assigning to a property of an instance from outside tests the answer of
  \<open>setInstanceField\<close> the wrong way round: for a field the instance has, the assignment is
  carried out and then the error for an undefined field is raised; for one it does not have, nothing
  is assigned and no error is raised.
\<close>

theorem op_set_prop_inverted:
  assumes "active_fiber rc vm = Some f" and "fb_stack f = st @ [VObj a, v]" and "get_obj vm a = Some (OInstance inst)"
    and "field_index vm inst name = Some i" and "\<forall>k. i = Some k \<longrightarrow> k < length (va_values (in_fields inst))"
  shows "\<exists>vm' r. op_set_prop rc name vm = Some (r, vm') \<and>
    (case i of
       None \<Rightarrow> r = Inr () \<and> vm_heap vm' = vm_heap vm
     | Some k \<Rightarrow> r = Inl (RuntimeError ''Undefined field'') \<and>
         get_obj vm' a = Some (OInstance (inst\<lparr>in_fields := (in_fields inst)\<lparr>va_values := (va_values (in_fields inst))[k := v]\<rparr>\<rparr>)))"
proof -
  have p: "peek (fb_stack f) 1 = Some (VObj a)" "peek (fb_stack f) 0 = Some v"
    by (simp_all add: peek_def assms(2) nth_append)
  have h: "vm_heap (push rc v (pop rc (pop rc vm))) = vm_heap vm" by (simp add: push_def pop_def)
  obtain c where c: "vm_heap vm a = Some c" using assms(3) by (auto simp: get_obj_def)
  show ?thesis
    using assms(1,3,4,5) p h c
    by (cases i) (auto simp: op_set_prop_def setInstanceField_def as_instance_def set_obj_def get_obj_def)
qed

definition instance_vm :: vm where
  "instance_vm = blank_vm [1 \<mapsto> \<lparr>c_markers = 0, c_obj = OClass (fresh_class None False)\<rparr>,
     2 \<mapsto> \<lparr>c_markers = 0, c_obj = OInstance \<lparr>in_clazz = 1, in_identityHash = 0, in_flags = 0, in_fields = initValueArray\<rparr>\<rparr>]
     [1, 2] [VObj 2, VBool True] blank_table"

lemma op_set_prop_inverted_witness: "\<exists>vm'. op_set_prop None 9 instance_vm = Some (Inr (), vm')"
proof -
  let ?i = "\<lparr>in_clazz = 1, in_identityHash = 0, in_flags = 0, in_fields = initValueArray\<rparr>"
  have "active_fiber None instance_vm = Some \<lparr>fb_frames = [], fb_stack = [VObj 2, VBool True], fb_openUpvalues = [], fb_temps = []\<rparr>"
    by (simp add: active_fiber_def instance_vm_def blank_vm_def)
  moreover have "field_index instance_vm ?i 9 = Some None"
    by (simp add: field_index_def instance_vm_def get_obj_def as_class_def fresh_class_def empty_table_def initTable_def tableGet_def)
  ultimately show ?thesis
    using op_set_prop_inverted [of None instance_vm _ "[]" 2 "VBool True" ?i 9 None]
    by (auto simp: instance_vm_def get_obj_def)
qed

section \<open>Interfaces with a common method\<close>

definition shared_name_vm :: vm where
  "shared_name_vm = blank_vm [1 \<mapsto> \<lparr>c_markers = 0, c_obj = OClass (fresh_class None False)\<rparr>,
     3 \<mapsto> \<lparr>c_markers = 0, c_obj = OInterface \<lparr>if_typeCheckOffset = 8, if_name = None, if_methods = empty_table\<rparr>\<rparr>,
     4 \<mapsto> \<lparr>c_markers = 0, c_obj = OInterface \<lparr>if_typeCheckOffset = 8, if_name = None, if_methods = empty_table\<rparr>\<rparr>,
     5 \<mapsto> \<lparr>c_markers = 0, c_obj = OString [109] (hashString [109])\<rparr>,
     6 \<mapsto> \<lparr>c_markers = 0, c_obj = OMethodDesc 0 False\<rparr>] [1, 3, 4, 5, 6] [VObj 1, VObj 3, VObj 4, VNil] blank_table"

text \<open>
  A class cannot implement two interfaces that both declare a method of the same name: the
  descriptor that the first interface left in the class's method table is taken for a method when the
  second one is handled, which reads a field it does not have.
\<close>

theorem implement_common_method:
  "(do { (_, vm1) \<leftarrow> vm_tableSet (\<lambda>_. True) two_cells (interface_table 3) (upd_interface 3) 5 (VObj 6) shared_name_vm;
         (_, vm2) \<leftarrow> vm_tableSet (\<lambda>_. True) two_cells (interface_table 4) (upd_interface 4) 5 (VObj 6) vm1;
         Some (map_option fst (implement_all (\<lambda>_. True) two_cells 1 [VObj 3] [] vm2),
               map_option fst (implement_all (\<lambda>_. True) two_cells 1 [VObj 3, VObj 4] [] vm2)) })
   = Some (Some (Inr [3]), None)"
  by code_simp

end
