(* ===== verification/CompilerState.thy ===== *)
theory CompilerState
  imports Fibers ScannerProgress
begin

text \<open>
  The state of the single-pass compiler (\<open>compiler.h\<close>) and the lower layer of
  \<open>compiler.c\<close>: the tokens read ahead, the report of errors, the emission and patching of
  bytecode, the constants of a function and the stack of function compilers.  The function being
  compiled (\<open>Compiler.function\<close>) is held in the compiler's record, \<open>cm_fn\<close>, and
  stored into the object \<open>cm_function\<close> whenever the machine runs; the collector then also
  finds the compilers as roots.  A fixed array together with its counter is a list; a store outside
  the array has no result.  What the error reports print is kept in \<open>cc_errors\<close>.
\<close>

section \<open>Opcodes\<close>

text \<open>The constants of \<open>opcodes.h\<close>.\<close>

type_synonym opcode = nat

definition OP_CONST8 :: opcode where "OP_CONST8 = 0"
definition OP_CONST16 :: opcode where "OP_CONST16 = 1"
definition OP_IMMI :: opcode where "OP_IMMI = 2"
definition OP_NIL :: opcode where "OP_NIL = 3"
definition OP_TRUE :: opcode where "OP_TRUE = 4"
definition OP_FALSE :: opcode where "OP_FALSE = 5"
definition OP_POP :: opcode where "OP_POP = 6"
definition OP_POPN :: opcode where "OP_POPN = 7"
definition OP_SWAP :: opcode where "OP_SWAP = 8"
definition OP_NUM_VARARGS :: opcode where "OP_NUM_VARARGS = 9"
definition OP_EXPAND_VARARGS :: opcode where "OP_EXPAND_VARARGS = 10"
definition OP_EXPAND :: opcode where "OP_EXPAND = 11"
definition OP_PEEK :: opcode where "OP_PEEK = 12"
definition OP_GET_LOCAL :: opcode where "OP_GET_LOCAL = 13"
definition OP_GET_VARARG :: opcode where "OP_GET_VARARG = 14"
definition OP_GET_GLOBAL :: opcode where "OP_GET_GLOBAL = 15"
definition OP_GET_BUILTIN :: opcode where "OP_GET_BUILTIN = 16"
definition OP_DEFINE_GLOBAL :: opcode where "OP_DEFINE_GLOBAL = 17"
definition OP_SET_LOCAL :: opcode where "OP_SET_LOCAL = 18"
definition OP_SET_VARARG :: opcode where "OP_SET_VARARG = 19"
definition OP_SET_GLOBAL :: opcode where "OP_SET_GLOBAL = 20"
definition OP_GET_UPVALUE :: opcode where "OP_GET_UPVALUE = 21"
definition OP_SET_UPVALUE :: opcode where "OP_SET_UPVALUE = 22"
definition OP_GET_PROP :: opcode where "OP_GET_PROP = 23"
definition OP_GET_MEMBER_PROP :: opcode where "OP_GET_MEMBER_PROP = 24"
definition OP_MAP_GET :: opcode where "OP_MAP_GET = 25"
definition OP_SET_PROP :: opcode where "OP_SET_PROP = 26"
definition OP_SET_MEMBER_PROP :: opcode where "OP_SET_MEMBER_PROP = 27"
definition OP_MAP_SET :: opcode where "OP_MAP_SET = 28"
definition OP_GET_SUPER :: opcode where "OP_GET_SUPER = 29"
definition OP_EQUAL :: opcode where "OP_EQUAL = 30"
definition OP_GREATER :: opcode where "OP_GREATER = 31"
definition OP_LESS :: opcode where "OP_LESS = 32"
definition OP_ADD :: opcode where "OP_ADD = 33"
definition OP_SUBTRACT :: opcode where "OP_SUBTRACT = 34"
definition OP_MULTIPLY :: opcode where "OP_MULTIPLY = 35"
definition OP_DIVIDE :: opcode where "OP_DIVIDE = 36"
definition OP_MODULO :: opcode where "OP_MODULO = 37"
definition OP_INSTANCEOF :: opcode where "OP_INSTANCEOF = 38"
definition OP_IN :: opcode where "OP_IN = 39"
definition OP_NOT :: opcode where "OP_NOT = 40"
definition OP_NEGATE :: opcode where "OP_NEGATE = 41"
definition OP_JUMP :: opcode where "OP_JUMP = 42"
definition OP_JUMP_IF_FALSE :: opcode where "OP_JUMP_IF_FALSE = 43"
definition OP_LOOP :: opcode where "OP_LOOP = 44"
definition OP_CALL :: opcode where "OP_CALL = 45"
definition OP_INVOKE :: opcode where "OP_INVOKE = 46"
definition OP_MEMBER_INVOKE :: opcode where "OP_MEMBER_INVOKE = 47"
definition OP_SUPER_INVOKE :: opcode where "OP_SUPER_INVOKE = 48"
definition OP_SUPER_INIT :: opcode where "OP_SUPER_INIT = 49"
definition OP_CLOSURE :: opcode where "OP_CLOSURE = 50"
definition OP_CLOSE_UPVALUE :: opcode where "OP_CLOSE_UPVALUE = 51"
definition OP_RETURN :: opcode where "OP_RETURN = 52"
definition OP_END :: opcode where "OP_END = 53"
definition OP_INTF :: opcode where "OP_INTF = 54"
definition OP_CLASS :: opcode where "OP_CLASS = 55"
definition OP_INHERIT :: opcode where "OP_INHERIT = 56"
definition OP_ABS_METHOD :: opcode where "OP_ABS_METHOD = 57"
definition OP_METHOD :: opcode where "OP_METHOD = 58"
definition OP_STATIC :: opcode where "OP_STATIC = 59"
definition OP_FIELD :: opcode where "OP_FIELD = 60"
definition OP_CLOSE_CLASS :: opcode where "OP_CLOSE_CLASS = 61"
definition OP_ARRAY_BUILD :: opcode where "OP_ARRAY_BUILD = 62"
definition OP_INDEX :: opcode where "OP_INDEX = 63"
definition OP_INDEX_STORE :: opcode where "OP_INDEX_STORE = 64"
definition OP_SLICE :: opcode where "OP_SLICE = 65"
definition OP_MAP_BUILD :: opcode where "OP_MAP_BUILD = 66"
definition OP_THROW :: opcode where "OP_THROW = 67"
definition OP_PUSH_EXH :: opcode where "OP_PUSH_EXH = 68"
definition OP_UNROLL_EXH :: opcode where "OP_UNROLL_EXH = 69"
definition OP_UNROLL_EXH_R :: opcode where "OP_UNROLL_EXH_R = 70"
definition OP_UNROLL_EXH_F :: opcode where "OP_UNROLL_EXH_F = 71"
definition OP_FOREACH_INIT :: opcode where "OP_FOREACH_INIT = 72"
definition OP_UNPACK :: opcode where "OP_UNPACK = 73"
definition OP_IMPORT :: opcode where "OP_IMPORT = 74"
definition OP_DATA :: opcode where "OP_DATA = 75"

lemmas opcode_defs =
  OP_CONST8_def OP_CONST16_def OP_IMMI_def OP_NIL_def OP_TRUE_def
  OP_FALSE_def OP_POP_def OP_POPN_def OP_SWAP_def OP_NUM_VARARGS_def
  OP_EXPAND_VARARGS_def OP_EXPAND_def OP_PEEK_def OP_GET_LOCAL_def OP_GET_VARARG_def
  OP_GET_GLOBAL_def OP_GET_BUILTIN_def OP_DEFINE_GLOBAL_def OP_SET_LOCAL_def OP_SET_VARARG_def
  OP_SET_GLOBAL_def OP_GET_UPVALUE_def OP_SET_UPVALUE_def OP_GET_PROP_def OP_GET_MEMBER_PROP_def
  OP_MAP_GET_def OP_SET_PROP_def OP_SET_MEMBER_PROP_def OP_MAP_SET_def OP_GET_SUPER_def
  OP_EQUAL_def OP_GREATER_def OP_LESS_def OP_ADD_def OP_SUBTRACT_def
  OP_MULTIPLY_def OP_DIVIDE_def OP_MODULO_def OP_INSTANCEOF_def OP_IN_def
  OP_NOT_def OP_NEGATE_def OP_JUMP_def OP_JUMP_IF_FALSE_def OP_LOOP_def
  OP_CALL_def OP_INVOKE_def OP_MEMBER_INVOKE_def OP_SUPER_INVOKE_def OP_SUPER_INIT_def
  OP_CLOSURE_def OP_CLOSE_UPVALUE_def OP_RETURN_def OP_END_def OP_INTF_def
  OP_CLASS_def OP_INHERIT_def OP_ABS_METHOD_def OP_METHOD_def OP_STATIC_def
  OP_FIELD_def OP_CLOSE_CLASS_def OP_ARRAY_BUILD_def OP_INDEX_def OP_INDEX_STORE_def
  OP_SLICE_def OP_MAP_BUILD_def OP_THROW_def OP_PUSH_EXH_def OP_UNROLL_EXH_def
  OP_UNROLL_EXH_R_def OP_UNROLL_EXH_F_def OP_FOREACH_INIT_def OP_UNPACK_def OP_IMPORT_def
  OP_DATA_def

section \<open>State\<close>

record parser =
  ps_current :: token
  ps_previous :: token
  ps_beforePrevious :: token
  ps_next :: token
  ps_hasNext :: bool
  ps_hadError :: bool
  ps_panicMode :: bool

datatype function_type = FTYPE_FUNCTION | FTYPE_INITIALIZER | FTYPE_METHOD | FTYPE_LAMBDA | FTYPE_SCRIPT

datatype var_scope = VAR_LOCAL | VAR_GLOBAL | VAR_BUILTIN | VAR_UPVALUE

primrec scope_code :: "var_scope \<Rightarrow> nat" where
  "scope_code VAR_LOCAL = 0" | "scope_code VAR_GLOBAL = 1" | "scope_code VAR_BUILTIN = 2"
| "scope_code VAR_UPVALUE = 3"

record local_var =
  lc_name :: "byte list"
  lc_depth :: int
  lc_postArgs :: bool
  lc_isCaptured :: bool

record upvalue =
  up_index :: nat
  up_postArgs :: bool
  up_isLocal :: bool

definition QUAL_ABSTRACT :: u32 where "QUAL_ABSTRACT = 1"
definition QUAL_GLOBAL :: u32 where "QUAL_GLOBAL = 2"
definition QUAL_LOCAL :: u32 where "QUAL_LOCAL = 4"
definition QUAL_PENDING_SCOPE :: u32 where "QUAL_PENDING_SCOPE = 1"
definition QUAL_PENDING_CLASS :: u32 where "QUAL_PENDING_CLASS = 2"

record qualifiers =
  q_attrs :: u32
  q_pending :: u32

definition UINT8_COUNT :: nat where "UINT8_COUNT = 256"

text \<open>The lists of locals, of upvalues and of default arguments stand for the arrays of
  \<open>UINT8_COUNT\<close> elements with \<open>localCount\<close>, \<open>upvalueCount\<close> and
  \<open>numArgs\<close>; the enclosing compiler is the next one of \<open>cc_compilers\<close>.\<close>

record compiler =
  cm_function :: addr
  cm_fn :: obj_function
  cm_type :: function_type
  cm_postArgs :: bool
  cm_hasVarargs :: bool
  cm_locals :: "local_var list"
  cm_upvalues :: "upvalue list"
  cm_scopeDepth :: int
  cm_defaultArgs :: "val list"
  cm_quals :: qualifiers
  cm_stringConstants :: table
  cm_catchStackDepth :: int
  cm_catchDepth :: int
  cm_finallyDepth :: int

record class_compiler =
  cc_pendingThis :: table
  cc_pendingSuper :: table
  cc_hasExplicitInitializer :: bool

record break_jump =
  bj_scopeDepth :: int
  bj_offset :: int

record loop_ctx =
  lp_start :: int
  lp_scopeDepth :: int
  lp_catchStackDepth :: int
  lp_finallyDepth :: int

text \<open>The running context: the allocator, the collector's gray stack and the active fiber.\<close>

record runtime =
  rt_mem :: "nat \<Rightarrow> bool"
  rt_env :: env
  rt_fiber :: run_ctx

record cctx =
  cc_run :: runtime
  cc_vm :: vm
  cc_scanner :: scanner
  cc_moduleName :: "byte list"
  cc_fileName :: "addr option"
  cc_parser :: parser
  cc_compilers :: "compiler list"
  cc_classes :: "class_compiler list"
  cc_innermostLoop :: loop_ctx
  cc_breakJumps :: "break_jump list"
  cc_lambdaCount :: nat
  cc_errors :: "(nat \<times> byte list) list"

section \<open>The machine below the compiler\<close>

definition current :: "cctx \<Rightarrow> compiler option" where
  "current s = (case cc_compilers s of [] \<Rightarrow> None | c # _ \<Rightarrow> Some c)"

definition upd_current :: "(compiler \<Rightarrow> compiler) \<Rightarrow> cctx \<Rightarrow> cctx option" where
  "upd_current f s = (case cc_compilers s of [] \<Rightarrow> None | c # cs \<Rightarrow> Some (s\<lparr>cc_compilers := f c # cs\<rparr>))"

definition upd_parser :: "(parser \<Rightarrow> parser) \<Rightarrow> cctx \<Rightarrow> cctx" where
  "upd_parser f s = s\<lparr>cc_parser := f (cc_parser s)\<rparr>"

definition compiler_root :: "compiler \<Rightarrow> compiler_roots" where
  "compiler_root c = \<lparr>cr_function = Some (cm_function c), cr_numArgs = length (cm_defaultArgs c),
     cr_defaultArgs = cm_defaultArgs c\<rparr>"

fun store_functions :: "compiler list \<Rightarrow> vm \<Rightarrow> vm option" where
  "store_functions [] vm = Some vm"
| "store_functions (c # cs) vm =
     do { vm1 \<leftarrow> set_obj (cm_function c) (OFunction (cm_fn c)) vm; store_functions cs vm1 }"

definition sync :: "cctx \<Rightarrow> vm option" where
  "sync s =
     do { vm \<leftarrow> store_functions (cc_compilers s) (cc_vm s);
          case vm_compilers vm of
            [] \<Rightarrow> None
          | _ # rest \<Rightarrow> Some (vm\<lparr>vm_compilers :=
              \<lparr>csr_fileName = cc_fileName s, csr_compilers = map compiler_root (cc_compilers s)\<rparr> # rest\<rparr>) }"

definition machine :: "(runtime \<Rightarrow> vm \<Rightarrow> ('a \<times> vm) option) \<Rightarrow> cctx \<Rightarrow> ('a \<times> cctx) option" where
  "machine f s = do { vm \<leftarrow> sync s; (r, vm') \<leftarrow> f (cc_run s) vm; Some (r, s\<lparr>cc_vm := vm'\<rparr>) }"

text \<open>\<open>GROW_ARRAY\<close> from a block of \<open>old\<close> to one of \<open>new\<close> bytes.\<close>

definition grow_array :: "nat \<Rightarrow> nat \<Rightarrow> runtime \<Rightarrow> vm \<Rightarrow> (bool \<times> vm) option" where
  "grow_array old new rt vm =
     do { (_, vm1) \<leftarrow> reallocate (rt_mem rt) True old new vm; Some (rt_env rt vm1 new \<noteq> None, vm1) }"

definition allocate :: "nat \<Rightarrow> runtime \<Rightarrow> vm \<Rightarrow> (bool \<times> vm) option" where
  "allocate n rt = alloc_block (rt_mem rt) (rt_env rt) n"

definition release :: "nat \<Rightarrow> runtime \<Rightarrow> vm \<Rightarrow> (unit \<times> vm) option" where
  "release n rt vm = map_option (Pair ()) (free_block (rt_mem rt) n vm)"

definition copy_string :: "byte list \<Rightarrow> runtime \<Rightarrow> vm \<Rightarrow> (addr option \<times> vm) option" where
  "copy_string chars rt = copyString (rt_mem rt) (rt_env rt) (rt_fiber rt) chars"

section \<open>Errors\<close>

definition errorAt :: "token \<Rightarrow> byte list \<Rightarrow> cctx \<Rightarrow> cctx" where
  "errorAt tk message s =
     (if ps_panicMode (cc_parser s) then s
      else upd_parser (\<lambda>p. p\<lparr>ps_panicMode := True, ps_hadError := True\<rparr>)
             (s\<lparr>cc_errors := cc_errors s @ [(tk_line tk, message)]\<rparr>))"

definition compileError :: "string \<Rightarrow> cctx \<Rightarrow> cctx" where
  "compileError message s = errorAt (ps_previous (cc_parser s)) (bytes message) s"

definition errorAtCurrent :: "string \<Rightarrow> cctx \<Rightarrow> cctx" where
  "errorAtCurrent message s = errorAt (ps_current (cc_parser s)) (bytes message) s"

section \<open>Tokens\<close>

definition scan_token :: "cctx \<Rightarrow> (token \<times> cctx) option" where
  "scan_token s = do { (tk, sc) \<leftarrow> scanToken (cc_scanner s); Some (tk, s\<lparr>cc_scanner := sc\<rparr>) }"

definition next_token :: "cctx \<Rightarrow> cctx option" where
  "next_token s =
     (if ps_hasNext (cc_parser s)
      then Some (upd_parser (\<lambda>p. p\<lparr>ps_current := ps_next p, ps_hasNext := False\<rparr>) s)
      else do { (tk, s) \<leftarrow> scan_token s; Some (upd_parser (\<lambda>p. p\<lparr>ps_current := tk\<rparr>) s) })"

partial_function (option) advance_loop :: "cctx \<Rightarrow> cctx option" where
  "advance_loop s =
     do { s \<leftarrow> next_token s;
          let tk = ps_current (cc_parser s);
          if tk_type tk \<noteq> TOKEN_ERROR then Some s else advance_loop (errorAt tk (tk_chars tk) s) }"

declare advance_loop.simps [code]

definition advance :: "cctx \<Rightarrow> cctx option" where
  "advance s = advance_loop (upd_parser (\<lambda>p. p\<lparr>ps_beforePrevious := ps_previous p, ps_previous := ps_current p\<rparr>) s)"

definition check :: "token_type \<Rightarrow> cctx \<Rightarrow> bool" where
  "check type s \<longleftrightarrow> tk_type (ps_current (cc_parser s)) = type"

definition getCrtType :: "cctx \<Rightarrow> token_type" where
  "getCrtType s = tk_type (ps_current (cc_parser s))"

definition consume :: "token_type \<Rightarrow> string \<Rightarrow> cctx \<Rightarrow> cctx option" where
  "consume type message s = (if check type s then advance s else Some (errorAtCurrent message s))"

definition checkNext :: "token_type \<Rightarrow> cctx \<Rightarrow> (bool \<times> cctx) option" where
  "checkNext type s =
     do { atEnd \<leftarrow> isAtEnd (cc_scanner s);
          if atEnd then Some (False, s)
          else do { s \<leftarrow> (if ps_hasNext (cc_parser s) then Some s
                         else do { (tk, s) \<leftarrow> scan_token s;
                                   Some (upd_parser (\<lambda>p. p\<lparr>ps_next := tk, ps_hasNext := True\<rparr>) s) });
                    Some (tk_type (ps_next (cc_parser s)) = type, s) } }"

definition consumeIfMatch :: "token_type \<Rightarrow> cctx \<Rightarrow> (bool \<times> cctx) option" where
  "consumeIfMatch type s =
     (if \<not> check type s then Some (False, s) else do { s \<leftarrow> advance s; Some (True, s) })"

end
