(* ===== verification/Emission.thy ===== *)
theory Emission
  imports CompilerState
begin

text \<open>
  The emission and patching of bytecode (\<open>emitByte\<close> to \<open>patchBreakJumps\<close> of
  \<open>compiler.c\<close>), the numeric literals, the constants of a function, and the start and end
  of a function compiler.  Two- and four-byte operands are stored in the order of a little-endian
  machine.
\<close>

section \<open>Numbers\<close>

text \<open>
  \<open>strtod\<close> on what the scanner accepts as a number, decimal digits with an optional
  fraction: the nearest double of \<open>m / 10 ^ k\<close>, ties to even.  (The C function would also
  read an exponent or a hexadecimal prefix that runs on behind the token; such a text is not a
  number followed by anything the grammar allows.)
\<close>

definition digit_val :: "byte \<Rightarrow> nat" where "digit_val c = unat c - 48"

fun read_digits :: "nat \<Rightarrow> nat \<Rightarrow> bool \<Rightarrow> byte list \<Rightarrow> nat \<times> nat" where
  "read_digits m k frac [] = (m, k)"
| "read_digits m k frac (c # cs) =
     (if 48 \<le> c \<and> c \<le> 57 then read_digits (10 * m + digit_val c) (if frac then k + 1 else k) frac cs
      else if c = 46 \<and> \<not> frac then read_digits m k True cs
      else (m, k))"

text \<open>The nearest integer of \<open>a / b\<close>, and the scale at which a quotient has 53 bits.\<close>

definition round_div :: "nat \<Rightarrow> nat \<Rightarrow> nat" where
  "round_div a b =
     (let q = a div b; r = a mod b
      in if 2 * r > b \<or> 2 * r = b \<and> odd q then q + 1 else q)"

definition ratio_log2 :: "nat \<Rightarrow> nat \<Rightarrow> int" where
  "ratio_log2 a b =
     (let l = int (ilog2 a) - int (ilog2 b)
      in if 0 \<le> l then (if a < b * 2 ^ nat l then l - 1 else l)
         else (if a * 2 ^ nat (- l) < b then l - 1 else l))"

definition dbl_of_ratio :: "nat \<Rightarrow> nat \<Rightarrow> dbl" where
  "dbl_of_ratio a b =
     (if a = 0 then 0
      else let e = max (ratio_log2 a b - 52) (- 1074);
               q = (if 0 \<le> e then round_div a (b * 2 ^ nat e) else round_div (a * 2 ^ nat (- e)) b);
               bits = nat (e + 1074) * 2 ^ 52 + q
           in if bits \<ge> 2047 * 2 ^ 52 then word_of_nat (2047 * 2 ^ 52) else word_of_nat bits)"

definition strtod :: "byte list \<Rightarrow> dbl" where
  "strtod chars = (let (m, k) = read_digits 0 0 False chars in dbl_of_ratio m (10 ^ k))"

section \<open>Writing code\<close>

definition currentChunk :: "cctx \<Rightarrow> chunk option" where
  "currentChunk s = map_option (\<lambda>c. fn_chunk (cm_fn c)) (current s)"

definition upd_fn :: "(obj_function \<Rightarrow> obj_function) \<Rightarrow> compiler \<Rightarrow> compiler" where
  "upd_fn f c = c\<lparr>cm_fn := f (cm_fn c)\<rparr>"

definition set_chunk :: "chunk \<Rightarrow> cctx \<Rightarrow> cctx option" where
  "set_chunk ch s = upd_current (upd_fn (\<lambda>f. f\<lparr>fn_chunk := ch\<rparr>)) s"

definition code_count :: "cctx \<Rightarrow> int" where
  "code_count s = (case currentChunk s of None \<Rightarrow> 0 | Some ch \<Rightarrow> int (length (ch_code ch)))"

text \<open>\<open>writeChunk\<close> with the two growing arrays in the machine.\<close>

definition emit_code :: "byte list \<Rightarrow> cctx \<Rightarrow> (bool \<times> cctx) option" where
  "emit_code data s =
     do { ch \<leftarrow> currentChunk s;
          let count = length (ch_code ch);
          let capacity = ch_capacity ch;
          (ok, s) \<leftarrow> (if capacity < count + length data
             then machine (grow_array capacity (grow_capacity capacity)) s else Some (True, s));
          (failed, ch) \<leftarrow> write_code (\<lambda>_. ok) ch data;
          s \<leftarrow> set_chunk ch s;
          Some (failed, s) }"

definition emit_line :: "int \<Rightarrow> cctx \<Rightarrow> (bool \<times> cctx) option" where
  "emit_line line s =
     do { ch \<leftarrow> currentChunk s;
          let known = (ch_lines ch \<noteq> [] \<and> ls_line (last (ch_lines ch)) = line);
          let capacity = ch_lineCapacity ch;
          (ok, s) \<leftarrow> (if \<not> known \<and> capacity < length (ch_lines ch) + 1
             then machine (grow_array (8 * capacity) (8 * grow_capacity capacity)) s else Some (True, s));
          (failed, ch) \<leftarrow> write_line (\<lambda>_. ok) ch line;
          s \<leftarrow> set_chunk ch s;
          Some (failed, s) }"

definition emitData :: "byte list \<Rightarrow> cctx \<Rightarrow> cctx option" where
  "emitData data s =
     (let line = int (tk_line (ps_previous (cc_parser s)))
      in do { (failed, s) \<leftarrow> emit_code data s;
              if failed then Some (compileError ''Out of memory'' s)
              else do { (failed, s) \<leftarrow> emit_line line s;
                        Some (if failed then compileError ''Out of memory'' s else s) } })"

definition emitByte :: "nat \<Rightarrow> cctx \<Rightarrow> cctx option" where
  "emitByte b s = emitData [word_of_nat b] s"

definition emitOp :: "opcode \<Rightarrow> cctx \<Rightarrow> cctx option" where
  "emitOp oc s = emitByte oc s"

definition emitBytes :: "nat \<Rightarrow> nat \<Rightarrow> cctx \<Rightarrow> cctx option" where
  "emitBytes b1 b2 s = do { s \<leftarrow> emitByte b1 s; emitByte b2 s }"

text \<open>The count is a \<open>uint8_t\<close>.\<close>

definition emitPop :: "nat \<Rightarrow> cctx \<Rightarrow> cctx option" where
  "emitPop n s =
     (let n = n mod 256
      in if n = 0 then Some s
         else if n = 1 then emitOp OP_POP s
         else emitBytes OP_POPN n s)"

definition bytes16 :: "int \<Rightarrow> byte list" where
  "bytes16 v = [word_of_int v, word_of_int (v div 256)]"

definition bytes32 :: "int \<Rightarrow> byte list" where
  "bytes32 v = [word_of_int v, word_of_int (v div 2 ^ 8), word_of_int (v div 2 ^ 16), word_of_int (v div 2 ^ 24)]"

text \<open>Where the emitters answer an offset, it is the one behind which they wrote.\<close>

definition emitUShort :: "int \<Rightarrow> cctx \<Rightarrow> (int \<times> cctx) option" where
  "emitUShort v s = do { s \<leftarrow> emitData (bytes16 v) s; Some (code_count s - 2, s) }"

definition emitShort :: "int \<Rightarrow> cctx \<Rightarrow> cctx option" where
  "emitShort v s = do { (_, s) \<leftarrow> emitUShort v s; Some s }"

definition emitInt :: "int \<Rightarrow> cctx \<Rightarrow> cctx option" where
  "emitInt v s = emitData (bytes32 v) s"

text \<open>A store of two bytes into the block of the code.\<close>

definition patch16 :: "int \<Rightarrow> int \<Rightarrow> cctx \<Rightarrow> cctx option" where
  "patch16 offset v s =
     do { ch \<leftarrow> currentChunk s;
          if offset < 0 \<or> ch_slots ch < nat offset + 2 then None
          else set_chunk (ch\<lparr>ch_code := (ch_code ch)[nat offset := bytes16 v ! 0, nat offset + 1 := bytes16 v ! 1]\<rparr>) s }"

definition patchUShort :: "int \<Rightarrow> int \<Rightarrow> cctx \<Rightarrow> cctx option" where
  "patchUShort offset v s = patch16 (offset mod 2 ^ 16) v s"

definition emitLoop :: "int \<Rightarrow> cctx \<Rightarrow> cctx option" where
  "emitLoop loopStart s =
     do { s \<leftarrow> emitOp OP_LOOP s;
          let offset = code_count s - loopStart + 2;
          let s = (if offset > 65535 then compileError ''Loop body too large'' s else s);
          emitShort offset s }"

definition emitJump :: "opcode \<Rightarrow> cctx \<Rightarrow> (int \<times> cctx) option" where
  "emitJump instruction s =
     do { s \<leftarrow> emitOp instruction s; s \<leftarrow> emitShort 0 s; Some (code_count s - 2, s) }"

definition emitAddress :: "cctx \<Rightarrow> (int \<times> cctx) option" where
  "emitAddress s = do { s \<leftarrow> emitByte 255 s; s \<leftarrow> emitByte 255 s; Some (code_count s - 2, s) }"

definition patchAddress :: "int \<Rightarrow> cctx \<Rightarrow> cctx option" where
  "patchAddress offset s = patch16 (offset mod 2 ^ 16) (code_count s) s"

definition patchJump :: "int \<Rightarrow> cctx \<Rightarrow> cctx option" where
  "patchJump offset s =
     (let jump = code_count s - offset - 2;
          s = (if jump > 65535 then compileError ''Too much code to jump over'' s else s)
      in patch16 offset jump s)"

text \<open>The jumps at the head of the list that belong to the innermost loop, and the rest.\<close>

fun patch_jumps :: "break_jump list \<Rightarrow> cctx \<Rightarrow> cctx option" where
  "patch_jumps [] s = Some (s\<lparr>cc_breakJumps := []\<rparr>)"
| "patch_jumps (b # bs) s =
     (if bj_scopeDepth b \<ge> lp_scopeDepth (cc_innermostLoop s)
      then do { s \<leftarrow> patchJump (bj_offset b) s;
                (_, s) \<leftarrow> machine (release 16) (s\<lparr>cc_breakJumps := bs\<rparr>);
                patch_jumps bs s }
      else Some s)"

definition patchBreakJumps :: "cctx \<Rightarrow> cctx option" where
  "patchBreakJumps s = patch_jumps (cc_breakJumps s) s"

section \<open>Constants\<close>

definition add_constant :: "val \<Rightarrow> cctx \<Rightarrow> (int \<times> cctx) option" where
  "add_constant v s =
     do { ch \<leftarrow> currentChunk s;
          let a = ch_constants ch;
          let capacity = va_capacity a;
          (ok, s) \<leftarrow> (if capacity < length (va_values a) + 1
             then machine (\<lambda>rt vm. do { (ok, vm) \<leftarrow> grow_array (16 * capacity) (16 * grow_capacity capacity) rt
                                                        (pushTemp (rt_fiber rt) v vm);
                                        Some (ok, releaseTemps (rt_fiber rt) 1 vm) }) s
             else Some (True, s));
          (constant, ch) \<leftarrow> addConstant (\<lambda>_. ok) ch v;
          s \<leftarrow> set_chunk ch s;
          Some (constant, s) }"

definition makeConstant :: "val \<Rightarrow> cctx \<Rightarrow> (int \<times> cctx) option" where
  "makeConstant v s =
     do { (constant, s) \<leftarrow> add_constant v s;
          Some (if constant < 0 then (0, compileError ''Out of memory'' s)
                else if constant > 65535 then (0, compileError ''Too many constants in one chunk'' s)
                else (constant, s)) }"

definition emitConstantOp :: "int \<Rightarrow> cctx \<Rightarrow> cctx option" where
  "emitConstantOp constantIndex s =
     (if constantIndex < 256
      then do { s \<leftarrow> emitOp OP_CONST8 s; emitByte (nat constantIndex) s }
      else do { s \<leftarrow> emitOp OP_CONST16 s; emitShort constantIndex s })"

text \<open>A number that is an \<open>int32_t\<close> is an immediate operand.\<close>

definition immediate :: "val \<Rightarrow> int option" where
  "immediate v = (case v of
       VNumber d \<Rightarrow> do { i \<leftarrow> dbl_trunc d;
                          if - (2 ^ 31) \<le> i \<and> i < 2 ^ 31 \<and> dbl_eq (dbl_of_int i) d then Some i else None }
     | _ \<Rightarrow> None)"

definition emitConstant :: "val \<Rightarrow> cctx \<Rightarrow> cctx option" where
  "emitConstant v s =
     (case immediate v of
        Some i \<Rightarrow> do { s \<leftarrow> emitOp OP_IMMI s; emitInt i s }
      | None \<Rightarrow> do { (constantIndex, s) \<leftarrow> makeConstant v s; emitConstantOp constantIndex s })"

section \<open>Tables of the compiler\<close>

text \<open>
  \<open>tableSet\<close> and \<open>tableSetIfMissing\<close> on a table of the compiler; the flag says that
  an error was raised.
\<close>

definition with_growth :: "table \<Rightarrow> (bool \<Rightarrow> str_heap \<Rightarrow> 'a option) \<Rightarrow> cctx \<Rightarrow> ('a \<times> cctx) option" where
  "with_growth t f s =
     do { (ok, s) \<leftarrow> (if needs_growth t then machine (allocate (24 * grow_capacity (tcapacity t))) s
                     else Some (True, s));
          r \<leftarrow> f ok (str_view (vm_heap (cc_vm s)));
          (_, s) \<leftarrow> (if needs_growth t \<and> ok then machine (release (24 * tcapacity t)) s else Some ((), s));
          Some (r, s) }"

definition set_string_constant :: "addr \<Rightarrow> val \<Rightarrow> cctx \<Rightarrow> (bool \<times> cctx) option" where
  "set_string_constant str v s =
     do { c \<leftarrow> current s;
          (r, s) \<leftarrow> with_growth (cm_stringConstants c) (\<lambda>ok hp. tableSet (\<lambda>_. ok) hp (cm_stringConstants c) str v) s;
          case r of
            SetRaised t \<Rightarrow> do { s \<leftarrow> upd_current (cm_stringConstants_update (\<lambda>_. t)) s; Some (True, s) }
          | SetDone _ t \<Rightarrow> do { s \<leftarrow> upd_current (cm_stringConstants_update (\<lambda>_. t)) s; Some (False, s) } }"

definition nat_value :: "val \<Rightarrow> nat option" where
  "nat_value v = (case v of VNumber d \<Rightarrow> do { i \<leftarrow> dbl_trunc d; if 0 \<le> i then Some (nat i) else None } | _ \<Rightarrow> None)"

text \<open>The index of a name's constant, or \<open>-1\<close> without memory.\<close>

definition identifierConstant :: "byte list \<Rightarrow> cctx \<Rightarrow> (int \<times> cctx) option" where
  "identifierConstant name s =
     do { (string, s) \<leftarrow> machine (copy_string name) s;
          case string of
            None \<Rightarrow> Some (-1, s)
          | Some str \<Rightarrow>
              do { c \<leftarrow> current s;
                   found \<leftarrow> tableGet (str_view (vm_heap (cc_vm s))) (cm_stringConstants c) str;
                   case found of
                     Some indexValue \<Rightarrow> do { i \<leftarrow> nat_value indexValue; Some (int i mod 2 ^ 16, s) }
                   | None \<Rightarrow>
                       do { (index, s) \<leftarrow> makeConstant (VObj str) s;
                            (raised, s) \<leftarrow> set_string_constant str (VNumber (dbl_of_int index)) s;
                            Some (if raised then -1 else index, s) } } }"

section \<open>Function compilers\<close>

text \<open>\<open>sprintf\<close> of a number.\<close>

fun decimal :: "nat \<Rightarrow> byte list" where
  "decimal n = (if n < 10 then [word_of_nat (48 + n)] else decimal (n div 10) @ [word_of_nat (48 + n mod 10)])"

declare decimal.simps [simp del]

definition init_name :: "byte list" where "init_name = bytes ''$init''"

text \<open>The name of the function; without memory for it, \<open>initCompiler\<close> returns \<open>NULL\<close>
  with the new compiler in place.\<close>

definition function_name ::
  "function_type \<Rightarrow> byte list option \<Rightarrow> cctx \<Rightarrow> (bool \<times> cctx) option" where
  "function_name type name s =
     (let store = (\<lambda>chars s. do { (str, s) \<leftarrow> machine (copy_string chars) s;
                                   s \<leftarrow> upd_current (upd_fn (\<lambda>f. f\<lparr>fn_name := str\<rparr>)) s;
                                   Some (str \<noteq> None, s) })
      in case type of
           FTYPE_SCRIPT \<Rightarrow> Some (True, s)
         | FTYPE_LAMBDA \<Rightarrow>
             store (bytes ''<lambda_'' @ decimal (cc_lambdaCount s) @ bytes ''>'')
                   (s\<lparr>cc_lambdaCount := cc_lambdaCount s + 1\<rparr>)
         | FTYPE_INITIALIZER \<Rightarrow> store (case name of None \<Rightarrow> init_name | Some n \<Rightarrow> n) s
         | _ \<Rightarrow> do { n \<leftarrow> name; store n s })"

definition initCompiler ::
  "function_type \<Rightarrow> byte list option \<Rightarrow> cctx \<Rightarrow> (bool \<times> cctx) option" where
  "initCompiler type name s =
     do { (fn, s) \<leftarrow> machine (\<lambda>rt. newFunction (rt_mem rt) (rt_env rt) (cc_fileName s)) s;
          case fn of
            None \<Rightarrow> Some (False, s)
          | Some a \<Rightarrow>
              do { f \<leftarrow> as_function (get_obj (cc_vm s) a);
                   let c = \<lparr>cm_function = a, cm_fn = f, cm_type = type, cm_postArgs = False,
                            cm_hasVarargs = False, cm_locals = [], cm_upvalues = [], cm_scopeDepth = 0,
                            cm_defaultArgs = [], cm_quals = \<lparr>q_attrs = 0, q_pending = 0\<rparr>,
                            cm_stringConstants = empty_table, cm_catchStackDepth = 0, cm_catchDepth = 0,
                            cm_finallyDepth = 0\<rparr>;
                   (ok, s) \<leftarrow> function_name type name (s\<lparr>cc_compilers := c # cc_compilers s\<rparr>);
                   if \<not> ok then Some (False, s)
                   else do { s \<leftarrow> upd_current (\<lambda>c. c\<lparr>cm_locals := [\<lparr>
                                lc_name = (if type \<noteq> FTYPE_FUNCTION then bytes ''this'' else []),
                                lc_depth = 0, lc_postArgs = False, lc_isCaptured = False\<rparr>]\<rparr>) s;
                             Some (True, s) } } }"

definition emitReturn :: "cctx \<Rightarrow> cctx option" where
  "emitReturn s =
     do { c \<leftarrow> current s;
          s \<leftarrow> (if cm_type c = FTYPE_INITIALIZER
                then do { s \<leftarrow> emitBytes OP_GET_LOCAL 0 s; emitByte 0 s }
                else emitOp OP_NIL s);
          emitOp OP_RETURN s }"

text \<open>The finished function is in its object; the compiler's record is returned for its upvalues.\<close>

definition endCompiler :: "cctx \<Rightarrow> (compiler \<times> cctx) option" where
  "endCompiler s =
     do { s \<leftarrow> emitReturn s;
          c \<leftarrow> current s;
          (_, s) \<leftarrow> machine (release (24 * tcapacity (cm_stringConstants c))) s;
          Some (c, s\<lparr>cc_compilers := tl (cc_compilers s)\<rparr>) }"

section \<open>Qualifiers\<close>

definition resetQuals :: "cctx \<Rightarrow> cctx option" where
  "resetQuals s = upd_current (cm_quals_update (\<lambda>_. \<lparr>q_attrs = 0, q_pending = 0\<rparr>)) s"

definition add_qual :: "u32 \<Rightarrow> cctx \<Rightarrow> cctx option" where
  "add_qual attr s = upd_current (cm_quals_update (\<lambda>q. q\<lparr>q_attrs := q_attrs q OR attr\<rparr>)) s"

definition has_qual :: "u32 \<Rightarrow> cctx \<Rightarrow> bool" where
  "has_qual attr s = (case current s of None \<Rightarrow> False | Some c \<Rightarrow> q_attrs (cm_quals c) AND attr \<noteq> 0)"

definition error_if :: "bool \<Rightarrow> string \<Rightarrow> cctx \<Rightarrow> cctx" where
  "error_if cond message s = (if cond then errorAtCurrent message s else s)"

definition quoted :: "string \<Rightarrow> string" where
  "quoted w = CHR 0x27 # w @ [CHR 0x27]"

text \<open>After each specifier \<open>pending\<close> is overwritten with \<open>true\<close>.\<close>

definition parse_qual :: "cctx \<Rightarrow> (bool \<times> cctx) option" where
  "parse_qual s =
     (let pend = (\<lambda>s. do { s \<leftarrow> upd_current (cm_quals_update (\<lambda>q. q\<lparr>q_pending := 1\<rparr>)) s;
                           s \<leftarrow> advance s; Some (True, s) })
      in case getCrtType s of
           TOKEN_ABSTRACT \<Rightarrow>
             do { let s = error_if (has_qual QUAL_ABSTRACT s) (''Duplicated specifier '' @ quoted ''abstract'') s;
                  s \<leftarrow> add_qual QUAL_ABSTRACT s; pend s }
         | TOKEN_GLOBAL \<Rightarrow>
             do { let s = error_if (has_qual QUAL_GLOBAL s) (''Duplicated specifier '' @ quoted ''global'') s;
                  let s = error_if (has_qual QUAL_LOCAL s) (quoted ''global'' @ '' cannot follow '' @ quoted ''local'') s;
                  s \<leftarrow> add_qual QUAL_GLOBAL s; pend s }
         | TOKEN_LOCAL \<Rightarrow>
             do { let s = error_if (has_qual QUAL_LOCAL s) (''Duplicated specifier '' @ quoted ''local'') s;
                  let s = error_if (has_qual QUAL_GLOBAL s) (quoted ''local'' @ '' cannot follow '' @ quoted ''global'') s;
                  s \<leftarrow> add_qual QUAL_LOCAL s; pend s }
         | _ \<Rightarrow> Some (False, s))"

partial_function (option) qual_loop :: "cctx \<Rightarrow> cctx option" where
  "qual_loop s = do { (inSpec, s) \<leftarrow> parse_qual s; if inSpec then qual_loop s else Some s }"

declare qual_loop.simps [code]

definition parseQuals :: "cctx \<Rightarrow> (var_scope \<times> cctx) option" where
  "parseQuals s = do { s \<leftarrow> qual_loop s; Some (if has_qual QUAL_GLOBAL s then VAR_GLOBAL else VAR_LOCAL, s) }"

end
