(* ===== verification/Scopes.thy ===== *)
theory Scopes
  imports Emission
begin

text \<open>
  Scopes, locals, upvalues and global names of \<open>compiler.c\<close>: the declaration of variables
  and the resolution of a name to a slot, an upvalue or a global.
\<close>

section \<open>Scopes\<close>

definition beginScope :: "cctx \<Rightarrow> cctx option" where
  "beginScope s = upd_current (\<lambda>c. c\<lparr>cm_scopeDepth := cm_scopeDepth c + 1\<rparr>) s"

text \<open>The loop of \<open>endScope\<close> over the locals, the last one first.\<close>

fun end_locals :: "local_var list \<Rightarrow> nat \<Rightarrow> cctx \<Rightarrow> (nat \<times> cctx) option" where
  "end_locals [] numPendingPop s = Some (numPendingPop, s)"
| "end_locals (l # ls) numPendingPop s =
     do { c \<leftarrow> current s;
          if lc_depth l > cm_scopeDepth c
          then do { (numPendingPop, s) \<leftarrow>
                      (if lc_isCaptured l
                       then do { s \<leftarrow> (if numPendingPop > 0 then emitPop numPendingPop s else Some s);
                                 s \<leftarrow> emitOp OP_CLOSE_UPVALUE s;
                                 Some (0, s) }
                       else Some (numPendingPop + 1, s));
                    s \<leftarrow> upd_current (cm_locals_update butlast) s;
                    end_locals ls numPendingPop s }
          else Some (numPendingPop, s) }"

definition endScope :: "cctx \<Rightarrow> cctx option" where
  "endScope s =
     do { s \<leftarrow> upd_current (\<lambda>c. c\<lparr>cm_scopeDepth := cm_scopeDepth c - 1\<rparr>) s;
          c \<leftarrow> current s;
          (numPendingPop, s) \<leftarrow> end_locals (rev (cm_locals c)) 0 s;
          emitPop numPendingPop s }"

section \<open>Locals\<close>

text \<open>The slot of the new local; without a free one the handle is 0 and the local \<open>NULL\<close>.\<close>

definition addLocal :: "byte list \<Rightarrow> cctx \<Rightarrow> ((nat \<times> bool) \<times> cctx) option" where
  "addLocal name s =
     do { c \<leftarrow> current s;
          if length (cm_locals c) = UINT8_COUNT
          then Some ((0, False), compileError ''Too many local variables in function'' s)
          else do { s \<leftarrow> upd_current (cm_locals_update (\<lambda>ls. ls @ [\<lparr>lc_name = name, lc_depth = -1,
                             lc_postArgs = cm_postArgs c, lc_isCaptured = False\<rparr>])) s;
                    Some ((length (cm_locals c), True), s) } }"

text \<open>The search for a variable of the same name in the innermost scope, the last local first.\<close>

fun duplicate_in :: "int \<Rightarrow> byte list \<Rightarrow> local_var list \<Rightarrow> bool" where
  "duplicate_in depth name [] = False"
| "duplicate_in depth name (l # ls) =
     (if lc_depth l \<noteq> -1 \<and> lc_depth l < depth then False
      else if name = lc_name l then True else duplicate_in depth name ls)"

definition previous_chars :: "cctx \<Rightarrow> byte list" where
  "previous_chars s = tk_chars (ps_previous (cc_parser s))"

definition declareVariable :: "var_scope \<Rightarrow> cctx \<Rightarrow> (int \<times> cctx) option" where
  "declareVariable varType s =
     (if varType = VAR_GLOBAL then Some (0, s)
      else do { c \<leftarrow> current s;
                if duplicate_in (cm_scopeDepth c) (previous_chars s) (rev (cm_locals c))
                then Some (-1, compileError ''Duplicated variable in this scope'' s)
                else do { ((handle, _), s) \<leftarrow> addLocal (previous_chars s) s; Some (int handle, s) } })"

definition markInitialized :: "var_scope \<Rightarrow> cctx \<Rightarrow> cctx option" where
  "markInitialized varType s =
     (if varType = VAR_GLOBAL then Some s
      else do { c \<leftarrow> current s;
                if cm_locals c = [] then None
                else upd_current (\<lambda>c. c\<lparr>cm_locals := (cm_locals c)[length (cm_locals c) - 1 :=
                       (last (cm_locals c))\<lparr>lc_depth := cm_scopeDepth c\<rparr>]\<rparr>) s })"

text \<open>Only locals and globals are defined.\<close>

definition defineVariable :: "int \<Rightarrow> var_scope \<Rightarrow> cctx \<Rightarrow> cctx option" where
  "defineVariable nameGlobal varType s =
     (case varType of
        VAR_LOCAL \<Rightarrow> markInitialized VAR_LOCAL s
      | VAR_GLOBAL \<Rightarrow> do { s \<leftarrow> emitOp OP_DEFINE_GLOBAL s; emitShort nameGlobal s }
      | _ \<Rightarrow> None)"

definition declareLocal :: "cctx \<Rightarrow> (int \<times> cctx) option" where
  "declareLocal s =
     do { (localHandle, s) \<leftarrow> declareVariable VAR_LOCAL s;
          s \<leftarrow> (if localHandle \<ge> 0 then markInitialized VAR_LOCAL s else Some s);
          Some (localHandle, s) }"

section \<open>Resolution of names\<close>

fun find_local :: "byte list \<Rightarrow> local_var list \<Rightarrow> (nat \<times> local_var) option" where
  "find_local name [] = None"
| "find_local name (l # ls) = (if name = lc_name l then Some (length ls, l) else find_local name ls)"

text \<open>The slot (or \<open>-1\<close>) and \<open>postArgs\<close> of a name in a compiler.\<close>

definition resolveLocal :: "compiler \<Rightarrow> byte list \<Rightarrow> cctx \<Rightarrow> (int \<times> bool) \<times> cctx" where
  "resolveLocal c name s =
     (case find_local name (rev (cm_locals c)) of
        None \<Rightarrow> ((-1, False), s)
      | Some (i, l) \<Rightarrow>
          ((int i, lc_postArgs l),
           if lc_depth l = -1 then compileError ''Can't read local variable in its own initializer'' s else s))"

fun find_upvalue :: "nat \<Rightarrow> nat \<Rightarrow> bool \<Rightarrow> upvalue list \<Rightarrow> nat option" where
  "find_upvalue i index isLocal [] = None"
| "find_upvalue i index isLocal (u # us) =
     (if up_index u = index \<and> up_isLocal u = isLocal then Some i
      else find_upvalue (Suc i) index isLocal us)"

text \<open>\<open>addUpvalue\<close> for a compiler: the index, whether it was refused, and the compiler.\<close>

definition addUpvalue :: "compiler \<Rightarrow> nat \<Rightarrow> bool \<Rightarrow> bool \<Rightarrow> nat \<times> bool \<times> compiler" where
  "addUpvalue c index0 postArgs isLocal = (let index = index0 mod 256 in
     (case find_upvalue 0 index isLocal (cm_upvalues c) of
        Some i \<Rightarrow> (i, False, c)
      | None \<Rightarrow>
          if length (cm_upvalues c) = UINT8_COUNT then (0, True, c)
          else (length (cm_upvalues c), False,
                (upd_fn (\<lambda>f. f\<lparr>fn_upvalueCount := fn_upvalueCount f + 1\<rparr>) c)
                  \<lparr>cm_upvalues := cm_upvalues c @ [\<lparr>up_index = index, up_postArgs = postArgs,
                                                    up_isLocal = isLocal\<rparr>]\<rparr>)))"

text \<open>
  The recursion of \<open>resolveUpvalue\<close> over the enclosing compilers: the index, whether an
  upvalue was refused, whether a variable was used in its own initializer, and the compilers.
\<close>

fun resolve_upvalue :: "byte list \<Rightarrow> compiler list \<Rightarrow> (nat \<times> bool list \<times> compiler list) option" where
  "resolve_upvalue name [] = None"
| "resolve_upvalue name [c] = None"
| "resolve_upvalue name (c # e # cs) =
     (case find_local name (rev (cm_locals e)) of
        Some (i, l) \<Rightarrow>
          let e' = e\<lparr>cm_locals := (cm_locals e)[i := (cm_locals e ! i)\<lparr>lc_isCaptured := True\<rparr>]\<rparr>;
              (u, full, c') = addUpvalue c i (lc_postArgs l) True
          in Some (u, (if lc_depth l = -1 then [False] else []) @ (if full then [True] else []), c' # e' # cs)
      | None \<Rightarrow>
          (case resolve_upvalue name (e # cs) of
             None \<Rightarrow> None
           | Some (i, errs, ecs) \<Rightarrow>
               let (u, full, c') = addUpvalue c i False False
               in Some (u, errs @ (if full then [True] else []), c' # ecs)))"

definition upvalue_error :: "bool \<Rightarrow> cctx \<Rightarrow> cctx" where
  "upvalue_error full = compileError (if full then ''Too many closure variables in function''
     else ''Can't read local variable in its own initializer'')"

definition resolveUpvalue :: "byte list \<Rightarrow> cctx \<Rightarrow> int \<times> cctx" where
  "resolveUpvalue name s =
     (case resolve_upvalue name (cc_compilers s) of
        None \<Rightarrow> (-1, s)
      | Some (i, errs, cs) \<Rightarrow> (int i, fold upvalue_error errs (s\<lparr>cc_compilers := cs\<rparr>)))"

section \<open>Globals and builtins\<close>

text \<open>The keys of the table of globals are pairs of strings, so no method of a script is called.\<close>

definition no_hash :: user_hash where "no_hash = (\<lambda>_. None)"
definition no_equals :: user_equals where "no_equals = (\<lambda>_ _. None)"

definition set_globalNames :: "value_table \<Rightarrow> vm \<Rightarrow> vm" where
  "set_globalNames t vm = vm\<lparr>vm_globalNames := t\<rparr>"

text \<open>
  \<open>valueTableSet\<close> on the table of globals; a full table allocates its two new blocks in the
  machine first.
\<close>

definition set_global_name :: "addr \<Rightarrow> val \<Rightarrow> runtime \<Rightarrow> vm \<Rightarrow> (bool \<times> vm) option" where
  "set_global_name identifier index rt vm =
     (let t = vm_globalNames vm;
          full = (length (vt_entries t) = vt_dataSize t);
          wanted = (if vt_liveCount t \<ge> vt_dataSize t * 3 div 4 then 2 * vt_indexSize t else vt_indexSize t);
          newSize = (if wanted = 0 then 8 else wanted);
          grows = (full \<and> newSize \<noteq> vt_indexSize t)
      in do { (ok1, vm) \<leftarrow> (if grows then allocate (4 * newSize) rt vm else Some (True, vm));
              (ok2, vm) \<leftarrow> (if grows \<and> ok1 then allocate (40 * (newSize * 3 div 4)) rt vm else Some (True, vm));
              (raised, _, t') \<leftarrow> valueTableSet (\<lambda>_. ok1 \<and> ok2) (hashValue no_hash (vm_heap vm))
                                    (valuesEquals no_equals (vm_heap vm)) (vm_globalNames vm) (VObj identifier) index;
              (_, vm) \<leftarrow> (if grows \<and> ok1 \<and> ok2 then release (4 * vt_indexSize t + 40 * vt_dataSize t) rt vm
                         else Some ((), vm));
              Some (raised, set_globalNames t' vm) })"

text \<open>The index of a global of a module, or \<open>-1\<close> without memory; indices are 16 bits wide.\<close>

definition global_index :: "byte list \<Rightarrow> byte list \<Rightarrow> runtime \<Rightarrow> vm \<Rightarrow> (int \<times> vm) option" where
  "global_index name moduleName rt vm =
     do { (identifier, vm) \<leftarrow> copyStrings (rt_mem rt) (rt_env rt) (rt_fiber rt) name moduleName vm;
          case identifier of
            None \<Rightarrow> Some (-1, vm)
          | Some a \<Rightarrow>
              do { let finish = (\<lambda>(i, vm). Some (i, releaseTemps (rt_fiber rt) 1 vm));
                   let vm = pushTemp (rt_fiber rt) (VObj a) vm;
                   (raised, found) \<leftarrow> valueTableGet (hashValue no_hash (vm_heap vm))
                                         (valuesEquals no_equals (vm_heap vm)) (vm_globalNames vm) (VObj a);
                   case found of
                     Some indexValue \<Rightarrow> do { i \<leftarrow> nat_value indexValue; finish (int i, vm) }
                   | None \<Rightarrow>
                       if raised then finish (-1, vm)
                       else do { let g = vm_globalValues vm;
                                 let newIndex = int (length (va_values g)) mod 2 ^ 16;
                                 let capacity = va_capacity g;
                                 (ok, vm) \<leftarrow> (if capacity < length (va_values g) + 1
                                   then grow_array (16 * capacity) (16 * grow_capacity capacity) rt vm
                                   else Some (True, vm));
                                 (res, g) \<leftarrow> valueArrayPush (\<lambda>_. ok) g VUndefined;
                                 let vm = vm\<lparr>vm_globalValues := g\<rparr>;
                                 if \<not> res then finish (-1, vm)
                                 else do { (raised, vm) \<leftarrow> set_global_name a (VNumber (dbl_of_int newIndex)) rt vm;
                                           finish (if raised then -1 else newIndex, vm) } } } }"

definition globalIdentifierConstant :: "byte list \<Rightarrow> byte list \<Rightarrow> cctx \<Rightarrow> (int \<times> cctx) option" where
  "globalIdentifierConstant name moduleName s = machine (global_index name moduleName) s"

text \<open>
  \<open>builtinConstant\<close> for a name that is present; a new one is only added while the builtins
  are registered.
\<close>

definition builtinConstant :: "byte list \<Rightarrow> cctx \<Rightarrow> (int \<times> cctx) option" where
  "builtinConstant name s =
     do { (string, s) \<leftarrow> machine (copy_string name) s;
          case string of
            None \<Rightarrow> Some (-1, s)
          | Some str \<Rightarrow>
              do { found \<leftarrow> tableGet (str_view (vm_heap (cc_vm s))) (vm_builtinSymbols (cc_vm s)) str;
                   indexValue \<leftarrow> found;
                   i \<leftarrow> nat_value indexValue;
                   Some (int i, s) } }"

definition parseVariable :: "var_scope \<Rightarrow> string \<Rightarrow> cctx \<Rightarrow> (int \<times> cctx) option" where
  "parseVariable varType errorMessage s =
     do { s \<leftarrow> consume TOKEN_IDENTIFIER errorMessage s;
          (_, s) \<leftarrow> declareVariable varType s;
          if varType = VAR_LOCAL then Some (0, s)
          else do { (i, s) \<leftarrow> globalIdentifierConstant (previous_chars s) (cc_moduleName s) s;
                    Some (i mod 2 ^ 16, s) } }"

end
