(* ===== verification/Expressions.thy ===== *)
theory Expressions
  imports Scopes HeapStrings
begin

text \<open>
  The parse functions of expressions (\<open>expression\<close> to \<open>super_\<close> of
  \<open>compiler.c\<close>) and what they share with statements: argument lists, prototypes, functions.
  The mutual recursion of the compiler goes through \<open>rec\<close>, which compiles one of the goals
  below; it is closed in theory \<open>Compile\<close> with a bound on the depth of the recursion.  The
  loops are \<open>partial_function\<close>s.  A function that returns early for want of memory in the
  middle of a function compiler leaves \<open>current\<close> pointing to a dead stack frame and has no
  result here.
\<close>

datatype expression_type = ETYPE_NORMAL | ETYPE_EXPAND

text \<open>
  \<open>Expression precedence canExpand firstExpansion\<close>, a statement, a declaration, and the body
  of a class (\<open>_class\<close>) with its name unless it is anonymous.
\<close>

datatype goal = Expression nat bool bool | Statement | Declaration | ClassBody "byte list option"

type_synonym parse_fun = "goal \<Rightarrow> cctx \<Rightarrow> (expression_type \<times> cctx) option"

definition PREC_NONE :: nat where "PREC_NONE = 0"
definition PREC_ASSIGNMENT :: nat where "PREC_ASSIGNMENT = 1"
definition PREC_OR :: nat where "PREC_OR = 2"
definition PREC_AND :: nat where "PREC_AND = 3"
definition PREC_EQUALITY :: nat where "PREC_EQUALITY = 4"
definition PREC_COMPARISON :: nat where "PREC_COMPARISON = 5"
definition PREC_TERM :: nat where "PREC_TERM = 6"
definition PREC_FACTOR :: nat where "PREC_FACTOR = 7"
definition PREC_UNARY :: nat where "PREC_UNARY = 8"
definition PREC_CALL :: nat where "PREC_CALL = 9"
definition PREC_SUBSCRIPT :: nat where "PREC_SUBSCRIPT = 10"
definition PREC_PRIMARY :: nat where "PREC_PRIMARY = 11"

lemmas prec_defs = PREC_NONE_def PREC_ASSIGNMENT_def PREC_OR_def PREC_AND_def PREC_EQUALITY_def
  PREC_COMPARISON_def PREC_TERM_def PREC_FACTOR_def PREC_UNARY_def PREC_CALL_def PREC_SUBSCRIPT_def
  PREC_PRIMARY_def

definition expression_of :: "parse_fun \<Rightarrow> nat \<Rightarrow> cctx \<Rightarrow> cctx option" where
  "expression_of rec precedence s = map_option snd (rec (Expression precedence False False) s)"

definition expr :: "parse_fun \<Rightarrow> cctx \<Rightarrow> cctx option" where
  "expr rec = expression_of rec PREC_ASSIGNMENT"

definition statement :: "parse_fun \<Rightarrow> cctx \<Rightarrow> cctx option" where
  "statement rec s = map_option snd (rec Statement s)"

text \<open>\<open>!hasVarargs\<close> and the like as the operand of an instruction.\<close>

definition bool_code :: "bool \<Rightarrow> nat" where "bool_code b = (if b then 1 else 0)"

definition out_of_memory :: "cctx \<Rightarrow> cctx" where "out_of_memory = errorAtCurrent ''Out of memory''"

definition unquote :: "byte list \<Rightarrow> byte list" where
  "unquote chars = take (length chars - 2) (drop 1 chars)"

section \<open>Operators and literals\<close>

definition binary_ops :: "(token_type \<times> nat list) list" where
  "binary_ops = [(TOKEN_BANG_EQUAL, [OP_EQUAL, OP_NOT]), (TOKEN_EQUAL_EQUAL, [OP_EQUAL]),
     (TOKEN_GREATER, [OP_GREATER]), (TOKEN_GREATER_EQUAL, [OP_LESS, OP_NOT]), (TOKEN_LESS, [OP_LESS]),
     (TOKEN_LESS_EQUAL, [OP_GREATER, OP_NOT]), (TOKEN_PLUS, [OP_ADD]), (TOKEN_MINUS, [OP_SUBTRACT]),
     (TOKEN_STAR, [OP_MULTIPLY]), (TOKEN_SLASH, [OP_DIVIDE]), (TOKEN_PERCENT, [OP_MODULO]),
     (TOKEN_INSTANCEOF, [OP_INSTANCEOF]), (TOKEN_IN, [OP_IN])]"

fun emit_all :: "nat list \<Rightarrow> cctx \<Rightarrow> cctx option" where
  "emit_all [] s = Some s"
| "emit_all (b # bs) s = do { s \<leftarrow> emitByte b s; emit_all bs s }"

definition previous_type :: "cctx \<Rightarrow> token_type" where
  "previous_type s = tk_type (ps_previous (cc_parser s))"

definition binary :: "parse_fun \<Rightarrow> nat \<Rightarrow> cctx \<Rightarrow> cctx option" where
  "binary rec precedence s =
     (let operatorType = previous_type s
      in do { s \<leftarrow> expression_of rec (precedence + 1) s;
              ops \<leftarrow> map_of binary_ops operatorType;
              emit_all ops s })"

definition unary :: "parse_fun \<Rightarrow> cctx \<Rightarrow> cctx option" where
  "unary rec s =
     (let operatorType = previous_type s
      in do { s \<leftarrow> expression_of rec PREC_UNARY s;
              if operatorType = TOKEN_BANG then emitOp OP_NOT s
              else if operatorType = TOKEN_MINUS then emitOp OP_NEGATE s else None })"

definition literal :: "cctx \<Rightarrow> cctx option" where
  "literal s = (let t = previous_type s
     in if t = TOKEN_FALSE then emitOp OP_FALSE s
        else if t = TOKEN_NIL then emitOp OP_NIL s
        else if t = TOKEN_TRUE then emitOp OP_TRUE s else None)"

definition grouping :: "parse_fun \<Rightarrow> cctx \<Rightarrow> cctx option" where
  "grouping rec s = do { s \<leftarrow> expr rec s; consume TOKEN_RIGHT_PAREN ''Expect ')' after expression'' s }"

definition p_number :: "cctx \<Rightarrow> cctx option" where
  "p_number s = emitConstant (VNumber (strtod (previous_chars s))) s"

text \<open>Adjacent string literals are joined in a heap string.\<close>

fun all_some :: "'a option list \<Rightarrow> 'a list option" where
  "all_some [] = Some []"
| "all_some (x # xs) = do { y \<leftarrow> x; ys \<leftarrow> all_some xs; Some (y # ys) }"

definition hs_content :: "heap_cstring \<Rightarrow> byte list option" where
  "hs_content hs = all_some (take (nat (hs_length hs)) (hs_block hs))"

text \<open>\<open>heapStringAddString\<close> with the block in the machine; a failure is ignored.\<close>

definition add_literal :: "byte list \<Rightarrow> heap_cstring \<Rightarrow> cctx \<Rightarrow> (heap_cstring \<times> cctx) option" where
  "add_literal str hs s =
     do { let newCapacity = max (grow_capacity_int (hs_capacity hs)) (hs_length hs + int (length str) + 2);
          (ok, s) \<leftarrow> (if int (length str) + 1 > hs_capacity hs - hs_length hs - 1
                     then machine (grow_array (nat (hs_capacity hs)) (nat newCapacity)) s else Some (True, s));
          (_, hs) \<leftarrow> heapStringAddString (\<lambda>_. ok) hs str;
          Some (hs, s) }"

partial_function (option) literal_loop :: "heap_cstring \<Rightarrow> cctx \<Rightarrow> (heap_cstring \<times> cctx) option" where
  "literal_loop hs s =
     do { (more, s) \<leftarrow> consumeIfMatch TOKEN_STRING s;
          if more then do { (hs, s) \<leftarrow> add_literal (unquote (previous_chars s)) hs s; literal_loop hs s }
          else Some (hs, s) }"

declare literal_loop.simps [code]

definition emit_string :: "byte list \<Rightarrow> cctx \<Rightarrow> (bool \<times> cctx) option" where
  "emit_string chars s =
     do { (str, s) \<leftarrow> machine (copy_string chars) s;
          case str of
            None \<Rightarrow> Some (False, out_of_memory s)
          | Some a \<Rightarrow> do { s \<leftarrow> emitConstant (VObj a) s; Some (True, s) } }"

definition p_string :: "cctx \<Rightarrow> cctx option" where
  "p_string s =
     (if \<not> check TOKEN_STRING s
      then do { (_, s) \<leftarrow> emit_string (unquote (previous_chars s)) s; Some s }
      else do { let size = length (previous_chars s);
                (ok, s) \<leftarrow> machine (allocate size) s;
                res \<leftarrow> initHeapStringWithSize (\<lambda>_. ok) (int size);
                case res of
                  None \<Rightarrow> Some (out_of_memory s)
                | Some hs \<Rightarrow>
                    do { (hs, s) \<leftarrow> add_literal (unquote (previous_chars s)) hs s;
                         (hs, s) \<leftarrow> literal_loop hs s;
                         chars \<leftarrow> hs_content hs;
                         (str, s) \<leftarrow> machine (\<lambda>rt. takeString (rt_mem rt) (rt_env rt) (rt_fiber rt) chars (nat (hs_capacity hs))) s;
                         case str of
                           None \<Rightarrow> Some (out_of_memory s)
                         | Some a \<Rightarrow> emitConstant (VObj a) s } })"

section \<open>Interpolated strings\<close>

text \<open>
  The loop of \<open>fString\<close>: the literal parts and the embedded expressions, which
  are converted by a call of \<open>toString\<close>, are added up.  Of a literal part the flags say whether there was memory and whether
  anything was emitted.
\<close>

definition fstring_literal :: "bool \<Rightarrow> cctx \<Rightarrow> (bool \<times> bool \<times> cctx) option" where
  "fstring_literal first s =
     do { let token = (if first then ps_previous (cc_parser s) else ps_current (cc_parser s));
          (ok, emitted, s) \<leftarrow>
             (if length (tk_chars token) > 2
              then do { (ok, s) \<leftarrow> emit_string (unquote (tk_chars token)) s; Some (ok, True, s) }
              else Some (True, False, s));
          if ok \<and> \<not> first then do { s \<leftarrow> advance s; Some (ok, emitted, s) } else Some (ok, emitted, s) }"

partial_function (option) fstring_loop :: "parse_fun \<Rightarrow> int \<Rightarrow> token_type \<Rightarrow> bool \<Rightarrow> bool \<Rightarrow> cctx \<Rightarrow> cctx option" where
  "fstring_loop rec toStringConst incomingType first started s =
     do { let isStr = (incomingType = TOKEN_FSTRING_START \<and> \<not> started \<or>
                       incomingType = TOKEN_FSTRING_END \<or> incomingType = TOKEN_FSTRING);
          let isExpr = (incomingType = TOKEN_FSTRING_START \<and> started \<or>
                        incomingType \<notin> {TOKEN_FSTRING_START, TOKEN_FSTRING_END, TOKEN_FSTRING, TOKEN_EOF});
          let ending = (incomingType = TOKEN_FSTRING_END \<or> incomingType = TOKEN_EOF);
          let s = (if incomingType = TOKEN_EOF then errorAtCurrent ''Unterminated FString'' s else s);
          (ok, emitted, s) \<leftarrow> (if isStr then fstring_literal first s else Some (True, False, s));
          if \<not> ok then Some s
          else do { (emitted, s) \<leftarrow>
                      (if isExpr
                       then do { s \<leftarrow> expr rec s;
                                 s \<leftarrow> emitOp OP_INVOKE s;
                                 s \<leftarrow> emitShort toStringConst s;
                                 s \<leftarrow> emitBytes 0 0 s;
                                 Some (True, s) }
                       else Some (emitted, s));
                    s \<leftarrow> (if emitted \<and> \<not> first then emitOp OP_ADD s else Some s);
                    if ending then Some s
                    else fstring_loop rec toStringConst (getCrtType s) (first \<and> \<not> emitted)
                           (started \<or> incomingType = TOKEN_FSTRING_START) s } }"

declare fstring_loop.simps [code]

definition p_fString :: "parse_fun \<Rightarrow> cctx \<Rightarrow> cctx option" where
  "p_fString rec s =
     do { (toStringConst, s) \<leftarrow> identifierConstant (bytes ''toString'') s;
          if toStringConst < 0 then Some (out_of_memory s)
          else fstring_loop rec toStringConst TOKEN_FSTRING_START True False s }"

section \<open>Arguments\<close>

text \<open>The number of arguments is a \<open>uint8_t\<close>.\<close>

partial_function (option) argument_loop :: "parse_fun \<Rightarrow> nat \<Rightarrow> bool \<Rightarrow> cctx \<Rightarrow> (nat \<times> bool \<times> cctx) option" where
  "argument_loop rec argCount hasExpansions s =
     do { (argType, s) \<leftarrow> rec (Expression PREC_ASSIGNMENT True (\<not> hasExpansions)) s;
          (argCount, hasExpansions, s) \<leftarrow>
             (if argType = ETYPE_EXPAND then Some (argCount, True, s)
              else do { let s = (if argCount = 255 then compileError ''Can't have more than 255 arguments'' s else s);
                        s \<leftarrow> (if hasExpansions then emitOp OP_SWAP s else Some s);
                        Some ((argCount + 1) mod 256, hasExpansions, s) });
          (more, s) \<leftarrow> consumeIfMatch TOKEN_COMMA s;
          if more then argument_loop rec argCount hasExpansions s else Some (argCount, hasExpansions, s) }"

declare argument_loop.simps [code]

definition argumentList :: "parse_fun \<Rightarrow> cctx \<Rightarrow> (nat \<times> bool \<times> cctx) option" where
  "argumentList rec s =
     do { (argCount, hasExpansions, s) \<leftarrow>
            (if \<not> check TOKEN_RIGHT_PAREN s then argument_loop rec 0 False s else Some (0, False, s));
          s \<leftarrow> consume TOKEN_RIGHT_PAREN ''Expect ')' after function arguments'' s;
          Some (argCount, hasExpansions, s) }"

definition p_call :: "parse_fun \<Rightarrow> cctx \<Rightarrow> cctx option" where
  "p_call rec s =
     do { (argCount, hasExpansions, s) \<leftarrow> argumentList rec s;
          s \<leftarrow> emitOp OP_CALL s;
          emitBytes argCount (bool_code hasExpansions) s }"

section \<open>Members\<close>

definition MEMBER_FIELD_MASK :: nat where "MEMBER_FIELD_MASK = 0x40000000"
definition MEMBER_METHOD_MASK :: nat where "MEMBER_METHOD_MASK = 0x80000000"
definition MEMBER_ANY_MASK :: nat where "MEMBER_ANY_MASK = 0xC0000000"

text \<open>Outside a class \<open>currentClass\<close> is \<open>NULL\<close>.\<close>

definition addPendingProperty :: "int \<Rightarrow> nat \<Rightarrow> bool \<Rightarrow> cctx \<Rightarrow> (int \<times> cctx) option" where
  "addPendingProperty nameHandle memberMask isThis s =
     (case cc_classes s of
        [] \<Rightarrow> None
      | k # ks \<Rightarrow>
          do { let slot = tcount (cc_pendingThis k) + tcount (cc_pendingSuper k);
               ch \<leftarrow> currentChunk s;
               name \<leftarrow> (if nat nameHandle < length (va_values (ch_constants ch))
                        then val_ref (va_values (ch_constants ch) ! nat nameHandle) else None);
               let t = (if isThis then cc_pendingThis k else cc_pendingSuper k);
               ((v, t), s) \<leftarrow> with_growth t (\<lambda>ok hp. tableSetIfMissing (\<lambda>_. ok) hp t name
                                (VNumber (dbl_of_int (int (slot OR memberMask))))) s;
               actualSlot \<leftarrow> nat_value v;
               let k = (if isThis then k\<lparr>cc_pendingThis := t\<rparr> else k\<lparr>cc_pendingSuper := t\<rparr>);
               Some (int (actualSlot mod 2 ^ 16), s\<lparr>cc_classes := k # ks\<rparr>) })"

definition member_op :: "opcode \<Rightarrow> nat \<Rightarrow> int \<Rightarrow> cctx \<Rightarrow> cctx option" where
  "member_op oc memberMask name s =
     do { (propSlot, s) \<leftarrow> addPendingProperty name memberMask True s;
          s \<leftarrow> emitOp oc s;
          emitShort propSlot s }"

definition name_op :: "opcode \<Rightarrow> int \<Rightarrow> cctx \<Rightarrow> cctx option" where
  "name_op oc name s = do { s \<leftarrow> emitOp oc s; emitShort name s }"

definition match_assign :: "bool \<Rightarrow> token_type \<Rightarrow> cctx \<Rightarrow> (bool \<times> cctx) option" where
  "match_assign canAssign type s = (if canAssign then consumeIfMatch type s else Some (False, s))"

definition colon :: "parse_fun \<Rightarrow> bool \<Rightarrow> cctx \<Rightarrow> cctx option" where
  "colon rec canAssign s =
     (let isThisRef = (tk_type (ps_beforePrevious (cc_parser s)) = TOKEN_THIS)
      in do { s \<leftarrow> consume TOKEN_IDENTIFIER (''Expect property name after '' @ quoted '':'') s;
              (name, s) \<leftarrow> identifierConstant (previous_chars s) s;
              if name < 0 then Some (out_of_memory s)
              else do { (assign, s) \<leftarrow> match_assign canAssign TOKEN_EQUAL s;
                        if assign
                        then do { s \<leftarrow> expr rec s;
                                  if isThisRef then member_op OP_SET_MEMBER_PROP MEMBER_FIELD_MASK name s
                                  else name_op OP_SET_PROP name s }
                        else do { (invoke, s) \<leftarrow> consumeIfMatch TOKEN_LEFT_PAREN s;
                                  if invoke
                                  then do { (argCount, hasExpansions, s) \<leftarrow> argumentList rec s;
                                            s \<leftarrow> (if isThisRef then member_op OP_MEMBER_INVOKE MEMBER_ANY_MASK name s
                                                  else name_op OP_INVOKE name s);
                                            emitBytes argCount (bool_code hasExpansions) s }
                                  else if isThisRef then member_op OP_GET_MEMBER_PROP MEMBER_ANY_MASK name s
                                  else name_op OP_GET_PROP name s } } })"

definition dot :: "parse_fun \<Rightarrow> bool \<Rightarrow> cctx \<Rightarrow> cctx option" where
  "dot rec canAssign s =
     do { s \<leftarrow> consume TOKEN_IDENTIFIER (''Expect property name after '' @ quoted ''.'') s;
          (name, s) \<leftarrow> identifierConstant (previous_chars s) s;
          if name < 0 then Some (out_of_memory s)
          else do { (assign, s) \<leftarrow> match_assign canAssign TOKEN_EQUAL s;
                    if assign then do { s \<leftarrow> expr rec s; name_op OP_MAP_SET name s }
                    else name_op OP_MAP_GET name s } }"

section \<open>Containers\<close>

partial_function (option) array_loop :: "parse_fun \<Rightarrow> nat \<Rightarrow> cctx \<Rightarrow> (nat \<times> cctx) option" where
  "array_loop rec itemCount s =
     (if check TOKEN_RIGHT_BRACKET s then Some (itemCount, s)
      else do { s \<leftarrow> expr rec s;
                let s = (if itemCount = 65536
                         then compileError ''Cannot have more than 16384 items in an array literal'' s else s);
                (more, s) \<leftarrow> consumeIfMatch TOKEN_COMMA s;
                if more then array_loop rec (itemCount + 1) s else Some (itemCount + 1, s) })"

declare array_loop.simps [code]

definition parseArray :: "parse_fun \<Rightarrow> obj_type \<Rightarrow> cctx \<Rightarrow> cctx option" where
  "parseArray rec objType s =
     do { (itemCount, s) \<leftarrow> array_loop rec 0 s;
          s \<leftarrow> consume TOKEN_RIGHT_BRACKET ''Expect ']' after array literal'' s;
          s \<leftarrow> emitBytes OP_ARRAY_BUILD (obj_type_tag objType) s;
          emitShort (int itemCount) s }"

definition p_tuple :: "parse_fun \<Rightarrow> cctx \<Rightarrow> cctx option" where
  "p_tuple rec s = do { s \<leftarrow> consume TOKEN_LEFT_BRACKET '''' s; parseArray rec OBJ_TUPLE s }"

definition p_index :: "parse_fun \<Rightarrow> bool \<Rightarrow> cctx \<Rightarrow> cctx option" where
  "p_index rec canAssign s =
     do { (isSlice, s) \<leftarrow> consumeIfMatch TOKEN_DOT_DOT s;
          s \<leftarrow> (if isSlice then emitOp OP_NIL s else expr rec s);
          (slice, s) \<leftarrow> (if isSlice then Some (True, s) else consumeIfMatch TOKEN_DOT_DOT s);
          if slice
          then do { (open, s) \<leftarrow> consumeIfMatch TOKEN_RIGHT_BRACKET s;
                    s \<leftarrow> (if open then emitOp OP_NIL s
                          else do { s \<leftarrow> expr rec s; consume TOKEN_RIGHT_BRACKET ''Expect ']' after slice'' s });
                    emitOp OP_SLICE s }
          else do { s \<leftarrow> consume TOKEN_RIGHT_BRACKET ''Expect ']' after index'' s;
                    (assign, s) \<leftarrow> match_assign canAssign TOKEN_EQUAL s;
                    if assign then do { s \<leftarrow> expr rec s; emitOp OP_INDEX_STORE s }
                    else emitOp OP_INDEX s } }"

text \<open>The entries of a map; the flag says that the memory for a key was there.\<close>

partial_function (option) map_loop :: "parse_fun \<Rightarrow> nat \<Rightarrow> cctx \<Rightarrow> (bool \<times> nat \<times> cctx) option" where
  "map_loop rec itemCount s =
     (if check TOKEN_RIGHT_BRACE s then Some (True, itemCount, s)
      else do { (ident, s) \<leftarrow> consumeIfMatch TOKEN_IDENTIFIER s;
                (ok, s) \<leftarrow>
                  (if ident
                   then do { (key, s) \<leftarrow> identifierConstant (previous_chars s) s;
                             if key < 0 then Some (False, out_of_memory s)
                             else do { s \<leftarrow> emitConstantOp key s; Some (True, s) } }
                   else do { s \<leftarrow> consume TOKEN_LEFT_BRACKET ''Expecting identifier or index expression as key'' s;
                             s \<leftarrow> expr rec s;
                             s \<leftarrow> consume TOKEN_RIGHT_BRACKET ''Expect ']' after index'' s;
                             Some (True, s) });
                if \<not> ok then Some (False, itemCount, s)
                else do { s \<leftarrow> consume TOKEN_EQUAL ''Expect '=' between key and value pair'' s;
                          s \<leftarrow> expr rec s;
                          let s = (if itemCount = 65536
                                   then compileError ''No more than 65536 items allowed in a map constructor'' s else s);
                          (more, s) \<leftarrow> consumeIfMatch TOKEN_COMMA s;
                          if more then map_loop rec (itemCount + 1) s else Some (True, itemCount + 1, s) } })"

declare map_loop.simps [code]

definition p_map :: "parse_fun \<Rightarrow> cctx \<Rightarrow> cctx option" where
  "p_map rec s =
     do { (ok, itemCount, s) \<leftarrow> map_loop rec 0 s;
          if \<not> ok then Some s
          else do { s \<leftarrow> consume TOKEN_RIGHT_BRACE ''Expect '}' after map elements'' s;
                    s \<leftarrow> emitOp OP_MAP_BUILD s;
                    emitShort (int itemCount) s } }"

section \<open>Variables\<close>

record arg_desc =
  ad_handle :: int
  ad_postArgs :: bool
  ad_isShort :: bool
  ad_isLocal :: bool

text \<open>\<open>emitLoad\<close>; \<open>emitStore\<close> is the same code with the other instruction.\<close>

definition emitLoad :: "arg_desc \<Rightarrow> opcode \<Rightarrow> cctx \<Rightarrow> cctx option" where
  "emitLoad arg getOp s =
     do { s \<leftarrow> emitByte getOp s;
          if ad_isShort arg then emitShort (ad_handle arg) s
          else do { s \<leftarrow> emitByte (nat (ad_handle arg)) s;
                    if ad_isLocal arg then emitByte (bool_code (ad_postArgs arg)) s else Some s } }"

definition emitStore :: "arg_desc \<Rightarrow> opcode \<Rightarrow> cctx \<Rightarrow> cctx option" where
  "emitStore arg setOp s =
     do { s \<leftarrow> emitByte setOp s;
          if ad_isShort arg then emitShort (ad_handle arg) s
          else do { s \<leftarrow> emitByte (nat (ad_handle arg)) s;
                    if ad_isLocal arg then emitByte (bool_code (ad_postArgs arg)) s else Some s } }"

definition emitShorthandAssign :: "parse_fun \<Rightarrow> arg_desc \<Rightarrow> opcode \<Rightarrow> opcode \<Rightarrow> opcode \<Rightarrow> cctx \<Rightarrow> cctx option" where
  "emitShorthandAssign rec arg getOp setOp oper s =
     do { s \<leftarrow> emitLoad arg getOp s;
          s \<leftarrow> expr rec s;
          s \<leftarrow> emitByte oper s;
          emitStore arg setOp s }"

definition OP_INVALID :: opcode where "OP_INVALID = 255"

text \<open>A global, possibly of another module, or a builtin.\<close>

definition resolve_global :: "byte list \<Rightarrow> cctx \<Rightarrow> ((arg_desc \<times> opcode \<times> opcode) \<times> cctx) option" where
  "resolve_global name s =
     do { (qualified, s) \<leftarrow> consumeIfMatch TOKEN_DOUBLE_COLON s;
          s \<leftarrow> (if qualified then consume TOKEN_IDENTIFIER ''Var name expected after ::'' s else Some s);
          found \<leftarrow> (if qualified then Some None
                   else tableGetString (str_view (vm_heap (cc_vm s))) (vm_builtinSymbols (cc_vm s)) name (hashString name));
          case found of
            Some indexVal \<Rightarrow>
              do { i \<leftarrow> nat_value indexVal;
                   Some ((\<lparr>ad_handle = int i mod 2 ^ 16, ad_postArgs = False, ad_isShort = True, ad_isLocal = False\<rparr>,
                          OP_GET_BUILTIN, OP_INVALID), s) }
          | None \<Rightarrow>
              do { (handle, s) \<leftarrow> (if qualified then globalIdentifierConstant (previous_chars s) name s
                                  else globalIdentifierConstant name (cc_moduleName s) s);
                   Some ((\<lparr>ad_handle = handle, ad_postArgs = False, ad_isShort = True, ad_isLocal = False\<rparr>,
                          OP_GET_GLOBAL, OP_SET_GLOBAL), s) } }"

definition resolve_variable :: "byte list \<Rightarrow> cctx \<Rightarrow> ((arg_desc \<times> opcode \<times> opcode) \<times> cctx) option" where
  "resolve_variable name s =
     do { c \<leftarrow> current s;
          let ((slot, postArgs), s) = resolveLocal c name s;
          if slot \<noteq> -1
          then Some ((\<lparr>ad_handle = slot, ad_postArgs = postArgs, ad_isShort = False, ad_isLocal = True\<rparr>,
                     OP_GET_LOCAL, OP_SET_LOCAL), s)
          else let (up, s) = resolveUpvalue name s
               in if up \<noteq> -1
                  then Some ((\<lparr>ad_handle = up, ad_postArgs = False, ad_isShort = False, ad_isLocal = False\<rparr>,
                             OP_GET_UPVALUE, OP_SET_UPVALUE), s)
                  else resolve_global name s }"

definition shorthand_ops :: "(token_type \<times> nat) list" where
  "shorthand_ops = [(TOKEN_PLUS_EQUAL, OP_ADD), (TOKEN_MINUS_EQUAL, OP_SUBTRACT), (TOKEN_STAR_EQUAL, OP_MULTIPLY),
     (TOKEN_SLASH_EQUAL, OP_DIVIDE), (TOKEN_PERCENT_EQUAL, OP_MODULO)]"

definition emitLoadOrAssignVariable :: "parse_fun \<Rightarrow> byte list \<Rightarrow> bool \<Rightarrow> cctx \<Rightarrow> cctx option" where
  "emitLoadOrAssignVariable rec name canAssign s =
     do { ((arg, getOp, setOp), s) \<leftarrow> resolve_variable name s;
          if canAssign \<and> check TOKEN_EQUAL s
          then do { s \<leftarrow> advance s; s \<leftarrow> expr rec s; emitStore arg setOp s }
          else case map_of shorthand_ops (getCrtType s) of
                 Some oper \<Rightarrow>
                   if canAssign then do { s \<leftarrow> advance s; emitShorthandAssign rec arg getOp setOp oper s }
                   else emitLoad arg getOp s
               | None \<Rightarrow> emitLoad arg getOp s }"

definition p_variable :: "parse_fun \<Rightarrow> bool \<Rightarrow> cctx \<Rightarrow> cctx option" where
  "p_variable rec canAssign s = emitLoadOrAssignVariable rec (previous_chars s) canAssign s"

section \<open>Prototypes and functions\<close>

definition parseConstant :: "cctx \<Rightarrow> (val \<times> cctx) option" where
  "parseConstant s =
     (let t = getCrtType s
      in if t = TOKEN_NIL then do { s \<leftarrow> advance s; Some (VNil, s) }
         else if t = TOKEN_FALSE then do { s \<leftarrow> advance s; Some (VBool False, s) }
         else if t = TOKEN_TRUE then do { s \<leftarrow> advance s; Some (VBool True, s) }
         else if t = TOKEN_NUMBER then do { s \<leftarrow> advance s; Some (VNumber (strtod (previous_chars s)), s) }
         else if t = TOKEN_STRING
         then do { s \<leftarrow> advance s;
                   (str, s) \<leftarrow> machine (copy_string (unquote (previous_chars s))) s;
                   case str of None \<Rightarrow> Some (VNil, out_of_memory s) | Some a \<Rightarrow> Some (VObj a, s) }
         else Some (VNil, errorAtCurrent ''Constant expected'' s))"

record prototype =
  pt_arity :: nat
  pt_hasVarargs :: bool

text \<open>The parameters become locals and their default values are kept when a function is compiled;
  the array of default values has \<open>UINT8_COUNT\<close> elements.\<close>

definition add_default :: "val \<Rightarrow> cctx \<Rightarrow> cctx option" where
  "add_default v s =
     do { c \<leftarrow> current s;
          if length (cm_defaultArgs c) \<ge> UINT8_COUNT then None
          else upd_current (cm_defaultArgs_update (\<lambda>vs. vs @ [v])) s }"

definition parse_parameter :: "bool \<Rightarrow> cctx \<Rightarrow> cctx option" where
  "parse_parameter compiled s =
     (if \<not> compiled then consume TOKEN_IDENTIFIER ''Expect parameter name'' s
      else do { (constant, s) \<leftarrow> parseVariable VAR_LOCAL ''Expect parameter name'' s;
                s \<leftarrow> defineVariable constant VAR_LOCAL s;
                (hasDefault, s) \<leftarrow> consumeIfMatch TOKEN_EQUAL s;
                (v, s) \<leftarrow> (if hasDefault then parseConstant s else Some (VNil, s));
                add_default v s })"

partial_function (option) prototype_loop :: "bool \<Rightarrow> prototype \<Rightarrow> cctx \<Rightarrow> (prototype \<times> cctx) option" where
  "prototype_loop compiled proto s =
     do { let arity = (pt_arity proto + 1) mod 2 ^ 16;
          let s = (if arity > 255 then errorAtCurrent ''Can't have more than 255 parameters'' s else s);
          (varargs, s) \<leftarrow> consumeIfMatch TOKEN_ELLIPSIS s;
          (proto, s) \<leftarrow>
             (if varargs
              then Some (proto\<lparr>pt_hasVarargs := True\<rparr>,
                         error_if (\<not> check TOKEN_RIGHT_PAREN s) ''Expected ) after ...'' s)
              else do { s \<leftarrow> parse_parameter compiled s; Some (proto\<lparr>pt_arity := arity\<rparr>, s) });
          (more, s) \<leftarrow> consumeIfMatch TOKEN_COMMA s;
          if more then prototype_loop compiled proto s else Some (proto, s) }"

declare prototype_loop.simps [code]

definition parsePrototype :: "bool \<Rightarrow> cctx \<Rightarrow> (prototype \<times> cctx) option" where
  "parsePrototype compiled s =
     do { s \<leftarrow> consume TOKEN_LEFT_PAREN ''Expect '(' after function name'' s;
          let proto = \<lparr>pt_arity = 0, pt_hasVarargs = False\<rparr>;
          (proto, s) \<leftarrow> (if \<not> check TOKEN_RIGHT_PAREN s then prototype_loop compiled proto s else Some (proto, s));
          s \<leftarrow> consume TOKEN_RIGHT_PAREN ''Expect ')' after parameters'' s;
          Some (proto, s) }"

text \<open>The operands of \<open>CLOSURE\<close>.\<close>

fun emit_upvalues :: "upvalue list \<Rightarrow> cctx \<Rightarrow> cctx option" where
  "emit_upvalues [] s = Some s"
| "emit_upvalues (u # us) s =
     do { s \<leftarrow> emitByte (if up_isLocal u then 1 else 0) s; s \<leftarrow> emitByte (up_index u) s; emit_upvalues us s }"

partial_function (option) block_loop :: "parse_fun \<Rightarrow> cctx \<Rightarrow> cctx option" where
  "block_loop rec s =
     (if \<not> check TOKEN_RIGHT_BRACE s \<and> \<not> check TOKEN_EOF s
      then do { (_, s) \<leftarrow> rec Declaration s; block_loop rec s } else Some s)"

declare block_loop.simps [code]

definition p_block :: "parse_fun \<Rightarrow> cctx \<Rightarrow> cctx option" where
  "p_block rec s = do { s \<leftarrow> block_loop rec s; consume TOKEN_RIGHT_BRACE ''Expect '}' after block'' s }"

text \<open>The parameters and the numbers of arguments; the default value of a method's last parameter
  is never written.  Without memory the compilers are left in an undefined state.\<close>

definition function_head :: "function_type \<Rightarrow> cctx \<Rightarrow> cctx option" where
  "function_head type s =
     do { (proto, s) \<leftarrow> parsePrototype True s;
          let arity = (if type = FTYPE_METHOD then pt_arity proto + 1 else pt_arity proto);
          s \<leftarrow> upd_current (\<lambda>c. (upd_fn (\<lambda>f. f\<lparr>fn_arity := arity,
                   fn_isMethod := (if type = FTYPE_METHOD then True else fn_isMethod f),
                   fn_maxArgs := (if pt_hasVarargs proto then ELOX_MAX_ARGS else arity)\<rparr>) c)
                 \<lparr>cm_hasVarargs := pt_hasVarargs proto, cm_postArgs := True\<rparr>) s;
          if arity = 0 then Some s
          else do { (ok, s) \<leftarrow> machine (allocate (16 * arity)) s;
                    if \<not> ok then None
                    else upd_current (\<lambda>c. upd_fn (\<lambda>f. f\<lparr>fn_defaultArgs :=
                           Some (take arity (cm_defaultArgs c @ [VUndefined]))\<rparr>) c) s } }"

definition has_explicit_initializer :: "cctx \<Rightarrow> cctx option" where
  "has_explicit_initializer s = (case cc_classes s of
       [] \<Rightarrow> None | k # ks \<Rightarrow> Some (s\<lparr>cc_classes := k\<lparr>cc_hasExplicitInitializer := True\<rparr> # ks\<rparr>))"

text \<open>The start of an initializer: \<open>this\<close>, the arguments for the superclass, \<open>super\<close>.\<close>

definition chain_initializer :: "parse_fun \<Rightarrow> function_type \<Rightarrow> cctx \<Rightarrow> cctx option" where
  "chain_initializer rec type s =
     do { s \<leftarrow> (if type = FTYPE_INITIALIZER
               then do { s \<leftarrow> emitLoadOrAssignVariable rec (bytes ''this'') False s; has_explicit_initializer s }
               else Some s);
          (chained, s) \<leftarrow> consumeIfMatch TOKEN_COLON s;
          (argCount, hasExpansions, s) \<leftarrow>
             (if chained
              then do { let s = error_if (type \<noteq> FTYPE_INITIALIZER) ''Only initializers can be chained'' s;
                        s \<leftarrow> consume TOKEN_SUPER (''Expect '' @ quoted ''super'') s;
                        s \<leftarrow> consume TOKEN_LEFT_PAREN ''Expect super argument list'' s;
                        argumentList rec s }
              else Some (0, False, s));
          if type = FTYPE_INITIALIZER
          then do { s \<leftarrow> emitLoadOrAssignVariable rec (bytes ''super'') False s;
                    s \<leftarrow> emitOp OP_SUPER_INIT s;
                    emitBytes argCount (bool_code hasExpansions) s }
          else Some s }"

definition p_function :: "parse_fun \<Rightarrow> function_type \<Rightarrow> cctx \<Rightarrow> cctx option" where
  "p_function rec type s =
     do { (ok, s) \<leftarrow> initCompiler type (Some (previous_chars s)) s;
          if \<not> ok then None
          else do { s \<leftarrow> beginScope s;
                    s \<leftarrow> function_head type s;
                    s \<leftarrow> chain_initializer rec type s;
                    s \<leftarrow> consume TOKEN_LEFT_BRACE ''Expect '{' before function body'' s;
                    s \<leftarrow> p_block rec s;
                    (c, s) \<leftarrow> endCompiler s;
                    (functionConstant, s) \<leftarrow> makeConstant (VObj (cm_function c)) s;
                    if cm_upvalues c \<noteq> []
                    then do { s \<leftarrow> emitOp OP_CLOSURE s;
                              s \<leftarrow> emitShort functionConstant s;
                              emit_upvalues (cm_upvalues c) s }
                    else emitConstantOp functionConstant s } }"

section \<open>Logical operators, varargs, this and super\<close>

definition p_or :: "parse_fun \<Rightarrow> cctx \<Rightarrow> cctx option" where
  "p_or rec s =
     do { (elseJump, s) \<leftarrow> emitJump OP_JUMP_IF_FALSE s;
          (endJump, s) \<leftarrow> emitJump OP_JUMP s;
          s \<leftarrow> patchJump elseJump s;
          s \<leftarrow> emitOp OP_POP s;
          s \<leftarrow> expression_of rec PREC_OR s;
          patchJump endJump s }"

definition p_and :: "parse_fun \<Rightarrow> cctx \<Rightarrow> cctx option" where
  "p_and rec s =
     do { (endJump, s) \<leftarrow> emitJump OP_JUMP_IF_FALSE s;
          s \<leftarrow> emitOp OP_POP s;
          s \<leftarrow> expression_of rec PREC_AND s;
          patchJump endJump s }"

definition ellipsis :: "parse_fun \<Rightarrow> bool \<Rightarrow> bool \<Rightarrow> bool \<Rightarrow> cctx \<Rightarrow> (expression_type \<times> cctx) option" where
  "ellipsis rec canAssign canExpand firstExpansion s =
     do { c \<leftarrow> current s;
          if \<not> cm_hasVarargs c then Some (ETYPE_NORMAL, errorAtCurrent ''Function does not have varargs'' s)
          else do { (index, s) \<leftarrow> consumeIfMatch TOKEN_LEFT_BRACKET s;
                    if index
                    then do { s \<leftarrow> expr rec s;
                              s \<leftarrow> consume TOKEN_RIGHT_BRACKET ''Expect ']' after index'' s;
                              (assign, s) \<leftarrow> match_assign canAssign TOKEN_EQUAL s;
                              s \<leftarrow> (if assign then do { s \<leftarrow> expr rec s; emitOp OP_SET_VARARG s }
                                    else emitOp OP_GET_VARARG s);
                              Some (ETYPE_NORMAL, s) }
                    else do { (prop, s) \<leftarrow> consumeIfMatch TOKEN_COLON s;
                              if prop
                              then do { s \<leftarrow> consume TOKEN_IDENTIFIER (''Expect property name after '' @ quoted '':'') s;
                                        s \<leftarrow> (if previous_chars s = bytes ''length''
                                              then do { s \<leftarrow> consume TOKEN_LEFT_PAREN ''Expect '(' after function name'' s;
                                                        s \<leftarrow> consume TOKEN_RIGHT_PAREN ''Function takes no arguments'' s;
                                                        emitOp OP_NUM_VARARGS s }
                                              else Some (errorAtCurrent ''Unknown property name for ...'' s));
                                        Some (ETYPE_NORMAL, s) }
                              else do { let s = error_if (\<not> canExpand) ''... used in a context that doesn't allow expansion'' s;
                                        s \<leftarrow> emitBytes OP_EXPAND_VARARGS (bool_code firstExpansion) s;
                                        Some (ETYPE_EXPAND, s) } } } }"

definition expand :: "parse_fun \<Rightarrow> bool \<Rightarrow> bool \<Rightarrow> cctx \<Rightarrow> (expression_type \<times> cctx) option" where
  "expand rec canExpand firstExpansion s =
     do { let s = error_if (\<not> canExpand) ''.. used in a context that doesn't allow expansion'' s;
          s \<leftarrow> expr rec s;
          s \<leftarrow> (if \<not> firstExpansion then emitOp OP_SWAP s else Some s);
          s \<leftarrow> emitBytes OP_EXPAND (bool_code firstExpansion) s;
          Some (ETYPE_EXPAND, s) }"

definition p_this :: "parse_fun \<Rightarrow> cctx \<Rightarrow> cctx option" where
  "p_this rec s =
     (if cc_classes s = [] then Some (compileError (''Can't use '' @ quoted ''this'' @ '' outside of a class'') s)
      else p_variable rec False s)"

definition p_super :: "parse_fun \<Rightarrow> cctx \<Rightarrow> cctx option" where
  "p_super rec s =
     do { let s = (if cc_classes s = []
                   then compileError (''Can't use '' @ quoted ''super'' @ '' outside of a class'') s else s);
          s \<leftarrow> consume TOKEN_COLON (''Expect ':' after '' @ quoted ''super'') s;
          s \<leftarrow> consume TOKEN_IDENTIFIER ''Expect superclass method name'' s;
          (name, s) \<leftarrow> identifierConstant (previous_chars s) s;
          if name < 0 then Some (out_of_memory s)
          else do { s \<leftarrow> emitLoadOrAssignVariable rec (bytes ''this'') False s;
                    (invoke, s) \<leftarrow> consumeIfMatch TOKEN_LEFT_PAREN s;
                    if invoke
                    then do { (argCount, hasExpansions, s) \<leftarrow> argumentList rec s;
                              (propSlot, s) \<leftarrow> addPendingProperty name MEMBER_METHOD_MASK False s;
                              s \<leftarrow> emitOp OP_SUPER_INVOKE s;
                              s \<leftarrow> emitShort propSlot s;
                              emitBytes argCount (bool_code hasExpansions) s }
                    else do { (propSlot, s) \<leftarrow> addPendingProperty name MEMBER_METHOD_MASK False s;
                              s \<leftarrow> emitOp OP_GET_SUPER s;
                              emitShort propSlot s } } }"

end
