(* ===== verification/Statements.thy ===== *)
theory Statements
  imports Expressions
begin

text \<open>
  Classes, interfaces, statements and declarations of \<open>compiler.c\<close>, over the same
  \<open>rec\<close> as the expressions.
\<close>

section \<open>References to variables\<close>

record var_ref =
  vr_scope :: var_scope
  vr_handle :: int
  vr_postArgs :: bool

definition builtin_known :: "byte list \<Rightarrow> cctx \<Rightarrow> bool option" where
  "builtin_known name s = map_option (\<lambda>r. r \<noteq> None)
     (tableFindString (str_view (vm_heap (cc_vm s))) (vm_builtinSymbols (cc_vm s)) name (hashString name))"

definition resolveVar :: "byte list \<Rightarrow> cctx \<Rightarrow> (var_ref \<times> cctx) option" where
  "resolveVar name s =
     do { c \<leftarrow> current s;
          let ((slot, postArgs), s) = resolveLocal c name s;
          if slot \<ge> 0 then Some (\<lparr>vr_scope = VAR_LOCAL, vr_handle = slot, vr_postArgs = postArgs\<rparr>, s)
          else let (slot, s) = resolveUpvalue name s
               in if slot \<ge> 0 then Some (\<lparr>vr_scope = VAR_UPVALUE, vr_handle = slot, vr_postArgs = False\<rparr>, s)
                  else do { (qualified, s) \<leftarrow> consumeIfMatch TOKEN_DOUBLE_COLON s;
                            s \<leftarrow> (if qualified then consume TOKEN_IDENTIFIER ''Var name expected after ::'' s else Some s);
                            isBuiltin \<leftarrow> (if qualified then Some False else builtin_known name s);
                            if isBuiltin
                            then do { (i, s) \<leftarrow> builtinConstant name s;
                                      Some (\<lparr>vr_scope = VAR_BUILTIN, vr_handle = i mod 2 ^ 16, vr_postArgs = False\<rparr>, s) }
                            else do { (i, s) \<leftarrow> (if qualified then globalIdentifierConstant (previous_chars s) name s
                                                else globalIdentifierConstant name (cc_moduleName s) s);
                                      Some (\<lparr>vr_scope = VAR_GLOBAL, vr_handle = i mod 2 ^ 16, vr_postArgs = False\<rparr>, s) } } }"

fun unpack_slots :: "var_ref list \<Rightarrow> cctx \<Rightarrow> cctx option" where
  "unpack_slots [] s = Some s"
| "unpack_slots (v # vs) s =
     do { s \<leftarrow> emitByte (scope_code (vr_scope v)) s;
          s \<leftarrow> (case vr_scope v of
                 VAR_LOCAL \<Rightarrow> emitBytes (nat (vr_handle v)) (bool_code (vr_postArgs v)) s
               | VAR_GLOBAL \<Rightarrow> emitShort (vr_handle v) s
               | VAR_UPVALUE \<Rightarrow> emitByte (nat (vr_handle v)) s
               | VAR_BUILTIN \<Rightarrow> do { s \<leftarrow> emitByte (nat (vr_handle v)) s;
                                       Some (errorAtCurrent ''Cannot override builtins'' s) });
          unpack_slots vs s }"

definition emitUnpack :: "var_ref list \<Rightarrow> cctx \<Rightarrow> cctx option" where
  "emitUnpack slots s =
     do { s \<leftarrow> emitOp OP_UNPACK s; s \<leftarrow> emitByte (length slots) s; unpack_slots slots s }"

section \<open>Members of classes\<close>

definition emitField :: "cctx \<Rightarrow> cctx option" where
  "emitField s =
     do { s \<leftarrow> consume TOKEN_IDENTIFIER ''Expect field name'' s;
          (constant, s) \<leftarrow> identifierConstant (previous_chars s) s;
          if constant < 0 then Some (out_of_memory s)
          else do { s \<leftarrow> consume TOKEN_SEMICOLON ''Expect ';' after field declaration'' s;
                    name_op OP_FIELD constant s } }"

definition emitMethod :: "parse_fun \<Rightarrow> byte list option \<Rightarrow> cctx \<Rightarrow> cctx option" where
  "emitMethod rec className s =
     do { let anonInit = check TOKEN_LEFT_PAREN s;
          s \<leftarrow> (if anonInit then Some s else consume TOKEN_IDENTIFIER ''Expect method name'' s);
          (nameConstant, s) \<leftarrow> identifierConstant (if anonInit then init_name else previous_chars s) s;
          if nameConstant < 0 then Some (out_of_memory s)
          else do { let type = (case className of
                                  Some n \<Rightarrow> if previous_chars s = n then FTYPE_INITIALIZER else FTYPE_METHOD
                                | None \<Rightarrow> if anonInit then FTYPE_INITIALIZER else FTYPE_METHOD);
                    s \<leftarrow> p_function rec type s;
                    name_op OP_METHOD nameConstant s } }"

text \<open>The arity is emitted as one byte.\<close>

definition emit_abs_method :: "int \<Rightarrow> nat \<Rightarrow> prototype \<Rightarrow> cctx \<Rightarrow> cctx option" where
  "emit_abs_method nameConstant parentOffset proto s =
     do { s \<leftarrow> name_op OP_ABS_METHOD nameConstant s;
          s \<leftarrow> emitByte parentOffset s;
          emitBytes (pt_arity proto) (bool_code (pt_hasVarargs proto)) s }"

definition emitAbstractMethod :: "nat \<Rightarrow> cctx \<Rightarrow> cctx option" where
  "emitAbstractMethod parentOffset s =
     do { s \<leftarrow> consume TOKEN_IDENTIFIER ''Expect method name'' s;
          (nameConstant, s) \<leftarrow> identifierConstant (previous_chars s) s;
          if nameConstant < 0 then Some (out_of_memory s)
          else do { (proto, s) \<leftarrow> parsePrototype False s;
                    s \<leftarrow> consume TOKEN_SEMICOLON ''Expect ';' after abstract method declaration'' s;
                    emit_abs_method nameConstant parentOffset proto s } }"

definition class_op :: "int \<Rightarrow> bool \<Rightarrow> cctx \<Rightarrow> cctx option" where
  "class_op nameConstant abstract s = do { s \<leftarrow> name_op OP_CLASS nameConstant s; emitByte (bool_code abstract) s }"

definition class_body :: "parse_fun \<Rightarrow> byte list option \<Rightarrow> cctx \<Rightarrow> cctx option" where
  "class_body rec className s = map_option snd (rec (ClassBody className) s)"

definition emitStaticClass :: "parse_fun \<Rightarrow> cctx \<Rightarrow> cctx option" where
  "emitStaticClass rec s =
     do { s \<leftarrow> consume TOKEN_IDENTIFIER ''Expect class name'' s;
          let className = previous_chars s;
          (nameConstant, s) \<leftarrow> identifierConstant className s;
          if nameConstant < 0 then Some (out_of_memory s)
          else do { let abstract = has_qual QUAL_ABSTRACT s;
                    s \<leftarrow> beginScope s;
                    ((_, added), s) \<leftarrow> addLocal [] s;
                    s \<leftarrow> (if added
                          then do { s \<leftarrow> class_op nameConstant abstract s;
                                    s \<leftarrow> defineVariable 0 VAR_LOCAL s;
                                    s \<leftarrow> class_body rec (Some className) s;
                                    name_op OP_STATIC nameConstant s }
                          else Some s);
                    endScope s } }"

definition getSlotType :: "nat \<Rightarrow> bool \<Rightarrow> nat" where
  "getSlotType slot isSuper = bool_code isSuper OR (2 * (slot mod 2 ^ 32 div 2 ^ 30))"

section \<open>Interfaces\<close>

partial_function (option) interface_loop :: "cctx \<Rightarrow> (bool \<times> cctx) option" where
  "interface_loop s =
     (if \<not> check TOKEN_RIGHT_BRACE s \<and> \<not> check TOKEN_EOF s
      then do { (_, s) \<leftarrow> consumeIfMatch TOKEN_ABSTRACT s;
                s \<leftarrow> consume TOKEN_IDENTIFIER ''Expect method name'' s;
                (methodNameConstant, s) \<leftarrow> identifierConstant (previous_chars s) s;
                if methodNameConstant < 0 then Some (False, out_of_memory s)
                else do { (proto, s) \<leftarrow> parsePrototype False s;
                          s \<leftarrow> consume TOKEN_SEMICOLON ''Expect ';' after method'' s;
                          s \<leftarrow> emit_abs_method methodNameConstant 0 proto s;
                          interface_loop s } }
      else Some (True, s))"

declare interface_loop.simps [code]

definition p_interface :: "cctx \<Rightarrow> cctx option" where
  "p_interface s =
     do { s \<leftarrow> consume TOKEN_LEFT_BRACE ''Expect '{' before interface body'' s;
          (ok, s) \<leftarrow> interface_loop s;
          if ok then consume TOKEN_RIGHT_BRACE ''Expect '}' after interface body'' s else Some s }"

definition interfaceDeclaration :: "var_scope \<Rightarrow> cctx \<Rightarrow> cctx option" where
  "interfaceDeclaration varType s =
     do { (intfGlobal, s) \<leftarrow> parseVariable varType ''Expect interface name'' s;
          (nameConstant, s) \<leftarrow> identifierConstant (previous_chars s) s;
          if nameConstant < 0 then Some (out_of_memory s)
          else do { s \<leftarrow> name_op OP_INTF nameConstant s;
                    s \<leftarrow> p_interface s;
                    defineVariable intfGlobal varType s } }"

definition anonIntf :: "cctx \<Rightarrow> cctx option" where
  "anonIntf s =
     do { (nameConstant, s) \<leftarrow> identifierConstant [] s;
          if nameConstant < 0 then Some (out_of_memory s)
          else do { s \<leftarrow> name_op OP_INTF nameConstant s; p_interface s } }"

section \<open>Classes\<close>

partial_function (option) implements_loop :: "parse_fun \<Rightarrow> nat \<Rightarrow> cctx \<Rightarrow> (nat \<times> cctx) option" where
  "implements_loop rec numSuper s =
     do { s \<leftarrow> expr rec s;
          (more, s) \<leftarrow> consumeIfMatch TOKEN_COMMA s;
          if more then implements_loop rec (numSuper + 1) s else Some (numSuper + 1, s) }"

declare implements_loop.simps [code]

definition class_member :: "parse_fun \<Rightarrow> byte list option \<Rightarrow> cctx \<Rightarrow> cctx option" where
  "class_member rec className s =
     (let t = getCrtType s
      in if t = TOKEN_LOCAL then do { s \<leftarrow> advance s; emitField s }
         else if t = TOKEN_CLASS then do { s \<leftarrow> advance s; emitStaticClass rec s }
         else if t = TOKEN_ABSTRACT then do { s \<leftarrow> advance s; emitAbstractMethod 1 s }
         else emitMethod rec className s)"

partial_function (option) member_loop :: "parse_fun \<Rightarrow> byte list option \<Rightarrow> cctx \<Rightarrow> cctx option" where
  "member_loop rec className s =
     (if \<not> check TOKEN_RIGHT_BRACE s \<and> \<not> check TOKEN_EOF s
      then do { s \<leftarrow> class_member rec className s; member_loop rec className s } else Some s)"

declare member_loop.simps [code]

definition temps_scope :: "(cctx \<Rightarrow> cctx option) \<Rightarrow> val \<Rightarrow> cctx \<Rightarrow> cctx option" where
  "temps_scope f v s =
     do { (_, s) \<leftarrow> machine (\<lambda>rt vm. Some ((), pushTemp (rt_fiber rt) v vm)) s;
          s \<leftarrow> f s;
          (_, s) \<leftarrow> machine (\<lambda>rt vm. Some ((), releaseTemps (rt_fiber rt) 1 vm)) s;
          Some s }"

definition fn_name_chars :: "compiler \<Rightarrow> cctx \<Rightarrow> byte list option" where
  "fn_name_chars c s = do { a \<leftarrow> fn_name (cm_fn c);
     case get_obj (cc_vm s) a of Some (OString chars _) \<Rightarrow> Some chars | _ \<Rightarrow> None }"

definition implicit_initializer :: "parse_fun \<Rightarrow> byte list option \<Rightarrow> cctx \<Rightarrow> cctx option" where
  "implicit_initializer rec className s =
     do { (ok, s) \<leftarrow> initCompiler FTYPE_INITIALIZER className s;
          if \<not> ok then None
          else do { s \<leftarrow> beginScope s;
                    s \<leftarrow> upd_current (upd_fn (\<lambda>f. f\<lparr>fn_maxArgs := 0\<rparr>)) s;
                    s \<leftarrow> emitLoadOrAssignVariable rec (bytes ''this'') False s;
                    s \<leftarrow> emitLoadOrAssignVariable rec (bytes ''super'') False s;
                    s \<leftarrow> emitOp OP_SUPER_INIT s;
                    s \<leftarrow> emitBytes 0 (bool_code False) s;
                    (c, s) \<leftarrow> endCompiler s;
                    temps_scope (\<lambda>s. do {
                        name \<leftarrow> fn_name_chars c s;
                        (nameConstant, s) \<leftarrow> identifierConstant name s;
                        (functionConstant, s) \<leftarrow> makeConstant (VObj (cm_function c)) s;
                        s \<leftarrow> emitOp OP_CLOSURE s;
                        s \<leftarrow> emitShort functionConstant s;
                        s \<leftarrow> emit_upvalues (cm_upvalues c) s;
                        name_op OP_METHOD nameConstant s }) (VObj (cm_function c)) s } }"

fun emit_pending :: "bool \<Rightarrow> entry list \<Rightarrow> cctx \<Rightarrow> cctx option" where
  "emit_pending isSuper [] s = Some s"
| "emit_pending isSuper (e # es) s =
     (case ekey e of
        None \<Rightarrow> emit_pending isSuper es s
      | Some key \<Rightarrow>
          do { slot \<leftarrow> nat_value (evalue e);
               s \<leftarrow> emitByte (getSlotType slot isSuper) s;
               name \<leftarrow> (case get_obj (cc_vm s) key of Some (OString chars _) \<Rightarrow> Some chars | _ \<Rightarrow> None);
               (constant, s) \<leftarrow> identifierConstant name s;
               s \<leftarrow> emitShort constant s;
               s \<leftarrow> emitShort (int (slot mod 2 ^ 16)) s;
               emit_pending isSuper es s })"

definition emit_references :: "int \<Rightarrow> cctx \<Rightarrow> cctx option" where
  "emit_references refCntOffset s =
     (case cc_classes s of
        [] \<Rightarrow> None
      | k # _ \<Rightarrow>
          let count = tcount (cc_pendingThis k) + tcount (cc_pendingSuper k)
          in if count = 0 then emitShort 0 s
             else if count > 65535
             then Some (compileError ''Can't have more than 65535 this/super references in a method'' s)
             else do { s \<leftarrow> patchUShort refCntOffset (int count) s;
                       s \<leftarrow> emitShort (int count) s;
                       s \<leftarrow> emit_pending False (tentries (cc_pendingThis k)) s;
                       emit_pending True (tentries (cc_pendingSuper k)) s })"

definition class_head :: "parse_fun \<Rightarrow> cctx \<Rightarrow> (nat \<times> cctx) option" where
  "class_head rec s =
     do { (extends, s) \<leftarrow> consumeIfMatch TOKEN_EXTENDS s;
          s \<leftarrow> (if extends then expr rec s
               else do { (objNameConstant, s) \<leftarrow> builtinConstant (bytes ''Object'') s;
                         name_op OP_GET_BUILTIN objNameConstant s });
          (implements, s) \<leftarrow> consumeIfMatch TOKEN_IMPLEMENTS s;
          if implements then implements_loop rec 1 s else Some (1, s) }"

definition empty_class_compiler :: class_compiler where
  "empty_class_compiler = \<lparr>cc_pendingThis = empty_table, cc_pendingSuper = empty_table,
     cc_hasExplicitInitializer = False\<rparr>"

text \<open>\<open>_class\<close>.  The counts of superclasses and the like are emitted as bytes.\<close>

definition class_goal :: "parse_fun \<Rightarrow> byte list option \<Rightarrow> cctx \<Rightarrow> cctx option" where
  "class_goal rec className s =
     do { let s = s\<lparr>cc_classes := empty_class_compiler # cc_classes s\<rparr>;
          (numSuper, s) \<leftarrow> class_head rec s;
          s \<leftarrow> beginScope s;
          (_, s) \<leftarrow> addLocal (bytes ''super'') s;
          s \<leftarrow> defineVariable 0 VAR_LOCAL s;
          s \<leftarrow> emitBytes OP_PEEK 1 s;
          s \<leftarrow> emitBytes OP_INHERIT numSuper s;
          (refCntOffset, s) \<leftarrow> emitUShort 0 s;
          s \<leftarrow> consume TOKEN_LEFT_BRACE ''Expect '{' before class body'' s;
          s \<leftarrow> member_loop rec className s;
          s \<leftarrow> consume TOKEN_RIGHT_BRACE ''Expect '}' after class body'' s;
          s \<leftarrow> (case cc_classes s of
                 [] \<Rightarrow> None
               | k # _ \<Rightarrow> if cc_hasExplicitInitializer k then Some s else implicit_initializer rec className s);
          s \<leftarrow> emitOp OP_CLOSE_CLASS s;
          s \<leftarrow> emit_references refCntOffset s;
          (k, ks) \<leftarrow> (case cc_classes s of [] \<Rightarrow> None | k # ks \<Rightarrow> Some (k, ks));
          (_, s) \<leftarrow> machine (release (24 * tcapacity (cc_pendingThis k) + 24 * tcapacity (cc_pendingSuper k))) s;
          s \<leftarrow> endScope s;
          Some (s\<lparr>cc_classes := ks\<rparr>) }"

definition classDeclaration :: "parse_fun \<Rightarrow> var_scope \<Rightarrow> cctx \<Rightarrow> cctx option" where
  "classDeclaration rec varType s =
     do { (classGlobal, s) \<leftarrow> parseVariable varType ''Expect class name'' s;
          let className = previous_chars s;
          (nameConstant, s) \<leftarrow> identifierConstant className s;
          if nameConstant < 0 then Some (out_of_memory s)
          else do { s \<leftarrow> class_op nameConstant (has_qual QUAL_ABSTRACT s) s;
                    s \<leftarrow> defineVariable classGlobal varType s;
                    s \<leftarrow> beginScope s;
                    s \<leftarrow> class_body rec (Some className) s;
                    endScope s } }"

definition anonClass :: "parse_fun \<Rightarrow> cctx \<Rightarrow> cctx option" where
  "anonClass rec s =
     do { (nameConstant, s) \<leftarrow> identifierConstant [] s;
          if nameConstant < 0 then Some (out_of_memory s)
          else do { let abstract = has_qual QUAL_ABSTRACT s;
                    s \<leftarrow> resetQuals s;
                    s \<leftarrow> class_op nameConstant abstract s;
                    s \<leftarrow> beginScope s;
                    s \<leftarrow> class_body rec None s;
                    endScope s } }"

definition p_abstract :: "parse_fun \<Rightarrow> cctx \<Rightarrow> cctx option" where
  "p_abstract rec s =
     do { (isClass, s) \<leftarrow> consumeIfMatch TOKEN_CLASS s;
          let s = error_if (\<not> isClass) (''Expect '' @ quoted ''class'') s;
          s \<leftarrow> add_qual QUAL_ABSTRACT s;
          anonClass rec s }"

end
