(* ===== verification/Compile.thy ===== *)
theory Compile
  imports Statements
begin

text \<open>
  Statements and declarations of \<open>compiler.c\<close>, the table of parse rules, the expression
  parser driven by it, and \<open>compile\<close>.  \<open>parse n\<close> closes the recursion with at most
  \<open>n\<close> nested calls; a source whose compilation does not end has no result for any \<open>n\<close>.
\<close>

section \<open>Simple statements\<close>

definition functionDeclaration :: "parse_fun \<Rightarrow> var_scope \<Rightarrow> cctx \<Rightarrow> cctx option" where
  "functionDeclaration rec varType s =
     do { (nameGlobal, s) \<leftarrow> parseVariable varType ''Expect function name'' s;
          s \<leftarrow> markInitialized varType s;
          s \<leftarrow> p_function rec FTYPE_FUNCTION s;
          defineVariable nameGlobal varType s }"

definition varDeclaration :: "parse_fun \<Rightarrow> var_scope \<Rightarrow> cctx \<Rightarrow> cctx option" where
  "varDeclaration rec varType s =
     do { (nameGlobal, s) \<leftarrow> parseVariable varType ''Expect variable name'' s;
          (hasValue, s) \<leftarrow> consumeIfMatch TOKEN_EQUAL s;
          s \<leftarrow> (if hasValue then expr rec s else emitOp OP_NIL s);
          s \<leftarrow> consume TOKEN_SEMICOLON ''Expect ';' after variable declaration'' s;
          defineVariable nameGlobal varType s }"

definition expressionStatement :: "parse_fun \<Rightarrow> cctx \<Rightarrow> cctx option" where
  "expressionStatement rec s =
     do { s \<leftarrow> expr rec s;
          s \<leftarrow> consume TOKEN_SEMICOLON ''Expect ';' after expression'' s;
          emitOp OP_POP s }"

text \<open>The arrays of variables of an unpack statement and of \<open>foreach\<close> have 16 elements.\<close>

definition add_var_ref :: "var_ref list \<Rightarrow> var_ref \<Rightarrow> var_ref list option" where
  "add_var_ref vars v = (if length vars < 16 then Some (vars @ [v]) else None)"

partial_function (option) unpack_loop :: "var_ref list \<Rightarrow> cctx \<Rightarrow> (var_ref list \<times> cctx) option" where
  "unpack_loop vars s =
     do { s \<leftarrow> consume TOKEN_IDENTIFIER ''Identifier expected in unpack statement'' s;
          (v, s) \<leftarrow> resolveVar (previous_chars s) s;
          vars \<leftarrow> add_var_ref vars v;
          (more, s) \<leftarrow> consumeIfMatch TOKEN_COMMA s;
          if more then unpack_loop vars s else Some (vars, s) }"

declare unpack_loop.simps [code]

definition unpackStatement :: "parse_fun \<Rightarrow> cctx \<Rightarrow> cctx option" where
  "unpackStatement rec s =
     do { (vars, s) \<leftarrow> unpack_loop [] s;
          s \<leftarrow> consume TOKEN_COLON_EQUAL ''Expect ':=' after unpack values'' s;
          s \<leftarrow> expr rec s;
          s \<leftarrow> consume TOKEN_SEMICOLON ''Expect ';' after unpack statement'' s;
          emitUnpack vars s }"

definition throwStatement :: "parse_fun \<Rightarrow> cctx \<Rightarrow> cctx option" where
  "throwStatement rec s =
     do { s \<leftarrow> expr rec s; s \<leftarrow> consume TOKEN_SEMICOLON ''Expect ';' after value'' s; emitOp OP_THROW s }"

definition ifStatement :: "parse_fun \<Rightarrow> cctx \<Rightarrow> cctx option" where
  "ifStatement rec s =
     do { s \<leftarrow> consume TOKEN_LEFT_PAREN (''Expect '(' after '' @ quoted ''if'') s;
          s \<leftarrow> expr rec s;
          s \<leftarrow> consume TOKEN_RIGHT_PAREN ''Expect ')' after condition'' s;
          (thenJump, s) \<leftarrow> emitJump OP_JUMP_IF_FALSE s;
          s \<leftarrow> emitOp OP_POP s;
          s \<leftarrow> statement rec s;
          (elseJump, s) \<leftarrow> emitJump OP_JUMP s;
          s \<leftarrow> patchJump thenJump s;
          s \<leftarrow> emitOp OP_POP s;
          (hasElse, s) \<leftarrow> consumeIfMatch TOKEN_ELSE s;
          s \<leftarrow> (if hasElse then statement rec s else Some s);
          patchJump elseJump s }"

definition returnStatement :: "parse_fun \<Rightarrow> cctx \<Rightarrow> cctx option" where
  "returnStatement rec s =
     do { c \<leftarrow> current s;
          let s = (if cm_type c = FTYPE_SCRIPT then compileError ''Can't return from top-level code'' s else s);
          (plain, s) \<leftarrow> consumeIfMatch TOKEN_SEMICOLON s;
          if plain
          then do { s \<leftarrow> (if cm_catchStackDepth c > 0 then emitBytes OP_UNROLL_EXH 0 s else Some s);
                    emitReturn s }
          else do { let s = (if cm_type c = FTYPE_INITIALIZER
                             then compileError ''Can't return a value from an initializer'' s else s);
                    s \<leftarrow> expr rec s;
                    s \<leftarrow> (if cm_catchStackDepth c > 0 then emitBytes OP_UNROLL_EXH_R 0 s else Some s);
                    s \<leftarrow> consume TOKEN_SEMICOLON ''Expect ';' after return value'' s;
                    emitOp OP_RETURN s } }"

partial_function (option) import_loop :: "byte list \<Rightarrow> int \<Rightarrow> cctx \<Rightarrow> (int \<times> cctx) option" where
  "import_loop moduleName numSymbols s =
     do { s \<leftarrow> consume TOKEN_IDENTIFIER ''Expect symbol name'' s;
          (_, s) \<leftarrow> declareLocal s;
          (symbol, s) \<leftarrow> globalIdentifierConstant (previous_chars s) moduleName s;
          s \<leftarrow> emitShort symbol s;
          (more, s) \<leftarrow> consumeIfMatch TOKEN_COMMA s;
          if more then import_loop moduleName (numSymbols + 1) s else Some (numSymbols + 1, s) }"

declare import_loop.simps [code]

text \<open>\<open>importStatement\<close>; the flag says that symbols are imported.\<close>

definition importStatement :: "bool \<Rightarrow> cctx \<Rightarrow> cctx option" where
  "importStatement symbols s =
     do { s \<leftarrow> emitOp OP_IMPORT s;
          s \<leftarrow> consume TOKEN_IDENTIFIER ''Expect module name'' s;
          let moduleName = previous_chars s;
          (moduleConstant, s) \<leftarrow> identifierConstant moduleName s;
          if moduleConstant < 0 then Some (out_of_memory s)
          else do { s \<leftarrow> emitShort moduleConstant s;
                    (symOffset, s) \<leftarrow> emitUShort 0 s;
                    s \<leftarrow> (if symbols
                          then do { s \<leftarrow> consume TOKEN_IMPORT (''Expect '' @ quoted ''import'') s;
                                    (numSymbols, s) \<leftarrow> import_loop moduleName 0 s;
                                    patchUShort symOffset numSymbols s }
                          else Some s);
                    consume TOKEN_SEMICOLON ''Expect ';' after import'' s } }"

section \<open>Loops\<close>

text \<open>The loop's state and the list of pending \<open>break\<close> jumps belong to the whole
  compilation, not to the function compiler.\<close>

definition enter_loop :: "cctx \<Rightarrow> cctx option" where
  "enter_loop s = do { c \<leftarrow> current s;
     Some (s\<lparr>cc_innermostLoop := \<lparr>lp_start = code_count s, lp_scopeDepth = cm_scopeDepth c,
        lp_catchStackDepth = cm_catchStackDepth c, lp_finallyDepth = cm_finallyDepth c\<rparr>\<rparr>) }"

definition loop_start :: "cctx \<Rightarrow> int" where "loop_start s = lp_start (cc_innermostLoop s)"

text \<open>What \<open>break\<close> and \<open>continue\<close> share: the checks, the locals of the loop body
  popped (the captured ones, too) and the exception handlers unrolled.\<close>

definition leave_body :: "string \<Rightarrow> string \<Rightarrow> string \<Rightarrow> cctx \<Rightarrow> cctx option" where
  "leave_body outside finally semicolon s =
     do { c \<leftarrow> current s;
          let loop = cc_innermostLoop s;
          let s = (if lp_start loop = -1 then compileError outside s else s);
          let s = (if cm_finallyDepth c \<noteq> lp_finallyDepth loop then compileError finally s else s);
          s \<leftarrow> consume TOKEN_SEMICOLON semicolon s;
          s \<leftarrow> emitPop (length (takeWhile (\<lambda>l. lc_depth l > lp_scopeDepth loop) (rev (cm_locals c)))) s;
          if cm_catchStackDepth c > lp_catchStackDepth loop
          then do { s \<leftarrow> emitOp OP_UNROLL_EXH s; emitByte (nat (lp_catchStackDepth loop)) s }
          else Some s }"

definition breakStatement :: "cctx \<Rightarrow> cctx option" where
  "breakStatement s =
     do { s \<leftarrow> leave_body (''Cannot use '' @ quoted ''break'' @ '' outside of a loop'')
                 ''Cannot break outside a finally block'' (''Expect ';' after '' @ quoted ''break'') s;
          (jmpOffset, s) \<leftarrow> emitJump OP_JUMP s;
          (ok, s) \<leftarrow> machine (allocate 16) s;
          if \<not> ok then Some (out_of_memory s)
          else Some (s\<lparr>cc_breakJumps := \<lparr>bj_scopeDepth = lp_scopeDepth (cc_innermostLoop s),
                        bj_offset = jmpOffset\<rparr> # cc_breakJumps s\<rparr>) }"

definition continueStatement :: "cctx \<Rightarrow> cctx option" where
  "continueStatement s =
     do { s \<leftarrow> leave_body (''Can't use '' @ quoted ''continue'' @ '' outside of a loop'')
                 ''Cannot continue outside a finally block'' (''Expect ';' after '' @ quoted ''continue'') s;
          emitLoop (loop_start s) s }"

definition for_initializer :: "parse_fun \<Rightarrow> cctx \<Rightarrow> cctx option" where
  "for_initializer rec s =
     (if check TOKEN_SEMICOLON s then advance s
      else if check TOKEN_LOCAL s then do { s \<leftarrow> advance s; varDeclaration rec VAR_LOCAL s }
      else expressionStatement rec s)"

text \<open>The jump out of the loop, \<open>-1\<close> without a condition.\<close>

definition for_condition :: "parse_fun \<Rightarrow> cctx \<Rightarrow> (int \<times> cctx) option" where
  "for_condition rec s =
     do { (none, s) \<leftarrow> consumeIfMatch TOKEN_SEMICOLON s;
          if none then Some (-1, s)
          else do { s \<leftarrow> expr rec s;
                    s \<leftarrow> consume TOKEN_SEMICOLON ''Expect ';' after loop condition'' s;
                    (exitJump, s) \<leftarrow> emitJump OP_JUMP_IF_FALSE s;
                    s \<leftarrow> emitOp OP_POP s;
                    Some (exitJump, s) } }"

definition for_increment :: "parse_fun \<Rightarrow> cctx \<Rightarrow> cctx option" where
  "for_increment rec s =
     do { (none, s) \<leftarrow> consumeIfMatch TOKEN_RIGHT_PAREN s;
          if none then Some s
          else do { (bodyJump, s) \<leftarrow> emitJump OP_JUMP s;
                    let incrementStart = code_count s;
                    s \<leftarrow> expr rec s;
                    s \<leftarrow> emitOp OP_POP s;
                    s \<leftarrow> consume TOKEN_RIGHT_PAREN ''Expect ')' after for clauses'' s;
                    s \<leftarrow> emitLoop (loop_start s) s;
                    patchJump bodyJump (s\<lparr>cc_innermostLoop := (cc_innermostLoop s)\<lparr>lp_start := incrementStart\<rparr>\<rparr>) } }"

definition forStatement :: "parse_fun \<Rightarrow> cctx \<Rightarrow> cctx option" where
  "forStatement rec s =
     do { s \<leftarrow> beginScope s;
          s \<leftarrow> consume TOKEN_LEFT_PAREN (''Expect '(' after '' @ quoted ''for'') s;
          s \<leftarrow> for_initializer rec s;
          let surroundingLoop = cc_innermostLoop s;
          s \<leftarrow> enter_loop s;
          (exitJump, s) \<leftarrow> for_condition rec s;
          s \<leftarrow> for_increment rec s;
          s \<leftarrow> statement rec s;
          s \<leftarrow> emitLoop (loop_start s) s;
          s \<leftarrow> (if exitJump \<noteq> -1 then do { s \<leftarrow> patchJump exitJump s; emitOp OP_POP s } else Some s);
          s \<leftarrow> patchBreakJumps s;
          endScope (s\<lparr>cc_innermostLoop := surroundingLoop\<rparr>) }"

definition whileStatement :: "parse_fun \<Rightarrow> cctx \<Rightarrow> cctx option" where
  "whileStatement rec s =
     do { let surroundingLoop = cc_innermostLoop s;
          s \<leftarrow> enter_loop s;
          s \<leftarrow> consume TOKEN_LEFT_PAREN (''Expect '(' after '' @ quoted ''while'') s;
          s \<leftarrow> expr rec s;
          s \<leftarrow> consume TOKEN_RIGHT_PAREN ''Expect ')' after condition'' s;
          (exitJump, s) \<leftarrow> emitJump OP_JUMP_IF_FALSE s;
          s \<leftarrow> emitOp OP_POP s;
          s \<leftarrow> statement rec s;
          s \<leftarrow> emitLoop (loop_start s) s;
          s \<leftarrow> patchJump exitJump s;
          s \<leftarrow> emitOp OP_POP s;
          s \<leftarrow> patchBreakJumps s;
          Some (s\<lparr>cc_innermostLoop := surroundingLoop\<rparr>) }"

partial_function (option) foreach_vars :: "var_ref list \<Rightarrow> cctx \<Rightarrow> (var_ref list \<times> cctx) option" where
  "foreach_vars vars s =
     do { (isLocal, s) \<leftarrow> consumeIfMatch TOKEN_LOCAL s;
          s \<leftarrow> consume TOKEN_IDENTIFIER ''Var name expected in foreach'' s;
          s \<leftarrow> (if isLocal
                then do { (_, s) \<leftarrow> addLocal (previous_chars s) s;
                          s \<leftarrow> defineVariable 0 VAR_LOCAL s;
                          emitOp OP_NIL s }
                else Some s);
          (v, s) \<leftarrow> resolveVar (previous_chars s) s;
          vars \<leftarrow> add_var_ref vars v;
          (more, s) \<leftarrow> consumeIfMatch TOKEN_COMMA s;
          if more then foreach_vars vars s else Some (vars, s) }"

declare foreach_vars.simps [code]

text \<open>A hidden local; without a free slot its \<open>postArgs\<close> is read through \<open>NULL\<close>.\<close>

definition hidden_local :: "cctx \<Rightarrow> ((nat \<times> nat) \<times> cctx) option" where
  "hidden_local s =
     do { ((slot, added), s) \<leftarrow> addLocal [] s;
          if \<not> added then None
          else do { c \<leftarrow> current s;
                    s \<leftarrow> emitOp OP_NIL s;
                    s \<leftarrow> defineVariable 0 VAR_LOCAL s;
                    Some ((slot, bool_code (cm_postArgs c)), s) } }"

definition call_local :: "nat \<times> nat \<Rightarrow> cctx \<Rightarrow> cctx option" where
  "call_local v s =
     do { s \<leftarrow> emitBytes OP_GET_LOCAL (fst v) s;
          s \<leftarrow> emitByte (snd v) s;
          s \<leftarrow> emitOp OP_CALL s;
          emitBytes 0 (bool_code False) s }"

definition forEachStatement :: "parse_fun \<Rightarrow> cctx \<Rightarrow> cctx option" where
  "forEachStatement rec s =
     do { s \<leftarrow> beginScope s;
          s \<leftarrow> consume TOKEN_LEFT_PAREN (''Expect '(' after '' @ quoted ''foreach'') s;
          (vars, s) \<leftarrow> foreach_vars [] s;
          s \<leftarrow> consume TOKEN_IN (''Expect '' @ quoted ''in'' @ '' after foreach variables'') s;
          (hasNextVar, s) \<leftarrow> hidden_local s;
          (nextVar, s) \<leftarrow> hidden_local s;
          s \<leftarrow> expr rec s;
          s \<leftarrow> consume TOKEN_RIGHT_PAREN ''Expect ')' after foreach iterator'' s;
          s \<leftarrow> emitOp OP_FOREACH_INIT s;
          s \<leftarrow> emitBytes (fst hasNextVar) (snd hasNextVar) s;
          s \<leftarrow> emitBytes (fst nextVar) (snd nextVar) s;
          let surroundingLoop = cc_innermostLoop s;
          s \<leftarrow> enter_loop s;
          s \<leftarrow> call_local hasNextVar s;
          (exitJump, s) \<leftarrow> emitJump OP_JUMP_IF_FALSE s;
          s \<leftarrow> emitOp OP_POP s;
          s \<leftarrow> call_local nextVar s;
          s \<leftarrow> emitUnpack vars s;
          s \<leftarrow> statement rec s;
          s \<leftarrow> emitLoop (loop_start s) s;
          s \<leftarrow> patchJump exitJump s;
          s \<leftarrow> emitOp OP_POP s;
          s \<leftarrow> patchBreakJumps s;
          endScope (s\<lparr>cc_innermostLoop := surroundingLoop\<rparr>) }"

section \<open>Exceptions\<close>

record catch_handler =
  ch_address :: int
  ch_typeVar :: var_ref
  ch_handlerJump :: int

definition unroll_handlers :: "int \<Rightarrow> cctx \<Rightarrow> cctx option" where
  "unroll_handlers currentCatchStack s =
     do { s \<leftarrow> emitOp OP_UNROLL_EXH s; emitByte (nat currentCatchStack) s }"

text \<open>One \<open>catch\<close> clause.\<close>

definition catch_variable :: "cctx \<Rightarrow> cctx option" where
  "catch_variable s =
     do { (anonymous, s) \<leftarrow> consumeIfMatch TOKEN_RIGHT_PAREN s;
          if anonymous
          then do { (_, s) \<leftarrow> addLocal [] s; markInitialized VAR_LOCAL s }
          else do { s \<leftarrow> consume TOKEN_IDENTIFIER ''Expect identifier for exception instance'' s;
                    (_, s) \<leftarrow> addLocal (previous_chars s) s;
                    s \<leftarrow> markInitialized VAR_LOCAL s;
                    c \<leftarrow> current s;
                    let ((ex_var, postArgs), s) = resolveLocal c (previous_chars s) s;
                    s \<leftarrow> emitBytes OP_SET_LOCAL (nat (ex_var mod 256)) s;
                    s \<leftarrow> emitByte (bool_code postArgs) s;
                    consume TOKEN_RIGHT_PAREN (''Expect ')' after catch statement'') s } }"

definition catch_clause :: "parse_fun \<Rightarrow> int \<Rightarrow> cctx \<Rightarrow> (catch_handler \<times> cctx) option" where
  "catch_clause rec currentCatchStack s =
     do { s \<leftarrow> beginScope s;
          s \<leftarrow> consume TOKEN_LEFT_PAREN ''Expect '(' after catch'' s;
          s \<leftarrow> consume TOKEN_IDENTIFIER ''Expect type name to catch'' s;
          (typeVar, s) \<leftarrow> resolveVar (previous_chars s) s;
          let address = code_count s mod 2 ^ 16;
          s \<leftarrow> catch_variable s;
          s \<leftarrow> upd_current (\<lambda>c. c\<lparr>cm_catchDepth := cm_catchDepth c + 1\<rparr>) s;
          s \<leftarrow> statement rec s;
          s \<leftarrow> upd_current (\<lambda>c. c\<lparr>cm_catchDepth := cm_catchDepth c - 1\<rparr>) s;
          s \<leftarrow> unroll_handlers currentCatchStack s;
          s \<leftarrow> endScope s;
          (handlerJump, s) \<leftarrow> emitJump OP_JUMP s;
          Some (\<lparr>ch_address = address, ch_typeVar = typeVar, ch_handlerJump = handlerJump\<rparr>, s) }"

text \<open>The array of handlers has 32 elements.\<close>

partial_function (option) catch_loop ::
  "parse_fun \<Rightarrow> int \<Rightarrow> catch_handler list \<Rightarrow> cctx \<Rightarrow> (catch_handler list \<times> cctx) option" where
  "catch_loop rec currentCatchStack handlers s =
     do { (more, s) \<leftarrow> consumeIfMatch TOKEN_CATCH s;
          if \<not> more then Some (handlers, s)
          else do { (handler, s) \<leftarrow> catch_clause rec currentCatchStack s;
                    if length handlers < 32 then catch_loop rec currentCatchStack (handlers @ [handler]) s
                    else None } }"

declare catch_loop.simps [code]

fun emit_handlers :: "catch_handler list \<Rightarrow> cctx \<Rightarrow> cctx option" where
  "emit_handlers [] s = Some s"
| "emit_handlers (h # hs) s =
     do { s \<leftarrow> emitByte (scope_code (vr_scope (ch_typeVar h))) s;
          s \<leftarrow> emitByte (bool_code (vr_postArgs (ch_typeVar h))) s;
          s \<leftarrow> emitShort (vr_handle (ch_typeVar h)) s;
          s \<leftarrow> emitShort (ch_address h) s;
          emit_handlers hs s }"

fun patch_handlers :: "catch_handler list \<Rightarrow> cctx \<Rightarrow> cctx option" where
  "patch_handlers [] s = Some s"
| "patch_handlers (h # hs) s = do { s \<leftarrow> patchJump (ch_handlerJump h) s; patch_handlers hs s }"

definition finally_clause :: "parse_fun \<Rightarrow> cctx \<Rightarrow> (int \<times> cctx) option" where
  "finally_clause rec s =
     do { (hasFinally, s) \<leftarrow> consumeIfMatch TOKEN_FINALLY s;
          if \<not> hasFinally then Some (0, s)
          else do { let finallyAddress = code_count s mod 2 ^ 16;
                    s \<leftarrow> upd_current (\<lambda>c. c\<lparr>cm_finallyDepth := cm_finallyDepth c + 1\<rparr>) s;
                    s \<leftarrow> statement rec s;
                    s \<leftarrow> upd_current (\<lambda>c. c\<lparr>cm_finallyDepth := cm_finallyDepth c - 1\<rparr>) s;
                    s \<leftarrow> emitOp OP_END s;
                    Some (finallyAddress, s) } }"

definition tryCatchStatement :: "parse_fun \<Rightarrow> cctx \<Rightarrow> cctx option" where
  "tryCatchStatement rec s =
     do { c \<leftarrow> current s;
          let currentCatchStack = cm_catchStackDepth c;
          s \<leftarrow> upd_current (\<lambda>c. c\<lparr>cm_catchStackDepth := cm_catchStackDepth c + 1\<rparr>) s;
          s \<leftarrow> emitOp OP_PUSH_EXH s;
          s \<leftarrow> emitByte (nat currentCatchStack) s;
          (handlerData, s) \<leftarrow> emitAddress s;
          s \<leftarrow> statement rec s;
          s \<leftarrow> unroll_handlers currentCatchStack s;
          (successJump, s) \<leftarrow> emitJump OP_JUMP s;
          (handlers, s) \<leftarrow> catch_loop rec currentCatchStack [] s;
          (finallyAddress, s) \<leftarrow> finally_clause rec s;
          s \<leftarrow> upd_current (\<lambda>c. c\<lparr>cm_catchStackDepth := cm_catchStackDepth c - 1\<rparr>) s;
          s \<leftarrow> emitOp OP_DATA s;
          s \<leftarrow> patchAddress handlerData s;
          s \<leftarrow> emitByte (2 + 6 * length handlers) s;
          s \<leftarrow> emitShort finallyAddress s;
          s \<leftarrow> emit_handlers handlers s;
          s \<leftarrow> patch_handlers handlers s;
          patchJump successJump s }"

section \<open>Statements and declarations\<close>

definition resumes :: "token_type \<Rightarrow> bool" where
  "resumes t \<longleftrightarrow> t \<in> {TOKEN_BREAK, TOKEN_INTERFACE, TOKEN_CLASS, TOKEN_CONTINUE, TOKEN_FUNCTION,
     TOKEN_GLOBAL, TOKEN_LOCAL, TOKEN_FOR, TOKEN_FOREACH, TOKEN_IF, TOKEN_WHILE, TOKEN_RETURN,
     TOKEN_THROW, TOKEN_TRY, TOKEN_IMPORT}"

partial_function (option) synchronize_loop :: "cctx \<Rightarrow> cctx option" where
  "synchronize_loop s =
     (if check TOKEN_EOF s \<or> previous_type s = TOKEN_SEMICOLON \<or> resumes (getCrtType s) then Some s
      else do { s \<leftarrow> advance s; synchronize_loop s })"

declare synchronize_loop.simps [code]

definition synchronize :: "cctx \<Rightarrow> cctx option" where
  "synchronize s = synchronize_loop (upd_parser (\<lambda>p. p\<lparr>ps_panicMode := False\<rparr>) s)"

definition scoped_block :: "parse_fun \<Rightarrow> cctx \<Rightarrow> cctx option" where
  "scoped_block rec s = do { s \<leftarrow> beginScope s; s \<leftarrow> p_block rec s; endScope s }"

text \<open>The statement that a keyword introduces.\<close>

definition keyword_statement :: "parse_fun \<Rightarrow> token_type \<Rightarrow> (cctx \<Rightarrow> cctx option) option" where
  "keyword_statement rec t =
     (if t = TOKEN_BREAK then Some breakStatement
      else if t = TOKEN_CONTINUE then Some continueStatement
      else if t = TOKEN_FOR then Some (forStatement rec)
      else if t = TOKEN_FOREACH then Some (forEachStatement rec)
      else if t = TOKEN_IF then Some (ifStatement rec)
      else if t = TOKEN_RETURN then Some (returnStatement rec)
      else if t = TOKEN_WHILE then Some (whileStatement rec)
      else if t = TOKEN_LEFT_BRACE then Some (scoped_block rec)
      else if t = TOKEN_THROW then Some (throwStatement rec)
      else if t = TOKEN_TRY then Some (tryCatchStatement rec)
      else if t = TOKEN_IMPORT then Some (importStatement False)
      else if t = TOKEN_FROM then Some (importStatement True)
      else None)"

definition unpack_follows :: "cctx \<Rightarrow> (bool \<times> cctx) option" where
  "unpack_follows s =
     (if \<not> check TOKEN_IDENTIFIER s then Some (False, s)
      else do { (comma, s) \<leftarrow> checkNext TOKEN_COMMA s;
                if comma then Some (True, s) else checkNext TOKEN_COLON_EQUAL s })"

definition statement_goal :: "parse_fun \<Rightarrow> cctx \<Rightarrow> cctx option" where
  "statement_goal rec s =
     (case keyword_statement rec (getCrtType s) of
        Some f \<Rightarrow> do { s \<leftarrow> advance s; f s }
      | None \<Rightarrow> do { (unpack, s) \<leftarrow> unpack_follows s;
                     if unpack then unpackStatement rec s else expressionStatement rec s })"

definition has_pending :: "u32 \<Rightarrow> cctx \<Rightarrow> bool" where
  "has_pending q s = (case current s of None \<Rightarrow> False | Some c \<Rightarrow> q_pending (cm_quals c) AND q \<noteq> 0)"

text \<open>\<open>functionDeclaration\<close> is called with \<open>true\<close>, which is \<open>VAR_GLOBAL\<close>.\<close>

definition declaration_goal :: "parse_fun \<Rightarrow> cctx \<Rightarrow> cctx option" where
  "declaration_goal rec s =
     do { (varType, s) \<leftarrow> parseQuals s;
          let t = getCrtType s;
          s \<leftarrow> (if has_pending QUAL_PENDING_CLASS s
                then if t = TOKEN_CLASS then do { s \<leftarrow> advance s; classDeclaration rec varType s }
                     else if t = TOKEN_INTERFACE then do { s \<leftarrow> advance s; interfaceDeclaration varType s }
                     else Some (errorAtCurrent ''class or interface expected'' s)
                else do { let expectVar = has_pending QUAL_PENDING_SCOPE s;
                          if t = TOKEN_CLASS then do { s \<leftarrow> advance s; classDeclaration rec varType s }
                          else if t = TOKEN_INTERFACE then do { s \<leftarrow> advance s; interfaceDeclaration varType s }
                          else do { (isFunction, s) \<leftarrow>
                                      (if t = TOKEN_FUNCTION then checkNext TOKEN_IDENTIFIER s else Some (False, s));
                                    if isFunction
                                    then do { s \<leftarrow> consume TOKEN_FUNCTION '''' s; functionDeclaration rec VAR_GLOBAL s }
                                    else if expectVar then varDeclaration rec varType s
                                    else statement rec s } });
          s \<leftarrow> resetQuals s;
          if ps_panicMode (cc_parser s) then synchronize s else Some s }"

section \<open>Parse rules\<close>

datatype (plugins only: code) prefix_fn =
    P_grouping | P_map | P_array | P_unary | P_tuple | P_variable | P_ellipsis | P_expand | P_string
  | P_number | P_fString | P_abstract | P_anonIntf | P_anonClass | P_literal | P_lambda | P_super | P_this

datatype (plugins only: code) infix_fn = I_call | I_index | I_dot | I_binary | I_colon | I_and | I_or

record parse_rule =
  pr_prefix :: "prefix_fn option"
  pr_infix :: "infix_fn option"
  pr_precedence :: nat

definition rule :: "prefix_fn option \<Rightarrow> infix_fn option \<Rightarrow> nat \<Rightarrow> parse_rule" where
  "rule f g p = \<lparr>pr_prefix = f, pr_infix = g, pr_precedence = p\<rparr>"

definition no_rule :: parse_rule where "no_rule = rule None None PREC_NONE"

text \<open>The entries of the table that are not all \<open>NULL\<close> and \<open>PREC_NONE\<close>.\<close>

definition parseRules :: "(token_type \<times> parse_rule) list" where
  "parseRules = [
     (TOKEN_LEFT_PAREN, rule (Some P_grouping) (Some I_call) PREC_CALL),
     (TOKEN_LEFT_BRACE, rule (Some P_map) None PREC_NONE),
     (TOKEN_LEFT_BRACKET, rule (Some P_array) (Some I_index) PREC_SUBSCRIPT),
     (TOKEN_DOT, rule None (Some I_dot) PREC_CALL),
     (TOKEN_MINUS, rule (Some P_unary) (Some I_binary) PREC_TERM),
     (TOKEN_PERCENT, rule None (Some I_binary) PREC_FACTOR),
     (TOKEN_PLUS, rule None (Some I_binary) PREC_TERM),
     (TOKEN_COLON, rule (Some P_tuple) (Some I_colon) PREC_CALL),
     (TOKEN_SLASH, rule None (Some I_binary) PREC_FACTOR),
     (TOKEN_STAR, rule None (Some I_binary) PREC_FACTOR),
     (TOKEN_BANG, rule (Some P_unary) None PREC_NONE),
     (TOKEN_BANG_EQUAL, rule None (Some I_binary) PREC_EQUALITY),
     (TOKEN_EQUAL_EQUAL, rule None (Some I_binary) PREC_EQUALITY),
     (TOKEN_GREATER, rule None (Some I_binary) PREC_COMPARISON),
     (TOKEN_GREATER_EQUAL, rule None (Some I_binary) PREC_COMPARISON),
     (TOKEN_LESS, rule None (Some I_binary) PREC_COMPARISON),
     (TOKEN_LESS_EQUAL, rule None (Some I_binary) PREC_COMPARISON),
     (TOKEN_PLUS_EQUAL, rule None (Some I_binary) PREC_NONE),
     (TOKEN_MINUS_EQUAL, rule None (Some I_binary) PREC_NONE),
     (TOKEN_STAR_EQUAL, rule None (Some I_binary) PREC_NONE),
     (TOKEN_SLASH_EQUAL, rule None (Some I_binary) PREC_NONE),
     (TOKEN_PERCENT_EQUAL, rule None (Some I_binary) PREC_NONE),
     (TOKEN_INSTANCEOF, rule None (Some I_binary) PREC_COMPARISON),
     (TOKEN_IN, rule None (Some I_binary) PREC_COMPARISON),
     (TOKEN_IDENTIFIER, rule (Some P_variable) None PREC_NONE),
     (TOKEN_ELLIPSIS, rule (Some P_ellipsis) None PREC_NONE),
     (TOKEN_DOT_DOT, rule (Some P_expand) None PREC_NONE),
     (TOKEN_STRING, rule (Some P_string) None PREC_NONE),
     (TOKEN_NUMBER, rule (Some P_number) None PREC_NONE),
     (TOKEN_FSTRING_START, rule (Some P_fString) None PREC_NONE),
     (TOKEN_AND, rule None (Some I_and) PREC_AND),
     (TOKEN_ABSTRACT, rule (Some P_abstract) None PREC_NONE),
     (TOKEN_INTERFACE, rule (Some P_anonIntf) None PREC_NONE),
     (TOKEN_CLASS, rule (Some P_anonClass) None PREC_NONE),
     (TOKEN_FALSE, rule (Some P_literal) None PREC_NONE),
     (TOKEN_FUNCTION, rule (Some P_lambda) None PREC_NONE),
     (TOKEN_NIL, rule (Some P_literal) None PREC_NONE),
     (TOKEN_OR, rule None (Some I_or) PREC_OR),
     (TOKEN_SUPER, rule (Some P_super) None PREC_NONE),
     (TOKEN_THIS, rule (Some P_this) None PREC_NONE),
     (TOKEN_TRUE, rule (Some P_literal) None PREC_NONE)]"

definition getRule :: "token_type \<Rightarrow> parse_rule" where
  "getRule t = (case map_of parseRules t of Some r \<Rightarrow> r | None \<Rightarrow> no_rule)"

definition normal :: "cctx option \<Rightarrow> (expression_type \<times> cctx) option" where
  "normal r = map_option (Pair ETYPE_NORMAL) r"

definition run_prefix :: "parse_fun \<Rightarrow> prefix_fn \<Rightarrow> bool \<Rightarrow> bool \<Rightarrow> bool \<Rightarrow> cctx \<Rightarrow> (expression_type \<times> cctx) option" where
  "run_prefix rec f canAssign canExpand firstExpansion s = (case f of
       P_grouping \<Rightarrow> normal (grouping rec s)
     | P_map \<Rightarrow> normal (p_map rec s)
     | P_array \<Rightarrow> normal (parseArray rec OBJ_ARRAY s)
     | P_unary \<Rightarrow> normal (unary rec s)
     | P_tuple \<Rightarrow> normal (p_tuple rec s)
     | P_variable \<Rightarrow> normal (p_variable rec canAssign s)
     | P_ellipsis \<Rightarrow> ellipsis rec canAssign canExpand firstExpansion s
     | P_expand \<Rightarrow> expand rec canExpand firstExpansion s
     | P_string \<Rightarrow> normal (p_string s)
     | P_number \<Rightarrow> normal (p_number s)
     | P_fString \<Rightarrow> normal (p_fString rec s)
     | P_abstract \<Rightarrow> normal (p_abstract rec s)
     | P_anonIntf \<Rightarrow> normal (anonIntf s)
     | P_anonClass \<Rightarrow> normal (anonClass rec s)
     | P_literal \<Rightarrow> normal (literal s)
     | P_lambda \<Rightarrow> normal (p_function rec FTYPE_LAMBDA s)
     | P_super \<Rightarrow> normal (p_super rec s)
     | P_this \<Rightarrow> normal (p_this rec s))"

definition run_infix :: "parse_fun \<Rightarrow> infix_fn \<Rightarrow> bool \<Rightarrow> nat \<Rightarrow> cctx \<Rightarrow> cctx option" where
  "run_infix rec g canAssign precedence s = (case g of
       I_call \<Rightarrow> p_call rec s
     | I_index \<Rightarrow> p_index rec canAssign s
     | I_dot \<Rightarrow> dot rec canAssign s
     | I_binary \<Rightarrow> binary rec precedence s
     | I_colon \<Rightarrow> colon rec canAssign s
     | I_and \<Rightarrow> p_and rec s
     | I_or \<Rightarrow> p_or rec s)"

section \<open>Expressions\<close>

partial_function (option) infix_loop :: "parse_fun \<Rightarrow> nat \<Rightarrow> bool \<Rightarrow> expression_type \<Rightarrow> cctx \<Rightarrow> cctx option" where
  "infix_loop rec precedence canAssign type s =
     (let r = getRule (getCrtType s)
      in if precedence \<le> pr_precedence r
         then do { let s = (if type = ETYPE_EXPAND
                            then compileError ''Expansions can only be used as stand-alone expressions'' s else s);
                   s \<leftarrow> advance s;
                   g \<leftarrow> pr_infix r;
                   s \<leftarrow> run_infix rec g canAssign (pr_precedence r) s;
                   infix_loop rec precedence canAssign type s }
         else Some s)"

declare infix_loop.simps [code]

definition expression_goal ::
  "parse_fun \<Rightarrow> nat \<Rightarrow> bool \<Rightarrow> bool \<Rightarrow> cctx \<Rightarrow> (expression_type \<times> cctx) option" where
  "expression_goal rec precedence canExpand firstExpansion s =
     do { s \<leftarrow> advance s;
          case pr_prefix (getRule (previous_type s)) of
            None \<Rightarrow> Some (ETYPE_NORMAL, compileError ''Expect expression'' s)
          | Some f \<Rightarrow>
              do { let canAssign = (precedence \<le> PREC_ASSIGNMENT);
                   (type, s) \<leftarrow> run_prefix rec f canAssign canExpand firstExpansion s;
                   let s = (if \<not> canExpand \<and> type = ETYPE_EXPAND
                            then compileError ''Expansion not allowed in this context'' s else s);
                   s \<leftarrow> infix_loop rec precedence canAssign type s;
                   (assign, s) \<leftarrow> match_assign canAssign TOKEN_EQUAL s;
                   Some (type, if assign then compileError ''Invalid assignment target'' s else s) } }"

fun parse :: "nat \<Rightarrow> parse_fun" where
  "parse 0 g s = None"
| "parse (Suc n) g s = (case g of
       Expression precedence canExpand firstExpansion \<Rightarrow>
         expression_goal (parse n) precedence canExpand firstExpansion s
     | Statement \<Rightarrow> normal (statement_goal (parse n) s)
     | Declaration \<Rightarrow> normal (declaration_goal (parse n) s)
     | ClassBody className \<Rightarrow> normal (class_goal (parse n) className s))"

section \<open>Compilation\<close>

text \<open>\<open>CCtx\<close> is a local variable: \<open>s0\<close> is what its memory holds before it is initialised.\<close>

definition initCompilerContext ::
  "runtime \<Rightarrow> byte list \<Rightarrow> byte list \<Rightarrow> cctx \<Rightarrow> vm \<Rightarrow> (bool \<times> cctx) option" where
  "initCompilerContext rt fileName moduleName s0 vm =
     do { (file, vm) \<leftarrow> copy_string fileName rt vm;
          Some (file \<noteq> None, s0\<lparr>cc_run := rt, cc_vm := vm, cc_compilers := [], cc_classes := [],
             cc_innermostLoop := \<lparr>lp_start = -1, lp_scopeDepth = 0, lp_catchStackDepth = 0, lp_finallyDepth = 0\<rparr>,
             cc_breakJumps := [], cc_lambdaCount := 0, cc_fileName := file, cc_moduleName := moduleName,
             cc_errors := []\<rparr>) }"

definition pushCompilerState :: "cctx \<Rightarrow> cctx" where
  "pushCompilerState s = s\<lparr>cc_vm := (cc_vm s)\<lparr>vm_compilers :=
     \<lparr>csr_fileName = cc_fileName s, csr_compilers = []\<rparr> # vm_compilers (cc_vm s)\<rparr>\<rparr>"

definition popCompilerState :: "vm \<Rightarrow> vm" where
  "popCompilerState vm = vm\<lparr>vm_compilers := tl (vm_compilers vm)\<rparr>"

partial_function (option) declarations_loop :: "parse_fun \<Rightarrow> cctx \<Rightarrow> cctx option" where
  "declarations_loop rec s =
     do { (ended, s) \<leftarrow> consumeIfMatch TOKEN_EOF s;
          if ended then Some s else do { (_, s) \<leftarrow> rec Declaration s; declarations_loop rec s } }"

declare declarations_loop.simps [code]

definition compile_script :: "nat \<Rightarrow> byte list \<Rightarrow> cctx \<Rightarrow> (compiler \<times> cctx) option" where
  "compile_script n source s =
     do { (ok, s) \<leftarrow> initCompiler FTYPE_SCRIPT None
            ((pushCompilerState s)\<lparr>cc_scanner := initScanner source (cc_scanner s)\<rparr>);
          let s = upd_parser (\<lambda>p. p\<lparr>ps_hadError := False, ps_panicMode := False, ps_hasNext := False\<rparr>) s;
          s \<leftarrow> advance s;
          s \<leftarrow> declarations_loop (parse n) s;
          endCompiler s }"

definition compile ::
  "nat \<Rightarrow> runtime \<Rightarrow> byte list \<Rightarrow> byte list \<Rightarrow> byte list \<Rightarrow> cctx \<Rightarrow> vm \<Rightarrow> (addr option \<times> cctx) option" where
  "compile n rt source fileName moduleName s0 vm =
     do { (ok, s) \<leftarrow> initCompilerContext rt fileName moduleName s0 vm;
          if \<not> ok then Some (None, s)
          else do { (c, s) \<leftarrow> compile_script n source s;
                    let s = s\<lparr>cc_vm := popCompilerState (cc_vm s)\<rparr>;
                    Some (if ps_hadError (cc_parser s) then None else Some (cm_function c), s) } }"

end
