(* ===== verification/EmissionProps.thy ===== *)
theory EmissionProps
  imports Emission
begin

text \<open>
  What the emitters do to the state: unless an error is reported they append their bytes to the code
  of the current function and change nothing else the compiler looks at (\<open>emits\<close>).  The
  operand a jump is patched with is the distance the machine adds.
\<close>

section \<open>Appended code\<close>

definition with_chunk :: "chunk \<Rightarrow> compiler \<Rightarrow> compiler" where
  "with_chunk ch = upd_fn (\<lambda>f. f\<lparr>fn_chunk := ch\<rparr>)"

definition cur_code :: "cctx \<Rightarrow> byte list" where
  "cur_code s = (case currentChunk s of None \<Rightarrow> [] | Some ch \<Rightarrow> ch_code ch)"

definition cur_constants :: "cctx \<Rightarrow> val list" where
  "cur_constants s = (case currentChunk s of None \<Rightarrow> [] | Some ch \<Rightarrow> va_values (ch_constants ch))"

text \<open>Only the machine and the chunk of the current function differ.\<close>

definition chunk_change :: "cctx \<Rightarrow> cctx \<Rightarrow> bool" where
  "chunk_change s s' \<longleftrightarrow> (\<exists>c cs ch v. cc_compilers s = c # cs \<and> s' = s\<lparr>cc_vm := v, cc_compilers := with_chunk ch c # cs\<rparr>)"

definition emits :: "cctx \<Rightarrow> byte list \<Rightarrow> cctx \<Rightarrow> bool" where
  "emits s d s' \<longleftrightarrow> chunk_change s s' \<and> cur_code s' = cur_code s @ d \<and> cur_constants s' = cur_constants s"

lemma with_chunk_simps [simp]:
  "with_chunk ch (with_chunk ch' c) = with_chunk ch c" "fn_chunk (cm_fn (with_chunk ch c)) = ch"
  "cm_locals (with_chunk ch c) = cm_locals c" "cm_upvalues (with_chunk ch c) = cm_upvalues c"
  "cm_scopeDepth (with_chunk ch c) = cm_scopeDepth c" "cm_type (with_chunk ch c) = cm_type c"
  "cm_quals (with_chunk ch c) = cm_quals c" "cm_function (with_chunk ch c) = cm_function c"
  "cm_catchStackDepth (with_chunk ch c) = cm_catchStackDepth c" "cm_hasVarargs (with_chunk ch c) = cm_hasVarargs c"
  "cm_finallyDepth (with_chunk ch c) = cm_finallyDepth c" "cm_postArgs (with_chunk ch c) = cm_postArgs c"
  "cm_stringConstants (with_chunk ch c) = cm_stringConstants c" "cm_defaultArgs (with_chunk ch c) = cm_defaultArgs c"
  by (simp_all add: with_chunk_def upd_fn_def)

lemma chunk_change_trans: "chunk_change s s' \<Longrightarrow> chunk_change s' s'' \<Longrightarrow> chunk_change s s''"
  unfolding chunk_change_def by fastforce

lemma emits_trans: "emits s d s' \<Longrightarrow> emits s' e s'' \<Longrightarrow> emits s (d @ e) s''"
  by (auto simp: emits_def intro: chunk_change_trans)

lemma currentChunk_Cons: "cc_compilers s = c # cs \<Longrightarrow> currentChunk s = Some (fn_chunk (cm_fn c))"
  by (simp add: currentChunk_def current_def)

lemma chunk_change_simps:
  assumes "chunk_change s s'"
  shows "cc_parser s' = cc_parser s" "cc_scanner s' = cc_scanner s" "cc_classes s' = cc_classes s"
    "cc_innermostLoop s' = cc_innermostLoop s" "cc_breakJumps s' = cc_breakJumps s" "cc_errors s' = cc_errors s"
    "cc_run s' = cc_run s" "cc_moduleName s' = cc_moduleName s" "tl (cc_compilers s') = tl (cc_compilers s)"
    "cc_compilers s' \<noteq> []" "cc_compilers s \<noteq> []"
    "cm_locals (hd (cc_compilers s')) = cm_locals (hd (cc_compilers s))"
    "cm_upvalues (hd (cc_compilers s')) = cm_upvalues (hd (cc_compilers s))"
    "cm_scopeDepth (hd (cc_compilers s')) = cm_scopeDepth (hd (cc_compilers s))"
    "cm_type (hd (cc_compilers s')) = cm_type (hd (cc_compilers s))"
    "cm_hasVarargs (hd (cc_compilers s')) = cm_hasVarargs (hd (cc_compilers s))"
  using assms by (auto simp: chunk_change_def)

lemma code_count_cur: "code_count s = int (length (cur_code s))"
  by (simp add: code_count_def cur_code_def split: option.split)

lemma machine_frame: "machine f s = Some (r, s') \<Longrightarrow> \<exists>v. s' = s\<lparr>cc_vm := v\<rparr>"
  by (auto simp: machine_def bind_eq_Some_conv)

text \<open>The two halves of \<open>writeChunk\<close> in the machine.\<close>

lemma set_chunk_change:
  assumes "currentChunk s = Some ch0" and "set_chunk ch (s\<lparr>cc_vm := v\<rparr>) = Some s'"
  shows "chunk_change s s' \<and> currentChunk s' = Some ch"
  using assms by (auto simp: set_chunk_def upd_current_def chunk_change_def currentChunk_def current_def with_chunk_def [symmetric]
      split: list.splits)

lemma write_code_appends:
  assumes "write_code alloc ch data = Some (failed, ch')"
  shows "ch_constants ch' = ch_constants ch \<and> (failed \<longrightarrow> ch_code ch' = ch_code ch) \<and>
    (\<not> failed \<longrightarrow> ch_code ch' = ch_code ch @ data)"
  using assms by (auto simp: write_code_def Let_def split: if_splits)

lemma write_line_keeps:
  "write_line alloc ch line = Some (failed, ch') \<Longrightarrow> ch_constants ch' = ch_constants ch \<and> ch_code ch' = ch_code ch"
  by (auto simp: write_line_def Let_def split: if_splits)

lemma emit_code_spec:
  assumes "emit_code data s = Some (failed, s')"
  shows "chunk_change s s' \<and> cur_constants s' = cur_constants s \<and>
    cur_code s' = (if failed then cur_code s else cur_code s @ data)"
proof -
  obtain ch ok s1 ch' where ch: "currentChunk s = Some ch"
    and s1: "(if ch_capacity ch < length (ch_code ch) + length data
             then machine (grow_array (ch_capacity ch) (grow_capacity (ch_capacity ch))) s else Some (True, s)) = Some (ok, s1)"
    and w: "write_code (\<lambda>_. ok) ch data = Some (failed, ch')" and s': "set_chunk ch' s1 = Some s'"
    using assms by (auto simp: emit_code_def bind_eq_Some_conv Let_def)
  have "\<exists>v. s1 = s\<lparr>cc_vm := v\<rparr>"
    using s1 by (auto split: if_splits dest: machine_frame intro: exI [of _ "cc_vm s"])
  then show ?thesis using set_chunk_change [OF ch] s' write_code_appends [OF w] ch
    by (auto simp: cur_code_def cur_constants_def)
qed

lemma emit_line_spec:
  assumes "emit_line line s = Some (failed, s')"
  shows "chunk_change s s' \<and> cur_constants s' = cur_constants s \<and> cur_code s' = cur_code s"
proof -
  obtain ch ok s1 ch' where ch: "currentChunk s = Some ch"
    and s1: "(if \<not> (ch_lines ch \<noteq> [] \<and> ls_line (last (ch_lines ch)) = line) \<and> ch_lineCapacity ch < length (ch_lines ch) + 1
             then machine (grow_array (8 * ch_lineCapacity ch) (8 * grow_capacity (ch_lineCapacity ch))) s
             else Some (True, s)) = Some (ok, s1)"
    and w: "write_line (\<lambda>_. ok) ch line = Some (failed, ch')" and s': "set_chunk ch' s1 = Some s'"
    using assms by (auto simp: emit_line_def bind_eq_Some_conv Let_def)
  have "\<exists>v. s1 = s\<lparr>cc_vm := v\<rparr>"
    using s1 by (auto split: if_splits dest: machine_frame intro: exI [of _ "cc_vm s"])
  then show ?thesis using set_chunk_change [OF ch] s' write_line_keeps [OF w] ch
    by (auto simp: cur_code_def cur_constants_def)
qed

text \<open>Errors are remembered: panic mode stays until the compiler synchronizes.\<close>

definition no_error :: "cctx \<Rightarrow> bool" where "no_error s \<longleftrightarrow> \<not> ps_panicMode (cc_parser s)"

lemma errorAt_panics [simp]:
  "\<not> no_error (errorAt tk m s)" "\<not> no_error (compileError msg s)" "\<not> no_error (errorAtCurrent msg s)"
  by (simp_all add: no_error_def errorAt_def compileError_def errorAtCurrent_def upd_parser_def)

lemma emitData_emits:
  assumes "emitData d s = Some s'" and "no_error s'"
  shows "emits s d s'"
proof -
  obtain f1 s1 where 1: "emit_code d s = Some (f1, s1)"
    and r: "(if f1 then Some (compileError ''Out of memory'' s1)
        else do { (failed, s) \<leftarrow> emit_line (int (tk_line (ps_previous (cc_parser s)))) s1;
                  Some (if failed then compileError ''Out of memory'' s else s) }) = Some s'"
    using assms(1) by (auto simp: emitData_def bind_eq_Some_conv Let_def)
  have f1: "\<not> f1" using r assms(2) by (auto split: if_splits)
  then obtain f2 s2 where 2: "emit_line (int (tk_line (ps_previous (cc_parser s)))) s1 = Some (f2, s2)"
    "s' = (if f2 then compileError ''Out of memory'' s2 else s2)"
    using r by (auto simp: bind_eq_Some_conv)
  then have "s' = s2" using assms(2) by (auto split: if_splits)
  then show ?thesis using emit_code_spec [OF 1] emit_line_spec [OF 2(1)] f1
    by (auto simp: emits_def intro: chunk_change_trans)
qed

lemma emitData_no_error: "emitData d s = Some s' \<Longrightarrow> no_error s' \<Longrightarrow> no_error s"
  using emitData_emits [of d s s'] by (auto simp: emits_def no_error_def dest: chunk_change_simps(1))

lemma emitByte_emits: "emitByte b s = Some s' \<Longrightarrow> no_error s' \<Longrightarrow> emits s [word_of_nat b] s'"
  unfolding emitByte_def by (rule emitData_emits)

lemma emits_no_error: "emits s d s' \<Longrightarrow> no_error s' = no_error s"
  by (auto simp: emits_def no_error_def dest: chunk_change_simps(1))

lemma emitBytes_emits:
  assumes "emitBytes b1 b2 s = Some s'" and "no_error s'"
  shows "emits s [word_of_nat b1, word_of_nat b2] s'"
proof -
  obtain s1 where s1: "emitByte b1 s = Some s1" "emitByte b2 s1 = Some s'"
    using assms(1) by (auto simp: emitBytes_def bind_eq_Some_conv)
  have 2: "emits s1 [word_of_nat b2] s'" using s1(2) assms(2) by (rule emitByte_emits)
  have 1: "emits s [word_of_nat b1] s1" using s1(1) assms(2) emits_no_error [OF 2] by (auto intro: emitByte_emits)
  show ?thesis using emits_trans [OF 1 2] by simp
qed

definition pop_code :: "nat \<Rightarrow> byte list" where
  "pop_code n = (if n = 0 then [] else if n = 1 then [word_of_nat OP_POP] else [word_of_nat OP_POPN, word_of_nat n])"

lemma emits_refl: "cc_compilers s \<noteq> [] \<Longrightarrow> emits s [] s"
proof -
  assume "cc_compilers s \<noteq> []"
  then obtain c cs where c: "cc_compilers s = c # cs" by (cases "cc_compilers s") auto
  have "with_chunk (fn_chunk (cm_fn c)) c = c" by (simp add: with_chunk_def upd_fn_def)
  then have "chunk_change s s" unfolding chunk_change_def using c
    by (intro exI [of _ c] exI [of _ cs] exI [of _ "fn_chunk (cm_fn c)"] exI [of _ "cc_vm s"]) (simp add: c [symmetric])
  then show ?thesis by (simp add: emits_def)
qed

lemma emitPop_emits:
  assumes "emitPop n s = Some s'" and "no_error s'" and "n < 256" and "cc_compilers s \<noteq> []"
  shows "emits s (pop_code n) s'"
  using assms emits_refl [of s] emitByte_emits [of OP_POP s s'] emitBytes_emits [of OP_POPN n s s']
  by (auto simp: emitPop_def Let_def pop_code_def emitOp_def split: if_splits)

lemma emitShort_emits:
  assumes "emitShort v s = Some s'" and "no_error s'"
  shows "emits s (bytes16 v) s'"
  using assms emitData_emits [of "bytes16 v" s s'] by (auto simp: emitShort_def emitUShort_def bind_eq_Some_conv)

section \<open>Jumps\<close>

lemma code_u16_bytes16: "code_u16 (pre @ bytes16 v @ post) (length pre) = Some (nat (v mod 2 ^ 16))"
proof -
  have lo: "int (unat (word_of_int w :: byte)) = w mod 256" for w
    using uint_word_of_int [of w, where 'a = 8] by simp
  have "int (unat (word_of_int v :: byte) + 256 * unat (word_of_int (v div 256) :: byte)) = v mod 256 + 256 * (v div 256 mod 256)"
    by (simp only: of_nat_add of_nat_mult lo of_nat_numeral)
  also have "\<dots> = v mod 2 ^ 16" using zmod_zmult2_eq [of 256 v 256] by simp
  finally have "unat (word_of_int v :: byte) + 256 * unat (word_of_int (v div 256) :: byte) = nat (v mod 2 ^ 16)"
    by linarith
  then show ?thesis by (simp add: code_u16_def bytes16_def nth_append)
qed

lemma patch16_spec:
  assumes "patch16 offset v s = Some s'"
  shows "chunk_change s s' \<and> cur_constants s' = cur_constants s \<and> 0 \<le> offset \<and>
    cur_code s' = (cur_code s)[nat offset := bytes16 v ! 0, nat offset + 1 := bytes16 v ! 1]"
proof -
  obtain ch where ch: "currentChunk s = Some ch" "0 \<le> offset"
    "set_chunk (ch\<lparr>ch_code := (ch_code ch)[nat offset := bytes16 v ! 0, nat offset + 1 := bytes16 v ! 1]\<rparr>)
       (s\<lparr>cc_vm := cc_vm s\<rparr>) = Some s'"
    using assms by (auto simp: patch16_def bind_eq_Some_conv split: if_splits)
  show ?thesis using set_chunk_change [OF ch(1,3)] ch(1,2)
    by (auto simp: cur_code_def cur_constants_def)
qed

lemma emitJump_emits:
  assumes "emitJump instruction s = Some (off, s')" and "no_error s'"
  shows "emits s ([word_of_nat instruction] @ bytes16 0) s' \<and> off = int (length (cur_code s)) + 1"
proof -
  obtain s1 where s1: "emitOp instruction s = Some s1" "emitShort 0 s1 = Some s'" "off = code_count s' - 2"
    using assms(1) by (auto simp: emitJump_def bind_eq_Some_conv)
  have 2: "emits s1 (bytes16 0) s'" using s1(2) assms(2) by (rule emitShort_emits)
  have 1: "emits s [word_of_nat instruction] s1"
    using s1(1) emits_no_error [OF 2] assms(2) by (auto simp: emitOp_def intro: emitByte_emits)
  have e: "emits s ([word_of_nat instruction] @ bytes16 0) s'" by (rule emits_trans [OF 1 2])
  then show ?thesis using s1(3) by (simp add: emits_def code_count_cur bytes16_def)
qed

lemma patchJump_code:
  assumes "patchJump offset s = Some s'" and "no_error s'"
  shows "code_count s - offset - 2 \<le> 65535 \<and> chunk_change s s' \<and> 0 \<le> offset \<and> cur_constants s' = cur_constants s \<and>
    cur_code s' = (cur_code s)[nat offset := bytes16 (code_count s - offset - 2) ! 0,
                               nat offset + 1 := bytes16 (code_count s - offset - 2) ! 1]"
proof -
  let ?jump = "code_count s - offset - 2"
  let ?s = "if ?jump > 65535 then compileError ''Too much code to jump over'' s else s"
  have p: "patch16 offset ?jump ?s = Some s'" using assms(1) by (simp add: patchJump_def Let_def)
  note spec = patch16_spec [OF p]
  have "no_error s' = no_error ?s" using spec by (auto simp: no_error_def dest: chunk_change_simps(1))
  then have "\<not> ?jump > 65535" using assms(2) by (auto split: if_splits)
  then show ?thesis using spec by simp
qed

text \<open>
  C14: A forward jump lands where it was patched.  When \<open>emitJump\<close> has written an instruction
  with an open operand, some code has been appended behind it, and \<open>patchJump\<close> has filled the
  operand in without reporting an error, then the code is the instruction, its operand and that code
  unchanged, the operand the machine reads is the length of the code jumped over, so that the machine
  continues exactly behind it; code of more than 65535 bytes is always reported.
\<close>

theorem jump_lands:
  assumes "emitJump instruction s = Some (off, s1)" and "no_error s1"
    and "cur_code s2 = cur_code s1 @ body" and "patchJump off s2 = Some s3" and "no_error s3"
  shows "length body \<le> 65535 \<and> (\<exists>operand. length operand = 2 \<and>
      cur_code s3 = cur_code s @ [word_of_nat instruction] @ operand @ body) \<and>
    code_u16 (cur_code s3) (nat off) = Some (length body) \<and>
    nat off + 2 + length body = length (cur_code s3)"
proof -
  have e: "cur_code s1 = cur_code s @ [word_of_nat instruction] @ bytes16 0" "off = int (length (cur_code s)) + 1"
    using emitJump_emits [OF assms(1,2)] by (simp_all add: emits_def)
  have code2: "cur_code s2 = (cur_code s @ [word_of_nat instruction]) @ bytes16 0 @ body"
    using e(1) assms(3) by simp
  have jump: "code_count s2 - off - 2 = int (length body)"
    by (simp add: code_count_cur code2 e(2) bytes16_def)
  note spec = patchJump_code [OF assms(4,5), unfolded jump]
  have off: "nat off = length (cur_code s @ [word_of_nat instruction])" by (simp add: e(2))
  have code3: "cur_code s3 = (cur_code s @ [word_of_nat instruction]) @ bytes16 (int (length body)) @ body"
    using spec by (simp add: off code2 bytes16_def list_update_append)
  have small: "length body \<le> 65535" using spec by simp
  have "code_u16 (cur_code s3) (nat off) = Some (nat (int (length body) mod 2 ^ 16))"
    unfolding off code3 by (rule code_u16_bytes16)
  then have "code_u16 (cur_code s3) (nat off) = Some (length body)"
    using small by (simp add: nat_mod_distrib)
  moreover have "length (bytes16 (int (length body))) = 2" by (simp add: bytes16_def)
  ultimately show ?thesis using small code3 off by fastforce
qed

text \<open>A backward jump: the machine subtracts the operand from the address behind it.\<close>

theorem loop_lands:
  assumes "emitLoop loopStart s = Some s'" and "no_error s'" and "0 \<le> loopStart" and "loopStart \<le> code_count s"
  shows "\<exists>n. code_u16 (cur_code s') (length (cur_code s) + 1) = Some n \<and> int (length (cur_code s')) - int n = loopStart"
proof -
  obtain s1 where s1: "emitOp OP_LOOP s = Some s1"
    and r: "emitShort (code_count s1 - loopStart + 2)
       (if code_count s1 - loopStart + 2 > 65535 then compileError ''Loop body too large'' s1 else s1) = Some s'"
    using assms(1) by (auto simp: emitLoop_def bind_eq_Some_conv Let_def)
  let ?o = "code_count s1 - loopStart + 2"
  let ?s = "if ?o > 65535 then compileError ''Loop body too large'' s1 else s1"
  have 2: "emits ?s (bytes16 ?o) s'" using r assms(2) by (rule emitShort_emits)
  then have ok: "no_error ?s" using assms(2) emits_no_error by blast
  then have small: "?o \<le> 65535" "?s = s1" by (auto split: if_splits)
  have 1: "emits s [word_of_nat OP_LOOP] s1" using s1 ok small(2) by (auto simp: emitOp_def intro: emitByte_emits)
  have code: "cur_code s' = (cur_code s @ [word_of_nat OP_LOOP]) @ bytes16 ?o @ []"
    using 1 2 small(2) by (simp add: emits_def)
  have cnt: "code_count s1 = code_count s + 1" using 1 by (simp add: emits_def code_count_cur)
  have "code_u16 (cur_code s') (length (cur_code s @ [word_of_nat OP_LOOP])) = Some (nat (?o mod 2 ^ 16))"
    unfolding code by (rule code_u16_bytes16)
  moreover have "?o mod 2 ^ 16 = ?o" using small(1) assms(3,4) cnt by simp
  moreover have "int (length (cur_code s')) = code_count s + 3" by (simp add: code bytes16_def code_count_cur)
  ultimately show ?thesis using cnt assms(3,4) by (intro exI [of _ "nat ?o"]) simp
qed

section \<open>A sample state\<close>

text \<open>A function with a chunk that has room, so that the emitters run without the allocator.\<close>

definition roomy_chunk :: chunk where
  "roomy_chunk = \<lparr>ch_code = [], ch_capacity = 64, ch_slots = 64, ch_constants = initValueArray, ch_fileName = None,
     ch_lines = [\<lparr>ls_offset = 0, ls_line = 1\<rparr>], ch_lineCapacity = 64, ch_lineSlots = 64\<rparr>"

definition sample_compiler :: "addr \<Rightarrow> local_var list \<Rightarrow> int \<Rightarrow> compiler" where
  "sample_compiler a ls depth = \<lparr>cm_function = a, cm_fn = \<lparr>fn_isMethod = False, fn_arity = 0, fn_maxArgs = 0,
       fn_upvalueCount = 0, fn_refOffset = 0, fn_chunk = roomy_chunk, fn_name = None, fn_parentClass = None, fn_defaultArgs = None\<rparr>,
     cm_type = FTYPE_FUNCTION, cm_postArgs = False, cm_hasVarargs = False, cm_locals = ls, cm_upvalues = [],
     cm_scopeDepth = depth, cm_defaultArgs = [], cm_quals = \<lparr>q_attrs = 0, q_pending = 0\<rparr>, cm_stringConstants = empty_table,
     cm_catchStackDepth = 0, cm_catchDepth = 0, cm_finallyDepth = 0\<rparr>"

definition sample_token :: "token_type \<Rightarrow> string \<Rightarrow> token" where
  "sample_token type chars = \<lparr>tk_type = type, tk_chars = bytes chars, tk_line = 1\<rparr>"

definition sample_cctx :: "compiler list \<Rightarrow> token_type \<Rightarrow> string \<Rightarrow> cctx" where
  "sample_cctx cs type src = \<lparr>cc_run = \<lparr>rt_mem = (\<lambda>_. True), rt_env = (\<lambda>_ _. None), rt_fiber = None\<rparr>,
     cc_vm = blank_vm Map.empty [] [] empty_table,
     cc_scanner = \<lparr>sc_src = bytes src, sc_start = 0, sc_current = 0, sc_line = 1, sc_openFStrings = 0, sc_fStrings = []\<rparr>,
     cc_moduleName = bytes ''m'', cc_fileName = None,
     cc_parser = \<lparr>ps_current = sample_token type [], ps_previous = sample_token type [], ps_beforePrevious = sample_token type [],
       ps_next = sample_token type [], ps_hasNext = False, ps_hadError = False, ps_panicMode = False\<rparr>,
     cc_compilers = cs, cc_classes = [],
     cc_innermostLoop = \<lparr>lp_start = -1, lp_scopeDepth = 0, lp_catchStackDepth = 0, lp_finallyDepth = 0\<rparr>,
     cc_breakJumps = [], cc_lambdaCount = 0, cc_errors = []\<rparr>"

definition local_at :: "string \<Rightarrow> int \<Rightarrow> bool \<Rightarrow> local_var" where
  "local_at name depth captured = \<lparr>lc_name = bytes name, lc_depth = depth, lc_postArgs = False, lc_isCaptured = captured\<rparr>"

lemmas emission_defs =
  emitJump_def emitOp_def emitByte_def emitShort_def emitUShort_def emitData_def emit_code_def emit_line_def
  emitBytes_def emitPop_def patchJump_def patch16_def currentChunk_def current_def set_chunk_def upd_current_def upd_fn_def
  write_code_def write_line_def code_count_def bytes16_def Let_def opcode_defs

lemmas sample_defs = sample_cctx_def sample_compiler_def roomy_chunk_def sample_token_def local_at_def

lemma jump_lands_witness:
  "\<exists>s1 s3. emitJump OP_JUMP (sample_cctx [sample_compiler 1 [] 0] TOKEN_EOF []) = Some (1, s1) \<and>
     patchJump 1 s1 = Some s3 \<and> code_u16 (cur_code s3) 1 = Some 0"
proof -
  let ?s = "sample_cctx [sample_compiler 1 [] 0] TOKEN_EOF []"
  obtain s1 where s1: "emitJump OP_JUMP ?s = Some (1, s1)" "no_error s1" "\<exists>s3. patchJump 1 s1 = Some s3 \<and> no_error s3"
    by (simp add: emission_defs sample_defs no_error_def)
  then obtain s3 where s3: "patchJump 1 s1 = Some s3" "no_error s3" by blast
  have "code_u16 (cur_code s3) (nat 1) = Some (length ([] :: byte list))"
    using jump_lands [OF s1(1,2) _ s3, of "[]"] by simp
  then show ?thesis using s1(1) s3(1) by auto
qed

end
