(* ===== verification/ScopesProps.thy ===== *)
theory ScopesProps
  imports Scopes EmissionProps
begin

text \<open>
  Name resolution is lexical scoping: a name that \<open>resolveUpvalue\<close> resolves denotes, through
  the chain of upvalue descriptors of the nested functions, the innermost enclosing local of that
  name; and leaving a scope emits the instructions that remove exactly its locals.
\<close>

section \<open>Resolution of locals\<close>

text \<open>The last local of a name.\<close>

definition local_named :: "byte list \<Rightarrow> local_var list \<Rightarrow> nat \<Rightarrow> bool" where
  "local_named name ls i \<longleftrightarrow> i < length ls \<and> lc_name (ls ! i) = name \<and>
     (\<forall>j. i < j \<and> j < length ls \<longrightarrow> lc_name (ls ! j) \<noteq> name)"

lemma find_local_rev:
  "find_local name (rev ls) = Some (i, l) \<longleftrightarrow> local_named name ls i \<and> l = ls ! i"
proof (induction ls rule: rev_induct)
  case Nil
  then show ?case by (simp add: local_named_def)
next
  case (snoc x xs)
  show ?case
  proof (cases "name = lc_name x")
    case True
    have "local_named name (xs @ [x]) i \<longleftrightarrow> i = length xs"
    proof
      assume l: "local_named name (xs @ [x]) i"
      have "\<not> i < length xs"
        using l True unfolding local_named_def by (metis length_append_singleton lessI nth_append_length)
      then show "i = length xs" using l by (simp add: local_named_def)
    next
      assume "i = length xs"
      then show "local_named name (xs @ [x]) i" using True by (auto simp: local_named_def)
    qed
    then show ?thesis using True by auto
  next
    case False
    have "local_named name (xs @ [x]) i \<longleftrightarrow> local_named name xs i"
    proof
      assume l: "local_named name (xs @ [x]) i"
      then have "i \<noteq> length xs" using False by (auto simp: local_named_def)
      then have i: "i < length xs" using l by (simp add: local_named_def)
      have "lc_name (xs ! j) \<noteq> name" if "i < j" "j < length xs" for j
        using l that unfolding local_named_def by (metis length_append_singleton less_SucI nth_append)
      then show "local_named name xs i" using l i by (simp add: local_named_def nth_append)
    next
      assume l: "local_named name xs i"
      then have i: "i < length xs" by (simp add: local_named_def)
      have "lc_name ((xs @ [x]) ! j) \<noteq> name" if "i < j" "j < length (xs @ [x])" for j
        using l that False by (cases "j = length xs") (auto simp: local_named_def nth_append)
      then show "local_named name (xs @ [x]) i" using l i by (simp add: local_named_def nth_append)
    qed
    moreover have "i < length xs" if "local_named name xs i" using that by (simp add: local_named_def)
    ultimately show ?thesis using False snoc by (auto simp: nth_append)
  qed
qed

lemma find_local_None: "find_local name (rev ls) = None \<longleftrightarrow> name \<notin> lc_name ` set ls"
proof -
  have "find_local name xs = None \<longleftrightarrow> name \<notin> lc_name ` set xs" for xs by (induction xs) auto
  then show ?thesis by simp
qed

section \<open>Resolution of upvalues\<close>

text \<open>
  Where an upvalue of the innermost compiler leads: \<open>k\<close> functions outwards, to slot
  \<open>i\<close> of that function.
\<close>

fun upvalue_target :: "compiler list \<Rightarrow> nat \<Rightarrow> (nat \<times> nat) option" where
  "upvalue_target [] u = None"
| "upvalue_target (c # cs) u =
     (if u < length (cm_upvalues c)
      then if up_isLocal (cm_upvalues c ! u) then Some (1, up_index (cm_upvalues c ! u))
           else map_option (\<lambda>(k, i). (k + 1, i)) (upvalue_target cs (up_index (cm_upvalues c ! u)))
      else None)"

text \<open>The innermost enclosing function with a local of the name.\<close>

fun lexical :: "byte list \<Rightarrow> compiler list \<Rightarrow> (nat \<times> nat) option" where
  "lexical name [] = None"
| "lexical name [c] = None"
| "lexical name (c # e # cs) =
     (case find_local name (rev (cm_locals e)) of
        Some (i, _) \<Rightarrow> Some (1, i)
      | None \<Rightarrow> map_option (\<lambda>(k, i). (k + 1, i)) (lexical name (e # cs)))"

text \<open>The sizes of the arrays, and descriptors that lead to a local of an enclosing function.\<close>

definition sizes_ok :: "compiler list \<Rightarrow> bool" where
  "sizes_ok cs \<longleftrightarrow> (\<forall>c\<in>set cs. length (cm_locals c) \<le> UINT8_COUNT \<and> length (cm_upvalues c) \<le> UINT8_COUNT)"

fun upvalues_lead :: "compiler list \<Rightarrow> bool" where
  "upvalues_lead [] \<longleftrightarrow> True"
| "upvalues_lead (c # cs) \<longleftrightarrow> (\<forall>u<length (cm_upvalues c). \<exists>k i. upvalue_target (c # cs) u = Some (k, i) \<and>
      k \<le> length cs \<and> i < length (cm_locals (cs ! (k - 1)))) \<and> upvalues_lead cs"

text \<open>What resolution may change: more upvalues, and captured locals.\<close>

definition extends :: "compiler \<Rightarrow> compiler \<Rightarrow> bool" where
  "extends c c' \<longleftrightarrow> (\<exists>us. cm_upvalues c' = cm_upvalues c @ us) \<and>
     map lc_name (cm_locals c') = map lc_name (cm_locals c) \<and>
     map lc_depth (cm_locals c') = map lc_depth (cm_locals c) \<and>
     cm_function c' = cm_function c \<and> cm_scopeDepth c' = cm_scopeDepth c"

lemma extends_refl [simp]: "extends c c" by (simp add: extends_def)

lemma extends_length: "extends c c' \<Longrightarrow> length (cm_locals c') = length (cm_locals c)"
  by (metis extends_def length_map)

lemma list_all2_extends_refl [simp]: "list_all2 extends cs cs"
  by (simp add: list_all2_refl)

lemma extends_find_local:
  assumes "extends c c'"
  shows "map_option fst (find_local name (rev (cm_locals c'))) = map_option fst (find_local name (rev (cm_locals c)))"
proof -
  have gen: "map_option fst (find_local name xs) = map_option fst (find_local name ys)"
    if "map lc_name xs = map lc_name ys" for xs ys
    using map_eq_imp_length_eq [OF that] that by (induction xs ys rule: list_induct2) auto
  show ?thesis using assms by (intro gen) (simp add: extends_def flip: rev_map)
qed

lemma upvalue_target_extends:
  "list_all2 extends cs cs' \<Longrightarrow> upvalue_target cs u = Some r \<Longrightarrow> upvalue_target cs' u = Some r"
proof (induction cs arbitrary: cs' u r)
  case Nil
  then show ?case by simp
next
  case (Cons c cs)
  then obtain c' ds where cs': "cs' = c' # ds" "extends c c'" "list_all2 extends cs ds"
    by (auto simp: list_all2_Cons1)
  then obtain us where us: "cm_upvalues c' = cm_upvalues c @ us" by (auto simp: extends_def)
  from Cons.prems(2) have u: "u < length (cm_upvalues c)" by (simp split: if_splits)
  then have same: "cm_upvalues c' ! u = cm_upvalues c ! u" "u < length (cm_upvalues c')"
    by (simp_all add: us nth_append)
  show ?case
  proof (cases "up_isLocal (cm_upvalues c ! u)")
    case True
    then show ?thesis using Cons.prems(2) u same cs' by simp
  next
    case False
    then obtain k i where ki: "upvalue_target cs (up_index (cm_upvalues c ! u)) = Some (k, i)" "r = (k + 1, i)"
      using Cons.prems(2) u by auto
    then show ?thesis using Cons.IH [OF cs'(3) ki(1)] False same cs' by simp
  qed
qed

lemma find_upvalue_Some:
  "find_upvalue k index isLocal us = Some i \<Longrightarrow>
     k \<le> i \<and> i - k < length us \<and> up_index (us ! (i - k)) = index \<and> up_isLocal (us ! (i - k)) = isLocal"
proof (induction us arbitrary: k)
  case (Cons u us)
  show ?case
  proof (cases "up_index u = index \<and> up_isLocal u = isLocal")
    case False
    then have "find_upvalue (Suc k) index isLocal us = Some i" using Cons.prems by (simp split: if_splits)
    from Cons.IH [OF this] have IH: "Suc k \<le> i" "i - Suc k < length us"
      "up_index (us ! (i - Suc k)) = index" "up_isLocal (us ! (i - Suc k)) = isLocal" by simp_all
    then have "i - k = Suc (i - Suc k)" by simp
    then show ?thesis using IH by simp
  qed (use Cons.prems in auto)
qed simp

text \<open>An accepted upvalue has the wanted descriptor.\<close>

lemma addUpvalue_spec:
  assumes "addUpvalue c index p l = (u, full, c')" and "index < UINT8_COUNT" and "length (cm_upvalues c) \<le> UINT8_COUNT"
  shows "extends c c' \<and> length (cm_upvalues c') \<le> UINT8_COUNT \<and> cm_locals c' = cm_locals c \<and>
    (full \<longrightarrow> c' = c \<and> u = 0 \<and> length (cm_upvalues c) = UINT8_COUNT) \<and>
    (\<not> full \<longrightarrow> u < length (cm_upvalues c') \<and> up_index (cm_upvalues c' ! u) = index \<and> up_isLocal (cm_upvalues c' ! u) = l)"
proof -
  have index: "index mod 256 = index" using assms(2) by (simp add: UINT8_COUNT_def)
  show ?thesis
  proof (cases "find_upvalue 0 index l (cm_upvalues c)")
    case None
    then show ?thesis using assms(1,3) index
      by (auto simp: addUpvalue_def Let_def extends_def upd_fn_def split: if_splits)
  next
    case (Some i)
    then show ?thesis using assms(1,3) index find_upvalue_Some [OF Some]
      by (auto simp: addUpvalue_def Let_def)
  qed
qed

definition captured_at :: "compiler list \<Rightarrow> nat \<times> nat \<Rightarrow> bool" where
  "captured_at cs t \<longleftrightarrow> fst t < length cs \<and> snd t < length (cm_locals (cs ! fst t)) \<and>
     lc_isCaptured (cm_locals (cs ! fst t) ! snd t)"

lemma resolve_upvalue_lexical:
  "sizes_ok cs \<Longrightarrow>
    (case resolve_upvalue name cs of
       None \<Rightarrow> lexical name cs = None
     | Some (u, errs, cs') \<Rightarrow> list_all2 extends cs cs' \<and> sizes_ok cs' \<and> cs' \<noteq> [] \<and>
         (u < length (cm_upvalues (hd cs')) \<or> True \<in> set errs \<and> u = 0) \<and>
         (\<exists>t. lexical name cs = Some t \<and> captured_at cs' t \<and> (True \<notin> set errs \<longrightarrow> upvalue_target cs' u = Some t)))"
proof (induction name cs rule: resolve_upvalue.induct)
  case (3 name c e cs)
  have c: "length (cm_upvalues c) \<le> UINT8_COUNT" "length (cm_locals e) \<le> UINT8_COUNT" "sizes_ok (e # cs)"
    using "3.prems" by (simp_all add: sizes_ok_def)
  show ?case
  proof (cases "find_local name (rev (cm_locals e))")
    case (Some il)
    then obtain i l where il: "find_local name (rev (cm_locals e)) = Some (i, l)" by (cases il) auto
    then have i: "i < length (cm_locals e)" by (simp add: find_local_rev local_named_def)
    let ?e = "e\<lparr>cm_locals := (cm_locals e)[i := (cm_locals e ! i)\<lparr>lc_isCaptured := True\<rparr>]\<rparr>"
    have e: "extends e ?e"
      using i by (auto simp: extends_def map_update intro!: list_update_same_conv [THEN iffD2])
    obtain u full c' where a: "addUpvalue c i (lc_postArgs l) True = (u, full, c')" by (metis prod_cases3)
    have spec: "extends c c' \<and> length (cm_upvalues c') \<le> UINT8_COUNT \<and> cm_locals c' = cm_locals c \<and>
      (full \<longrightarrow> c' = c \<and> u = 0 \<and> length (cm_upvalues c) = UINT8_COUNT) \<and>
      (\<not> full \<longrightarrow> u < length (cm_upvalues c') \<and> up_index (cm_upvalues c' ! u) = i \<and> up_isLocal (cm_upvalues c' ! u))"
      using addUpvalue_spec [OF a] i c by simp
    show ?thesis using il a spec e i "3.prems"
      by (auto simp: Let_def sizes_ok_def captured_at_def)
  next
    case None
    note IH = "3.IH" [OF None c(3)]
    show ?thesis
    proof (cases "resolve_upvalue name (e # cs)")
      case none: None
      then show ?thesis using None IH by simp
    next
      case (Some r)
      then obtain i errs ecs where r: "resolve_upvalue name (e # cs) = Some (i, errs, ecs)" by (cases r) auto
      with IH obtain t where IH': "list_all2 extends (e # cs) ecs" "sizes_ok ecs" "ecs \<noteq> []"
        "i < length (cm_upvalues (hd ecs)) \<or> True \<in> set errs \<and> i = 0"
        "lexical name (e # cs) = Some t" "captured_at ecs t" "True \<notin> set errs \<longrightarrow> upvalue_target ecs i = Some t"
        by auto
      have "length (cm_upvalues (hd ecs)) \<le> UINT8_COUNT" using IH'(2,3) by (cases ecs) (auto simp: sizes_ok_def)
      then have i: "i < UINT8_COUNT" using IH'(4) by (auto simp: UINT8_COUNT_def)
      obtain u full c' where a: "addUpvalue c i False False = (u, full, c')" by (metis prod_cases3)
      have spec: "extends c c' \<and> length (cm_upvalues c') \<le> UINT8_COUNT \<and> cm_locals c' = cm_locals c \<and>
        (full \<longrightarrow> c' = c \<and> u = 0 \<and> length (cm_upvalues c) = UINT8_COUNT) \<and>
        (\<not> full \<longrightarrow> u < length (cm_upvalues c') \<and> up_index (cm_upvalues c' ! u) = i \<and> \<not> up_isLocal (cm_upvalues c' ! u))"
        using addUpvalue_spec [OF a] i c by simp
      obtain k j where t: "t = (k, j)" by (cases t)
      have lex: "lexical name (c # e # cs) = Some (k + 1, j)" using None IH'(5) t by simp
      have cap: "captured_at (c' # ecs) (k + 1, j)" using IH'(6) t by (simp add: captured_at_def)
      have sz: "sizes_ok (c' # ecs)" using IH'(2) spec "3.prems" by (auto simp: sizes_ok_def)
      have tgt: "upvalue_target (c' # ecs) u = Some (k + 1, j)" if "True \<notin> set errs" "\<not> full"
        using IH'(7) that spec t by simp
      have res: "resolve_upvalue name (c # e # cs) = Some (u, errs @ (if full then [True] else []), c' # ecs)"
        using None r a by (simp add: Let_def)
      show ?thesis unfolding res using lex cap sz tgt spec IH'(1) by auto
    qed
  qed
qed simp_all

text \<open>
  C3: A variable that is not local to the function being compiled is resolved by lexical scoping.
  When no enclosing function has a local of the name, \<open>resolveUpvalue\<close> finds nothing and
  changes nothing.  Otherwise, unless an error is reported, the upvalue it returns leads through the
  descriptors of the nested functions to the last local of that name in the innermost enclosing
  function that has one; that local is marked as captured, every upvalue resolved before still leads
  where it did, and the names and depths of all locals are unchanged.
\<close>

theorem resolveUpvalue_correct:
  assumes "sizes_ok (cc_compilers s)" and "resolveUpvalue name s = (i, s')" and "\<not> ps_panicMode (cc_parser s')"
  shows "case lexical name (cc_compilers s) of
      None \<Rightarrow> i = -1 \<and> s' = s
    | Some t \<Rightarrow> 0 \<le> i \<and> upvalue_target (cc_compilers s') (nat i) = Some t \<and> captured_at (cc_compilers s') t \<and>
        (\<forall>v r. upvalue_target (cc_compilers s) v = Some r \<longrightarrow> upvalue_target (cc_compilers s') v = Some r) \<and>
        list_all2 extends (cc_compilers s) (cc_compilers s')"
proof -
  note spec = resolve_upvalue_lexical [OF assms(1), of name]
  show ?thesis
  proof (cases "resolve_upvalue name (cc_compilers s)")
    case None
    then show ?thesis using spec assms(2) by (simp add: resolveUpvalue_def)
  next
    case (Some r)
    then obtain u errs cs where r: "resolve_upvalue name (cc_compilers s) = Some (u, errs, cs)" by (cases r) auto
    have s': "i = int u" "s' = fold upvalue_error errs (s\<lparr>cc_compilers := cs\<rparr>)"
      using assms(2) r by (simp_all add: resolveUpvalue_def)
    have "errs = []"
    proof (rule ccontr)
      assume "errs \<noteq> []"
      then obtain es e where "errs = es @ [e]" by (metis rev_exhaust)
      then have "ps_panicMode (cc_parser s')"
        using s' by (simp add: upvalue_error_def compileError_def errorAt_def upd_parser_def)
      then show False using assms(3) by simp
    qed
    then show ?thesis using spec r s' by (auto intro: upvalue_target_extends)
  qed
qed

lemma resolveUpvalue_correct_witness:
  "\<exists>s'. resolveUpvalue (bytes ''x'') (sample_cctx [sample_compiler 1 [] 0,
       sample_compiler 2 [local_at [] 0 False, local_at ''x'' 1 False] 1] TOKEN_EOF []) = (0, s') \<and>
     upvalue_target (cc_compilers s') 0 = Some (1, 1) \<and> captured_at (cc_compilers s') (1, 1)"
proof -
  let ?s = "sample_cctx [sample_compiler 1 [] 0, sample_compiler 2 [local_at [] 0 False, local_at ''x'' 1 False] 1] TOKEN_EOF []"
  obtain s' where s': "resolveUpvalue (bytes ''x'') ?s = (0, s')" "\<not> ps_panicMode (cc_parser s')"
    by (simp add: resolveUpvalue_def sample_defs addUpvalue_def Let_def upd_fn_def bytes_def UINT8_COUNT_def)
  have sz: "sizes_ok (cc_compilers ?s)" by (simp add: sizes_ok_def sample_defs UINT8_COUNT_def)
  have lex: "lexical (bytes ''x'') (cc_compilers ?s) = Some (1, 1)" by (simp add: sample_defs bytes_def)
  show ?thesis using resolveUpvalue_correct [OF sz s'] s'(1) unfolding lex by simp
qed

section \<open>Leaving a scope\<close>

text \<open>
  The three instructions a scope is left with, on the stack of the frame, its top first: the values
  that are left, and those moved to the upvalues that capture them.
\<close>

fun unwind :: "byte list \<Rightarrow> 'a list \<Rightarrow> ('a list \<times> 'a list) option" where
  "unwind [] vs = Some (vs, [])"
| "unwind (b # code) vs =
     (if b = word_of_nat OP_POP then (case vs of [] \<Rightarrow> None | _ # vs \<Rightarrow> unwind code vs)
      else if b = word_of_nat OP_POPN
      then (case code of [] \<Rightarrow> None
              | n # code \<Rightarrow> if length vs < unat n then None else unwind code (drop (unat n) vs))
      else if b = word_of_nat OP_CLOSE_UPVALUE
      then (case vs of [] \<Rightarrow> None
              | v # vs \<Rightarrow> (case unwind code vs of None \<Rightarrow> None | Some (rest, closed) \<Rightarrow> Some (rest, v # closed)))
      else None)"

text \<open>The code for a list of locals, the last one first, with some pops still pending.\<close>

fun exit_code :: "local_var list \<Rightarrow> nat \<Rightarrow> byte list" where
  "exit_code [] n = pop_code n"
| "exit_code (l # ls) n =
     (if lc_isCaptured l then pop_code n @ [word_of_nat OP_CLOSE_UPVALUE] @ exit_code ls 0 else exit_code ls (n + 1))"

lemma unwind_pop_code:
  assumes "length ps = n" and "n < 256"
  shows "unwind (pop_code n @ code) (ps @ vs) = unwind code vs"
proof -
  have "unat (word_of_nat n :: byte) = n" using assms(2) by (simp add: unat_of_nat)
  then show ?thesis using assms by (auto simp: pop_code_def opcode_defs length_Suc_conv)
qed

lemma unwind_close: "unwind (word_of_nat OP_CLOSE_UPVALUE # code) (v # vs) = map_option (\<lambda>(r, c). (r, v # c)) (unwind code vs)"
  by (simp add: opcode_defs split: option.split)

lemma unwind_exit_code:
  assumes "length ps = n" and "length vs = length ls" and "n + length ls < 256"
  shows "unwind (exit_code ls n) (ps @ vs @ rest) = Some (rest, map snd (filter (\<lambda>(l, _). lc_isCaptured l) (zip ls vs)))"
  using assms
proof (induction ls arbitrary: n ps vs)
  case Nil
  then show ?case using unwind_pop_code [of ps n "[]" rest] by simp
next
  case (Cons l ls)
  then obtain v ws where vs: "vs = v # ws" by (cases vs) auto
  show ?case
  proof (cases "lc_isCaptured l")
    case True
    have IH: "unwind (exit_code ls 0) (ws @ rest) = Some (rest, map snd (filter (\<lambda>(l, _). lc_isCaptured l) (zip ls ws)))"
      using Cons.IH [of "[]" 0 ws] Cons.prems vs by simp
    then show ?thesis using True Cons.prems vs by (simp add: unwind_pop_code unwind_close del: unwind.simps)
  next
    case False
    then show ?thesis using Cons.IH [of "ps @ [v]" "n + 1" ws] Cons.prems vs by simp
  qed
qed

text \<open>The state after a scope: only the code and the locals of the current function differ.\<close>

lemma emitPop_no_error: "emitPop n s = Some s' \<Longrightarrow> no_error s' \<Longrightarrow> no_error s"
  by (auto simp: emitPop_def Let_def emitOp_def emitByte_def emitBytes_def bind_eq_Some_conv split: if_splits
      dest!: emitData_no_error)

lemma upd_current_frame: "upd_current f s = Some s' \<Longrightarrow> no_error s' = no_error s \<and> cc_parser s' = cc_parser s"
  by (auto simp: upd_current_def no_error_def split: list.splits)

lemma end_locals_no_error: "end_locals ls n s = Some (n', s') \<Longrightarrow> no_error s' \<Longrightarrow> no_error s"
proof (induction ls n s rule: end_locals.induct)
  case (2 l ls n s)
  obtain c where c: "current s = Some c" using "2.prems"(1) by (auto simp: bind_eq_Some_conv)
  show ?case
  proof (cases "lc_depth l > cm_scopeDepth c")
    case False
    then show ?thesis using "2.prems" c by auto
  next
    case True
    then obtain m s1 s2 where 1: "(if lc_isCaptured l
         then do { s \<leftarrow> (if n > 0 then emitPop n s else Some s); s \<leftarrow> emitOp OP_CLOSE_UPVALUE s; Some (0, s) }
         else Some (n + 1, s)) = Some (m, s1)" and 2: "upd_current (cm_locals_update butlast) s1 = Some s2"
      and r: "end_locals ls m s2 = Some (n', s')"
      using "2.prems"(1) c by (auto simp: bind_eq_Some_conv split: if_splits)
    have "no_error s2" using "2.IH" [OF c True 1 refl 2 r "2.prems"(2)] .
    then have "no_error s1" using upd_current_frame [OF 2] by simp
    then show ?thesis using 1 emitPop_no_error emitData_no_error
      by (auto simp: emitOp_def emitByte_def bind_eq_Some_conv split: if_splits)
  qed
qed simp

text \<open>What is left of the locals, and the locals a scope of the given depth is left with.\<close>

definition scope_locals :: "int \<Rightarrow> local_var list \<Rightarrow> local_var list" where
  "scope_locals depth ls = takeWhile (\<lambda>l. lc_depth l > depth) (rev ls)"

definition outer_locals :: "int \<Rightarrow> local_var list \<Rightarrow> local_var list" where
  "outer_locals depth ls = rev (dropWhile (\<lambda>l. lc_depth l > depth) (rev ls))"

lemma emits_current:
  assumes "emits s d s'" and "current s = Some c"
  shows "\<exists>c'. current s' = Some c' \<and> cm_locals c' = cm_locals c \<and> cm_scopeDepth c' = cm_scopeDepth c"
  using assms by (auto simp: emits_def chunk_change_def current_def)

lemma upd_current_Some:
  assumes "current s = Some c"
  obtains s' where "upd_current f s = Some s'" "current s' = Some (f c)" "cc_compilers s' = f c # tl (cc_compilers s)"
  using assms by (auto simp: current_def upd_current_def split: list.splits)

lemma cur_code_current: "current s = Some c \<Longrightarrow> cur_code s = ch_code (fn_chunk (cm_fn c))"
  by (simp add: cur_code_def currentChunk_def)

lemma upd_locals_code:
  assumes "upd_current (cm_locals_update f) s = Some s'" and "current s = Some c"
  shows "current s' = Some (cm_locals_update f c) \<and> cur_code s' = cur_code s"
  using assms by (auto simp: upd_current_def current_def cur_code_def currentChunk_def split: list.splits)

lemma close_step:
  assumes "(if n > 0 then emitPop n s else Some s) = Some s1" and "emitOp OP_CLOSE_UPVALUE s1 = Some s2"
    and "no_error s2" and "n < 256" and "current s = Some c"
  shows "emits s (pop_code n @ [word_of_nat OP_CLOSE_UPVALUE]) s2"
proof -
  have ne: "cc_compilers s \<noteq> []" using assms(5) by (auto simp: current_def split: list.splits)
  have 2: "emits s1 [word_of_nat OP_CLOSE_UPVALUE] s2"
    using assms(2,3) by (auto simp: emitOp_def intro: emitByte_emits)
  have ok: "no_error s1" using emits_no_error [OF 2] assms(3) by simp
  have "emits s (pop_code n) s1"
    using assms(1,4) ok ne emitPop_emits [of n s s1] emits_refl [OF ne] by (auto simp: pop_code_def split: if_splits)
  then show ?thesis using 2 by (rule emits_trans)
qed

lemma end_locals_spec:
  assumes "end_locals ls n s = Some (n', s')" and "no_error s'" and "current s = Some c"
    and "cm_locals c = rev ls" and "n + length (takeWhile (\<lambda>l. lc_depth l > cm_scopeDepth c) ls) < 256"
  shows "n' < 256 \<and> cur_code s' @ pop_code n' = cur_code s @ exit_code (takeWhile (\<lambda>l. lc_depth l > cm_scopeDepth c) ls) n \<and>
    (\<exists>c'. current s' = Some c' \<and> cm_locals c' = rev (dropWhile (\<lambda>l. lc_depth l > cm_scopeDepth c) ls) \<and>
       cm_scopeDepth c' = cm_scopeDepth c)"
  using assms
proof (induction ls arbitrary: n s c)
  case Nil
  then show ?case by simp
next
  case (Cons l ls)
  show ?case
  proof (cases "lc_depth l > cm_scopeDepth c")
    case False
    then show ?thesis using Cons.prems by simp
  next
    case deeper: True
    then obtain m s1 s2 where 1: "(if lc_isCaptured l
         then do { s \<leftarrow> (if n > 0 then emitPop n s else Some s); s \<leftarrow> emitOp OP_CLOSE_UPVALUE s; Some (0, s) }
         else Some (n + 1, s)) = Some (m, s1)" and 2: "upd_current (cm_locals_update butlast) s1 = Some s2"
      and r: "end_locals ls m s2 = Some (n', s')"
      using Cons.prems(1,3) by (auto simp: bind_eq_Some_conv split: if_splits)
    have ok: "no_error s1" using end_locals_no_error [OF r Cons.prems(2)] upd_current_frame [OF 2] by simp
    define d where "d = (if lc_isCaptured l then pop_code n @ [word_of_nat OP_CLOSE_UPVALUE] else [])"
    have e: "(emits s d s1 \<or> s1 = s \<and> d = []) \<and> m = (if lc_isCaptured l then 0 else n + 1)"
      using 1 ok close_step [OF _ _ _ _ Cons.prems(3)] Cons.prems(5) deeper
      by (auto simp: d_def bind_eq_Some_conv split: if_splits)
    then obtain c1 where c1: "current s1 = Some c1" "cm_locals c1 = cm_locals c" "cm_scopeDepth c1 = cm_scopeDepth c"
      using emits_current Cons.prems(3) by blast
    have code1: "cur_code s1 = cur_code s @ d" using e by (auto simp: emits_def)
    let ?c2 = "cm_locals_update butlast c1"
    have s2: "current s2 = Some ?c2" "cur_code s2 = cur_code s1" using upd_locals_code [OF 2 c1(1)] by simp_all
    have l2: "cm_locals ?c2 = rev ls" using c1(2) Cons.prems(4) by simp
    have m: "m + length (takeWhile (\<lambda>l. lc_depth l > cm_scopeDepth ?c2) ls) < 256"
      using e Cons.prems(5) deeper c1(3) by (auto split: if_splits)
    note IH = Cons.IH [OF r Cons.prems(2) s2(1) l2 m]
    show ?thesis using IH deeper c1(3) s2(2) code1 e by (auto simp: d_def split: if_splits)
  qed
qed

text \<open>
  C9: Leaving a scope keeps the stack in step with the locals.  When \<open>endScope\<close> reports no
  error in a function whose first local belongs to the function itself, it removes exactly the locals
  declared in that scope, and the code it appends, run on a stack that holds one value for each of
  them above the rest, removes exactly these values, and moves to upvalues exactly those of the
  locals that a nested function has captured.
\<close>

theorem endScope_correct:
  assumes "endScope s = Some s'" and "no_error s'" and "current s = Some c"
    and "1 \<le> cm_scopeDepth c" and "cm_locals c = l0 # ls" and "lc_depth l0 = 0" and "length (cm_locals c) \<le> UINT8_COUNT"
    and "length vs = length (scope_locals (cm_scopeDepth c - 1) (cm_locals c))"
  shows "\<exists>code c'. cur_code s' = cur_code s @ code \<and>
      unwind code (vs @ rest) = Some (rest, map snd (filter (\<lambda>(l, _). lc_isCaptured l)
          (zip (scope_locals (cm_scopeDepth c - 1) (cm_locals c)) vs))) \<and>
      current s' = Some c' \<and> cm_scopeDepth c' = cm_scopeDepth c - 1 \<and>
      cm_locals c' = outer_locals (cm_scopeDepth c - 1) (cm_locals c)"
proof -
  let ?d = "cm_scopeDepth c - 1"
  let ?c1 = "c\<lparr>cm_scopeDepth := ?d\<rparr>"
  let ?leaving = "scope_locals ?d (cm_locals c)"
  obtain s1 n s2 where 1: "upd_current (\<lambda>c. c\<lparr>cm_scopeDepth := cm_scopeDepth c - 1\<rparr>) s = Some s1"
    and 2: "end_locals (rev (cm_locals c)) 0 s1 = Some (n, s2)" and 3: "emitPop n s2 = Some s'"
    using assms(1,3) by (auto simp: endScope_def bind_eq_Some_conv upd_current_def current_def split: list.splits)
  have s1: "current s1 = Some ?c1" "cur_code s1 = cur_code s"
    using 1 assms(3) by (auto simp: upd_current_def current_def cur_code_def currentChunk_def split: list.splits)
  have leaving: "takeWhile (\<lambda>l. lc_depth l > ?d) (rev (l0 # ls)) = takeWhile (\<lambda>l. lc_depth l > ?d) (rev ls)"
    using assms(4,6) by (simp add: takeWhile_tail)
  have "length ?leaving \<le> length ls"
    unfolding scope_locals_def assms(5) leaving by (metis length_rev length_takeWhile_le)
  then have short: "length ?leaving < 256" using assms(5,7) by (simp add: UINT8_COUNT_def)
  have ok: "no_error s2" using emitPop_no_error [OF 3 assms(2)] .
  have "n < 256 \<and> cur_code s2 @ pop_code n = cur_code s1 @ exit_code ?leaving 0 \<and>
    (\<exists>c'. current s2 = Some c' \<and> cm_locals c' = outer_locals ?d (cm_locals c) \<and> cm_scopeDepth c' = ?d)"
    using end_locals_spec [OF 2 ok s1(1)] short by (simp add: scope_locals_def outer_locals_def)
  then obtain c2 where c2: "n < 256" "cur_code s2 @ pop_code n = cur_code s @ exit_code ?leaving 0" "current s2 = Some c2"
    "cm_locals c2 = outer_locals ?d (cm_locals c)" "cm_scopeDepth c2 = ?d"
    using s1(2) by auto
  have "cc_compilers s2 \<noteq> []" using c2(3) by (auto simp: current_def)
  then have e: "emits s2 (pop_code n) s'" using emitPop_emits [OF 3 assms(2) c2(1)] by simp
  then have "cur_code s' = cur_code s @ exit_code ?leaving 0" using c2(2) by (simp add: emits_def)
  moreover have "unwind (exit_code ?leaving 0) (vs @ rest) =
      Some (rest, map snd (filter (\<lambda>(l, _). lc_isCaptured l) (zip ?leaving vs)))"
    using unwind_exit_code [of "[]" 0 vs ?leaving rest] assms(8) short by simp
  ultimately show ?thesis using emits_current [OF e c2(3)] c2(4,5) by auto
qed

lemma endScope_correct_witness:
  "\<exists>s' c'. endScope (sample_cctx [sample_compiler 1 [local_at [] 0 False, local_at ''x'' 1 False, local_at ''y'' 1 True] 1]
       TOKEN_EOF []) = Some s' \<and>
     current s' = Some c' \<and> length (cm_locals c') = 1 \<and> cm_scopeDepth c' = 0"
proof -
  let ?c = "sample_compiler 1 [local_at [] 0 False, local_at ''x'' 1 False, local_at ''y'' 1 True] 1"
  let ?s = "sample_cctx [?c] TOKEN_EOF []"
  obtain s' where s': "endScope ?s = Some s'" "no_error s'"
    by (simp add: endScope_def emission_defs sample_defs no_error_def)
  have "current ?s = Some ?c" "1 \<le> cm_scopeDepth ?c" "length (cm_locals ?c) \<le> UINT8_COUNT"
    "cm_locals ?c = local_at [] 0 False # [local_at ''x'' 1 False, local_at ''y'' 1 True]" "lc_depth (local_at [] 0 False) = 0"
    "length [VNil, VNil] = length (scope_locals (cm_scopeDepth ?c - 1) (cm_locals ?c))"
    by (simp_all add: sample_defs current_def UINT8_COUNT_def scope_locals_def)
  note spec = endScope_correct [OF s' this(1,2,4,5,3,6), of "[]"]
  have "outer_locals (cm_scopeDepth ?c - 1) (cm_locals ?c) = [local_at [] 0 False]" "cm_scopeDepth ?c = 1"
    by (simp_all add: sample_defs outer_locals_def)
  then show ?thesis using spec s'(1) by fastforce
qed

end
