(* ===== verification/Machine.thy ===== *)
theory Machine
  imports Classes Maps Strings HeapStrings CompilerState
begin

text \<open>
  The core of the virtual machine (\<open>vm.c\<close>): the classes of values, calls of values and methods
  by name, how errors become exceptions, and calls that C code makes into the script
  (\<open>runCall\<close>).  The interpreter loop itself is a parameter here and is defined in the theory
  \<open>Interpreter\<close>.
\<close>

section \<open>The surroundings of a machine\<close>

text \<open>
  The classes, interfaces and interned names that the machine creates at its start
  (\<open>struct Builtins\<close> and \<open>vm->classes\<close>), which never change afterwards.
\<close>

record builtins =
  bi_classes :: "addr option list"
  bi_instance :: addr
  bi_class :: addr
  bi_runtimeException :: addr
  bi_exception :: addr
  bi_printStackTrace :: addr
  bi_oomError :: addr
  bi_iterator :: addr
  bi_iterable :: addr
  bi_iteratorStr :: addr
  bi_hasNextStr :: addr
  bi_nextStr :: addr
  bi_toStringStr :: addr
  bi_scriptString :: addr
  bi_names :: method_names
  bi_traceElement :: addr
  bi_fileName :: nat
  bi_lineNumber :: nat
  bi_functionName :: nat

text \<open>
  What lies outside of the program: the allocator (\<open>mx_mem\<close>, \<open>mx_env\<close>), the native
  functions of the host, the \<open>hashCode\<close> and \<open>equals\<close> methods of scripts and the exception they
  throw when they fail, the random numbers, the text that a message format expands to and the name of an anonymous class, the
  floating-point operations of the processor (by opcode), the search routine of the C library and the
  loaders of modules; with the fiber of the running context.
\<close>

record machine_env =
  mx_mem :: "nat \<Rightarrow> bool"
  mx_env :: env
  mx_fiber :: run_ctx
  mx_native :: native_code
  mx_hash :: user_hash
  mx_equals :: user_equals
  mx_thrown :: "vm \<Rightarrow> val"
  mx_random :: "vm \<Rightarrow> u64"
  mx_text :: "string \<Rightarrow> vm \<Rightarrow> byte list"
  mx_anonymous :: "vm \<Rightarrow> byte list"
  mx_arith :: "nat \<Rightarrow> dbl \<Rightarrow> dbl \<Rightarrow> dbl"
  mx_memmem :: "byte list \<Rightarrow> byte list \<Rightarrow> nat option"
  mx_loaders :: "(byte list \<Rightarrow> vm \<Rightarrow> ((native_error + val) \<times> vm) option) list"
  mx_builtins :: builtins

text \<open>An operation that can raise an error, and the composition of two of them.\<close>

type_synonym 'a outcome = "((native_error + 'a) \<times> vm) option"

definition success :: "'a \<Rightarrow> vm \<Rightarrow> 'a outcome" where
  "success a vm = Some (Inr a, vm)"

definition raises :: "string \<Rightarrow> vm \<Rightarrow> 'a outcome" where
  "raises message vm = Some (Inl (RuntimeError message), vm)"

definition and_then :: "'a outcome \<Rightarrow> ('a \<Rightarrow> vm \<Rightarrow> 'b outcome) \<Rightarrow> 'b outcome" where
  "and_then r k = do { (x, vm) \<leftarrow> r; case x of Inl e \<Rightarrow> Some (Inl e, vm) | Inr a \<Rightarrow> k a vm }"

lemma and_then_simps [simp]:
  "and_then None k = None"
  "and_then (Some (Inl e, vm)) k = Some (Inl e, vm)"
  "and_then (Some (Inr a, vm)) k = k a vm"
  by (simp_all add: and_then_def)

section \<open>The stack\<close>

text \<open>\<open>peek\<close>, \<open>pop\<close> and \<open>push\<close> on the active fiber, and stores into the stack.\<close>

definition stack_at :: "machine_env \<Rightarrow> int \<Rightarrow> vm \<Rightarrow> val option" where
  "stack_at m distance vm =
     do { f \<leftarrow> active_fiber (mx_fiber m) vm;
          if 0 \<le> distance then peek (fb_stack f) (nat distance) else None }"

definition push_value :: "machine_env \<Rightarrow> val \<Rightarrow> vm \<Rightarrow> vm" where
  "push_value m v vm = push (mx_fiber m) v vm"

definition pop_value :: "machine_env \<Rightarrow> vm \<Rightarrow> (val \<times> vm) option" where
  "pop_value m vm = do { v \<leftarrow> stack_at m 0 vm; Some (v, pop (mx_fiber m) vm) }"

definition drop_values :: "machine_env \<Rightarrow> nat \<Rightarrow> vm \<Rightarrow> vm option" where
  "drop_values m n vm =
     do { f \<leftarrow> active_fiber (mx_fiber m) vm;
          st \<leftarrow> popn n (fb_stack f);
          Some (upd_fiber (mx_fiber m) (fb_stack_update (\<lambda>_. st)) vm) }"

definition store_slot :: "machine_env \<Rightarrow> nat \<Rightarrow> val \<Rightarrow> vm \<Rightarrow> vm option" where
  "store_slot m i v vm =
     do { f \<leftarrow> active_fiber (mx_fiber m) vm;
          if i < length (fb_stack f) then Some (upd_fiber (mx_fiber m) (fb_stack_update (\<lambda>st. st[i := v])) vm)
          else None }"

text \<open>\<open>stackTop[-argCount - 1]\<close>.\<close>

definition store_callee :: "machine_env \<Rightarrow> int \<Rightarrow> val \<Rightarrow> vm \<Rightarrow> vm option" where
  "store_callee m argCount v vm =
     do { f \<leftarrow> active_fiber (mx_fiber m) vm;
          if 0 \<le> argCount \<and> nat argCount < length (fb_stack f)
          then store_slot m (length (fb_stack f) - 1 - nat argCount) v vm else None }"

section \<open>Classes of values\<close>

text \<open>\<open>valueTypeId\<close> reads the header of an object, which must be there.\<close>

definition type_id :: "vm \<Rightarrow> val \<Rightarrow> nat option" where
  "type_id vm v = (case v of
       VObj a \<Rightarrow> map_option (\<lambda>ob. obj_type_tag (type_of ob)) (get_obj vm a)
     | _ \<Rightarrow> Some (valueTypeId (vm_heap vm) v))"

definition classOf :: "machine_env \<Rightarrow> vm \<Rightarrow> val \<Rightarrow> addr option option" where
  "classOf m vm v =
     do { typeId \<leftarrow> type_id vm v;
          nth_opt (bi_classes (mx_builtins m)) typeId }"

definition classOfFollowInstance :: "machine_env \<Rightarrow> vm \<Rightarrow> val \<Rightarrow> addr option option" where
  "classOfFollowInstance m vm v =
     do { clazz \<leftarrow> classOf m vm v;
          if clazz = Some (bi_instance (mx_builtins m))
          then do { a \<leftarrow> val_ref v; inst \<leftarrow> as_instance (get_obj vm a); Some (Some (in_clazz inst)) }
          else Some clazz }"

text \<open>The type tests on values that the operations use.\<close>

definition object_of :: "vm \<Rightarrow> val \<Rightarrow> obj option option" where
  "object_of vm v = (case v of VObj a \<Rightarrow> map_option Some (get_obj vm a) | _ \<Rightarrow> Some None)"

definition is_klass :: "vm \<Rightarrow> val \<Rightarrow> addr option option" where
  "is_klass vm v = (case v of
       VObj a \<Rightarrow> (case get_obj vm a of
           None \<Rightarrow> None | Some (OClass _) \<Rightarrow> Some (Some a) | Some (OInterface _) \<Rightarrow> Some (Some a) | Some _ \<Rightarrow> Some None)
     | _ \<Rightarrow> Some None)"

text \<open>\<open>instanceOf\<close> updates the cache of the class.\<close>

definition instance_of :: "addr \<Rightarrow> addr \<Rightarrow> vm \<Rightarrow> (bool \<times> vm) option" where
  "instance_of T S vm = do { (b, h) \<leftarrow> instanceOf T S (vm_heap vm); Some (b, vm\<lparr>vm_heap := h\<rparr>) }"

definition isCallable :: "vm \<Rightarrow> val \<Rightarrow> bool option" where
  "isCallable vm v =
     do { ob \<leftarrow> object_of vm v;
          Some (case ob of
              Some (OBoundMethod _ _) \<Rightarrow> True | Some (OMethod _ _) \<Rightarrow> True | Some (OClosure _) \<Rightarrow> True
            | Some (OFunction _) \<Rightarrow> True | Some (ONative _) \<Rightarrow> True | _ \<Rightarrow> False) }"

section \<open>Calls\<close>

text \<open>\<open>callMethod\<close> with the surroundings of the machine; the flag says that a native has returned.\<close>

type_synonym call_result = "((native_error + unit) \<times> bool \<times> vm) option"

definition call_method :: "machine_env \<Rightarrow> addr \<Rightarrow> int \<Rightarrow> nat \<Rightarrow> vm \<Rightarrow> call_result" where
  "call_method m callable argCount argOffset vm =
     callMethod (mx_mem m) (mx_env m) (mx_native m) (mx_fiber m) callable argCount argOffset vm"

definition call_fails :: "string \<Rightarrow> vm \<Rightarrow> call_result" where
  "call_fails message vm = Some (Inl (RuntimeError message), False, vm)"

text \<open>Without an initializer the new instance is left on the stack and no frame is set up.\<close>

definition instantiate :: "machine_env \<Rightarrow> addr \<Rightarrow> int \<Rightarrow> vm \<Rightarrow> call_result" where
  "instantiate m clazz argCount vm =
     do { (inst, vm) \<leftarrow> newInstance (mx_mem m) (mx_env m) (mx_fiber m) (mx_random m vm) clazz vm;
          case inst of
            None \<Rightarrow> Some (Inl OutOfMemory, False, vm)
          | Some a \<Rightarrow>
              do { vm \<leftarrow> store_callee m argCount (VObj a) vm;
                   c \<leftarrow> as_class (get_obj vm clazz);
                   case cs_initializer c of
                     VNil \<Rightarrow> if argCount \<noteq> 0 then call_fails ''Expected 0 arguments'' vm
                             else Some (Inr (), False, vm)
                   | VObj initializer \<Rightarrow> call_method m initializer argCount 0 vm
                   | _ \<Rightarrow> None } }"

text \<open>A method called with its instance as first argument.\<close>

definition call_unbound :: "machine_env \<Rightarrow> addr option \<Rightarrow> addr option \<Rightarrow> int \<Rightarrow> vm \<Rightarrow> call_result" where
  "call_unbound m clazz callable argCount vm =
     (if argCount < 1 then call_fails ''Need to pass instance when calling method'' vm
      else do { T \<leftarrow> clazz;
                self \<leftarrow> stack_at m (argCount - 1) vm;
                selfClass \<leftarrow> classOfFollowInstance m vm self;
                S \<leftarrow> selfClass;
                (fits, vm) \<leftarrow> instance_of T S vm;
                c \<leftarrow> callable;
                if \<not> fits then call_fails ''Method invoked on wrong instance type'' vm
                else call_method m c argCount 1 vm })"

definition callValue :: "machine_env \<Rightarrow> val \<Rightarrow> int \<Rightarrow> vm \<Rightarrow> call_result" where
  "callValue m callee argCount vm =
     do { ob \<leftarrow> object_of vm callee;
          case (callee, ob) of
            (VObj _, Some (OBoundMethod receiver bound)) \<Rightarrow>
              do { vm \<leftarrow> store_callee m argCount receiver vm; c \<leftarrow> bound; call_method m c argCount 0 vm }
          | (VObj _, Some (OMethod clazz callable)) \<Rightarrow> call_unbound m clazz callable argCount vm
          | (VObj _, Some (OInterface _)) \<Rightarrow> call_fails ''Cannot call interfaces'' vm
          | (VObj a, Some (OClass _)) \<Rightarrow> instantiate m a argCount vm
          | (VObj a, Some (OClosure _)) \<Rightarrow>
              map_option (\<lambda>(r, vm). (r, False, vm)) (callClosure (mx_mem m) (mx_env m) (mx_fiber m) a argCount 0 vm)
          | (VObj a, Some (ONativeClosure _)) \<Rightarrow>
              map_option (\<lambda>(r, vm). (r, True, vm))
                (callNativeClosure (mx_mem m) (mx_env m) (mx_native m) (mx_fiber m) a argCount 0 False vm)
          | (VObj a, Some (OFunction _)) \<Rightarrow>
              map_option (\<lambda>(r, vm). (r, False, vm)) (callFunction (mx_mem m) (mx_env m) (mx_fiber m) a argCount 0 vm)
          | (VObj a, Some (ONative _)) \<Rightarrow>
              map_option (\<lambda>(r, vm). (r, True, vm))
                (callNative (mx_mem m) (mx_env m) (mx_native m) (mx_fiber m) a argCount 0 False vm)
          | _ \<Rightarrow> call_fails ''Can only call functions and classes'' vm }"

text \<open>Calls made by the interpreter loop do not ask whether the callee was native.\<close>

definition called :: "call_result \<Rightarrow> unit outcome" where
  "called r = map_option (\<lambda>(r, _, vm). (r, vm)) r"

text \<open>The callable of the value that a method table holds (\<open>AS_METHOD(method)->callable\<close>).\<close>

definition method_callable :: "vm \<Rightarrow> val \<Rightarrow> addr option" where
  "method_callable vm v =
     do { a \<leftarrow> val_ref v; case get_obj vm a of Some (OMethod _ callable) \<Rightarrow> callable | _ \<Rightarrow> None }"

definition class_lookup :: "(obj_class \<Rightarrow> table) \<Rightarrow> addr \<Rightarrow> addr \<Rightarrow> vm \<Rightarrow> val option option" where
  "class_lookup sel clazz name vm =
     do { c \<leftarrow> as_class (get_obj vm clazz); tableGet (str_view (vm_heap vm)) (sel c) name }"

definition invoke_static :: "machine_env \<Rightarrow> addr \<Rightarrow> addr \<Rightarrow> int \<Rightarrow> vm \<Rightarrow> unit outcome" where
  "invoke_static m clazz name argCount vm =
     do { static \<leftarrow> class_lookup cs_statics clazz name vm;
          case static of
            Some indexVal \<Rightarrow>
              do { c \<leftarrow> as_class (get_obj vm clazz);
                   i \<leftarrow> val_index indexVal;
                   v \<leftarrow> nth_opt (va_values (cs_staticValues c)) i;
                   called (callValue m v argCount vm) }
          | None \<Rightarrow>
              do { method \<leftarrow> class_lookup cs_methods clazz name vm;
                   case method of
                     Some v \<Rightarrow> called (callValue m v argCount vm)
                   | None \<Rightarrow> raises ''Undefined method or static property'' vm } }"

definition invoke_method :: "machine_env \<Rightarrow> addr \<Rightarrow> addr \<Rightarrow> int \<Rightarrow> vm \<Rightarrow> unit outcome" where
  "invoke_method m clazz name argCount vm =
     do { method \<leftarrow> class_lookup cs_methods clazz name vm;
          case method of
            None \<Rightarrow> raises ''Undefined property'' vm
          | Some v \<Rightarrow> do { c \<leftarrow> method_callable vm v; called (call_method m c argCount 0 vm) } }"

text \<open>A field of an instance goes before a method of its class.\<close>

definition invoke :: "machine_env \<Rightarrow> addr \<Rightarrow> int \<Rightarrow> vm \<Rightarrow> unit outcome" where
  "invoke m name argCount vm =
     do { receiver \<leftarrow> stack_at m argCount vm;
          receiverClass \<leftarrow> classOf m vm receiver;
          case receiverClass of
            None \<Rightarrow> raises ''This value has no methods'' vm
          | Some clazz \<Rightarrow>
              do { if clazz = bi_class (mx_builtins m)
                   then do { a \<leftarrow> val_ref receiver; invoke_static m a name argCount vm }
                   else if clazz = bi_instance (mx_builtins m)
                   then do { a \<leftarrow> val_ref receiver;
                             inst \<leftarrow> as_instance (get_obj vm a);
                             field \<leftarrow> getInstanceValue vm a name;
                             case field of
                               Some v \<Rightarrow> do { vm \<leftarrow> store_callee m argCount v vm; called (callValue m v argCount vm) }
                             | None \<Rightarrow> invoke_method m (in_clazz inst) name argCount vm }
                   else invoke_method m clazz name argCount vm } }"

definition invokeMember :: "machine_env \<Rightarrow> val \<Rightarrow> bool \<Rightarrow> int \<Rightarrow> vm \<Rightarrow> unit outcome" where
  "invokeMember m member isMember argCount vm =
     (if \<not> isMember
      then do { vm \<leftarrow> store_callee m argCount member vm; called (callValue m member argCount vm) }
      else do { c \<leftarrow> method_callable vm member; called (call_method m c argCount 0 vm) })"

section \<open>Errors\<close>

text \<open>
  \<open>runtimeError\<close> creates the exception and leaves it on the stack.  \<open>handling\<close> is
  \<open>vm->handlingException\<close>: an error while an exception is handled ends the process
  (\<open>exit(1)\<close>), so that the call does not return.  The message is built in a buffer of 16 bytes;
  the outcome of the initializer of the exception is ignored.
\<close>

definition error_message :: "machine_env \<Rightarrow> string \<Rightarrow> vm \<Rightarrow> (byte list \<times> nat \<times> vm) option" where
  "error_message m message vm =
     do { let out = mx_text m message vm;
          (obtained, vm) \<leftarrow> alloc_block (mx_mem m) (mx_env m) 16 vm;
          created \<leftarrow> initHeapStringWithSize (\<lambda>_. obtained) 16;
          msg \<leftarrow> created;
          let newCapacity = max 32 (length out + 1);
          (grown, vm) \<leftarrow> (if length out > 15
             then do { (_, vm) \<leftarrow> reallocate (mx_mem m) True 16 newCapacity vm;
                       Some (mx_env m vm newCapacity \<noteq> None, vm) }
             else Some (True, vm));
          (_, msg) \<leftarrow> heapStringAddVFmt (\<lambda>_. grown) msg out;
          chars \<leftarrow> those (take (nat (hs_length msg)) (hs_block msg));
          Some (chars, nat (hs_capacity msg), vm) }"

definition runtimeError :: "machine_env \<Rightarrow> nat \<Rightarrow> string \<Rightarrow> vm \<Rightarrow> vm option" where
  "runtimeError m handling message vm =
     (if handling > 0 then None
      else do { (chars, capacity, vm) \<leftarrow> error_message m message vm;
                let exClass = bi_runtimeException (mx_builtins m);
                (inst, vm) \<leftarrow> newInstance (mx_mem m) (mx_env m) (mx_fiber m) (mx_random m vm) exClass vm;
                errorInst \<leftarrow> inst;
                let vm = push_value m (VObj errorInst) vm;
                (str, vm) \<leftarrow> takeString (mx_mem m) (mx_env m) (mx_fiber m) chars capacity vm;
                msgObj \<leftarrow> str;
                let vm = push_value m (VObj msgObj) vm;
                c \<leftarrow> as_class (get_obj vm exClass);
                initializer \<leftarrow> val_ref (cs_initializer c);
                (r, _, vm) \<leftarrow> call_method m initializer 1 0 vm;
                vm \<leftarrow> (case r of
                    Inl (RuntimeError _) \<Rightarrow> None
                  | Inl OutOfMemory \<Rightarrow> Some vm
                  | _ \<Rightarrow> map_option snd (pop_value m vm));
                Some (push_value m (VObj errorInst) vm) })"

text \<open>What stands on the stack after an operation has reported an error.\<close>

definition raise_error :: "machine_env \<Rightarrow> nat \<Rightarrow> native_error \<Rightarrow> vm \<Rightarrow> vm option" where
  "raise_error m handling e vm = (case e of
       RuntimeError message \<Rightarrow> runtimeError m handling message vm
     | OutOfMemory \<Rightarrow> Some (push_value m (VObj (bi_oomError (mx_builtins m))) vm)
     | Thrown \<Rightarrow> Some vm)"

text \<open>
  The elements of the stack trace, one for each frame.  A frame of a native function has no function
  to read the line from.
\<close>

definition trace_element :: "machine_env \<Rightarrow> call_frame \<Rightarrow> vm \<Rightarrow> (addr option \<times> vm) option" where
  "trace_element m fr vm =
     do { fa \<leftarrow> cf_function fr;
          fn \<leftarrow> as_function (get_obj vm fa);
          lineNo \<leftarrow> getLine (fn_chunk fn) (int (cf_ip fr) - 1);
          (elem, vm) \<leftarrow> newInstance (mx_mem m) (mx_env m) (mx_fiber m) (mx_random m vm)
                          (bi_traceElement (mx_builtins m)) vm;
          case elem of
            None \<Rightarrow> Some (None, vm)
          | Some a \<Rightarrow>
              do { inst \<leftarrow> as_instance (get_obj vm a);
                   fileName \<leftarrow> ch_fileName (fn_chunk fn);
                   let name = (case fn_name fn of None \<Rightarrow> bi_scriptString (mx_builtins m) | Some n \<Rightarrow> n);
                   let fields = va_values (in_fields inst);
                   let b = mx_builtins m;
                   if max (bi_fileName b) (max (bi_lineNumber b) (bi_functionName b)) < length fields
                   then do { vm \<leftarrow> set_obj a (OInstance (inst\<lparr>in_fields := (in_fields inst)\<lparr>va_values :=
                               fields[bi_fileName b := VObj fileName, bi_lineNumber b := VNumber (dbl_of_int lineNo),
                                      bi_functionName b := VObj name]\<rparr>\<rparr>)) vm;
                             Some (Some a, vm) }
                   else None } }"

fun trace_elements :: "machine_env \<Rightarrow> addr \<Rightarrow> call_frame list \<Rightarrow> vm \<Rightarrow> vm option" where
  "trace_elements m arr [] vm = Some vm"
| "trace_elements m arr (fr # frs) vm =
     do { (elem, vm) \<leftarrow> trace_element m fr vm;
          case elem of
            None \<Rightarrow> Some vm
          | Some a \<Rightarrow> do { (_, vm) \<leftarrow> appendToArray (mx_mem m) (mx_env m) arr (VObj a) vm;
                          trace_elements m arr frs vm } }"

definition getStackTrace :: "machine_env \<Rightarrow> vm \<Rightarrow> (val \<times> vm) option" where
  "getStackTrace m vm =
     do { f \<leftarrow> active_fiber (mx_fiber m) vm;
          (arr, vm) \<leftarrow> newArray (mx_mem m) (mx_env m) (mx_fiber m) (int (length (fb_frames f))) OBJ_ARRAY vm;
          case arr of
            None \<Rightarrow> Some (VNil, vm)
          | Some a \<Rightarrow>
              do { vm \<leftarrow> trace_elements m a (fb_frames f) (pushTemp (mx_fiber m) (VObj a) vm);
                   Some (VObj a, releaseTemps (mx_fiber m) 1 vm) } }"

section \<open>Calls from C code\<close>

text \<open>
  \<open>run\<close> is the interpreter loop: it runs the active frame until the frame that a call from C has
  started returns, and says whether this was without an exception.  The result stays on the stack.
\<close>

definition runCall :: "machine_env \<Rightarrow> interpreter \<Rightarrow> nat \<Rightarrow> vm \<Rightarrow> val outcome" where
  "runCall m run argCount vm =
     do { callable \<leftarrow> stack_at m (int argCount) vm;
          (r, wasNative, vm) \<leftarrow> callValue m callable (int argCount) vm;
          case r of
            Inl e \<Rightarrow> Some (Inl e, vm)
          | Inr _ \<Rightarrow>
              if wasNative then do { result \<leftarrow> stack_at m 0 vm; success result vm }
              else do { (fine, vm) \<leftarrow> run (upd_frame (mx_fiber m) (\<lambda>fr. fr\<lparr>cf_callStart := True\<rparr>) vm);
                        if fine then do { result \<leftarrow> stack_at m 0 vm; success result vm }
                        else Some (Inl Thrown, vm) } }"

definition toString :: "machine_env \<Rightarrow> interpreter \<Rightarrow> val \<Rightarrow> vm \<Rightarrow> val outcome" where
  "toString m run v vm =
     do { clazz \<leftarrow> classOfFollowInstance m vm v;
          case clazz of
            None \<Rightarrow> raises ''No string representation available'' vm
          | Some c \<Rightarrow>
              do { method \<leftarrow> class_lookup cs_methods c (bi_toStringStr (mx_builtins m)) vm;
                   case method of
                     None \<Rightarrow> raises ''No string representation available'' vm
                   | Some methodVal \<Rightarrow>
                       do { ma \<leftarrow> val_ref methodVal;
                            (bound, vm) \<leftarrow> newBoundMethod (mx_mem m) (mx_env m) v ma vm;
                            case bound of
                              None \<Rightarrow> Some (Inl OutOfMemory, vm)
                            | Some b \<Rightarrow>
                                and_then (runCall m run 0 (push_value m (VObj b) vm)) (\<lambda>strVal vm.
                                  do { (_, vm) \<leftarrow> pop_value m vm; success strVal vm }) } } }"

end
