(* ===== verification/Operations.thy ===== *)
theory Operations
  imports Machine
begin

text \<open>
  The operations of the interpreter that are functions of their own in \<open>vm.c\<close>: concatenation,
  indexing, slices and membership, building of arrays, maps and interfaces, properties, expansion
  and unpacking of tuples and iterators, \<open>foreach\<close> and imports.
\<close>

section \<open>Strings, arrays and maps\<close>

definition concatenate :: "machine_env \<Rightarrow> vm \<Rightarrow> unit outcome" where
  "concatenate m vm =
     do { bVal \<leftarrow> stack_at m 0 vm;
          aVal \<leftarrow> stack_at m 1 vm;
          b \<leftarrow> AS_STRING (vm_heap vm) bVal;
          a \<leftarrow> AS_STRING (vm_heap vm) aVal;
          let len = length a + length b;
          (obtained, vm) \<leftarrow> alloc_block (mx_mem m) (mx_env m) (len + 1) vm;
          if \<not> obtained then Some (Inl OutOfMemory, vm)
          else do { (result, vm) \<leftarrow> takeString (mx_mem m) (mx_env m) (mx_fiber m) (a @ b) (len + 1) vm;
                    case result of
                      None \<Rightarrow> do { vm \<leftarrow> free_block (mx_mem m) 1 vm; Some (Inl OutOfMemory, vm) }
                    | Some s \<Rightarrow> do { vm \<leftarrow> drop_values m 2 vm; success () (push_value m (VObj s) vm) } } }"

text \<open>\<open>AS_NUMBER\<close> of a value that has been tested to be one, converted to an \<open>int\<close>.\<close>

definition int_of_number :: "val \<Rightarrow> int option option" where
  "int_of_number v = (case v of VNumber d \<Rightarrow> map_option Some (dbl_to_int32 d) | _ \<Rightarrow> Some None)"

text \<open>An operation replaces its operands by its result.\<close>

definition replace_operands :: "machine_env \<Rightarrow> nat \<Rightarrow> val \<Rightarrow> vm \<Rightarrow> unit outcome" where
  "replace_operands m n result vm = do { vm \<leftarrow> drop_values m n vm; success () (push_value m result vm) }"

text \<open>A \<open>hashCode\<close> or \<open>equals\<close> method that fails leaves its exception on the stack.\<close>

definition user_throws :: "machine_env \<Rightarrow> vm \<Rightarrow> 'a outcome" where
  "user_throws m vm = Some (Inl Thrown, push_value m (mx_thrown m vm) vm)"

definition map_lookup :: "machine_env \<Rightarrow> value_table \<Rightarrow> val \<Rightarrow> vm \<Rightarrow> val outcome" where
  "map_lookup m t key vm =
     do { (raised, found) \<leftarrow> valueTableGet (hashValue (mx_hash m) (vm_heap vm)) (valuesEquals (mx_equals m) (vm_heap vm)) t key;
          if raised then user_throws m vm
          else success (case found of None \<Rightarrow> VNil | Some v \<Rightarrow> v) vm }"

definition indexValue :: "machine_env \<Rightarrow> vm \<Rightarrow> unit outcome" where
  "indexValue m vm =
     do { indexVal \<leftarrow> stack_at m 0 vm;
          indexable \<leftarrow> stack_at m 1 vm;
          ob \<leftarrow> object_of vm indexable;
          case ob of
            Some (OHashMap t) \<Rightarrow> and_then (map_lookup m t indexVal vm) (replace_operands m 2)
          | Some (OString chars _) \<Rightarrow>
              do { index \<leftarrow> int_of_number indexVal;
                   case index of
                     None \<Rightarrow> raises ''String index is not a number'' vm
                   | Some i \<Rightarrow> and_then (stringAtSafe (mx_mem m) (mx_env m) (mx_fiber m) chars i vm) (replace_operands m 2) }
          | _ \<Rightarrow>
              (case do { x \<leftarrow> ob; as_array (Some x) } of
                 None \<Rightarrow> raises ''Invalid type to index into'' vm
               | Some arr \<Rightarrow>
                   do { index \<leftarrow> int_of_number indexVal;
                        case index of
                          None \<Rightarrow> raises ''Array index is not a number'' vm
                        | Some i \<Rightarrow> and_then (map_option (\<lambda>r. (r, vm)) (arrayAtSafe arr i)) (replace_operands m 2) }) }"

text \<open>\<open>valueTableSet\<close> on the table of a map object; a full table allocates its new blocks in the machine.\<close>

definition vm_valueTableSet :: "machine_env \<Rightarrow> addr \<Rightarrow> val \<Rightarrow> val \<Rightarrow> vm \<Rightarrow> unit outcome" where
  "vm_valueTableSet m a key v vm =
     do { t \<leftarrow> (case get_obj vm a of Some (OHashMap t) \<Rightarrow> Some t | _ \<Rightarrow> None);
          let full = (length (vt_entries t) = vt_dataSize t);
          let wanted = (if vt_liveCount t \<ge> vt_dataSize t * 3 div 4 then 2 * vt_indexSize t else vt_indexSize t);
          let newSize = (if wanted = 0 then 8 else wanted);
          let grows = (full \<and> newSize \<noteq> vt_indexSize t);
          (got1, vm) \<leftarrow> (if grows then alloc_block (mx_mem m) (mx_env m) (4 * newSize) vm else Some (True, vm));
          (got2, vm) \<leftarrow> (if grows \<and> got1 then alloc_block (mx_mem m) (mx_env m) (40 * (newSize * 3 div 4)) vm
                          else Some (True, vm));
          t \<leftarrow> (case get_obj vm a of Some (OHashMap t) \<Rightarrow> Some t | _ \<Rightarrow> None);
          (raised, _, t') \<leftarrow> valueTableSet (\<lambda>_. got1 \<and> got2) (hashValue (mx_hash m) (vm_heap vm))
                                (valuesEquals (mx_equals m) (vm_heap vm)) t key v;
          vm \<leftarrow> (if grows \<and> got1 \<and> got2
                  then free_block (mx_mem m) (4 * vt_indexSize t + 40 * vt_dataSize t) vm else Some vm);
          vm \<leftarrow> set_obj a (OHashMap t') vm;
          if \<not> raised then success () vm
          else if got1 \<and> got2 then user_throws m vm else Some (Inl OutOfMemory, vm) }"

definition indexStore :: "machine_env \<Rightarrow> vm \<Rightarrow> unit outcome" where
  "indexStore m vm =
     do { item \<leftarrow> stack_at m 0 vm;
          indexVal \<leftarrow> stack_at m 1 vm;
          indexable \<leftarrow> stack_at m 2 vm;
          ob \<leftarrow> object_of vm indexable;
          case (indexable, ob) of
            (VObj a, Some (OArray arr)) \<Rightarrow>
              do { index \<leftarrow> int_of_number indexVal;
                   case index of
                     None \<Rightarrow> raises ''Array index is not a number'' vm
                   | Some i \<Rightarrow>
                       if \<not> isValidArrayIndex arr i then raises ''Array index out of range'' vm
                       else do { arr \<leftarrow> arraySet arr i item;
                                 vm \<leftarrow> put_array a arr vm;
                                 replace_operands m 3 item vm } }
          | (VObj a, Some (OHashMap _)) \<Rightarrow>
              and_then (vm_valueTableSet m a indexVal item vm) (\<lambda>_. replace_operands m 3 item)
          | _ \<Rightarrow> raises ''Destination is not an array or map'' vm }"

definition sliceValue :: "machine_env \<Rightarrow> vm \<Rightarrow> unit outcome" where
  "sliceValue m vm =
     do { sliceEnd \<leftarrow> stack_at m 0 vm;
          sliceStart \<leftarrow> stack_at m 1 vm;
          sliceable \<leftarrow> stack_at m 2 vm;
          ob \<leftarrow> object_of vm sliceable;
          case (sliceable, ob) of
            (VObj a, Some (OString chars _)) \<Rightarrow>
              and_then (stringSlice (mx_mem m) (mx_env m) (mx_fiber m) chars sliceStart sliceEnd vm) (replace_operands m 3)
          | (VObj a, Some (OArray _)) \<Rightarrow>
              and_then (arraySlice (mx_mem m) (mx_env m) (mx_fiber m) a OBJ_ARRAY sliceStart sliceEnd vm)
                (\<lambda>r. replace_operands m 3 (VObj r))
          | (VObj a, Some (OTuple _)) \<Rightarrow>
              and_then (arraySlice (mx_mem m) (mx_env m) (mx_fiber m) a OBJ_TUPLE sliceStart sliceEnd vm)
                (\<lambda>r. replace_operands m 3 (VObj r))
          | _ \<Rightarrow> raises ''Invalid type to slice'' vm }"

text \<open>
  \<open>inTable\<close>: which operands \<open>in\<close> accepts.  The value may have any type of the list
  \<open>ANY\<close>, which omits methods, method descriptors, interfaces, string pairs and upvalues.
\<close>

datatype in_op = IN_OP_UNDEFINED | IN_OP_STRING_STRING | IN_OP_VALUE_ARRAY | IN_OP_VALUE_HASHMAP

definition in_any :: "vm \<Rightarrow> val \<Rightarrow> bool" where
  "in_any vm v = (case v of
       VNumber _ \<Rightarrow> True | VNil \<Rightarrow> True | VBool _ \<Rightarrow> True | VException \<Rightarrow> False | VUndefined \<Rightarrow> False
     | VObj a \<Rightarrow> (case get_obj vm a of
         None \<Rightarrow> False
       | Some ob \<Rightarrow> type_of ob \<in> {OBJ_STRING, OBJ_BOUND_METHOD, OBJ_CLASS, OBJ_CLOSURE, OBJ_NATIVE_CLOSURE, OBJ_FUNCTION,
                      OBJ_INSTANCE, OBJ_NATIVE, OBJ_ARRAY, OBJ_TUPLE, OBJ_HASHMAP}))"

definition inTable :: "vm \<Rightarrow> val \<Rightarrow> val \<Rightarrow> in_op option" where
  "inTable vm v sq =
     do { sqOb \<leftarrow> object_of vm sq;
          vOb \<leftarrow> object_of vm v;
          Some (case sqOb of
              Some (OString _ _) \<Rightarrow> (case vOb of Some (OString _ _) \<Rightarrow> IN_OP_STRING_STRING | _ \<Rightarrow> IN_OP_UNDEFINED)
            | Some (OArray _) \<Rightarrow> if in_any vm v then IN_OP_VALUE_ARRAY else IN_OP_UNDEFINED
            | Some (OTuple _) \<Rightarrow> if in_any vm v then IN_OP_VALUE_ARRAY else IN_OP_UNDEFINED
            | Some (OHashMap _) \<Rightarrow> if in_any vm v then IN_OP_VALUE_HASHMAP else IN_OP_UNDEFINED
            | _ \<Rightarrow> IN_OP_UNDEFINED) }"

definition op_in :: "machine_env \<Rightarrow> vm \<Rightarrow> unit outcome" where
  "op_in m vm =
     do { sq \<leftarrow> stack_at m 0 vm;
          v \<leftarrow> stack_at m 1 vm;
          kind \<leftarrow> inTable vm v sq;
          ob \<leftarrow> object_of vm sq;
          case kind of
            IN_OP_STRING_STRING \<Rightarrow>
              do { haystack \<leftarrow> AS_STRING (vm_heap vm) sq;
                   needle \<leftarrow> AS_STRING (vm_heap vm) v;
                   replace_operands m 2 (VBool (stringContains (mx_memmem m) haystack needle)) vm }
          | IN_OP_VALUE_ARRAY \<Rightarrow>
              do { arr \<leftarrow> as_array ob;
                   let (raised, res) = arrayContains (mx_equals m) (vm_heap vm) arr v;
                   if raised then user_throws m vm else replace_operands m 2 (VBool res) vm }
          | IN_OP_VALUE_HASHMAP \<Rightarrow>
              do { t \<leftarrow> (case ob of Some (OHashMap t) \<Rightarrow> Some t | _ \<Rightarrow> None);
                   (raised, found) \<leftarrow> valueTableContains (hashValue (mx_hash m) (vm_heap vm))
                                          (valuesEquals (mx_equals m) (vm_heap vm)) t v;
                   if raised then user_throws m vm else replace_operands m 2 (VBool found) vm }
          | IN_OP_UNDEFINED \<Rightarrow> raises ''Invalid operands for in'' vm }"

section \<open>Building\<close>

text \<open>
  Elements are on the stack below the new object, the first one deepest.  The count is popped as a
  \<open>uint8_t\<close>, so that only its low 8 bits count.
\<close>

fun append_elements :: "machine_env \<Rightarrow> addr \<Rightarrow> nat \<Rightarrow> vm \<Rightarrow> unit outcome" where
  "append_elements m array 0 vm = success () vm"
| "append_elements m array (Suc i) vm =
     do { v \<leftarrow> stack_at m (int (Suc i)) vm;
          (ret, vm) \<leftarrow> appendToArray (mx_mem m) (mx_env m) array v vm;
          if \<not> ret then Some (Inl OutOfMemory, vm) else append_elements m array i vm }"

definition buildArray :: "machine_env \<Rightarrow> obj_type \<Rightarrow> nat \<Rightarrow> vm \<Rightarrow> unit outcome" where
  "buildArray m objType itemCount vm =
     do { (created, vm) \<leftarrow> newArray (mx_mem m) (mx_env m) (mx_fiber m) (int itemCount) objType vm;
          case created of
            None \<Rightarrow> Some (Inl OutOfMemory, vm)
          | Some array \<Rightarrow>
              and_then (append_elements m array itemCount (push_value m (VObj array) vm)) (\<lambda>_ vm.
                do { (_, vm) \<leftarrow> pop_value m vm;
                     replace_operands m itemCount (VObj array) vm }) }"

text \<open>Keys and values alternate.\<close>

fun store_pairs :: "machine_env \<Rightarrow> addr \<Rightarrow> nat \<Rightarrow> vm \<Rightarrow> unit outcome" where
  "store_pairs m target 0 vm = success () vm"
| "store_pairs m target (Suc i) vm =
     do { key \<leftarrow> stack_at m (int (2 * Suc i)) vm;
          v \<leftarrow> stack_at m (int (2 * Suc i) - 1) vm;
          and_then (vm_valueTableSet m target key v vm) (\<lambda>_ vm. store_pairs m target i vm) }"

definition buildMap :: "machine_env \<Rightarrow> nat \<Rightarrow> vm \<Rightarrow> unit outcome" where
  "buildMap m itemCount vm =
     do { (created, vm) \<leftarrow> newHashMap (mx_mem m) (mx_env m) vm;
          case created of
            None \<Rightarrow> Some (Inl OutOfMemory, vm)
          | Some target \<Rightarrow>
              and_then (store_pairs m target itemCount (push_value m (VObj target) vm)) (\<lambda>_ vm.
                do { (_, vm) \<leftarrow> pop_value m vm;
                     replace_operands m (2 * itemCount) (VObj target) vm }) }"

section \<open>Properties\<close>

definition class_bind :: "machine_env \<Rightarrow> addr \<Rightarrow> addr \<Rightarrow> vm \<Rightarrow> unit outcome" where
  "class_bind m clazz name vm = bindMethod (mx_mem m) (mx_env m) (mx_fiber m) clazz name vm"

text \<open>A name that a class has no method for leaves the class itself as the value of the property.\<close>

definition getProperty :: "machine_env \<Rightarrow> addr \<Rightarrow> vm \<Rightarrow> unit outcome" where
  "getProperty m name vm =
     do { targetVal \<leftarrow> stack_at m 0 vm;
          ob \<leftarrow> object_of vm targetVal;
          case (targetVal, ob) of
            (VObj a, Some (OInstance inst)) \<Rightarrow>
              do { field \<leftarrow> getInstanceValue vm a name;
                   case field of
                     Some v \<Rightarrow> replace_operands m 1 v vm
                   | None \<Rightarrow> class_bind m (in_clazz inst) name vm }
          | (VObj a, Some (OClass _)) \<Rightarrow>
              do { method \<leftarrow> class_lookup cs_methods a name vm;
                   case method of
                     Some v \<Rightarrow> replace_operands m 1 v vm
                   | None \<Rightarrow> success () vm }
          | _ \<Rightarrow>
              do { clazz \<leftarrow> classOfFollowInstance m vm targetVal;
                   case clazz of
                     Some c \<Rightarrow> class_bind m c name vm
                   | None \<Rightarrow> raises ''This value does not have properties'' vm } }"

text \<open>The reference of a member in a class (\<open>memberRefs[propRef + refOffset]\<close>).\<close>

definition member_ref_at :: "addr \<Rightarrow> nat \<Rightarrow> vm \<Rightarrow> member_ref option" where
  "member_ref_at clazz i vm = do { c \<leftarrow> as_class (get_obj vm clazz); nth_opt (cs_memberRefs c) i }"

text \<open>The store through a resolved reference: into the instance, or into the reference itself.\<close>

definition store_ref :: "addr \<Rightarrow> nat \<Rightarrow> addr \<Rightarrow> val \<Rightarrow> vm \<Rightarrow> vm option" where
  "store_ref clazz i instance v vm =
     do { r \<leftarrow> member_ref_at clazz i vm;
          inst \<leftarrow> as_instance (get_obj vm instance);
          case mr_data r of
            RefValue _ \<Rightarrow> if mr_refType r = REFTYPE_CLASS_MEMBER then set_ref clazz i (r\<lparr>mr_data := RefValue v\<rparr>) vm else None
          | PropIndex j \<Rightarrow>
              if mr_refType r = REFTYPE_CLASS_MEMBER \<or> length (va_values (in_fields inst)) \<le> unat j then None
              else set_obj instance (OInstance (inst\<lparr>in_fields := (in_fields inst)\<lparr>va_values :=
                     (va_values (in_fields inst))[unat j := v]\<rparr>\<rparr>)) vm }"

section \<open>Reading the code\<close>

text \<open>
  The operands of an instruction follow it in the code of the active frame; the register \<open>ip\<close> of the
  loop is the field of the frame.
\<close>

definition read_byte :: "machine_env \<Rightarrow> vm \<Rightarrow> (nat \<times> vm) option" where
  "read_byte m vm =
     do { fr \<leftarrow> active_frame (mx_fiber m) vm;
          code \<leftarrow> frame_code vm fr;
          b \<leftarrow> nth_opt code (cf_ip fr);
          Some (unat b, upd_frame (mx_fiber m) (cf_ip_update Suc) vm) }"

definition read_flag :: "machine_env \<Rightarrow> vm \<Rightarrow> (bool \<times> vm) option" where
  "read_flag m vm = do { (b, vm) \<leftarrow> read_byte m vm; Some (b \<noteq> 0, vm) }"

definition read_ushort :: "machine_env \<Rightarrow> vm \<Rightarrow> (nat \<times> vm) option" where
  "read_ushort m vm = do { (lo, vm) \<leftarrow> read_byte m vm; (hi, vm) \<leftarrow> read_byte m vm; Some (lo + 256 * hi, vm) }"

definition read_int :: "machine_env \<Rightarrow> vm \<Rightarrow> (int \<times> vm) option" where
  "read_int m vm =
     do { (lo, vm) \<leftarrow> read_ushort m vm;
          (hi, vm) \<leftarrow> read_ushort m vm;
          Some (sint (word_of_nat (lo + 65536 * hi) :: u32), vm) }"

definition frame_function :: "machine_env \<Rightarrow> vm \<Rightarrow> obj_function option" where
  "frame_function m vm =
     do { fr \<leftarrow> active_frame (mx_fiber m) vm; fa \<leftarrow> cf_function fr; as_function (get_obj vm fa) }"

definition constant_at :: "machine_env \<Rightarrow> nat \<Rightarrow> vm \<Rightarrow> val option" where
  "constant_at m i vm = do { fn \<leftarrow> frame_function m vm; nth_opt (va_values (ch_constants (fn_chunk fn))) i }"

definition read_const16 :: "machine_env \<Rightarrow> vm \<Rightarrow> (val \<times> vm) option" where
  "read_const16 m vm = do { (i, vm) \<leftarrow> read_ushort m vm; v \<leftarrow> constant_at m i vm; Some (v, vm) }"

definition read_string16 :: "machine_env \<Rightarrow> vm \<Rightarrow> (addr \<times> vm) option" where
  "read_string16 m vm = do { (v, vm) \<leftarrow> read_const16 m vm; a \<leftarrow> val_ref v; Some (a, vm) }"

text \<open>Stores into variables, as unpacking and the assignments make them.\<close>

definition store_local :: "machine_env \<Rightarrow> nat \<Rightarrow> bool \<Rightarrow> val \<Rightarrow> vm \<Rightarrow> vm option" where
  "store_local m slot postArgs v vm =
     do { fr \<leftarrow> active_frame (mx_fiber m) vm; store_slot m (local_slot fr slot postArgs) v vm }"

definition frame_upvalue :: "machine_env \<Rightarrow> nat \<Rightarrow> vm \<Rightarrow> addr option" where
  "frame_upvalue m slot vm =
     do { fr \<leftarrow> active_frame (mx_fiber m) vm;
          ca \<leftarrow> cf_closure fr;
          c \<leftarrow> as_closure (get_obj vm ca);
          u \<leftarrow> nth_opt (cl_upvalues c) slot;
          u }"

definition store_upvalue :: "machine_env \<Rightarrow> nat \<Rightarrow> val \<Rightarrow> vm \<Rightarrow> vm option" where
  "store_upvalue m slot v vm = do { u \<leftarrow> frame_upvalue m slot vm; set_upvalue (mx_fiber m) u v vm }"

definition global_at :: "nat \<Rightarrow> vm \<Rightarrow> val option" where
  "global_at i vm = nth_opt (va_values (vm_globalValues vm)) i"

definition store_global :: "nat \<Rightarrow> val \<Rightarrow> vm \<Rightarrow> vm option" where
  "store_global i v vm =
     (if i < length (va_values (vm_globalValues vm))
      then Some (vm\<lparr>vm_globalValues := (vm_globalValues vm)\<lparr>va_values := (va_values (vm_globalValues vm))[i := v]\<rparr>\<rparr>)
      else None)"

section \<open>Expansion and unpacking\<close>

text \<open>
  A tuple is unpacked by index, an iterator by its methods \<open>hasNext\<close> and \<open>next\<close>; any other
  value stands for itself, once.
\<close>

datatype unpack_source = UPK_VALUE bool | UPK_TUPLE addr nat | UPK_ITERATOR val val

definition temps_height :: "machine_env \<Rightarrow> vm \<Rightarrow> nat option" where
  "temps_height m vm = map_option (\<lambda>f. length (fb_temps f)) (active_fiber (mx_fiber m) vm)"

definition release_to :: "machine_env \<Rightarrow> nat \<Rightarrow> vm \<Rightarrow> vm" where
  "release_to m height = upd_fiber (mx_fiber m) (\<lambda>f. f\<lparr>fb_temps := drop (length (fb_temps f) - height) (fb_temps f)\<rparr>)"

definition as_iterator :: "machine_env \<Rightarrow> val \<Rightarrow> vm \<Rightarrow> (addr option \<times> vm) option" where
  "as_iterator m v vm =
     do { ob \<leftarrow> object_of vm v;
          case (v, ob) of
            (VObj a, Some (OInstance inst)) \<Rightarrow>
              do { (fits, vm) \<leftarrow> instance_of (bi_iterator (mx_builtins m)) (in_clazz inst) vm;
                   Some (if fits then Some a else None, vm) }
          | _ \<Rightarrow> Some (None, vm) }"

text \<open>A method of an iterator, bound to it.\<close>

definition iterator_method :: "machine_env \<Rightarrow> addr \<Rightarrow> addr \<Rightarrow> vm \<Rightarrow> val outcome" where
  "iterator_method m iterator name vm =
     do { inst \<leftarrow> as_instance (get_obj vm iterator);
          and_then (class_bind m (in_clazz inst) name (push_value m (VObj iterator) vm)) (\<lambda>_ vm.
            do { (b, vm) \<leftarrow> pop_value m vm; success b vm }) }"

definition call_bound :: "machine_env \<Rightarrow> interpreter \<Rightarrow> val \<Rightarrow> vm \<Rightarrow> val outcome" where
  "call_bound m run bound vm =
     and_then (runCall m run 0 (push_value m bound vm)) (\<lambda>v vm.
       do { (_, vm) \<leftarrow> pop_value m vm; success v vm })"

definition as_bool :: "val \<Rightarrow> bool option" where
  "as_bool v = (case v of VBool b \<Rightarrow> Some b | _ \<Rightarrow> None)"

definition unpack_bind :: "machine_env \<Rightarrow> val \<Rightarrow> vm \<Rightarrow> unpack_source outcome" where
  "unpack_bind m v vm =
     do { ob \<leftarrow> object_of vm v;
          case (v, ob) of
            (VObj a, Some (OTuple _)) \<Rightarrow> success (UPK_TUPLE a 0) vm
          | _ \<Rightarrow>
              do { (it, vm) \<leftarrow> as_iterator m v vm;
                   case it of
                     None \<Rightarrow> success (UPK_VALUE False) vm
                   | Some a \<Rightarrow>
                       and_then (iterator_method m a (bi_hasNextStr (mx_builtins m)) vm) (\<lambda>hasNext vm.
                         and_then (iterator_method m a (bi_nextStr (mx_builtins m)) (pushTemp (mx_fiber m) hasNext vm))
                           (\<lambda>nxt vm. success (UPK_ITERATOR hasNext nxt) (pushTemp (mx_fiber m) nxt vm))) } }"

definition unpack_more :: "machine_env \<Rightarrow> interpreter \<Rightarrow> unpack_source \<Rightarrow> vm \<Rightarrow> bool outcome" where
  "unpack_more m run src vm = (case src of
       UPK_VALUE taken \<Rightarrow> success (\<not> taken) vm
     | UPK_TUPLE a i \<Rightarrow> do { arr \<leftarrow> as_array (get_obj vm a); success (i < ar_size arr) vm }
     | UPK_ITERATOR hasNext _ \<Rightarrow>
         and_then (call_bound m run hasNext vm) (\<lambda>v vm. do { b \<leftarrow> as_bool v; success b vm }))"

definition unpack_value :: "machine_env \<Rightarrow> interpreter \<Rightarrow> val \<Rightarrow> unpack_source \<Rightarrow> vm \<Rightarrow> (val \<times> unpack_source) outcome" where
  "unpack_value m run v src vm = (case src of
       UPK_VALUE _ \<Rightarrow> success (v, UPK_VALUE True) vm
     | UPK_TUPLE a i \<Rightarrow> do { arr \<leftarrow> as_array (get_obj vm a); x \<leftarrow> arrayAt arr (int i); success (x, UPK_TUPLE a (Suc i)) vm }
     | UPK_ITERATOR _ nxt \<Rightarrow> and_then (call_bound m run nxt vm) (\<lambda>x. success (x, src)))"

partial_function (option) expand_loop ::
  "machine_env \<Rightarrow> interpreter \<Rightarrow> val \<Rightarrow> unpack_source \<Rightarrow> nat \<Rightarrow> vm \<Rightarrow> ((native_error + nat) \<times> vm) option" where
  "expand_loop m run v src n vm =
     do { (more, vm) \<leftarrow> unpack_more m run src vm;
          case more of
            Inl e \<Rightarrow> Some (Inl e, vm)
          | Inr continues \<Rightarrow>
              if \<not> continues then Some (Inr n, vm)
              else do { (x, vm) \<leftarrow> unpack_value m run v src vm;
                        case x of
                          Inl e \<Rightarrow> Some (Inl e, vm)
                        | Inr w \<Rightarrow> expand_loop m run v (snd w) (Suc n) (push_value m (fst w) vm) } }"

declare expand_loop.simps [code]

text \<open>
  The number of expanded values, added to that of earlier expansions, is left on top of them.  When a
  call of the iterator throws, the exception is left there instead and \<open>error\<close> is not
  raised.
\<close>

definition vm_expand :: "machine_env \<Rightarrow> nat \<Rightarrow> interpreter \<Rightarrow> bool \<Rightarrow> vm \<Rightarrow> unit outcome" where
  "vm_expand m handling run firstExpansion vm =
     do { (prevVarArgs, vm) \<leftarrow> (if firstExpansion then Some (0, vm)
             else do { (v, vm) \<leftarrow> pop_value m vm; n \<leftarrow> int_of_number v; n \<leftarrow> n; Some (n, vm) });
          (expandable, vm) \<leftarrow> pop_value m vm;
          height \<leftarrow> temps_height m vm;
          (bound, vm) \<leftarrow> unpack_bind m expandable (pushTemp (mx_fiber m) expandable vm);
          case bound of
            Inl e \<Rightarrow> Some (Inl e, release_to m height vm)
          | Inr src \<Rightarrow>
              do { (r, vm) \<leftarrow> expand_loop m run expandable src 0 vm;
                   case r of
                     Inl e \<Rightarrow> do { vm \<leftarrow> raise_error m handling e vm; success () (release_to m height vm) }
                   | Inr numExpanded \<Rightarrow>
                       success () (release_to m height
                         (push_value m (VNumber (dbl_of_int (prevVarArgs + int numExpanded))) vm)) } }"

text \<open>The destinations are read from the code one after the other; missing values are \<open>nil\<close>.\<close>

fun unpack_vars :: "machine_env \<Rightarrow> interpreter \<Rightarrow> val \<Rightarrow> nat \<Rightarrow> unpack_source \<Rightarrow> bool \<Rightarrow> vm \<Rightarrow> unit outcome" where
  "unpack_vars m run v 0 src hasNext vm = success () vm"
| "unpack_vars m run v (Suc n) src hasNext vm =
     and_then (if hasNext
               then and_then (unpack_value m run v src vm) (\<lambda>(x, src) vm.
                      and_then (unpack_more m run src vm) (\<lambda>more. success (x, src, more)))
               else success (VNil, src, False) vm)
       (\<lambda>(x, src, hasNext) vm.
         do { (varType, vm) \<leftarrow> read_byte m vm;
              if varType = scope_code VAR_LOCAL
              then do { (slot, vm) \<leftarrow> read_byte m vm;
                        (postArgs, vm) \<leftarrow> read_flag m vm;
                        vm \<leftarrow> store_local m slot postArgs x vm;
                        unpack_vars m run v n src hasNext vm }
              else if varType = scope_code VAR_UPVALUE
              then do { (slot, vm) \<leftarrow> read_byte m vm;
                        vm \<leftarrow> store_upvalue m slot x vm;
                        unpack_vars m run v n src hasNext vm }
              else if varType = scope_code VAR_GLOBAL
              then do { (globalIdx, vm) \<leftarrow> read_ushort m vm;
                        vm \<leftarrow> store_global globalIdx x vm;
                        unpack_vars m run v n src hasNext vm }
              else if varType = scope_code VAR_BUILTIN then raises ''Cannot override builtins'' vm
              else unpack_vars m run v n src hasNext vm })"

definition doUnpack :: "machine_env \<Rightarrow> interpreter \<Rightarrow> vm \<Rightarrow> unit outcome" where
  "doUnpack m run vm =
     do { (numVars, vm) \<leftarrow> read_byte m vm;
          v \<leftarrow> stack_at m 0 vm;
          height \<leftarrow> temps_height m vm;
          (r, vm) \<leftarrow> and_then (unpack_bind m v vm) (\<lambda>src vm.
                       and_then (unpack_more m run src vm) (\<lambda>more vm.
                         and_then (unpack_vars m run v numVars src more vm) (\<lambda>_ vm.
                           do { (_, vm) \<leftarrow> pop_value m vm; success () vm })));
          Some (r, release_to m height vm) }"

section \<open>Iteration\<close>

definition find_iterator :: "machine_env \<Rightarrow> interpreter \<Rightarrow> vm \<Rightarrow> addr option outcome" where
  "find_iterator m run vm =
     do { iterableVal \<leftarrow> stack_at m 0 vm;
          (it, vm) \<leftarrow> as_iterator m iterableVal vm;
          case it of
            Some a \<Rightarrow> do { (_, vm) \<leftarrow> pop_value m vm; success (Some a) vm }
          | None \<Rightarrow>
              do { clazz \<leftarrow> classOfFollowInstance m vm iterableVal;
                   case clazz of
                     None \<Rightarrow> success None vm
                   | Some c \<Rightarrow>
                       do { (fits, vm) \<leftarrow> instance_of (bi_iterable (mx_builtins m)) c vm;
                            if \<not> fits then success None vm
                            else and_then (class_bind m c (bi_iteratorStr (mx_builtins m)) vm) (\<lambda>_ vm.
                                   and_then (runCall m run 0 vm) (\<lambda>iteratorVal vm.
                                     do { (_, vm) \<leftarrow> pop_value m vm;
                                          (it, vm) \<leftarrow> as_iterator m iteratorVal vm;
                                          success it vm })) } } }"

definition foreachInit :: "machine_env \<Rightarrow> interpreter \<Rightarrow> vm \<Rightarrow> unit outcome" where
  "foreachInit m run vm =
     do { (hasNextSlot, vm) \<leftarrow> read_byte m vm;
          (hasNextPostArgs, vm) \<leftarrow> read_flag m vm;
          (nextSlot, vm) \<leftarrow> read_byte m vm;
          (nextPostArgs, vm) \<leftarrow> read_flag m vm;
          and_then (find_iterator m run vm) (\<lambda>it vm. case it of
              None \<Rightarrow> raises ''Attempt to iterate non-iterable value'' vm
            | Some iterator \<Rightarrow>
                and_then (iterator_method m iterator (bi_hasNextStr (mx_builtins m)) vm) (\<lambda>hasNext vm.
                  do { vm \<leftarrow> store_local m hasNextSlot hasNextPostArgs hasNext vm;
                       and_then (iterator_method m iterator (bi_nextStr (mx_builtins m)) vm) (\<lambda>nxt vm.
                         do { vm \<leftarrow> store_local m nextSlot nextPostArgs nxt vm; success () vm }) })) }"

section \<open>Modules\<close>

definition set_modules :: "table \<Rightarrow> vm \<Rightarrow> vm" where
  "set_modules t vm = vm\<lparr>vm_modules := t\<rparr>"

text \<open>The loaders are asked in turn; the first that knows the module yields the function to run.\<close>

fun load_module ::
  "machine_env \<Rightarrow> interpreter \<Rightarrow> addr \<Rightarrow> byte list \<Rightarrow> (byte list \<Rightarrow> vm \<Rightarrow> val outcome) list \<Rightarrow> vm \<Rightarrow> unit outcome" where
  "load_module m run moduleName name [] vm = raises ''Could not find module'' vm"
| "load_module m run moduleName name (loader # loaders) vm =
     and_then (loader name vm) (\<lambda>callable vm.
       if callable = VNil then load_module m run moduleName name loaders vm
       else do { (raised, vm) \<leftarrow> vm_tableSet (mx_mem m) (mx_env m) (\<lambda>vm. Some (vm_modules vm)) set_modules
                                   moduleName (VBool True) (push_value m callable vm);
                 if raised then Some (Inl OutOfMemory, vm)
                 else and_then (runCall m run 0 vm) (\<lambda>_ vm.
                        do { (_, vm) \<leftarrow> pop_value m vm; success () vm }) })"

fun push_symbols :: "machine_env \<Rightarrow> nat list \<Rightarrow> vm \<Rightarrow> vm option" where
  "push_symbols m [] vm = Some vm"
| "push_symbols m (i # is) vm =
     do { v \<leftarrow> global_at i vm;
          push_symbols m is (push_value m (if v = VUndefined then VNil else v) vm) }"

definition import_module :: "machine_env \<Rightarrow> interpreter \<Rightarrow> addr \<Rightarrow> nat list \<Rightarrow> vm \<Rightarrow> unit outcome" where
  "import_module m run moduleName symbols vm =
     do { name \<leftarrow> AS_STRING (vm_heap vm) (VObj moduleName);
          let hp = str_view (vm_heap vm);
          loaded \<leftarrow> tableFindString hp (vm_modules vm) name (os_hash (hp moduleName));
          and_then (if loaded = None then load_module m run moduleName name (mx_loaders m) vm else success () vm)
            (\<lambda>_ vm. do { vm \<leftarrow> push_symbols m symbols vm; success () vm }) }"

fun read_ushorts :: "machine_env \<Rightarrow> nat \<Rightarrow> vm \<Rightarrow> (nat list \<times> vm) option" where
  "read_ushorts m 0 vm = Some ([], vm)"
| "read_ushorts m (Suc n) vm =
     do { (i, vm) \<leftarrow> read_ushort m vm; (is, vm) \<leftarrow> read_ushorts m n vm; Some (i # is, vm) }"

end
