(* ===== verification/Interpreter.thy ===== *)
theory Interpreter
  imports Operations
begin

text \<open>
  The interpreter loop (\<open>run\<close> of \<open>vm.c\<close>): one definition for each instruction, the
  propagation of exceptions through the frames, the loop itself and \<open>interpret\<close>'s use of it.
  An instruction that raises an error answers it as a value; the loop then goes to its label
  \<open>throwException\<close>.
\<close>

section \<open>Constants and the stack\<close>

definition op_const8 :: "machine_env \<Rightarrow> vm \<Rightarrow> unit outcome" where
  "op_const8 m vm =
     do { (i, vm) \<leftarrow> read_byte m vm; v \<leftarrow> constant_at m i vm; success () (push_value m v vm) }"

definition op_const16 :: "machine_env \<Rightarrow> vm \<Rightarrow> unit outcome" where
  "op_const16 m vm = do { (v, vm) \<leftarrow> read_const16 m vm; success () (push_value m v vm) }"

definition op_immi :: "machine_env \<Rightarrow> vm \<Rightarrow> unit outcome" where
  "op_immi m vm = do { (i, vm) \<leftarrow> read_int m vm; success () (push_value m (VNumber (dbl_of_int i)) vm) }"

definition op_push :: "machine_env \<Rightarrow> val \<Rightarrow> vm \<Rightarrow> unit outcome" where
  "op_push m v vm = success () (push_value m v vm)"

definition op_pop :: "machine_env \<Rightarrow> vm \<Rightarrow> unit outcome" where
  "op_pop m vm = do { (_, vm) \<leftarrow> pop_value m vm; success () vm }"

definition op_popn :: "machine_env \<Rightarrow> vm \<Rightarrow> unit outcome" where
  "op_popn m vm = do { (n, vm) \<leftarrow> read_byte m vm; vm \<leftarrow> drop_values m n vm; success () vm }"

definition op_swap :: "machine_env \<Rightarrow> vm \<Rightarrow> unit outcome" where
  "op_swap m vm =
     do { (b, vm) \<leftarrow> pop_value m vm;
          (a, vm) \<leftarrow> pop_value m vm;
          success () (push_value m a (push_value m b vm)) }"

definition op_num_varargs :: "machine_env \<Rightarrow> vm \<Rightarrow> unit outcome" where
  "op_num_varargs m vm =
     do { fr \<leftarrow> active_frame (mx_fiber m) vm;
          success () (push_value m (VNumber (dbl_of_int (int (cf_varArgs fr)))) vm) }"

definition op_expand_varargs :: "machine_env \<Rightarrow> vm \<Rightarrow> unit outcome" where
  "op_expand_varargs m vm =
     do { (firstExpansion, vm) \<leftarrow> read_flag m vm;
          fr \<leftarrow> active_frame (mx_fiber m) vm;
          f \<leftarrow> active_fiber (mx_fiber m) vm;
          st \<leftarrow> expandVarArgs fr firstExpansion (fb_stack f);
          success () (upd_fiber (mx_fiber m) (fb_stack_update (\<lambda>_. st)) vm) }"

definition op_expand :: "machine_env \<Rightarrow> nat \<Rightarrow> interpreter \<Rightarrow> vm \<Rightarrow> unit outcome" where
  "op_expand m handling run vm =
     do { (firstExpansion, vm) \<leftarrow> read_flag m vm; vm_expand m handling run firstExpansion vm }"

definition op_peek :: "machine_env \<Rightarrow> vm \<Rightarrow> unit outcome" where
  "op_peek m vm =
     do { (offset, vm) \<leftarrow> read_byte m vm; v \<leftarrow> stack_at m (int offset) vm; success () (push_value m v vm) }"

section \<open>Variables\<close>

text \<open>A slot of the frame; what lies above the top of the stack is not specified.\<close>

definition frame_slot :: "machine_env \<Rightarrow> nat \<Rightarrow> vm \<Rightarrow> val option" where
  "frame_slot m i vm = do { f \<leftarrow> active_fiber (mx_fiber m) vm; nth_opt (fb_stack f) i }"

definition op_get_local :: "machine_env \<Rightarrow> vm \<Rightarrow> unit outcome" where
  "op_get_local m vm =
     do { (slot, vm) \<leftarrow> read_byte m vm;
          (postArgs, vm) \<leftarrow> read_flag m vm;
          fr \<leftarrow> active_frame (mx_fiber m) vm;
          v \<leftarrow> frame_slot m (local_slot fr slot postArgs) vm;
          success () (push_value m v vm) }"

definition op_set_local :: "machine_env \<Rightarrow> vm \<Rightarrow> unit outcome" where
  "op_set_local m vm =
     do { (slot, vm) \<leftarrow> read_byte m vm;
          (postArgs, vm) \<leftarrow> read_flag m vm;
          v \<leftarrow> stack_at m 0 vm;
          vm \<leftarrow> store_local m slot postArgs v vm;
          success () vm }"

text \<open>
  The index of a variable argument is not checked against their number: it addresses any slot of the
  stack.
\<close>

definition vararg_slot :: "call_frame \<Rightarrow> int \<Rightarrow> nat option" where
  "vararg_slot fr index =
     (let i = int (cf_slots fr) + int (cf_fixedArgs fr) + index + 1 in if i < 0 then None else Some (nat i))"

definition op_get_vararg :: "machine_env \<Rightarrow> vm \<Rightarrow> unit outcome" where
  "op_get_vararg m vm =
     do { (indexVal, vm) \<leftarrow> pop_value m vm;
          index \<leftarrow> int_of_number indexVal;
          case index of
            None \<Rightarrow> raises ''Arg index is not a number'' vm
          | Some i \<Rightarrow>
              do { fr \<leftarrow> active_frame (mx_fiber m) vm;
                   slot \<leftarrow> vararg_slot fr i;
                   v \<leftarrow> frame_slot m slot vm;
                   success () (push_value m v vm) } }"

definition op_set_vararg :: "machine_env \<Rightarrow> vm \<Rightarrow> unit outcome" where
  "op_set_vararg m vm =
     do { indexVal \<leftarrow> stack_at m 1 vm;
          index \<leftarrow> int_of_number indexVal;
          case index of
            None \<Rightarrow> raises ''Arg index is not a number'' vm
          | Some i \<Rightarrow>
              do { (v, vm) \<leftarrow> pop_value m vm;
                   fr \<leftarrow> active_frame (mx_fiber m) vm;
                   slot \<leftarrow> vararg_slot fr i;
                   vm \<leftarrow> store_slot m slot v vm;
                   (_, vm) \<leftarrow> pop_value m vm;
                   success () (push_value m v vm) } }"

definition op_get_global :: "machine_env \<Rightarrow> vm \<Rightarrow> unit outcome" where
  "op_get_global m vm =
     do { (i, vm) \<leftarrow> read_ushort m vm;
          v \<leftarrow> global_at i vm;
          if v = VUndefined then raises ''Undefined global variable'' vm else success () (push_value m v vm) }"

definition op_get_builtin :: "machine_env \<Rightarrow> vm \<Rightarrow> unit outcome" where
  "op_get_builtin m vm =
     do { (i, vm) \<leftarrow> read_ushort m vm;
          v \<leftarrow> nth_opt (va_values (vm_builtinValues vm)) i;
          success () (push_value m v vm) }"

definition op_define_global :: "machine_env \<Rightarrow> vm \<Rightarrow> unit outcome" where
  "op_define_global m vm =
     do { (i, vm) \<leftarrow> read_ushort m vm;
          (v, vm) \<leftarrow> pop_value m vm;
          vm \<leftarrow> store_global i v vm;
          success () vm }"

definition op_set_global :: "machine_env \<Rightarrow> vm \<Rightarrow> unit outcome" where
  "op_set_global m vm =
     do { (i, vm) \<leftarrow> read_ushort m vm;
          old \<leftarrow> global_at i vm;
          if old = VUndefined then raises ''Undefined global variable'' vm
          else do { v \<leftarrow> stack_at m 0 vm; vm \<leftarrow> store_global i v vm; success () vm } }"

definition op_get_upvalue :: "machine_env \<Rightarrow> vm \<Rightarrow> unit outcome" where
  "op_get_upvalue m vm =
     do { (slot, vm) \<leftarrow> read_byte m vm;
          u \<leftarrow> frame_upvalue m slot vm;
          f \<leftarrow> active_fiber (mx_fiber m) vm;
          v \<leftarrow> get_upvalue (fb_stack f) u (vm_heap vm);
          success () (push_value m v vm) }"

definition op_set_upvalue :: "machine_env \<Rightarrow> vm \<Rightarrow> unit outcome" where
  "op_set_upvalue m vm =
     do { (slot, vm) \<leftarrow> read_byte m vm;
          v \<leftarrow> stack_at m 0 vm;
          vm \<leftarrow> store_upvalue m slot v vm;
          success () vm }"

section \<open>Members\<close>

definition op_get_prop :: "machine_env \<Rightarrow> vm \<Rightarrow> unit outcome" where
  "op_get_prop m vm = do { (name, vm) \<leftarrow> read_string16 m vm; getProperty m name vm }"

text \<open>The instance below \<open>n\<close> values, with its address.\<close>

definition instance_at :: "machine_env \<Rightarrow> int \<Rightarrow> vm \<Rightarrow> (addr \<times> obj_instance) option" where
  "instance_at m n vm =
     do { v \<leftarrow> stack_at m n vm; a \<leftarrow> val_ref v; inst \<leftarrow> as_instance (get_obj vm a); Some (a, inst) }"

definition op_get_member_prop :: "machine_env \<Rightarrow> vm \<Rightarrow> unit outcome" where
  "op_get_member_prop m vm =
     do { (propRef, vm) \<leftarrow> read_ushort m vm;
          (_, inst) \<leftarrow> instance_at m 0 vm;
          fn \<leftarrow> frame_function m vm;
          parentClass \<leftarrow> fn_parentClass fn;
          r \<leftarrow> member_ref_at parentClass (propRef + fn_refOffset fn) vm;
          prop \<leftarrow> resolveRef r inst;
          replace_operands m 1 prop vm }"

definition op_set_member_prop :: "machine_env \<Rightarrow> vm \<Rightarrow> unit outcome" where
  "op_set_member_prop m vm =
     do { (propRef, vm) \<leftarrow> read_ushort m vm;
          (a, _) \<leftarrow> instance_at m 1 vm;
          fn \<leftarrow> frame_function m vm;
          parentClass \<leftarrow> fn_parentClass fn;
          v \<leftarrow> stack_at m 0 vm;
          vm \<leftarrow> store_ref parentClass (propRef + fn_refOffset fn) a v vm;
          replace_operands m 2 v vm }"

definition op_map_get :: "machine_env \<Rightarrow> vm \<Rightarrow> unit outcome" where
  "op_map_get m vm =
     do { instanceVal \<leftarrow> stack_at m 0 vm;
          (name, vm) \<leftarrow> read_string16 m vm;
          ob \<leftarrow> object_of vm instanceVal;
          case ob of
            Some (OHashMap t) \<Rightarrow> and_then (map_lookup m t (VObj name) vm) (replace_operands m 1)
          | _ \<Rightarrow> raises ''Argument is not a map'' vm }"

definition op_map_set :: "machine_env \<Rightarrow> vm \<Rightarrow> unit outcome" where
  "op_map_set m vm =
     do { instanceVal \<leftarrow> stack_at m 1 vm;
          ob \<leftarrow> object_of vm instanceVal;
          case (instanceVal, ob) of
            (VObj a, Some (OHashMap _)) \<Rightarrow>
              do { (index, vm) \<leftarrow> read_string16 m vm;
                   v \<leftarrow> stack_at m 0 vm;
                   and_then (vm_valueTableSet m a (VObj index) v vm) (\<lambda>_. replace_operands m 2 v) }
          | _ \<Rightarrow> raises ''Argument is not a map'' vm }"

definition op_set_property :: "machine_env \<Rightarrow> vm \<Rightarrow> unit outcome" where
  "op_set_property m vm =
     do { instanceVal \<leftarrow> stack_at m 1 vm;
          ob \<leftarrow> object_of vm instanceVal;
          case ob of
            Some (OInstance _) \<Rightarrow> do { (fieldName, vm) \<leftarrow> read_string16 m vm; op_set_prop (mx_fiber m) fieldName vm }
          | _ \<Rightarrow> raises ''Only instances have fields'' vm }"

text \<open>The references of an instance's class, as the method that runs sees them.\<close>

definition own_ref :: "machine_env \<Rightarrow> nat \<Rightarrow> obj_instance \<Rightarrow> vm \<Rightarrow> member_ref option" where
  "own_ref m propRef inst vm =
     do { fn \<leftarrow> frame_function m vm; member_ref_at (in_clazz inst) (propRef + fn_refOffset fn) vm }"

definition op_get_super :: "machine_env \<Rightarrow> vm \<Rightarrow> unit outcome" where
  "op_get_super m vm =
     do { (propRef, vm) \<leftarrow> read_ushort m vm;
          (a, inst) \<leftarrow> instance_at m 0 vm;
          r \<leftarrow> own_ref m propRef inst vm;
          method \<leftarrow> resolveRef r inst;
          ma \<leftarrow> val_ref method;
          (bound, vm) \<leftarrow> newBoundMethod (mx_mem m) (mx_env m) (VObj a) ma vm;
          case bound of
            None \<Rightarrow> Some (Inl OutOfMemory, vm)
          | Some b \<Rightarrow> replace_operands m 1 (VObj b) vm }"

section \<open>Operators\<close>

text \<open>The order of doubles: sign and magnitude, with both zeros equal and NaN unordered.\<close>

definition dbl_key :: "dbl \<Rightarrow> int" where
  "dbl_key d = (let mag = int (unat d mod 2 ^ 63) in if dbl_neg d then - mag else mag)"

definition dbl_less :: "dbl \<Rightarrow> dbl \<Rightarrow> bool" where
  "dbl_less a b \<longleftrightarrow> \<not> dbl_is_nan a \<and> \<not> dbl_is_nan b \<and> dbl_key a < dbl_key b"

definition dbl_minus :: "dbl \<Rightarrow> dbl" where
  "dbl_minus d = d XOR 2 ^ 63"

definition op_equal :: "machine_env \<Rightarrow> vm \<Rightarrow> unit outcome" where
  "op_equal m vm =
     do { (b, vm) \<leftarrow> pop_value m vm;
          (a, vm) \<leftarrow> pop_value m vm;
          case valuesEquals (mx_equals m) (vm_heap vm) a b of
            None \<Rightarrow> user_throws m vm
          | Some eq \<Rightarrow> success () (push_value m (VBool eq) vm) }"

text \<open>\<open>BINARY_OP\<close>: the operands stay on the stack when they are not numbers.\<close>

definition binary_op :: "machine_env \<Rightarrow> (dbl \<Rightarrow> dbl \<Rightarrow> val) \<Rightarrow> vm \<Rightarrow> unit outcome" where
  "binary_op m f vm =
     do { bVal \<leftarrow> stack_at m 0 vm;
          aVal \<leftarrow> stack_at m 1 vm;
          case (aVal, bVal) of
            (VNumber a, VNumber b) \<Rightarrow>
              do { (_, vm) \<leftarrow> pop_value m vm;
                   (_, vm) \<leftarrow> pop_value m vm;
                   success () (push_value m (f a b) vm) }
          | _ \<Rightarrow> raises ''Operands must be numbers'' vm }"

definition op_greater :: "machine_env \<Rightarrow> vm \<Rightarrow> unit outcome" where
  "op_greater m = binary_op m (\<lambda>a b. VBool (dbl_less b a))"

definition op_less :: "machine_env \<Rightarrow> vm \<Rightarrow> unit outcome" where
  "op_less m = binary_op m (\<lambda>a b. VBool (dbl_less a b))"

text \<open>Subtraction, multiplication, division and modulo, by their opcodes.\<close>

definition op_arith :: "machine_env \<Rightarrow> nat \<Rightarrow> vm \<Rightarrow> unit outcome" where
  "op_arith m oc = binary_op m (\<lambda>a b. VNumber (mx_arith m oc a b))"

definition op_add :: "machine_env \<Rightarrow> vm \<Rightarrow> unit outcome" where
  "op_add m vm =
     do { bVal \<leftarrow> stack_at m 0 vm;
          aVal \<leftarrow> stack_at m 1 vm;
          bOb \<leftarrow> object_of vm bVal;
          aOb \<leftarrow> object_of vm aVal;
          case (aVal, bVal) of
            (VNumber a, VNumber b) \<Rightarrow> op_arith m OP_ADD vm
          | _ \<Rightarrow>
              (case (aOb, bOb) of
                 (Some (OString _ _), Some (OString _ _)) \<Rightarrow> concatenate m vm
               | _ \<Rightarrow> raises ''Operands must be two numbers or two strings'' vm) }"

text \<open>A value without a class leaves no result on the stack.\<close>

definition op_instanceof :: "machine_env \<Rightarrow> vm \<Rightarrow> unit outcome" where
  "op_instanceof m vm =
     do { klassVal \<leftarrow> stack_at m 0 vm;
          klass \<leftarrow> is_klass vm klassVal;
          case klass of
            None \<Rightarrow> raises ''Right-hand operand must be a class or interface'' vm
          | Some T \<Rightarrow>
              do { (_, vm) \<leftarrow> pop_value m vm;
                   (v, vm) \<leftarrow> pop_value m vm;
                   instClass \<leftarrow> classOfFollowInstance m vm v;
                   case instClass of
                     None \<Rightarrow> success () vm
                   | Some S \<Rightarrow> do { (b, vm) \<leftarrow> instance_of T S vm; success () (push_value m (VBool b) vm) } } }"

definition op_not :: "machine_env \<Rightarrow> vm \<Rightarrow> unit outcome" where
  "op_not m vm = do { (v, vm) \<leftarrow> pop_value m vm; success () (push_value m (VBool (isFalsey v)) vm) }"

definition op_negate :: "machine_env \<Rightarrow> vm \<Rightarrow> unit outcome" where
  "op_negate m vm =
     do { v \<leftarrow> stack_at m 0 vm;
          case v of
            VNumber d \<Rightarrow> do { (_, vm) \<leftarrow> pop_value m vm; success () (push_value m (VNumber (dbl_minus d)) vm) }
          | _ \<Rightarrow> raises ''Operand must be a number'' vm }"

section \<open>Jumps\<close>

definition jump_by :: "machine_env \<Rightarrow> int \<Rightarrow> vm \<Rightarrow> unit outcome" where
  "jump_by m offset vm =
     do { fr \<leftarrow> active_frame (mx_fiber m) vm;
          let target = int (cf_ip fr) + offset;
          if target < 0 then None
          else success () (upd_frame (mx_fiber m) (cf_ip_update (\<lambda>_. nat target)) vm) }"

definition op_jump :: "machine_env \<Rightarrow> vm \<Rightarrow> unit outcome" where
  "op_jump m vm = do { (offset, vm) \<leftarrow> read_ushort m vm; jump_by m (int offset) vm }"

definition op_jump_if_false :: "machine_env \<Rightarrow> vm \<Rightarrow> unit outcome" where
  "op_jump_if_false m vm =
     do { (offset, vm) \<leftarrow> read_ushort m vm;
          v \<leftarrow> stack_at m 0 vm;
          if isFalsey v then jump_by m (int offset) vm else success () vm }"

definition op_loop :: "machine_env \<Rightarrow> vm \<Rightarrow> unit outcome" where
  "op_loop m vm = do { (offset, vm) \<leftarrow> read_ushort m vm; jump_by m (- int offset) vm }"

section \<open>Calls\<close>

text \<open>The arguments of a call: a fixed number, and the count that expansions have left on the stack.\<close>

definition add_expansions :: "machine_env \<Rightarrow> nat \<Rightarrow> bool \<Rightarrow> vm \<Rightarrow> (int \<times> vm) option" where
  "add_expansions m argCount hasExpansions vm =
     (if hasExpansions
      then do { (v, vm) \<leftarrow> pop_value m vm; n \<leftarrow> int_of_number v; n \<leftarrow> n; Some (int argCount + n, vm) }
      else Some (int argCount, vm))"

definition read_arguments :: "machine_env \<Rightarrow> vm \<Rightarrow> (int \<times> vm) option" where
  "read_arguments m vm =
     do { (argCount, vm) \<leftarrow> read_byte m vm;
          (hasExpansions, vm) \<leftarrow> read_flag m vm;
          add_expansions m argCount hasExpansions vm }"

definition op_call :: "machine_env \<Rightarrow> vm \<Rightarrow> unit outcome" where
  "op_call m vm =
     do { (argCount, vm) \<leftarrow> read_arguments m vm;
          callee \<leftarrow> stack_at m argCount vm;
          called (callValue m callee argCount vm) }"

definition op_invoke :: "machine_env \<Rightarrow> vm \<Rightarrow> unit outcome" where
  "op_invoke m vm =
     do { (method, vm) \<leftarrow> read_string16 m vm;
          (argCount, vm) \<leftarrow> read_arguments m vm;
          invoke m method argCount vm }"

definition op_member_invoke :: "machine_env \<Rightarrow> vm \<Rightarrow> unit outcome" where
  "op_member_invoke m vm =
     do { (propRef, vm) \<leftarrow> read_ushort m vm;
          (argCount, vm) \<leftarrow> read_arguments m vm;
          (_, inst) \<leftarrow> instance_at m argCount vm;
          r \<leftarrow> own_ref m propRef inst vm;
          method \<leftarrow> resolveRef r inst;
          invokeMember m method (mr_refType r = REFTYPE_CLASS_MEMBER) argCount vm }"

text \<open>Without an instance only a reference to a member of the class can be resolved.\<close>

definition op_super_invoke :: "machine_env \<Rightarrow> vm \<Rightarrow> unit outcome" where
  "op_super_invoke m vm =
     do { (propRef, vm) \<leftarrow> read_ushort m vm;
          (argCount, vm) \<leftarrow> read_arguments m vm;
          (_, inst) \<leftarrow> instance_at m argCount vm;
          r \<leftarrow> own_ref m propRef inst vm;
          method \<leftarrow> (if mr_refType r = REFTYPE_CLASS_MEMBER then resolveRef r inst else None);
          invokeMember m method True argCount vm }"

text \<open>
  The value that \<open>pop\<close> removes at the end is the result of a native initializer, or the last
  argument of one whose frame has just been set up or that is not there.
\<close>

definition op_super_init :: "machine_env \<Rightarrow> vm \<Rightarrow> unit outcome" where
  "op_super_init m vm =
     do { (argCount, vm) \<leftarrow> read_byte m vm;
          (hasExpansions, vm) \<leftarrow> read_flag m vm;
          (superVal, vm) \<leftarrow> pop_value m vm;
          (_, superclass) \<leftarrow> AS_CLASS vm superVal;
          and_then (if cs_initializer superclass = VNil then success () vm
                    else do { initializer \<leftarrow> val_ref (cs_initializer superclass);
                              (argCount, vm) \<leftarrow> add_expansions m argCount hasExpansions vm;
                              called (call_method m initializer argCount 0 vm) })
            (\<lambda>_ vm. do { (_, vm) \<leftarrow> pop_value m vm; success () vm }) }"

section \<open>Functions, classes and aggregates\<close>

fun read_captures :: "machine_env \<Rightarrow> nat \<Rightarrow> vm \<Rightarrow> ((bool \<times> nat) list \<times> vm) option" where
  "read_captures m 0 vm = Some ([], vm)"
| "read_captures m (Suc n) vm =
     do { (isLocal, vm) \<leftarrow> read_flag m vm;
          (index, vm) \<leftarrow> read_byte m vm;
          (ops, vm) \<leftarrow> read_captures m n vm;
          Some ((isLocal, index) # ops, vm) }"

definition op_make_closure :: "machine_env \<Rightarrow> vm \<Rightarrow> unit outcome" where
  "op_make_closure m vm =
     do { (v, vm) \<leftarrow> read_const16 m vm;
          fa \<leftarrow> val_ref v;
          fn \<leftarrow> as_function (get_obj vm fa);
          (ops, vm) \<leftarrow> read_captures m (fn_upvalueCount fn) vm;
          op_closure (mx_mem m) (mx_env m) (mx_fiber m) fa ops vm }"

definition op_close_upvalue :: "machine_env \<Rightarrow> vm \<Rightarrow> unit outcome" where
  "op_close_upvalue m vm =
     do { f \<leftarrow> active_fiber (mx_fiber m) vm;
          if fb_stack f = [] then None
          else do { vm \<leftarrow> closeUpvalues (mx_fiber m) (length (fb_stack f) - 1) vm;
                    (_, vm) \<leftarrow> pop_value m vm;
                    success () vm } }"

text \<open>The object an instruction has created, or exhaustion of the memory.\<close>

definition push_created :: "machine_env \<Rightarrow> (addr option \<times> vm) option \<Rightarrow> unit outcome" where
  "push_created m r =
     do { (created, vm) \<leftarrow> r;
          case created of None \<Rightarrow> Some (Inl OutOfMemory, vm) | Some a \<Rightarrow> success () (push_value m (VObj a) vm) }"

definition op_intf :: "machine_env \<Rightarrow> vm \<Rightarrow> unit outcome" where
  "op_intf m vm =
     do { (name, vm) \<leftarrow> read_string16 m vm; push_created m (newInterface (mx_mem m) (mx_env m) name vm) }"

definition op_class :: "machine_env \<Rightarrow> vm \<Rightarrow> unit outcome" where
  "op_class m vm =
     do { (name, vm) \<leftarrow> read_string16 m vm;
          (abstract, vm) \<leftarrow> read_flag m vm;
          push_created m (newClass (mx_mem m) (mx_env m) (mx_fiber m) (mx_anonymous m vm) name abstract vm) }"

text \<open>The number of interfaces is encoded plus one, in a byte.\<close>

definition op_inherit :: "machine_env \<Rightarrow> vm \<Rightarrow> unit outcome" where
  "op_inherit m vm =
     do { (n, vm) \<leftarrow> read_byte m vm;
          (numSlots, vm) \<leftarrow> read_ushort m vm;
          inherit (mx_mem m) (mx_env m) (mx_fiber m) ((n + 255) mod 256) numSlots vm }"

definition op_abs_method :: "machine_env \<Rightarrow> vm \<Rightarrow> unit outcome" where
  "op_abs_method m vm =
     do { (methodName, vm) \<leftarrow> read_string16 m vm;
          (parentOffset, vm) \<leftarrow> read_byte m vm;
          (arity, vm) \<leftarrow> read_byte m vm;
          (hasVarargs, vm) \<leftarrow> read_flag m vm;
          addAbstractMethod (mx_mem m) (mx_env m) (mx_fiber m) methodName parentOffset arity hasVarargs vm }"

definition op_method :: "machine_env \<Rightarrow> vm \<Rightarrow> unit outcome" where
  "op_method m vm =
     do { (name, vm) \<leftarrow> read_string16 m vm;
          defineMethod (mx_mem m) (mx_env m) (mx_fiber m) (bi_names (mx_builtins m)) name vm }"

definition op_field :: "machine_env \<Rightarrow> vm \<Rightarrow> unit outcome" where
  "op_field m vm =
     do { (name, vm) \<leftarrow> read_string16 m vm; defineField (mx_mem m) (mx_env m) (mx_fiber m) name vm }"

definition op_static :: "machine_env \<Rightarrow> vm \<Rightarrow> unit outcome" where
  "op_static m vm =
     do { (name, vm) \<leftarrow> read_string16 m vm; defineStatic (mx_mem m) (mx_env m) (mx_fiber m) name vm }"

fun read_slots :: "machine_env \<Rightarrow> nat \<Rightarrow> vm \<Rightarrow> ((nat \<times> addr \<times> nat) list \<times> vm) option" where
  "read_slots m 0 vm = Some ([], vm)"
| "read_slots m (Suc n) vm =
     do { (slotType, vm) \<leftarrow> read_byte m vm;
          (propName, vm) \<leftarrow> read_string16 m vm;
          (slot, vm) \<leftarrow> read_ushort m vm;
          (slots, vm) \<leftarrow> read_slots m n vm;
          Some ((slotType, propName, slot) # slots, vm) }"

definition op_close_class :: "machine_env \<Rightarrow> vm \<Rightarrow> unit outcome" where
  "op_close_class m vm =
     do { (numSlots, vm) \<leftarrow> read_ushort m vm;
          (slots, vm) \<leftarrow> read_slots m numSlots vm;
          closeClass (mx_fiber m) slots vm }"

definition op_array_build :: "machine_env \<Rightarrow> vm \<Rightarrow> unit outcome" where
  "op_array_build m vm =
     do { (tag, vm) \<leftarrow> read_byte m vm;
          (itemCount, vm) \<leftarrow> read_ushort m vm;
          if tag = obj_type_tag OBJ_ARRAY then buildArray m OBJ_ARRAY itemCount vm
          else if tag = obj_type_tag OBJ_TUPLE then buildArray m OBJ_TUPLE itemCount vm
          else None }"

definition op_map_build :: "machine_env \<Rightarrow> vm \<Rightarrow> unit outcome" where
  "op_map_build m vm = do { (itemCount, vm) \<leftarrow> read_ushort m vm; buildMap m itemCount vm }"

definition op_import :: "machine_env \<Rightarrow> interpreter \<Rightarrow> vm \<Rightarrow> unit outcome" where
  "op_import m run vm =
     do { (moduleName, vm) \<leftarrow> read_string16 m vm;
          (numArgs, vm) \<leftarrow> read_ushort m vm;
          (symbols, vm) \<leftarrow> read_ushorts m numArgs vm;
          import_module m run moduleName symbols vm }"

section \<open>Exception handlers\<close>

definition op_push_exh :: "machine_env \<Rightarrow> vm \<Rightarrow> unit outcome" where
  "op_push_exh m vm =
     do { (stackLevel, vm) \<leftarrow> read_byte m vm;
          (handlerTableAddress, vm) \<leftarrow> read_ushort m vm;
          pushExceptionHandler (mx_fiber m) stackLevel handlerTableAddress vm }"

text \<open>
  Unrolling runs the pending \<open>finally\<close> blocks; afterwards the loop continues at its own
  \<open>ip\<close>.  A block that leaves the function takes its frame away.
\<close>

definition frame_depth :: "machine_env \<Rightarrow> vm \<Rightarrow> nat option" where
  "frame_depth m vm = map_option (\<lambda>f. length (fb_frames f)) (active_fiber (mx_fiber m) vm)"

definition in_frame :: "machine_env \<Rightarrow> interpreter \<Rightarrow> interpreter" where
  "in_frame m run vm =
     do { (fine, vm') \<leftarrow> run vm;
          if fine \<and> frame_depth m vm' = frame_depth m vm then Some (fine, vm') else None }"

definition op_unroll_exh :: "machine_env \<Rightarrow> interpreter \<Rightarrow> bool \<Rightarrow> vm \<Rightarrow> unit outcome" where
  "op_unroll_exh m run restore vm =
     do { (newHandlerCount, vm) \<leftarrow> read_byte m vm;
          fr \<leftarrow> active_frame (mx_fiber m) vm;
          vm \<leftarrow> unrollExceptionHandlerStack (in_frame m run) (mx_fiber m) newHandlerCount restore vm;
          success () (upd_frame (mx_fiber m) (cf_ip_update (\<lambda>_. cf_ip fr)) vm) }"

text \<open>Raising the number of handlers would make stale entries valid.\<close>

definition op_unroll_exh_f :: "machine_env \<Rightarrow> vm \<Rightarrow> unit outcome" where
  "op_unroll_exh_f m vm =
     do { (newHandlerCount, vm) \<leftarrow> read_byte m vm;
          fr \<leftarrow> active_frame (mx_fiber m) vm;
          if newHandlerCount > length (cf_handlers fr) then None
          else success () (upd_frame (mx_fiber m) (cf_handlers_update (take newHandlerCount)) vm) }"

section \<open>Propagation of exceptions\<close>

text \<open>
  A handler table: its length, the address of the \<open>finally\<close> block (0: none), then six bytes for
  each \<open>catch\<close> clause: scope, flag and handle of the variable with the class, address of the
  handler.  A class that is not defined or not a class is an error while an exception is handled, which
  ends the process.
\<close>

definition code_byte :: "byte list \<Rightarrow> nat \<Rightarrow> nat option" where
  "code_byte code i = map_option unat (nth_opt code i)"

definition catch_type :: "machine_env \<Rightarrow> nat \<Rightarrow> bool \<Rightarrow> nat \<Rightarrow> vm \<Rightarrow> addr option" where
  "catch_type m typeVarType postArgs typeHandle vm =
     do { fr \<leftarrow> active_frame (mx_fiber m) vm;
          klassVal \<leftarrow> (if typeVarType = scope_code VAR_LOCAL
                        then frame_slot m (local_slot fr typeHandle postArgs) vm
                        else if typeVarType = scope_code VAR_UPVALUE
                        then do { u \<leftarrow> frame_upvalue m typeHandle vm;
                                  f \<leftarrow> active_fiber (mx_fiber m) vm;
                                  get_upvalue (fb_stack f) u (vm_heap vm) }
                        else if typeVarType = scope_code VAR_GLOBAL then global_at typeHandle vm
                        else if typeVarType = scope_code VAR_BUILTIN
                        then nth_opt (va_values (vm_builtinValues vm)) typeHandle
                        else Some VNil);
          klass \<leftarrow> is_klass vm klassVal;
          klass }"

fun find_clause :: "machine_env \<Rightarrow> addr \<Rightarrow> byte list \<Rightarrow> nat \<Rightarrow> nat \<Rightarrow> vm \<Rightarrow> (nat option \<times> vm) option" where
  "find_clause m exception code record 0 vm = Some (None, vm)"
| "find_clause m exception code record (Suc n) vm =
     do { typeVarType \<leftarrow> code_byte code record;
          postArgs \<leftarrow> code_byte code (record + 1);
          typeHandle \<leftarrow> code_u16 code (record + 2);
          handlerKlass \<leftarrow> catch_type m typeVarType (postArgs \<noteq> 0) typeHandle vm;
          inst \<leftarrow> as_instance (get_obj vm exception);
          (fits, vm) \<leftarrow> instance_of handlerKlass (in_clazz inst) vm;
          if fits then do { handlerAddress \<leftarrow> code_u16 code (record + 4); Some (Some handlerAddress, vm) }
          else find_clause m exception code (record + 6) n vm }"

definition enter_handler :: "machine_env \<Rightarrow> nat \<Rightarrow> nat \<Rightarrow> vm \<Rightarrow> vm option" where
  "enter_handler m n handlerAddress vm =
     do { fr \<leftarrow> active_frame (mx_fiber m) vm;
          tb \<leftarrow> nth_opt (cf_handlers fr) n;
          (exception, vm) \<leftarrow> pop_value m
            (upd_frame (mx_fiber m) (\<lambda>fr. fr\<lparr>cf_handlers := (cf_handlers fr)[n := tb\<lparr>tb_caught := True\<rparr>],
                                              cf_ip := handlerAddress\<rparr>) vm);
          vm \<leftarrow> cut_stack (mx_fiber m) (cf_slots fr + tb_stackOffset tb) vm;
          Some (push_value m exception vm) }"

definition run_finally :: "machine_env \<Rightarrow> interpreter \<Rightarrow> addr \<Rightarrow> try_block \<Rightarrow> nat \<Rightarrow> vm \<Rightarrow> vm option" where
  "run_finally m run exception tb finallyAddress vm =
     do { fr \<leftarrow> active_frame (mx_fiber m) vm;
          vm \<leftarrow> cut_stack (mx_fiber m) (cf_slots fr + tb_stackOffset tb)
                  (upd_frame (mx_fiber m) (cf_ip_update (\<lambda>_. finallyAddress)) vm);
          (_, vm) \<leftarrow> in_frame m run (pushTemp (mx_fiber m) (VObj exception) vm);
          Some (push_value m (VObj exception) (releaseTemps (mx_fiber m) 1 vm)) }"

text \<open>The handlers of the active frame from the innermost outwards: whether one has taken the exception.\<close>

fun search_handlers :: "machine_env \<Rightarrow> interpreter \<Rightarrow> addr \<Rightarrow> nat \<Rightarrow> vm \<Rightarrow> (bool \<times> vm) option" where
  "search_handlers m run exception 0 vm = Some (False, vm)"
| "search_handlers m run exception (Suc n) vm =
     do { fr \<leftarrow> active_frame (mx_fiber m) vm;
          code \<leftarrow> frame_code vm fr;
          tb \<leftarrow> nth_opt (cf_handlers fr) n;
          handlerTableSize \<leftarrow> code_byte code (tb_handlerDataOffset tb);
          finallyAddress \<leftarrow> code_u16 code (tb_handlerDataOffset tb + 1);
          (handler, vm) \<leftarrow> (if tb_caught tb then Some (None, vm)
                            else find_clause m exception code (tb_handlerDataOffset tb + 3) (handlerTableSize div 6) vm);
          case handler of
            Some handlerAddress \<Rightarrow> do { vm \<leftarrow> enter_handler m n handlerAddress vm; Some (True, vm) }
          | None \<Rightarrow>
              do { vm \<leftarrow> (if finallyAddress > 0 then run_finally m run exception tb finallyAddress vm else Some vm);
                   search_handlers m run exception n vm } }"

text \<open>From the active frame down to the one that a call from C code has started.\<close>

fun propagate_frames :: "machine_env \<Rightarrow> interpreter \<Rightarrow> addr \<Rightarrow> nat \<Rightarrow> vm \<Rightarrow> (bool \<times> vm) option" where
  "propagate_frames m run exception 0 vm = None"
| "propagate_frames m run exception (Suc k) vm =
     do { fr \<leftarrow> active_frame (mx_fiber m) vm;
          (handled, vm) \<leftarrow> search_handlers m run exception (length (cf_handlers fr)) vm;
          if handled then Some (True, vm)
          else if cf_callStart fr then Some (False, vm)
          else propagate_frames m run exception k (releaseCallFrame (mx_fiber m) vm) }"

definition propagateException :: "machine_env \<Rightarrow> interpreter \<Rightarrow> vm \<Rightarrow> (bool \<times> vm) option" where
  "propagateException m run vm =
     do { v \<leftarrow> stack_at m 0 vm;
          exception \<leftarrow> val_ref v;
          depth \<leftarrow> frame_depth m vm;
          propagate_frames m run exception depth vm }"

text \<open>The name \<open>stacktrace\<close>.\<close>

definition stacktrace_name :: "byte list" where
  "stacktrace_name = map (\<lambda>c. of_char c) ''stacktrace''"

datatype step_result = Running vm | Finished bool vm

text \<open>The label \<open>throwException\<close>: the exception is on top of the stack.\<close>

definition throwException :: "machine_env \<Rightarrow> interpreter \<Rightarrow> vm \<Rightarrow> step_result option" where
  "throwException m run vm =
     do { (stacktrace, vm) \<leftarrow> getStackTrace m vm;
          (instance, _) \<leftarrow> instance_at m 0 vm;
          (name, vm) \<leftarrow> copyString (mx_mem m) (mx_env m) (mx_fiber m) stacktrace_name (push_value m stacktrace vm);
          stacktraceName \<leftarrow> name;
          (_, vm) \<leftarrow> setInstanceField instance stacktraceName stacktrace (push_value m (VObj stacktraceName) vm);
          vm \<leftarrow> drop_values m 2 vm;
          (handled, vm) \<leftarrow> propagateException m run vm;
          if handled then Some (Running vm)
          else do { fr \<leftarrow> active_frame (mx_fiber m) vm;
                    vm \<leftarrow> cut_stack (mx_fiber m) (cf_slots fr + 1) vm;
                    Some (Finished False (push_value m (VObj instance) (releaseCallFrame (mx_fiber m) vm))) } }"

section \<open>The loop\<close>

definition instructions :: "machine_env \<Rightarrow> nat \<Rightarrow> interpreter \<Rightarrow> (nat \<times> (vm \<Rightarrow> unit outcome)) list" where
  "instructions m handling run =
     [(OP_CONST8, op_const8 m), (OP_CONST16, op_const16 m), (OP_IMMI, op_immi m),
      (OP_NIL, op_push m VNil), (OP_TRUE, op_push m (VBool True)), (OP_FALSE, op_push m (VBool False)),
      (OP_POP, op_pop m), (OP_POPN, op_popn m), (OP_SWAP, op_swap m),
      (OP_NUM_VARARGS, op_num_varargs m), (OP_EXPAND_VARARGS, op_expand_varargs m),
      (OP_EXPAND, op_expand m handling run), (OP_PEEK, op_peek m),
      (OP_GET_LOCAL, op_get_local m), (OP_GET_VARARG, op_get_vararg m), (OP_GET_GLOBAL, op_get_global m),
      (OP_GET_BUILTIN, op_get_builtin m), (OP_DEFINE_GLOBAL, op_define_global m), (OP_SET_LOCAL, op_set_local m),
      (OP_SET_VARARG, op_set_vararg m), (OP_SET_GLOBAL, op_set_global m),
      (OP_GET_UPVALUE, op_get_upvalue m), (OP_SET_UPVALUE, op_set_upvalue m),
      (OP_GET_PROP, op_get_prop m), (OP_GET_MEMBER_PROP, op_get_member_prop m), (OP_MAP_GET, op_map_get m),
      (OP_SET_PROP, op_set_property m), (OP_SET_MEMBER_PROP, op_set_member_prop m), (OP_MAP_SET, op_map_set m),
      (OP_GET_SUPER, op_get_super m),
      (OP_EQUAL, op_equal m), (OP_GREATER, op_greater m), (OP_LESS, op_less m), (OP_ADD, op_add m),
      (OP_SUBTRACT, op_arith m OP_SUBTRACT), (OP_MULTIPLY, op_arith m OP_MULTIPLY),
      (OP_DIVIDE, op_arith m OP_DIVIDE), (OP_MODULO, op_arith m OP_MODULO),
      (OP_INSTANCEOF, op_instanceof m), (OP_IN, op_in m), (OP_NOT, op_not m), (OP_NEGATE, op_negate m),
      (OP_JUMP, op_jump m), (OP_JUMP_IF_FALSE, op_jump_if_false m), (OP_LOOP, op_loop m),
      (OP_CALL, op_call m), (OP_INVOKE, op_invoke m), (OP_MEMBER_INVOKE, op_member_invoke m),
      (OP_SUPER_INVOKE, op_super_invoke m), (OP_SUPER_INIT, op_super_init m),
      (OP_CLOSURE, op_make_closure m), (OP_CLOSE_UPVALUE, op_close_upvalue m),
      (OP_INTF, op_intf m), (OP_CLASS, op_class m), (OP_INHERIT, op_inherit m), (OP_ABS_METHOD, op_abs_method m),
      (OP_METHOD, op_method m), (OP_FIELD, op_field m), (OP_STATIC, op_static m), (OP_CLOSE_CLASS, op_close_class m),
      (OP_ARRAY_BUILD, op_array_build m), (OP_INDEX, indexValue m), (OP_INDEX_STORE, indexStore m),
      (OP_SLICE, sliceValue m), (OP_MAP_BUILD, op_map_build m),
      (OP_PUSH_EXH, op_push_exh m), (OP_UNROLL_EXH, op_unroll_exh m run False),
      (OP_UNROLL_EXH_R, op_unroll_exh m run True), (OP_UNROLL_EXH_F, op_unroll_exh_f m),
      (OP_FOREACH_INIT, foreachInit m run), (OP_UNPACK, doUnpack m run), (OP_IMPORT, op_import m run),
      (OP_DATA, raises ''Attempted to execute data section'')]"

text \<open>
  One turn of the loop.  \<open>runs\<close> is the loop itself for the calls that instructions make, by the value
  of \<open>vm->handlingException\<close> they are made under.
\<close>

definition step :: "machine_env \<Rightarrow> nat \<Rightarrow> (nat \<Rightarrow> interpreter) \<Rightarrow> vm \<Rightarrow> step_result option" where
  "step m handling runs vm =
     do { (instruction, vm) \<leftarrow> read_byte m vm;
          if instruction = OP_RETURN
          then do { (start, vm) \<leftarrow> op_return (mx_fiber m) vm; Some (if start then Finished True vm else Running vm) }
          else if instruction = OP_END then Some (Finished True vm)
          else if instruction = OP_THROW then throwException m (runs (Suc handling)) vm
          else do { execute \<leftarrow> map_of (instructions m handling (runs handling)) instruction;
                    (r, vm) \<leftarrow> execute vm;
                    case r of
                      Inr _ \<Rightarrow> Some (Running vm)
                    | Inl e \<Rightarrow> do { vm \<leftarrow> raise_error m handling e vm;
                                    throwException m (runs (Suc handling)) vm } } }"

fun run_loop :: "machine_env \<Rightarrow> nat \<Rightarrow> nat \<Rightarrow> vm \<Rightarrow> (bool \<times> vm) option" where
  "run_loop m 0 handling vm = None"
| "run_loop m (Suc n) handling vm =
     do { r \<leftarrow> step m handling (run_loop m n) vm;
          case r of
            Running vm \<Rightarrow> run_loop m n handling vm
          | Finished fine vm \<Rightarrow> Some (fine, vm) }"

text \<open>\<open>run\<close>, with a bound on its turns.\<close>

definition run :: "machine_env \<Rightarrow> nat \<Rightarrow> vm \<Rightarrow> (bool \<times> vm) option" where
  "run m n vm = run_loop m n 0 vm"

end
