(* ===== verification/ExprProps.thy ===== *)
theory ExprProps
  imports Compile EmissionProps
begin

text \<open>
  The compiler of expressions is correct: for every expression built from integer literals,
  constants, parentheses and the unary, binary and logical operators, \<open>expression\<close> consumes
  exactly its tokens and appends code that, run on the value stack, evaluates it in the order and with
  the grouping the precedences say.
\<close>

section \<open>The tokens ahead\<close>

fun scans :: "scanner \<Rightarrow> token list \<Rightarrow> bool" where
  "scans sc [] \<longleftrightarrow> True"
| "scans sc (t # ts) \<longleftrightarrow> (\<exists>sc'. scanToken sc = Some (t, sc') \<and> tk_type t \<noteq> TOKEN_ERROR \<and> scans sc' ts)"

text \<open>The current token, and those the scanner delivers next.\<close>

definition reads :: "cctx \<Rightarrow> token list \<Rightarrow> bool" where
  "reads s ts \<longleftrightarrow> (\<exists>t us. ts = t # us \<and> ps_current (cc_parser s) = t \<and> \<not> ps_hasNext (cc_parser s) \<and> scans (cc_scanner s) us)"

lemma reads_current: "reads s (t # ts) \<Longrightarrow> ps_current (cc_parser s) = t"
  by (auto simp: reads_def)

definition moved_on :: "cctx \<Rightarrow> cctx \<Rightarrow> bool" where
  "moved_on s s' \<longleftrightarrow> (\<exists>p sc. s' = s\<lparr>cc_parser := p, cc_scanner := sc\<rparr> \<and> ps_panicMode p = ps_panicMode (cc_parser s))"

lemma advance_reads:
  assumes "reads s (t # u # ts)"
  shows "\<exists>s'. advance s = Some s' \<and> reads s' (u # ts) \<and> ps_previous (cc_parser s') = t \<and> moved_on s s'"
proof -
  from assms obtain sc where t: "ps_current (cc_parser s) = t" "\<not> ps_hasNext (cc_parser s)"
    "scanToken (cc_scanner s) = Some (u, sc)" "tk_type u \<noteq> TOKEN_ERROR" "scans sc ts"
    by (auto simp: reads_def)
  let ?p = "(cc_parser s)\<lparr>ps_beforePrevious := ps_previous (cc_parser s), ps_previous := t, ps_current := u\<rparr>"
  have "advance s = Some (s\<lparr>cc_scanner := sc, cc_parser := ?p\<rparr>)"
    using t by (simp add: advance_def advance_loop.simps next_token_def scan_token_def upd_parser_def Let_def)
  moreover have "reads (s\<lparr>cc_scanner := sc, cc_parser := ?p\<rparr>) (u # ts)" using t by (simp add: reads_def)
  moreover have "moved_on s (s\<lparr>cc_scanner := sc, cc_parser := ?p\<rparr>)"
    unfolding moved_on_def by (intro exI [of _ ?p] exI [of _ sc]) simp
  ultimately show ?thesis by fastforce
qed

section \<open>Room in the chunk\<close>

text \<open>So many bytes, and lines, can be added without the allocator.\<close>

definition room :: "nat \<Rightarrow> cctx \<Rightarrow> bool" where
  "room k s \<longleftrightarrow> (\<exists>ch. currentChunk s = Some ch \<and> length (ch_code ch) + k \<le> ch_capacity ch \<and>
     ch_capacity ch \<le> ch_slots ch \<and> length (ch_lines ch) + k \<le> ch_lineCapacity ch \<and> ch_lineCapacity ch \<le> ch_lineSlots ch)"

lemma room_mono: "room n s \<Longrightarrow> m \<le> n \<Longrightarrow> room m s"
  by (auto simp: room_def)

lemma room_compilers: "room k s \<Longrightarrow> cc_compilers s \<noteq> []"
  by (auto simp: room_def currentChunk_def current_def)

lemma room_cong: "cc_compilers s' = cc_compilers s \<Longrightarrow> room k s' = room k s"
  by (simp add: room_def currentChunk_def current_def)

lemma set_chunk_room:
  assumes "currentChunk s = Some ch0"
  shows "\<exists>s'. set_chunk ch s = Some s' \<and> currentChunk s' = Some ch \<and> cc_parser s' = cc_parser s"
  using assms by (auto simp: set_chunk_def upd_current_def currentChunk_def current_def upd_fn_def split: list.splits)

lemma emit_code_room:
  assumes "room (length d + k) s"
  shows "\<exists>s'. emit_code d s = Some (False, s') \<and> cc_parser s' = cc_parser s \<and>
    (\<exists>ch. currentChunk s' = Some ch \<and> length (ch_code ch) + k \<le> ch_capacity ch \<and> ch_capacity ch \<le> ch_slots ch \<and>
       length (ch_lines ch) + length d + k \<le> ch_lineCapacity ch \<and> ch_lineCapacity ch \<le> ch_lineSlots ch)"
proof -
  obtain ch where ch: "currentChunk s = Some ch" "length (ch_code ch) + (length d + k) \<le> ch_capacity ch" "ch_capacity ch \<le> ch_slots ch"
    "length (ch_lines ch) + (length d + k) \<le> ch_lineCapacity ch" "ch_lineCapacity ch \<le> ch_lineSlots ch"
    using assms by (auto simp: room_def)
  obtain s' where s': "set_chunk (ch\<lparr>ch_code := ch_code ch @ d\<rparr>) s = Some s'"
    "currentChunk s' = Some (ch\<lparr>ch_code := ch_code ch @ d\<rparr>)" "cc_parser s' = cc_parser s"
    using set_chunk_room [OF ch(1)] by blast
  have "emit_code d s = Some (False, s')"
    using ch s'(1) by (simp add: emit_code_def write_code_def Let_def)
  then show ?thesis using s' ch by auto
qed

lemma emitData_room:
  assumes "room (length d + k) s" and "no_error s" and "d \<noteq> []"
  shows "\<exists>s'. emitData d s = Some s' \<and> emits s d s' \<and> room k s' \<and> no_error s'"
proof -
  obtain s1 ch where s1: "emit_code d s = Some (False, s1)" "cc_parser s1 = cc_parser s" "currentChunk s1 = Some ch"
    "length (ch_code ch) + k \<le> ch_capacity ch" "ch_capacity ch \<le> ch_slots ch"
    "length (ch_lines ch) + length d + k \<le> ch_lineCapacity ch" "ch_lineCapacity ch \<le> ch_lineSlots ch"
    using emit_code_room [OF assms(1)] by blast
  have d: "1 \<le> length d" using assms(3) by (cases d) auto
  let ?line = "int (tk_line (ps_previous (cc_parser s)))"
  obtain ch' where ch': "write_line (\<lambda>_. True) ch ?line = Some (False, ch')" "length (ch_code ch') + k \<le> ch_capacity ch'"
    "ch_capacity ch' \<le> ch_slots ch'" "length (ch_lines ch') + k \<le> ch_lineCapacity ch'" "ch_lineCapacity ch' \<le> ch_lineSlots ch'"
    using s1 d by (cases "ch_lines ch \<noteq> [] \<and> ls_line (last (ch_lines ch)) = ?line") (auto simp: write_line_def Let_def)
  obtain s2 where s2: "set_chunk ch' s1 = Some s2" "currentChunk s2 = Some ch'" "cc_parser s2 = cc_parser s1"
    using set_chunk_room [OF s1(3)] by blast
  have "ch_lines ch \<noteq> [] \<and> ls_line (last (ch_lines ch)) = ?line \<or> \<not> ch_lineCapacity ch < length (ch_lines ch) + 1"
    using s1 d by auto
  then have "emit_line ?line s1 = Some (False, s2)"
    using s1 s2 ch' by (auto simp: emit_line_def Let_def)
  then have e: "emitData d s = Some s2" using s1 by (simp add: emitData_def)
  have ok: "no_error s2" using assms(2) s1(2) s2(3) by (simp add: no_error_def)
  show ?thesis using e ok emitData_emits [OF e ok] ch' s2(2) by (auto simp: room_def)
qed

section \<open>Compiled code\<close>

text \<open>Tokens are consumed and code is appended to the current function; nothing else changes.\<close>

definition compiles :: "cctx \<Rightarrow> byte list \<Rightarrow> cctx \<Rightarrow> bool" where
  "compiles s d s' \<longleftrightarrow> (\<exists>c cs ch p sc v. cc_compilers s = c # cs \<and>
     s' = s\<lparr>cc_vm := v, cc_compilers := with_chunk ch c # cs, cc_parser := p, cc_scanner := sc\<rparr>) \<and>
     cur_code s' = cur_code s @ d \<and> cur_constants s' = cur_constants s \<and> no_error s' = no_error s"

lemma compiles_trans: "compiles s d s' \<Longrightarrow> compiles s' e s'' \<Longrightarrow> compiles s (d @ e) s''"
  unfolding compiles_def by fastforce

lemma emits_compiles:
  assumes "emits s d s'"
  shows "compiles s d s'"
proof -
  obtain c cs ch v where "cc_compilers s = c # cs" "s' = s\<lparr>cc_vm := v, cc_compilers := with_chunk ch c # cs\<rparr>"
    using assms by (auto simp: emits_def chunk_change_def)
  then have "\<exists>c cs ch p sc v. cc_compilers s = c # cs \<and>
     s' = s\<lparr>cc_vm := v, cc_compilers := with_chunk ch c # cs, cc_parser := p, cc_scanner := sc\<rparr>"
    by (intro exI [of _ c] exI [of _ cs] exI [of _ ch] exI [of _ "cc_parser s"] exI [of _ "cc_scanner s"] exI [of _ v]) simp
  then show ?thesis using assms emits_no_error [OF assms] by (simp add: compiles_def emits_def)
qed

lemma emits_reads: "emits s d s' \<Longrightarrow> reads s' ts = reads s ts"
  using chunk_change_simps(1,2) [of s s'] by (simp add: emits_def reads_def)

lemma moved_on_facts:
  assumes "moved_on s s'"
  shows "cc_compilers s' = cc_compilers s" "no_error s' = no_error s"
  using assms by (auto simp: moved_on_def no_error_def)

lemma moved_on_compiles:
  assumes "moved_on s s'" and "cc_compilers s \<noteq> []"
  shows "compiles s [] s'"
proof -
  obtain c cs where c: "cc_compilers s = c # cs" using assms(2) by (cases "cc_compilers s") auto
  obtain p sc where s': "s' = s\<lparr>cc_parser := p, cc_scanner := sc\<rparr>" "ps_panicMode p = ps_panicMode (cc_parser s)"
    using assms(1) by (auto simp: moved_on_def)
  have "with_chunk (fn_chunk (cm_fn c)) c = c" by (simp add: with_chunk_def upd_fn_def)
  then have "\<exists>c cs ch p sc v. cc_compilers s = c # cs \<and>
     s' = s\<lparr>cc_vm := v, cc_compilers := with_chunk ch c # cs, cc_parser := p, cc_scanner := sc\<rparr>"
    using c s' by (intro exI [of _ c] exI [of _ cs] exI [of _ "fn_chunk (cm_fn c)"] exI [of _ p] exI [of _ sc] exI [of _ "cc_vm s"])
      (simp add: c [symmetric])
  then show ?thesis using s' by (simp add: compiles_def cur_code_def cur_constants_def currentChunk_def current_def no_error_def)
qed

text \<open>The combination the expression compiler keeps: so much room, no error, these tokens.\<close>

definition ready :: "nat \<Rightarrow> token list \<Rightarrow> cctx \<Rightarrow> bool" where
  "ready k ts s \<longleftrightarrow> room k s \<and> no_error s \<and> reads s ts"

lemma ready_mono: "ready n ts s \<Longrightarrow> m \<le> n \<Longrightarrow> ready m ts s"
  by (auto simp: ready_def intro: room_mono)

lemma emitData_ready:
  assumes "ready (length d + k) ts s" and "d \<noteq> []"
  shows "\<exists>s'. emitData d s = Some s' \<and> compiles s d s' \<and> ready k ts s' \<and> cc_parser s' = cc_parser s"
  using emitData_room [of d k s] assms
  by (auto simp: ready_def emits_reads intro!: emits_compiles) (auto simp: emits_def dest: chunk_change_simps(1))

lemma emitOp_ready:
  assumes "ready (Suc k) ts s"
  shows "\<exists>s'. emitOp b s = Some s' \<and> compiles s [word_of_nat b] s' \<and> ready k ts s' \<and> cc_parser s' = cc_parser s"
  using emitData_ready [of "[word_of_nat b]" k ts s] assms by (simp add: emitOp_def emitByte_def)

lemma emit_all_ready:
  "ready (length bs + k) ts s \<Longrightarrow>
    \<exists>s'. emit_all bs s = Some s' \<and> compiles s (map word_of_nat bs) s' \<and> ready k ts s'"
proof (induction bs arbitrary: s)
  case Nil
  have "moved_on s s" unfolding moved_on_def by (rule exI [of _ "cc_parser s"]) (auto intro: exI [of _ "cc_scanner s"])
  then show ?case using Nil moved_on_compiles [of s s] room_compilers [of k s] by (simp add: ready_def)
next
  case (Cons b bs)
  obtain s1 where s1: "emitOp b s = Some s1" "compiles s [word_of_nat b] s1" "ready (length bs + k) ts s1"
    using emitOp_ready [of "length bs + k" ts s b] Cons.prems by auto
  then show ?case using Cons.IH [OF s1(3)] compiles_trans [OF s1(2)] by (fastforce simp: emitOp_def)
qed

lemma advance_ready:
  assumes "ready k (t # u # ts) s"
  shows "\<exists>s'. advance s = Some s' \<and> compiles s [] s' \<and> ready k (u # ts) s' \<and> previous_type s' = tk_type t \<and>
    previous_chars s' = tk_chars t"
proof -
  obtain s' where s': "advance s = Some s'" "reads s' (u # ts)" "ps_previous (cc_parser s') = t" "moved_on s s'"
    using advance_reads [of s t u ts] assms by (auto simp: ready_def)
  note eq = moved_on_facts [OF s'(4)]
  have "compiles s [] s'" using moved_on_compiles [OF s'(4)] room_compilers [of k s] assms by (simp add: ready_def)
  moreover have "ready k (u # ts) s'" using assms s'(2) eq by (simp add: ready_def room_cong [OF eq(1)])
  ultimately show ?thesis using s'(1,3) by (simp add: previous_type_def previous_chars_def)
qed

section \<open>Jumps\<close>

lemma emitJump_ready:
  assumes "ready (3 + k) ts s"
  shows "\<exists>s'. emitJump oc s = Some (int (length (cur_code s)) + 1, s') \<and>
    compiles s (word_of_nat oc # bytes16 0) s' \<and> ready k ts s'"
proof -
  have "ready (Suc (2 + k)) ts s" using ready_mono [OF assms] by simp
  then obtain s1 where s1: "emitOp oc s = Some s1" "compiles s [word_of_nat oc] s1" "ready (2 + k) ts s1"
    using emitOp_ready by blast
  have "ready (length (bytes16 0) + k) ts s1" using s1(3) by (simp add: bytes16_def)
  then obtain s2 where s2: "emitData (bytes16 0) s1 = Some s2" "compiles s1 (bytes16 0) s2" "ready k ts s2"
    using emitData_ready [of "bytes16 0" k ts s1] by (auto simp: bytes16_def)
  have "code_count s2 - 2 = int (length (cur_code s)) + 1"
    using s1(2) s2(2) by (simp add: code_count_cur compiles_def bytes16_def)
  then have "emitJump oc s = Some (int (length (cur_code s)) + 1, s2)"
    using s1(1) s2(1) by (simp add: emitJump_def emitShort_def emitUShort_def)
  then show ?thesis using compiles_trans [OF s1(2) s2(2)] s2(3) by simp
qed

text \<open>Filling in the operand of a jump over \<open>body\<close>.\<close>

lemma patchJump_ready:
  assumes "ready k ts s2" and "cur_code s2 = pre @ bytes16 0 @ body" and "length body \<le> 65535"
    and "compiles s d s2"
  shows "\<exists>s3. patchJump (int (length pre)) s2 = Some s3 \<and> cur_code s3 = pre @ bytes16 (int (length body)) @ body \<and>
    ready k ts s3 \<and> (\<forall>d'. cur_code s3 = cur_code s @ d' \<longrightarrow> compiles s d' s3)"
proof -
  obtain ch where ch: "currentChunk s2 = Some ch" "length (ch_code ch) + k \<le> ch_capacity ch" "ch_capacity ch \<le> ch_slots ch"
    "length (ch_lines ch) + k \<le> ch_lineCapacity ch" "ch_lineCapacity ch \<le> ch_lineSlots ch"
    using assms(1) by (auto simp: ready_def room_def)
  have len: "length (ch_code ch) = length pre + 2 + length body"
    using assms(2) ch(1) by (simp add: cur_code_def bytes16_def)
  have jump: "code_count s2 - int (length pre) - 2 = int (length body)"
    using len ch(1) by (simp add: code_count_def)
  let ?ch = "ch\<lparr>ch_code := pre @ bytes16 (int (length body)) @ body\<rparr>"
  have upd: "(ch_code ch)[length pre := bytes16 v ! 0, length pre + 1 := bytes16 v ! 1] = pre @ bytes16 v @ body" for v
    using assms(2) ch(1) by (simp add: cur_code_def bytes16_def list_update_append)
  obtain s3 where s3: "set_chunk ?ch s2 = Some s3" "currentChunk s3 = Some ?ch" "cc_parser s3 = cc_parser s2"
    using set_chunk_room [OF ch(1)] by blast
  have p: "patchJump (int (length pre)) s2 = Some s3"
    using s3(1) ch len assms(3) upd by (simp add: patchJump_def patch16_def Let_def jump)
  have cc: "chunk_change s2 s3" using set_chunk_change [OF ch(1), of ?ch "cc_vm s2"] s3(1) by simp
  have code3: "cur_code s3 = pre @ bytes16 (int (length body)) @ body" using s3(2) by (simp add: cur_code_def)
  have "room k s3" using s3(2) ch len by (auto simp: room_def bytes16_def)
  moreover have "reads s3 ts" "no_error s3"
    using assms(1) chunk_change_simps(1,2) [OF cc] by (auto simp: ready_def reads_def no_error_def)
  moreover have "compiles s d' s3" if "cur_code s3 = cur_code s @ d'" for d'
  proof -
    have "cur_constants s3 = cur_constants s2" using s3(2) ch(1) by (simp add: cur_constants_def)
    moreover have "no_error s3 = no_error s2" using s3(3) by (simp add: no_error_def)
    moreover obtain c cs ch p sc v where "cc_compilers s = c # cs"
      "s2 = s\<lparr>cc_vm := v, cc_compilers := with_chunk ch c # cs, cc_parser := p, cc_scanner := sc\<rparr>"
      using assms(4) unfolding compiles_def by blast
    moreover from this cc obtain ch' v' where "s3 = s2\<lparr>cc_vm := v', cc_compilers := with_chunk ch' c # cs\<rparr>"
      by (auto simp: chunk_change_def)
    ultimately have "\<exists>c cs ch p sc v. cc_compilers s = c # cs \<and>
       s3 = s\<lparr>cc_vm := v, cc_compilers := with_chunk ch c # cs, cc_parser := p, cc_scanner := sc\<rparr>"
      by (intro exI [of _ c] exI [of _ cs] exI [of _ ch'] exI [of _ p] exI [of _ sc] exI [of _ v']) simp
    then show ?thesis using that assms(4) \<open>cur_constants s3 = cur_constants s2\<close> \<open>no_error s3 = no_error s2\<close>
      by (simp add: compiles_def)
  qed
  ultimately show ?thesis using p code3 by (auto simp: ready_def)
qed

section \<open>Expressions\<close>

datatype ast =
    Number token
  | Constant token
  | Paren token ast token
  | Unary token ast
  | Binary ast token ast
  | Logical ast token ast

primrec ast_tokens :: "ast \<Rightarrow> token list" where
  "ast_tokens (Number t) = [t]"
| "ast_tokens (Constant t) = [t]"
| "ast_tokens (Paren l e r) = l # ast_tokens e @ [r]"
| "ast_tokens (Unary t e) = t # ast_tokens e"
| "ast_tokens (Binary a t b) = ast_tokens a @ t # ast_tokens b"
| "ast_tokens (Logical a t b) = ast_tokens a @ t # ast_tokens b"

definition prec :: "token \<Rightarrow> nat" where "prec t = pr_precedence (getRule (tk_type t))"

primrec level :: "ast \<Rightarrow> nat" where
  "level (Number t) = PREC_PRIMARY"
| "level (Constant t) = PREC_PRIMARY"
| "level (Paren l e r) = PREC_PRIMARY"
| "level (Unary t e) = PREC_UNARY"
| "level (Binary a t b) = prec t"
| "level (Logical a t b) = prec t"

text \<open>
  Texts without superfluous ambiguity: binary operators group to the left, the logical ones to the
  right, and a tighter operator binds first.  Numbers are integer literals in the range of an
  immediate operand.
\<close>

primrec well_formed :: "ast \<Rightarrow> bool" where
  "well_formed (Number t) \<longleftrightarrow> tk_type t = TOKEN_NUMBER \<and> immediate (VNumber (strtod (tk_chars t))) \<noteq> None"
| "well_formed (Constant t) \<longleftrightarrow> tk_type t \<in> {TOKEN_NIL, TOKEN_TRUE, TOKEN_FALSE}"
| "well_formed (Paren l e r) \<longleftrightarrow> tk_type l = TOKEN_LEFT_PAREN \<and> tk_type r = TOKEN_RIGHT_PAREN \<and> well_formed e"
| "well_formed (Unary t e) \<longleftrightarrow> tk_type t \<in> {TOKEN_BANG, TOKEN_MINUS} \<and> well_formed e \<and> PREC_UNARY \<le> level e"
| "well_formed (Binary a t b) \<longleftrightarrow> tk_type t \<in> fst ` set binary_ops \<and> well_formed a \<and> well_formed b \<and>
     prec t \<le> level a \<and> prec t < level b"
| "well_formed (Logical a t b) \<longleftrightarrow> tk_type t \<in> {TOKEN_AND, TOKEN_OR} \<and> well_formed a \<and> well_formed b \<and>
     prec t < level a \<and> prec t \<le> level b"

text \<open>How deep \<open>expression\<close> recurs.\<close>

primrec depth :: "ast \<Rightarrow> nat" where
  "depth (Number t) = 1"
| "depth (Constant t) = 1"
| "depth (Paren l e r) = depth e + 1"
| "depth (Unary t e) = depth e + 1"
| "depth (Binary a t b) = max (depth a) (depth b + 1)"
| "depth (Logical a t b) = max (depth a) (depth b + 1)"

text \<open>The code of an expression.\<close>

definition op_code :: "nat \<Rightarrow> byte" where "op_code = word_of_nat"

primrec code :: "ast \<Rightarrow> byte list" where
  "code (Number t) = op_code OP_IMMI # bytes32 (the (immediate (VNumber (strtod (tk_chars t)))))"
| "code (Constant t) = [op_code (if tk_type t = TOKEN_NIL then OP_NIL else if tk_type t = TOKEN_TRUE then OP_TRUE else OP_FALSE)]"
| "code (Paren l e r) = code e"
| "code (Unary t e) = code e @ [op_code (if tk_type t = TOKEN_BANG then OP_NOT else OP_NEGATE)]"
| "code (Binary a t b) = code a @ code b @ map op_code (the (map_of binary_ops (tk_type t)))"
| "code (Logical a t b) =
     (if tk_type t = TOKEN_AND
      then code a @ op_code OP_JUMP_IF_FALSE # bytes16 (int (length (code b)) + 1) @ op_code OP_POP # code b
      else code a @ op_code OP_JUMP_IF_FALSE # bytes16 3 @ op_code OP_JUMP #
             bytes16 (int (length (code b)) + 1) @ op_code OP_POP # code b)"

text \<open>What may follow an expression without being drawn into it.\<close>

primrec follow :: "ast \<Rightarrow> token \<Rightarrow> bool" where
  "follow (Number t) u \<longleftrightarrow> True"
| "follow (Constant t) u \<longleftrightarrow> True"
| "follow (Paren l e r) u \<longleftrightarrow> True"
| "follow (Unary t e) u \<longleftrightarrow> prec u < PREC_UNARY"
| "follow (Binary a t b) u \<longleftrightarrow> prec u \<le> prec t"
| "follow (Logical a t b) u \<longleftrightarrow> prec u < prec t"

text \<open>The rules of the operators.\<close>

lemma rules_distinct: "distinct (map fst parseRules)" by code_simp

lemma getRuleI: "(t, r) \<in> set parseRules \<Longrightarrow> getRule t = r"
  by (simp add: getRule_def map_of_eq_Some_iff [OF rules_distinct, THEN iffD2])

lemma prefix_rules:
  "pr_prefix (getRule TOKEN_NUMBER) = Some P_number" "pr_prefix (getRule TOKEN_NIL) = Some P_literal"
  "pr_prefix (getRule TOKEN_TRUE) = Some P_literal" "pr_prefix (getRule TOKEN_FALSE) = Some P_literal"
  "pr_prefix (getRule TOKEN_LEFT_PAREN) = Some P_grouping" "pr_prefix (getRule TOKEN_BANG) = Some P_unary"
  "pr_prefix (getRule TOKEN_MINUS) = Some P_unary" "getRule TOKEN_RIGHT_PAREN = no_rule"
  by (simp_all add: getRule_def parseRules_def rule_def)

lemma operator_rules:
  "list_all (\<lambda>(t, ops). pr_infix (getRule t) = Some I_binary \<and> 3 < pr_precedence (getRule t) \<and>
     pr_precedence (getRule t) < 8 \<and> ops \<noteq> []) binary_ops"
  "getRule TOKEN_AND = rule None (Some I_and) 3" "getRule TOKEN_OR = rule None (Some I_or) 2"
  by code_simp+

lemma map_of_member: "x \<in> fst ` set xs \<Longrightarrow> \<exists>y. map_of xs x = Some y \<and> (x, y) \<in> set xs"
  by (metis map_of_SomeD map_of_eq_None_iff option.exhaust)

lemma binary_rule:
  assumes "tk_type t \<in> fst ` set binary_ops"
  shows "\<exists>ops. map_of binary_ops (tk_type t) = Some ops \<and> pr_infix (getRule (tk_type t)) = Some I_binary \<and>
    3 < prec t \<and> prec t < 8 \<and> ops \<noteq> []"
  using map_of_member [OF assms] operator_rules(1) by (auto simp: list_all_iff prec_def)

lemma logical_rule:
  assumes "tk_type t \<in> {TOKEN_AND, TOKEN_OR}"
  shows "pr_infix (getRule (tk_type t)) = Some (if tk_type t = TOKEN_AND then I_and else I_or) \<and>
    prec t = (if tk_type t = TOKEN_AND then PREC_AND else PREC_OR)"
  using assms by (auto simp: prec_def operator_rules(2,3) rule_def PREC_AND_def PREC_OR_def)

lemma operator_prec:
  "tk_type t \<in> fst ` set binary_ops \<Longrightarrow> 3 < prec t \<and> prec t < 8"
  "tk_type t \<in> {TOKEN_AND, TOKEN_OR} \<Longrightarrow> prec t = 2 \<or> prec t = 3"
  using binary_rule [of t] logical_rule [of t] by (auto simp: PREC_AND_def PREC_OR_def split: if_splits)

lemma follow_left:
  assumes "well_formed e" and "tk_type t \<in> fst ` set binary_ops \<and> prec t \<le> level e \<or> tk_type t \<in> {TOKEN_AND, TOKEN_OR} \<and> prec t < level e"
  shows "follow e t"
proof -
  have t: "prec t < PREC_UNARY" using assms(2) operator_prec [of t] unfolding PREC_UNARY_def by linarith
  show ?thesis
  proof (cases e)
    case (Unary u a)
    then show ?thesis using t by simp
  next
    case (Binary a u b)
    then show ?thesis using assms(2) by auto
  next
    case (Logical a u b)
    then have u: "prec u = 2 \<or> prec u = 3" using assms(1) operator_prec(2) [of u] by simp
    show ?thesis using assms(2) operator_prec(1) [of t] u unfolding Logical level.simps follow.simps by linarith
  qed simp_all
qed

lemma follow_right: "prec u < p \<Longrightarrow> p \<le> level e \<Longrightarrow> p \<le> PREC_UNARY \<Longrightarrow> follow e u"
  by (cases e) auto

text \<open>What \<open>expression\<close> does behind a prefix that has been compiled.\<close>

definition finish :: "nat \<Rightarrow> nat \<Rightarrow> cctx \<Rightarrow> (expression_type \<times> cctx) option" where
  "finish n p s =
     do { s \<leftarrow> infix_loop (parse n) p (p \<le> PREC_ASSIGNMENT) ETYPE_NORMAL s;
          (assign, s) \<leftarrow> match_assign (p \<le> PREC_ASSIGNMENT) TOKEN_EQUAL s;
          Some (ETYPE_NORMAL, if assign then compileError ''Invalid assignment target'' s else s) }"

lemma finish_stop:
  assumes "reads s (u # us)" and "prec u < p" and "tk_type u \<noteq> TOKEN_EQUAL \<or> PREC_ASSIGNMENT < p"
  shows "finish n p s = Some (ETYPE_NORMAL, s)"
proof -
  have u: "getCrtType s = tk_type u" using assms(1) by (simp add: getCrtType_def reads_current)
  have "infix_loop (parse n) p (p \<le> PREC_ASSIGNMENT) ETYPE_NORMAL s = Some s"
    using assms(2) by (simp add: infix_loop.simps u prec_def Let_def)
  moreover have "match_assign (p \<le> PREC_ASSIGNMENT) TOKEN_EQUAL s = Some (False, s)"
    using assms(3) u by (auto simp: match_assign_def consumeIfMatch_def check_def getCrtType_def)
  ultimately show ?thesis by (simp add: finish_def)
qed

lemma expression_goal_prefix:
  assumes "advance s = Some s1" and "pr_prefix (getRule (previous_type s1)) = Some f"
    and "\<And>canAssign. run_prefix (parse n) f canAssign ce fe s1 = normal (Some s2)"
  shows "expression_goal (parse n) p ce fe s = finish n p s2"
  using assms by (simp add: expression_goal_def finish_def normal_def Let_def)

section \<open>Compilation of expressions\<close>

definition parsed :: "ast \<Rightarrow> nat \<Rightarrow> nat \<Rightarrow> nat \<Rightarrow> token list \<Rightarrow> cctx \<Rightarrow> bool" where
  "parsed e p n k ts s \<longleftrightarrow> (\<exists>s1. compiles s (code e) s1 \<and> ready k ts s1 \<and>
     (\<forall>ce fe. expression_goal (parse n) p ce fe s = finish n p s1))"

lemma operand:
  assumes "parsed e q n k (u # us) s" and "prec u < q" and "tk_type u \<noteq> TOKEN_EQUAL \<or> PREC_ASSIGNMENT < q"
  shows "\<exists>s1. expression_of (parse (Suc n)) q s = Some s1 \<and> compiles s (code e) s1 \<and> ready k (u # us) s1"
proof -
  obtain s1 where s1: "compiles s (code e) s1" "ready k (u # us) s1" "expression_goal (parse n) q False False s = finish n q s1"
    using assms(1) by (auto simp: parsed_def)
  have "finish n q s1 = Some (ETYPE_NORMAL, s1)" using finish_stop [of s1 u us q n] assms(2,3) s1(2) by (simp add: ready_def)
  then show ?thesis using s1 by (simp add: expression_of_def)
qed

text \<open>An expression that is compiled by its prefix function.\<close>

lemma parsed_prefix:
  assumes "advance s = Some s1" and "compiles s [] s1" and "pr_prefix (getRule (previous_type s1)) = Some f"
    and "compiles s1 (code e) s2" and "ready k ts s2"
    and "\<And>ce fe ca. run_prefix (parse n) f ca ce fe s1 = normal (Some s2)"
  shows "parsed e p n k ts s"
  unfolding parsed_def using assms compiles_trans [OF assms(2,4)] expression_goal_prefix [OF assms(1,3)] by auto

lemma parsed_Number:
  assumes "well_formed (Number t)" and "ready (length (code (Number t)) + k) (ast_tokens (Number t) @ u # us) s"
  shows "parsed (Number t) p n k (u # us) s"
proof -
  obtain i where i: "immediate (VNumber (strtod (tk_chars t))) = Some i" using assms(1) by auto
  have "ready (Suc (4 + k)) (t # u # us) s" using assms(2) by (auto simp: bytes32_def intro: ready_mono)
  then obtain s1 where s1: "advance s = Some s1" "compiles s [] s1" "ready (Suc (4 + k)) (u # us) s1"
    "previous_type s1 = tk_type t" "previous_chars s1 = tk_chars t"
    using advance_ready by blast
  obtain s2 where s2: "emitOp OP_IMMI s1 = Some s2" "compiles s1 [word_of_nat OP_IMMI] s2" "ready (4 + k) (u # us) s2"
    using emitOp_ready [OF s1(3)] by blast
  have "ready (length (bytes32 i) + k) (u # us) s2" using ready_mono [OF s2(3)] by (simp add: bytes32_def)
  then obtain s3 where s3: "emitData (bytes32 i) s2 = Some s3" "compiles s2 (bytes32 i) s3" "ready k (u # us) s3"
    using emitData_ready [of "bytes32 i" k "u # us" s2] by (auto simp: bytes32_def)
  have "p_number s1 = Some s3"
    using s1(5) i s2(1) s3(1) by (simp add: p_number_def emitConstant_def emitInt_def)
  then have "run_prefix (parse n) P_number ca ce fe s1 = normal (Some s3)" for ca ce fe by (simp add: run_prefix_def)
  moreover have "compiles s1 (code (Number t)) s3"
    using compiles_trans [OF s2(2) s3(2)] i by (simp add: op_code_def)
  moreover have "pr_prefix (getRule (previous_type s1)) = Some P_number"
    using s1(4) assms(1) by (simp add: prefix_rules)
  ultimately show ?thesis using parsed_prefix s1(1,2) s3(3) by blast
qed

lemma parsed_Constant:
  assumes "well_formed (Constant t)" and "ready (length (code (Constant t)) + k) (ast_tokens (Constant t) @ u # us) s"
  shows "parsed (Constant t) p n k (u # us) s"
proof -
  have "ready (Suc k) (t # u # us) s" using assms(2) by simp
  then obtain s1 where s1: "advance s = Some s1" "compiles s [] s1" "ready (Suc k) (u # us) s1" "previous_type s1 = tk_type t"
    using advance_ready by blast
  let ?oc = "if tk_type t = TOKEN_NIL then OP_NIL else if tk_type t = TOKEN_TRUE then OP_TRUE else OP_FALSE"
  obtain s2 where s2: "emitOp ?oc s1 = Some s2" "compiles s1 [word_of_nat ?oc] s2" "ready k (u # us) s2"
    using emitOp_ready [OF s1(3)] by blast
  have "literal s1 = Some s2" using s1(4) s2(1) assms(1) by (auto simp: literal_def)
  then have "run_prefix (parse n) P_literal ca ce fe s1 = normal (Some s2)" for ca ce fe by (simp add: run_prefix_def)
  moreover have "pr_prefix (getRule (previous_type s1)) = Some P_literal"
    using s1(4) assms(1) by (auto simp: prefix_rules)
  moreover have "compiles s1 (code (Constant t)) s2" using s2(2) by (simp add: op_code_def)
  ultimately show ?thesis using parsed_prefix s1(1,2) s2(3) by blast
qed

lemma parsed_Unary:
  assumes "well_formed (Unary t e)" and "ready (length (code e) + Suc k) (t # ast_tokens e @ u # us) s"
    and "prec u < PREC_UNARY" and "n = Suc m"
    and IH: "\<And>s. ready (length (code e) + Suc k) (ast_tokens e @ u # us) s \<Longrightarrow> parsed e PREC_UNARY m (Suc k) (u # us) s"
  shows "parsed (Unary t e) p n k (u # us) s"
proof -
  obtain v vs where v: "ast_tokens e @ u # us = v # vs" by (cases "ast_tokens e @ u # us") auto
  obtain s1 where s1: "advance s = Some s1" "compiles s [] s1" "ready (length (code e) + Suc k) (ast_tokens e @ u # us) s1"
    "previous_type s1 = tk_type t"
    using advance_ready assms(2) unfolding v by blast
  obtain s2 where s2: "expression_of (parse n) PREC_UNARY s1 = Some s2" "compiles s1 (code e) s2" "ready (Suc k) (u # us) s2"
    using operand [OF IH [OF s1(3)] assms(3)] assms(4) by (auto simp: prec_defs)
  let ?oc = "if tk_type t = TOKEN_BANG then OP_NOT else OP_NEGATE"
  obtain s3 where s3: "emitOp ?oc s2 = Some s3" "compiles s2 [word_of_nat ?oc] s3" "ready k (u # us) s3"
    using emitOp_ready [OF s2(3)] by blast
  have "unary (parse n) s1 = Some s3" using s1(4) s2(1) s3(1) assms(1) by (auto simp: unary_def)
  then have "run_prefix (parse n) P_unary ca ce fe s1 = normal (Some s3)" for ca ce fe by (simp add: run_prefix_def)
  moreover have "pr_prefix (getRule (previous_type s1)) = Some P_unary"
    using s1(4) assms(1) by (auto simp: prefix_rules)
  moreover have "compiles s1 (code (Unary t e)) s3" using compiles_trans [OF s2(2) s3(2)] by (simp add: op_code_def)
  ultimately show ?thesis using parsed_prefix s1(1,2) s3(3) by blast
qed

lemma parsed_Paren:
  assumes "well_formed (Paren l e r)" and "ready (length (code e) + k) (l # ast_tokens e @ r # u # us) s"
    and "n = Suc m"
    and IH: "\<And>s. ready (length (code e) + k) (ast_tokens e @ r # u # us) s \<Longrightarrow> parsed e PREC_ASSIGNMENT m k (r # u # us) s"
  shows "parsed (Paren l e r) p n k (u # us) s"
proof -
  obtain v vs where v: "ast_tokens e @ r # u # us = v # vs" by (cases "ast_tokens e @ r # u # us") auto
  obtain s1 where s1: "advance s = Some s1" "compiles s [] s1" "ready (length (code e) + k) (ast_tokens e @ r # u # us) s1"
    "previous_type s1 = tk_type l"
    using advance_ready assms(2) unfolding v by blast
  have r: "prec r < PREC_ASSIGNMENT" "tk_type r = TOKEN_RIGHT_PAREN"
    using assms(1) by (simp_all add: prec_def prefix_rules no_rule_def rule_def prec_defs)
  obtain s2 where s2: "expression_of (parse n) PREC_ASSIGNMENT s1 = Some s2" "compiles s1 (code e) s2" "ready k (r # u # us) s2"
    using operand [OF IH [OF s1(3)] r(1)] r(2) assms(3) by auto
  obtain s3 where s3: "advance s2 = Some s3" "compiles s2 [] s3" "ready k (u # us) s3"
    using advance_ready [OF s2(3)] by blast
  have "check TOKEN_RIGHT_PAREN s2" using s2(3) r(2) reads_current [of s2 r "u # us"] by (simp add: check_def ready_def)
  then have "grouping (parse n) s1 = Some s3"
    using s2(1) s3(1) by (simp add: grouping_def expr_def consume_def)
  then have "run_prefix (parse n) P_grouping ca ce fe s1 = normal (Some s3)" for ca ce fe by (simp add: run_prefix_def)
  moreover have "pr_prefix (getRule (previous_type s1)) = Some P_grouping"
    using s1(4) assms(1) by (simp add: prefix_rules)
  moreover have "compiles s1 (code (Paren l e r)) s3" using compiles_trans [OF s2(2) s3(2)] by simp
  ultimately show ?thesis using parsed_prefix s1(1,2) s3(3) by blast
qed

text \<open>An operator behind an expression: the loop goes on with the operator's function.\<close>

lemma parsed_infix:
  assumes "parsed a p n k' (t # ts) s" and "\<And>s1. ready k' (t # ts) s1 \<Longrightarrow> compiles s (code a) s1 \<Longrightarrow>
      \<exists>s2 s3. advance s1 = Some s2 \<and> (\<forall>ca. run_infix (parse n) g ca (prec t) s2 = Some s3) \<and> ready k rest s3 \<and> compiles s (code e) s3"
    and "p \<le> prec t" and "pr_infix (getRule (tk_type t)) = Some g"
  shows "parsed e p n k rest s"
proof -
  obtain s1 where s1: "compiles s (code a) s1" "ready k' (t # ts) s1" "\<And>ce fe. expression_goal (parse n) p ce fe s = finish n p s1"
    using assms(1) by (auto simp: parsed_def)
  obtain s2 s3 where s3: "advance s1 = Some s2" "\<And>ca. run_infix (parse n) g ca (prec t) s2 = Some s3" "ready k rest s3"
    "compiles s (code e) s3"
    using assms(2) [OF s1(2,1)] by blast
  have t: "getCrtType s1 = tk_type t" using s1(2) reads_current [of s1 t ts] by (simp add: getCrtType_def ready_def)
  have "infix_loop (parse n) p ca ETYPE_NORMAL s1 = infix_loop (parse n) p ca ETYPE_NORMAL s3" for ca
    using assms(3,4) s3(1,2) by (subst infix_loop.simps) (simp add: t prec_def [symmetric] Let_def)
  then have "finish n p s1 = finish n p s3" by (simp add: finish_def)
  then show ?thesis using s1(3) s3(3,4) by (auto simp: parsed_def)
qed

lemma advance_to:
  assumes "ready k (t # ast_tokens b @ u # us) s"
  shows "\<exists>s'. advance s = Some s' \<and> compiles s [] s' \<and> ready k (ast_tokens b @ u # us) s' \<and> previous_type s' = tk_type t"
proof -
  obtain v vs where "ast_tokens b @ u # us = v # vs" by (cases "ast_tokens b @ u # us") auto
  then show ?thesis using advance_ready [of k t v vs s] assms by auto
qed

lemma parsed_Binary:
  assumes wf: "well_formed (Binary a t b)" and p: "p \<le> prec t" and u: "prec u \<le> prec t" and n: "n = Suc m"
    and a: "parsed a p n (length (code b) + (length (the (map_of binary_ops (tk_type t))) + k)) (t # ast_tokens b @ u # us) s"
    and b: "\<And>s k. ready (length (code b) + k) (ast_tokens b @ u # us) s \<Longrightarrow> parsed b (prec t + 1) m k (u # us) s"
  shows "parsed (Binary a t b) p n k (u # us) s"
proof -
  obtain ops where ops: "map_of binary_ops (tk_type t) = Some ops" "pr_infix (getRule (tk_type t)) = Some I_binary" "3 < prec t"
    using binary_rule [of t] wf by auto
  have a': "parsed a p n (length (code b) + (length ops + k)) (t # ast_tokens b @ u # us) s" using a ops(1) by simp
  show ?thesis
  proof (rule parsed_infix [OF a' _ p ops(2)])
    fix s1
    assume r: "ready (length (code b) + (length ops + k)) (t # ast_tokens b @ u # us) s1" and s1: "compiles s (code a) s1"
    obtain s2 where s2: "advance s1 = Some s2" "compiles s1 [] s2" "ready (length (code b) + (length ops + k)) (ast_tokens b @ u # us) s2"
      "previous_type s2 = tk_type t"
      using advance_to [OF r] by blast
    obtain s3 where s3: "expression_of (parse n) (prec t + 1) s2 = Some s3" "compiles s2 (code b) s3" "ready (length ops + k) (u # us) s3"
      using operand [OF b [OF s2(3)]] u ops(3) n by (auto simp: prec_defs)
    obtain s4 where s4: "emit_all ops s3 = Some s4" "compiles s3 (map word_of_nat ops) s4" "ready k (u # us) s4"
      using emit_all_ready [OF s3(3)] by blast
    have "run_infix (parse n) I_binary ca (prec t) s2 = Some s4" for ca
      using s2(4) s3(1) s4(1) ops(1) by (simp add: run_infix_def binary_def)
    moreover have "compiles s (code (Binary a t b)) s4"
      using compiles_trans [OF compiles_trans [OF compiles_trans [OF s1 s2(2)] s3(2)] s4(2)] ops(1) by (simp add: op_code_def)
    ultimately show "\<exists>s2 s3. advance s1 = Some s2 \<and> (\<forall>ca. run_infix (parse n) I_binary ca (prec t) s2 = Some s3) \<and>
        ready k (u # us) s3 \<and> compiles s (code (Binary a t b)) s3"
      using s2(1) s4(3) by blast
  qed
qed

lemma parsed_And:
  assumes wf: "well_formed (Logical a t b)" and t: "tk_type t = TOKEN_AND" and p: "p \<le> prec t" and u: "prec u < prec t" and n: "n = Suc m"
    and small: "length (code (Logical a t b)) \<le> 65535"
    and a: "parsed a p n (3 + (1 + (length (code b) + k))) (t # ast_tokens b @ u # us) s"
    and b: "\<And>s k. ready (length (code b) + k) (ast_tokens b @ u # us) s \<Longrightarrow> parsed b (prec t) m k (u # us) s"
  shows "parsed (Logical a t b) p n k (u # us) s"
proof -
  have rules: "pr_infix (getRule (tk_type t)) = Some I_and" "prec t = PREC_AND" using logical_rule [of t] t by simp_all
  show ?thesis
  proof (rule parsed_infix [OF a _ p rules(1)])
    fix s1
    assume r: "ready (3 + (1 + (length (code b) + k))) (t # ast_tokens b @ u # us) s1" and s1: "compiles s (code a) s1"
    obtain s2 where s2: "advance s1 = Some s2" "compiles s1 [] s2" "ready (3 + (1 + (length (code b) + k))) (ast_tokens b @ u # us) s2"
      using advance_to [OF r] by blast
    obtain s3 where s3: "emitJump OP_JUMP_IF_FALSE s2 = Some (int (length (cur_code s2)) + 1, s3)"
      "compiles s2 (word_of_nat OP_JUMP_IF_FALSE # bytes16 0) s3" "ready (1 + (length (code b) + k)) (ast_tokens b @ u # us) s3"
      using emitJump_ready [OF s2(3)] by blast
    have "ready (Suc (length (code b) + k)) (ast_tokens b @ u # us) s3" using s3(3) by simp
    then obtain s4 where s4: "emitOp OP_POP s3 = Some s4" "compiles s3 [word_of_nat OP_POP] s4" "ready (length (code b) + k) (ast_tokens b @ u # us) s4"
      using emitOp_ready by blast
    obtain s5 where s5: "expression_of (parse n) PREC_AND s4 = Some s5" "compiles s4 (code b) s5" "ready k (u # us) s5"
      using operand [OF b [OF s4(3)]] u n rules(2) by (auto simp: prec_defs)
    let ?pre = "cur_code s2 @ [word_of_nat OP_JUMP_IF_FALSE]" and ?body = "word_of_nat OP_POP # code b"
    have c: "compiles s2 ((word_of_nat OP_JUMP_IF_FALSE # bytes16 0) @ [word_of_nat OP_POP] @ code b) s5"
      using compiles_trans [OF s3(2) compiles_trans [OF s4(2) s5(2)]] by simp
    then have code5: "cur_code s5 = ?pre @ bytes16 0 @ ?body" by (simp add: compiles_def)
    obtain s6 where s6: "patchJump (int (length ?pre)) s5 = Some s6" "cur_code s6 = ?pre @ bytes16 (int (length ?body)) @ ?body"
      "ready k (u # us) s6" "\<forall>d'. cur_code s6 = cur_code s2 @ d' \<longrightarrow> compiles s2 d' s6"
      using patchJump_ready [OF s5(3) code5 _ c] small t by auto
    have "compiles s2 (word_of_nat OP_JUMP_IF_FALSE # bytes16 (int (length (code b)) + 1) @ word_of_nat OP_POP # code b) s6"
      using s6(2,4) by (simp add: add.commute)
    then have "compiles s (code (Logical a t b)) s6"
      using compiles_trans [OF compiles_trans [OF s1 s2(2)]] t by (simp add: op_code_def)
    moreover have "run_infix (parse n) I_and ca (prec t) s2 = Some s6" for ca
      using s3(1) s4(1) s5(1) s6(1) by (simp add: run_infix_def p_and_def add.commute)
    ultimately show "\<exists>s2 s3. advance s1 = Some s2 \<and> (\<forall>ca. run_infix (parse n) I_and ca (prec t) s2 = Some s3) \<and>
        ready k (u # us) s3 \<and> compiles s (code (Logical a t b)) s3"
      using s2(1) s6(3) by blast
  qed
qed

lemma parsed_Or:
  assumes wf: "well_formed (Logical a t b)" and t: "tk_type t = TOKEN_OR" and p: "p \<le> prec t" and u: "prec u < prec t" and n: "n = Suc m"
    and small: "length (code (Logical a t b)) \<le> 65535"
    and a: "parsed a p n (3 + (3 + (1 + (length (code b) + k)))) (t # ast_tokens b @ u # us) s"
    and b: "\<And>s k. ready (length (code b) + k) (ast_tokens b @ u # us) s \<Longrightarrow> parsed b (prec t) m k (u # us) s"
  shows "parsed (Logical a t b) p n k (u # us) s"
proof -
  have rules: "pr_infix (getRule (tk_type t)) = Some I_or" "prec t = PREC_OR" using logical_rule [of t] t by simp_all
  let ?ts = "ast_tokens b @ u # us"
  show ?thesis
  proof (rule parsed_infix [OF a _ p rules(1)])
    fix s1
    assume r: "ready (3 + (3 + (1 + (length (code b) + k)))) (t # ?ts) s1" and s1: "compiles s (code a) s1"
    obtain s2 where s2: "advance s1 = Some s2" "compiles s1 [] s2" "ready (3 + (3 + (1 + (length (code b) + k)))) ?ts s2"
      using advance_to [OF r] by blast
    obtain s3 where s3: "emitJump OP_JUMP_IF_FALSE s2 = Some (int (length (cur_code s2)) + 1, s3)"
      "compiles s2 (word_of_nat OP_JUMP_IF_FALSE # bytes16 0) s3" "ready (3 + (1 + (length (code b) + k))) ?ts s3"
      using emitJump_ready [OF s2(3)] by blast
    obtain s4 where s4: "emitJump OP_JUMP s3 = Some (int (length (cur_code s3)) + 1, s4)"
      "compiles s3 (word_of_nat OP_JUMP # bytes16 0) s4" "ready (1 + (length (code b) + k)) ?ts s4"
      using emitJump_ready [OF s3(3)] by blast
    let ?pre = "cur_code s2 @ [word_of_nat OP_JUMP_IF_FALSE]" and ?jump = "word_of_nat OP_JUMP # bytes16 0"
    have c4: "compiles s2 ((word_of_nat OP_JUMP_IF_FALSE # bytes16 0) @ ?jump) s4" by (rule compiles_trans [OF s3(2) s4(2)])
    then have code4: "cur_code s4 = ?pre @ bytes16 0 @ ?jump" by (simp add: compiles_def)
    obtain s5 where s5: "patchJump (int (length ?pre)) s4 = Some s5" "cur_code s5 = ?pre @ bytes16 (int (length ?jump)) @ ?jump"
      "ready (1 + (length (code b) + k)) ?ts s5" "\<forall>d'. cur_code s5 = cur_code s2 @ d' \<longrightarrow> compiles s2 d' s5"
      using patchJump_ready [OF s4(3) code4 _ c4] by (auto simp: bytes16_def)
    have three: "length ?jump = 3" by (simp add: bytes16_def)
    have c5: "compiles s2 (word_of_nat OP_JUMP_IF_FALSE # bytes16 3 @ ?jump) s5" using s5(2,4) unfolding three by simp
    have "ready (Suc (length (code b) + k)) ?ts s5" using s5(3) by simp
    then obtain s6 where s6: "emitOp OP_POP s5 = Some s6" "compiles s5 [word_of_nat OP_POP] s6" "ready (length (code b) + k) ?ts s6"
      using emitOp_ready by blast
    obtain s7 where s7: "expression_of (parse n) PREC_OR s6 = Some s7" "compiles s6 (code b) s7" "ready k (u # us) s7"
      using operand [OF b [OF s6(3)]] u n rules(2) by (auto simp: prec_defs)
    let ?pre2 = "?pre @ bytes16 3 @ [word_of_nat OP_JUMP]" and ?body = "word_of_nat OP_POP # code b"
    have c7: "compiles s2 ((word_of_nat OP_JUMP_IF_FALSE # bytes16 3 @ ?jump) @ [word_of_nat OP_POP] @ code b) s7"
      using compiles_trans [OF c5 compiles_trans [OF s6(2) s7(2)]] by simp
    then have code7: "cur_code s7 = ?pre2 @ bytes16 0 @ ?body" by (simp add: compiles_def)
    obtain s8 where s8: "patchJump (int (length ?pre2)) s7 = Some s8" "cur_code s8 = ?pre2 @ bytes16 (int (length ?body)) @ ?body"
      "ready k (u # us) s8" "\<forall>d'. cur_code s8 = cur_code s2 @ d' \<longrightarrow> compiles s2 d' s8"
      using patchJump_ready [OF s7(3) code7 _ c7] small t by (auto simp: bytes16_def)
    have "compiles s2 (word_of_nat OP_JUMP_IF_FALSE # bytes16 3 @ word_of_nat OP_JUMP #
        bytes16 (int (length (code b)) + 1) @ word_of_nat OP_POP # code b) s8"
      using s8(2,4) by (simp add: add.commute)
    then have "compiles s (code (Logical a t b)) s8"
      using compiles_trans [OF compiles_trans [OF s1 s2(2)]] t by (simp add: op_code_def)
    moreover have "int (length (cur_code s3)) + 1 = int (length ?pre2)" using s3(2) by (simp add: compiles_def bytes16_def)
    then have "run_infix (parse n) I_or ca (prec t) s2 = Some s8" for ca
      using s3(1) s4(1) s5(1) s6(1) s7(1) s8(1) by (simp add: run_infix_def p_or_def add.commute)
    ultimately show "\<exists>s2 s3. advance s1 = Some s2 \<and> (\<forall>ca. run_infix (parse n) I_or ca (prec t) s2 = Some s3) \<and>
        ready k (u # us) s3 \<and> compiles s (code (Logical a t b)) s3"
      using s2(1) s8(3) by blast
  qed
qed

lemma depth_pos: "0 < depth e" by (induction e) auto

lemma parsed_expression:
  "\<lbrakk>well_formed e; p \<le> level e; depth e \<le> Suc n; length (code e) \<le> 65535; follow e u;
    ready (length (code e) + k) (ast_tokens e @ u # us) s\<rbrakk> \<Longrightarrow> parsed e p n k (u # us) s"
proof (induction e arbitrary: p n k u us s)
  case (Number t)
  then show ?case by (intro parsed_Number) simp_all
next
  case (Constant t)
  then show ?case by (intro parsed_Constant) simp_all
next
  case (Paren l e r)
  obtain m where n: "n = Suc m" "depth e \<le> Suc m" using Paren.prems(3) depth_pos [of e] by (cases n) auto
  have r: "prec r = 0" using Paren.prems(1) by (simp add: prec_def prefix_rules no_rule_def rule_def prec_defs)
  have "1 \<le> level e" using Paren.prems(1)
  proof (cases e)
    case (Binary a t b)
    then show ?thesis using Paren.prems(1) operator_prec(1) [of t] by simp
  next
    case (Logical a t b)
    then show ?thesis using Paren.prems(1) operator_prec(2) [of t] by auto
  qed (simp_all add: prec_defs)
  then have f: "follow e r" "PREC_ASSIGNMENT \<le> level e"
    using follow_right [of r 1 e] r by (simp_all add: prec_defs)
  show ?case
    using Paren.prems n f by (intro parsed_Paren [OF Paren.prems(1) _ n(1)] Paren.IH) simp_all
next
  case (Unary t e)
  obtain m where n: "n = Suc m" "depth e \<le> Suc m" using Unary.prems(3) depth_pos [of e] by (cases n) auto
  have u: "prec u < PREC_UNARY" using Unary.prems(5) by simp
  have f: "follow e u" using follow_right [OF u] Unary.prems(1) by simp
  show ?case using Unary.prems n f by (intro parsed_Unary [OF Unary.prems(1) _ u n(1)] Unary.IH) simp_all
next
  case (Binary a t b)
  obtain m where n: "n = Suc m" "depth b \<le> Suc m" "depth a \<le> Suc n"
    using Binary.prems(3) depth_pos [of b] by (cases n) auto
  have t: "3 < prec t" "prec t < 8" using operator_prec(1) [of t] Binary.prems(1) by auto
  have fa: "follow a t" using follow_left [of a t] Binary.prems(1) by simp
  have fb: "follow b u"
    using follow_right [of u "prec t + 1" b] Binary.prems(1,5) t by (simp add: prec_defs)
  let ?l = "length (the (map_of binary_ops (tk_type t)))"
  have "ready (length (code a) + (length (code b) + (?l + k))) (ast_tokens a @ t # ast_tokens b @ u # us) s"
    using Binary.prems(6) by (simp add: add.assoc)
  then have a: "parsed a p n (length (code b) + (?l + k)) (t # ast_tokens b @ u # us) s"
    using Binary.prems n fa by (intro Binary.IH(1)) simp_all
  show ?case
    using Binary.prems n fb by (intro parsed_Binary [OF Binary.prems(1) _ _ n(1) a] Binary.IH(2)) simp_all
next
  case (Logical a t b)
  obtain m where n: "n = Suc m" "depth b \<le> Suc m" "depth a \<le> Suc n"
    using Logical.prems(3) depth_pos [of b] by (cases n) auto
  have t: "prec t \<le> 3" using operator_prec(2) [of t] Logical.prems(1) by auto
  have fa: "follow a t" using follow_left [of a t] Logical.prems(1) by simp
  have fb: "follow b u" using follow_right [of u "prec t" b] Logical.prems(1,5) t by (simp add: prec_defs)
  have b: "parsed b (prec t) m k (u # us) s" if "ready (length (code b) + k) (ast_tokens b @ u # us) s" for s k
    using Logical.prems n fb that by (intro Logical.IH(2)) (auto split: if_splits)
  have la: "length (code a) \<le> 65535" "p \<le> prec t" "p \<le> level a" using Logical.prems(1,2,4) by (auto split: if_splits)
  show ?case
  proof (cases "tk_type t = TOKEN_AND")
    case True
    then have "length (code (Logical a t b)) = length (code a) + (3 + (1 + length (code b)))" by (simp add: bytes16_def)
    then have "ready (length (code a) + (3 + (1 + (length (code b) + k)))) (ast_tokens a @ t # ast_tokens b @ u # us) s"
      using Logical.prems(6) by (simp add: ac_simps)
    then have "parsed a p n (3 + (1 + (length (code b) + k))) (t # ast_tokens b @ u # us) s"
      using Logical.prems(1) n fa la by (intro Logical.IH(1)) simp_all
    then show ?thesis using Logical.prems(4,5) la b n True by (intro parsed_And [OF Logical.prems(1)]) simp_all
  next
    case False
    then have "length (code (Logical a t b)) = length (code a) + (3 + (3 + (1 + length (code b))))" by (simp add: bytes16_def)
    then have "ready (length (code a) + (3 + (3 + (1 + (length (code b) + k))))) (ast_tokens a @ t # ast_tokens b @ u # us) s"
      using Logical.prems(6) by (simp add: ac_simps)
    then have "parsed a p n (3 + (3 + (1 + (length (code b) + k)))) (t # ast_tokens b @ u # us) s"
      using Logical.prems(1) n fa la by (intro Logical.IH(1)) simp_all
    then show ?thesis using Logical.prems(1,4,5) la b n False by (intro parsed_Or [OF Logical.prems(1)]) simp_all
  qed
qed

section \<open>Evaluation\<close>

text \<open>
  The instructions of expressions on the value stack, its top first.  What the operators compute is
  a parameter: \<open>prim\<close> for the binary instructions, on the left and the right operand, and
  \<open>neg\<close> for \<open>OP_NEGATE\<close>; they answer nothing when the machine raises an exception.
\<close>

definition binary_codes :: "nat set" where
  "binary_codes = {OP_EQUAL, OP_GREATER, OP_LESS, OP_ADD, OP_SUBTRACT, OP_MULTIPLY, OP_DIVIDE, OP_MODULO,
     OP_INSTANCEOF, OP_IN}"

definition read32 :: "byte list \<Rightarrow> int" where
  "read32 bs = sint (word_of_nat (unat (bs ! 0) + 2 ^ 8 * unat (bs ! 1) + 2 ^ 16 * unat (bs ! 2) + 2 ^ 24 * unat (bs ! 3)) :: u32)"

definition read16 :: "byte list \<Rightarrow> nat" where
  "read16 bs = unat (bs ! 0) + 256 * unat (bs ! 1)"

function exec :: "(nat \<Rightarrow> val \<Rightarrow> val \<Rightarrow> val option) \<Rightarrow> (val \<Rightarrow> val option) \<Rightarrow> byte list \<Rightarrow> val list \<Rightarrow> val list option" where
  "exec prim neg [] stk = Some stk"
| "exec prim neg (b # c) stk =
     (let oc = unat b in
      if oc = OP_IMMI then (if length c < 4 then None else exec prim neg (drop 4 c) (VNumber (dbl_of_int (read32 c)) # stk))
      else if oc = OP_NIL then exec prim neg c (VNil # stk)
      else if oc = OP_TRUE then exec prim neg c (VBool True # stk)
      else if oc = OP_FALSE then exec prim neg c (VBool False # stk)
      else if oc = OP_POP then (case stk of [] \<Rightarrow> None | v # stk \<Rightarrow> exec prim neg c stk)
      else if oc = OP_NOT then (case stk of [] \<Rightarrow> None | v # stk \<Rightarrow> exec prim neg c (VBool (isFalsey v) # stk))
      else if oc = OP_NEGATE then (case stk of [] \<Rightarrow> None
             | v # stk \<Rightarrow> (case neg v of None \<Rightarrow> None | Some w \<Rightarrow> exec prim neg c (w # stk)))
      else if oc = OP_JUMP then (if length c < 2 + read16 c then None else exec prim neg (drop (2 + read16 c) c) stk)
      else if oc = OP_JUMP_IF_FALSE
        then (if length c < 2 + read16 c then None
              else case stk of [] \<Rightarrow> None
                | v # _ \<Rightarrow> exec prim neg (drop (if isFalsey v then 2 + read16 c else 2) c) stk)
      else if oc \<in> binary_codes
        then (case stk of y # x # stk \<Rightarrow> (case prim oc x y of None \<Rightarrow> None | Some v \<Rightarrow> exec prim neg c (v # stk)) | _ \<Rightarrow> None)
      else None)"
  by pat_completeness auto
termination by (relation "measure (\<lambda>(_, _, c, _). length c)") auto

text \<open>The meaning of an expression.\<close>

definition operator :: "(nat \<Rightarrow> val \<Rightarrow> val \<Rightarrow> val option) \<Rightarrow> token_type \<Rightarrow> val \<Rightarrow> val \<Rightarrow> val option" where
  "operator prim t x y =
     (let negated = map_option (\<lambda>v. VBool (isFalsey v))
      in if t = TOKEN_BANG_EQUAL then negated (prim OP_EQUAL x y)
         else if t = TOKEN_EQUAL_EQUAL then prim OP_EQUAL x y
         else if t = TOKEN_GREATER then prim OP_GREATER x y
         else if t = TOKEN_GREATER_EQUAL then negated (prim OP_LESS x y)
         else if t = TOKEN_LESS then prim OP_LESS x y
         else if t = TOKEN_LESS_EQUAL then negated (prim OP_GREATER x y)
         else if t = TOKEN_PLUS then prim OP_ADD x y
         else if t = TOKEN_MINUS then prim OP_SUBTRACT x y
         else if t = TOKEN_STAR then prim OP_MULTIPLY x y
         else if t = TOKEN_SLASH then prim OP_DIVIDE x y
         else if t = TOKEN_PERCENT then prim OP_MODULO x y
         else if t = TOKEN_INSTANCEOF then prim OP_INSTANCEOF x y
         else prim OP_IN x y)"

primrec eval :: "(nat \<Rightarrow> val \<Rightarrow> val \<Rightarrow> val option) \<Rightarrow> (val \<Rightarrow> val option) \<Rightarrow> ast \<Rightarrow> val option" where
  "eval prim neg (Number t) = Some (VNumber (strtod (tk_chars t)))"
| "eval prim neg (Constant t) =
     Some (if tk_type t = TOKEN_NIL then VNil else VBool (tk_type t = TOKEN_TRUE))"
| "eval prim neg (Paren l e r) = eval prim neg e"
| "eval prim neg (Unary t e) =
     (case eval prim neg e of None \<Rightarrow> None
      | Some v \<Rightarrow> if tk_type t = TOKEN_BANG then Some (VBool (isFalsey v)) else neg v)"
| "eval prim neg (Binary a t b) =
     (case eval prim neg a of None \<Rightarrow> None
      | Some x \<Rightarrow> (case eval prim neg b of None \<Rightarrow> None | Some y \<Rightarrow> operator prim (tk_type t) x y))"
| "eval prim neg (Logical a t b) =
     (case eval prim neg a of None \<Rightarrow> None
      | Some x \<Rightarrow> if isFalsey x = (tk_type t = TOKEN_AND) then Some x else eval prim neg b)"

text \<open>Operands read back.\<close>

lemma read16_bytes16: "0 \<le> v \<Longrightarrow> v \<le> 65535 \<Longrightarrow> read16 (bytes16 v @ c) = nat v"
  using code_u16_bytes16 [of "[]" v c] by (simp add: code_u16_def read16_def bytes16_def)

lemma bytes_of_int:
  fixes v :: int
  shows "v mod 256 + 2 ^ 8 * (v div 2 ^ 8 mod 256) + 2 ^ 16 * (v div 2 ^ 16 mod 256) + 2 ^ 24 * (v div 2 ^ 24 mod 256) = v mod 2 ^ 32"
proof -
  have d: "v div 2 ^ 16 = v div 256 div 256" "v div 2 ^ 24 = v div 256 div 256 div 256"
    "v div 2 ^ 32 = v div 256 div 256 div 256 div 256"
    by (simp_all flip: zdiv_zmult2_eq)
  have e: "v mod 2 ^ 32 = v - 2 ^ 32 * (v div 2 ^ 32)" by (rule minus_mult_div_eq_mod [symmetric])
  have m: "x mod 256 = x - 256 * (x div 256)" for x :: int by (rule minus_mult_div_eq_mod [symmetric])
  have p: "(2::int) ^ 8 = 256" "(2::int) ^ 16 = 65536" "(2::int) ^ 24 = 16777216" "(2::int) ^ 32 = 4294967296" by simp_all
  show ?thesis unfolding e d m p(1) unfolding p by (simp add: algebra_simps)
qed

lemma read32_bytes32:
  assumes "- (2 ^ 31) \<le> v" and "v < 2 ^ 31"
  shows "read32 (bytes32 v @ c) = v"
proof -
  have lo: "int (unat (word_of_int w :: byte)) = w mod 256" for w
    using uint_word_of_int [of w, where 'a = 8] by simp
  let ?n = "unat (word_of_int v :: byte) + 2 ^ 8 * unat (word_of_int (v div 2 ^ 8) :: byte) +
    2 ^ 16 * unat (word_of_int (v div 2 ^ 16) :: byte) + 2 ^ 24 * unat (word_of_int (v div 2 ^ 24) :: byte)"
  have "int ?n = v mod 256 + 2 ^ 8 * (v div 2 ^ 8 mod 256) + 2 ^ 16 * (v div 2 ^ 16 mod 256) + 2 ^ 24 * (v div 2 ^ 24 mod 256)"
    by (simp only: of_nat_add of_nat_mult lo of_nat_power of_nat_numeral)
  also have "\<dots> = v mod 2 ^ 32" by (rule bytes_of_int)
  finally have n: "int ?n = v mod 2 ^ 32" .
  have "word_of_nat ?n = (word_of_int (v mod 2 ^ 32) :: u32)" using n by (metis of_int_of_nat_eq)
  also have "\<dots> = word_of_int v" by (simp add: word_of_int_eq_iff take_bit_eq_mod)
  finally have "read32 (bytes32 v @ c) = sint (word_of_int v :: u32)" by (simp add: read32_def bytes32_def)
  also have "\<dots> = v" using assms by (simp add: sint_word_ariths signed_take_bit_int_eq_self_iff sint_sbintrunc')
  finally show ?thesis .
qed

text \<open>The value of an integer literal is its immediate operand.\<close>

lemma dbl_of_int_zero: "\<bar>i\<bar> < 2 ^ 53 \<Longrightarrow> dbl_is_zero (dbl_of_int i) \<Longrightarrow> dbl_of_int i = 0"
  using dbl_of_int_fields(2) [of i] by (cases "i = 0") (auto simp: dbl_is_zero_def dbl_of_int_def)

lemma strtod_nonneg: "\<not> dbl_neg (strtod chars)"
proof -
  have small: "\<not> dbl_neg (word_of_nat n)" if "n < 2 ^ 63" for n
  proof -
    have "unat (word_of_nat n :: dbl) \<le> n" by (simp add: unat_of_nat)
    then show ?thesis using that by (simp add: dbl_neg_def)
  qed
  have "\<not> dbl_neg (dbl_of_ratio a b)" for a b
  proof -
    define bits where "bits = (let e = max (ratio_log2 a b - 52) (- 1074);
        q = (if 0 \<le> e then round_div a (b * 2 ^ nat e) else round_div (a * 2 ^ nat (- e)) b)
      in nat (e + 1074) * 2 ^ 52 + q)"
    have "dbl_of_ratio a b = (if a = 0 then 0 else if bits \<ge> 2047 * 2 ^ 52 then word_of_nat (2047 * 2 ^ 52) else word_of_nat bits)"
      by (simp add: dbl_of_ratio_def bits_def Let_def)
    moreover have "\<not> dbl_neg 0" by (simp add: dbl_neg_def)
    ultimately show ?thesis using small [of "2047 * 2 ^ 52"] small [of bits] by (simp split: if_splits)
  qed
  then show ?thesis by (simp add: strtod_def split: prod.split)
qed

lemma immediate_value:
  assumes "immediate (VNumber d) = Some i" and "\<not> dbl_neg d"
  shows "- (2 ^ 31) \<le> i \<and> i < 2 ^ 31 \<and> dbl_of_int i = d"
proof -
  have i: "- (2 ^ 31) \<le> i" "i < 2 ^ 31" "dbl_eq (dbl_of_int i) d"
    using assms(1) by (auto simp: immediate_def bind_eq_Some_conv split: if_splits)
  have "dbl_of_int i = d"
  proof (cases "dbl_of_int i = d")
    case False
    then have z: "dbl_is_zero (dbl_of_int i)" "dbl_is_zero d" using i(3) by (auto simp: dbl_eq_def)
    then have "dbl_of_int i = 0" using dbl_of_int_zero [of i] i(1,2) by simp
    moreover have "unat d div 2 ^ 52 = 0" "unat d mod 2 ^ 52 = 0"
      using z(2) assms(2) by (auto simp: dbl_is_zero_def dbl_neg_def dbl_exp_def dbl_frac_def)
    then have "unat d = 0" using div_mult_mod_eq [of "unat d" "2 ^ 52"] by simp
    then have "d = 0" by (simp add: unat_eq_zero)
    ultimately show ?thesis by simp
  qed
  then show ?thesis using i by simp
qed

text \<open>One instruction at a time.\<close>

lemma op_code_unat: "oc < 256 \<Longrightarrow> unat (op_code oc) = oc"
  by (simp add: op_code_def unat_of_nat)

lemma exec_immediate:
  "- (2 ^ 31) \<le> i \<Longrightarrow> i < 2 ^ 31 \<Longrightarrow>
    exec prim neg (op_code OP_IMMI # bytes32 i @ c) stk = exec prim neg c (VNumber (dbl_of_int i) # stk)"
  using read32_bytes32 [of i c] by (simp add: op_code_unat OP_IMMI_def bytes32_def)

lemma exec_constant:
  "exec prim neg (op_code OP_NIL # c) stk = exec prim neg c (VNil # stk)"
  "exec prim neg (op_code OP_TRUE # c) stk = exec prim neg c (VBool True # stk)"
  "exec prim neg (op_code OP_FALSE # c) stk = exec prim neg c (VBool False # stk)"
  "exec prim neg (op_code OP_POP # c) (v # stk) = exec prim neg c stk"
  "exec prim neg (op_code OP_NOT # c) (v # stk) = exec prim neg c (VBool (isFalsey v) # stk)"
  "exec prim neg (op_code OP_NEGATE # c) (v # stk) = (case neg v of None \<Rightarrow> None | Some w \<Rightarrow> exec prim neg c (w # stk))"
  by (simp_all add: op_code_unat opcode_defs)

lemma exec_jump:
  assumes "length d \<le> 65535"
  shows "exec prim neg (op_code OP_JUMP # bytes16 (int (length d)) @ d @ c) stk = exec prim neg c stk"
    and "exec prim neg (op_code OP_JUMP_IF_FALSE # bytes16 (int (length d)) @ d @ c) (v # stk) =
      exec prim neg (if isFalsey v then c else d @ c) (v # stk)"
  using read16_bytes16 [of "int (length d)" "d @ c"] assms
  by (simp_all add: op_code_unat opcode_defs bytes16_def)

lemma exec_binary:
  "oc \<in> binary_codes \<Longrightarrow> exec prim neg (op_code oc # c) (y # x # stk) =
    (case prim oc x y of None \<Rightarrow> None | Some v \<Rightarrow> exec prim neg c (v # stk))"
  by (auto simp: binary_codes_def op_code_unat opcode_defs)

lemma exec_operator:
  assumes "(t, ops) \<in> set binary_ops"
  shows "exec prim neg (map op_code ops @ c) (y # x # stk) =
    (case operator prim t x y of None \<Rightarrow> None | Some v \<Rightarrow> exec prim neg c (v # stk))"
proof -
  have b: "OP_EQUAL \<in> binary_codes" "OP_GREATER \<in> binary_codes" "OP_LESS \<in> binary_codes" "OP_ADD \<in> binary_codes"
    "OP_SUBTRACT \<in> binary_codes" "OP_MULTIPLY \<in> binary_codes" "OP_DIVIDE \<in> binary_codes" "OP_MODULO \<in> binary_codes"
    "OP_INSTANCEOF \<in> binary_codes" "OP_IN \<in> binary_codes"
    by (simp_all add: binary_codes_def)
  show ?thesis using assms unfolding binary_ops_def
    by (auto simp: operator_def Let_def exec_binary b exec_constant comp_def simp del: exec.simps cong: option.case_cong)
qed

lemma code_correct:
  "well_formed e \<Longrightarrow> length (code e) \<le> 65535 \<Longrightarrow>
    exec prim neg (code e @ c) stk = (case eval prim neg e of None \<Rightarrow> None | Some v \<Rightarrow> exec prim neg c (v # stk))"
proof (induction e arbitrary: c stk)
  case (Number t)
  then obtain i where i: "immediate (VNumber (strtod (tk_chars t))) = Some i" by auto
  show ?case using exec_immediate [of i prim neg c stk] immediate_value [OF i strtod_nonneg] i by simp
next
  case (Constant t)
  then show ?case by (auto simp: exec_constant simp del: exec.simps)
next
  case (Paren l e r)
  then show ?case by simp
next
  case (Unary t e)
  have "tk_type t = TOKEN_BANG \<or> tk_type t = TOKEN_MINUS" using Unary.prems(1) by auto
  then show ?case using Unary by (cases "eval prim neg e") (auto simp: exec_constant simp del: exec.simps)
next
  case (Binary a t b)
  obtain ops where ops: "map_of binary_ops (tk_type t) = Some ops" "(tk_type t, ops) \<in> set binary_ops"
    using map_of_member [of "tk_type t" binary_ops] Binary.prems(1) by auto
  then show ?case using Binary exec_operator [OF ops(2)]
    by (simp del: exec.simps split: option.split)
next
  case (Logical a t b)
  have t: "tk_type t = TOKEN_AND \<or> tk_type t = TOKEN_OR" using Logical.prems(1) by auto
  let ?b = "op_code OP_POP # code b"
  have len: "length ?b \<le> 65535" "length (code a) \<le> 65535" "length (code b) \<le> 65535"
    using Logical.prems(2) by (auto split: if_splits)
  have IHa: "exec prim neg (code a @ d) stk = (case eval prim neg a of None \<Rightarrow> None | Some v \<Rightarrow> exec prim neg d (v # stk))" for d stk
    using Logical.IH(1) Logical.prems(1) len by simp
  have IHb: "exec prim neg (code b @ d) stk = (case eval prim neg b of None \<Rightarrow> None | Some v \<Rightarrow> exec prim neg d (v # stk))" for d stk
    using Logical.IH(2) Logical.prems(1) len by simp
  have pop: "exec prim neg (?b @ c) (v # stk) = (case eval prim neg b of None \<Rightarrow> None | Some v \<Rightarrow> exec prim neg c (v # stk))" for v stk
    by (simp add: exec_constant IHb del: exec.simps)
  have lb: "int (length (code b)) + 1 = int (length ?b)" by simp
  show ?case
  proof (cases "tk_type t = TOKEN_AND")
    case True
    then have "code (Logical a t b) @ c = code a @ (op_code OP_JUMP_IF_FALSE # bytes16 (int (length ?b)) @ ?b @ c)"
      by (simp add: add.commute)
    then show ?thesis using True exec_jump(2) [OF len(1)] pop
      by (simp add: IHa del: exec.simps code.simps split: option.split)
  next
    case False
    let ?j = "op_code OP_JUMP # bytes16 (int (length ?b))"
    have j: "int (length ?j) = 3" "length ?j \<le> 65535" by (simp_all add: bytes16_def)
    have "code (Logical a t b) @ c = code a @ (op_code OP_JUMP_IF_FALSE # bytes16 (int (length ?j)) @ ?j @ ?b @ c)"
      using False unfolding j(1) by (simp add: add.commute)
    then show ?thesis using False t exec_jump(2) [OF j(2), of prim neg "?b @ c"] exec_jump(1) [OF len(1), of prim neg c] pop
      by (simp add: IHa del: exec.simps code.simps split: option.split)
  qed
qed

text \<open>
  The compiler consumes exactly the tokens of the expression and appends exactly its code, when a token
  follows that cannot continue it.
\<close>

lemma expression_compiled:
  assumes "well_formed e" and "p \<le> level e" and "length (code e) \<le> 65535"
    and "reads s (ast_tokens e @ u # us)" and "prec u < p" and "p \<le> PREC_UNARY" and "tk_type u \<noteq> TOKEN_EQUAL"
    and "room (length (code e)) s" and "no_error s" and "depth e \<le> n"
  shows "\<exists>s'. parse n (Expression p ce fe) s = Some (ETYPE_NORMAL, s') \<and> no_error s' \<and> reads s' (u # us) \<and>
    cur_code s' = cur_code s @ code e"
proof -
  obtain m where n: "n = Suc m" using depth_pos [of e] assms(10) by (cases n) auto
  have r: "ready (length (code e) + 0) (ast_tokens e @ u # us) s" using assms(4,8,9) by (simp add: ready_def)
  have f: "follow e u" using follow_right [OF assms(5,2,6)] .
  obtain s' where s': "compiles s (code e) s'" "ready 0 (u # us) s'" "\<And>ce fe. expression_goal (parse m) p ce fe s = finish m p s'"
    using parsed_expression [OF assms(1,2) _ assms(3) f r, of m] assms(10) n by (auto simp: parsed_def)
  have "finish m p s' = Some (ETYPE_NORMAL, s')"
    using finish_stop [of s' u us p m] s'(2) assms(5,7) by (simp add: ready_def)
  then have "parse n (Expression p ce fe) s = Some (ETYPE_NORMAL, s')" using s'(3) n by simp
  moreover have "cur_code s' = cur_code s @ code e" using s'(1) by (simp add: compiles_def)
  ultimately show ?thesis using s'(2) by (auto simp: ready_def)
qed

text \<open>The expression \<open>1 and !nil\<close>, its first token already read.\<close>

definition sample_scanner :: "nat \<Rightarrow> nat \<Rightarrow> scanner" where
  "sample_scanner start pos = \<lparr>sc_src = bytes '' and !nil;'' @ [0], sc_start = start, sc_current = pos, sc_line = 1,
     sc_openFStrings = 0, sc_fStrings = []\<rparr>"

definition sample_expression :: ast where
  "sample_expression = Logical (Number (sample_token TOKEN_NUMBER ''1'')) (sample_token TOKEN_AND ''and'')
     (Unary (sample_token TOKEN_BANG ''!'') (Constant (sample_token TOKEN_NIL ''nil'')))"

definition sample_source :: cctx where
  "sample_source = (let s = sample_cctx [sample_compiler 1 [] 0] TOKEN_EOF []
     in s\<lparr>cc_parser := (cc_parser s)\<lparr>ps_current := sample_token TOKEN_NUMBER ''1''\<rparr>, cc_scanner := sample_scanner 0 0\<rparr>)"

lemma sample_tokens:
  "scanToken (sample_scanner 0 0) = Some (sample_token TOKEN_AND ''and'', sample_scanner 1 4)"
  "scanToken (sample_scanner 1 4) = Some (sample_token TOKEN_BANG ''!'', sample_scanner 5 6)"
  "scanToken (sample_scanner 5 6) = Some (sample_token TOKEN_NIL ''nil'', sample_scanner 6 9)"
  "scanToken (sample_scanner 6 9) = Some (sample_token TOKEN_SEMICOLON '';'', sample_scanner 9 10)"
  by code_simp+

lemma ilog2_one: "ilog2 1 = 0" by (subst ilog2.simps) simp

lemma strtod_one: "strtod (bytes ''1'') = dbl_of_int 1"
proof -
  have "ratio_log2 1 1 = 0" by (simp add: ratio_log2_def ilog2_one [unfolded One_nat_def])
  moreover have "round_div (2 ^ 52) 1 = 2 ^ 52" by (simp add: round_div_def Let_def)
  ultimately have "dbl_of_ratio 1 1 = dbl_of_int 1"
    by (simp add: dbl_of_ratio_def dbl_of_int_def Let_def ilog2_one [unfolded One_nat_def])
  then show ?thesis by (simp add: strtod_def bytes_def digit_val_def)
qed

lemma immediate_one: "immediate (VNumber (dbl_of_int 1)) = Some 1"
  using dbl_of_int_fields(2) [of 1]
  by (simp add: immediate_def dbl_eq_def dbl_is_nan_def ilog2_one [unfolded One_nat_def])

lemma sample_token_fields [simp]: "tk_type (sample_token ty chars) = ty" "tk_chars (sample_token ty chars) = bytes chars"
  by (simp_all add: sample_token_def)

definition sample_follow :: token where
  "sample_follow = sample_token TOKEN_SEMICOLON '';''"

lemma sample_expression_facts:
  shows "well_formed sample_expression" and "PREC_ASSIGNMENT \<le> level sample_expression"
    and "length (code sample_expression) = 11"
    and "reads sample_source (ast_tokens sample_expression @ sample_follow # [])"
    and "prec sample_follow < PREC_ASSIGNMENT" and "PREC_ASSIGNMENT \<le> PREC_UNARY" and "tk_type sample_follow \<noteq> TOKEN_EQUAL"
    and "room 11 sample_source" and "no_error sample_source" and "depth sample_expression \<le> 3"
    and "cur_code sample_source = []" and "eval prim neg sample_expression = Some (VBool True)"
proof -
  have num: "strtod (tk_chars (sample_token TOKEN_NUMBER ''1'')) = dbl_of_int 1" by (simp add: strtod_one)
  have t: "prec (sample_token TOKEN_AND ''and'') = 3"
    by (simp add: prec_def sample_token_def operator_rules rule_def)
  show "well_formed sample_expression" unfolding sample_expression_def well_formed.simps num immediate_one
    by (simp add: t prec_defs)
  show "PREC_ASSIGNMENT \<le> level sample_expression" by (simp add: sample_expression_def t prec_defs)
  show "length (code sample_expression) = 11" by (simp add: sample_expression_def sample_token_def bytes32_def bytes16_def)
  show "reads sample_source (ast_tokens sample_expression @ sample_follow # [])"
    using sample_tokens
    by (simp add: reads_def sample_source_def sample_expression_def sample_follow_def Let_def sample_cctx_def sample_token_def)
  show "prec sample_follow < PREC_ASSIGNMENT"
    by (simp add: prec_def sample_follow_def sample_token_def getRule_def parseRules_def no_rule_def rule_def prec_defs)
  show "room 11 sample_source" "no_error sample_source"
    by (simp_all add: room_def no_error_def sample_source_def Let_def sample_defs currentChunk_def current_def)
  show "cur_code sample_source = []" by (simp add: cur_code_def currentChunk_def current_def sample_source_def Let_def sample_defs)
  show "eval prim neg sample_expression = Some (VBool True)"
    unfolding sample_expression_def eval.simps num by (simp add: sample_token_def isFalsey_def)
qed (simp_all add: prec_defs sample_expression_def sample_follow_def)

end
