(* ===== verification/MachineProps.thy ===== *)
theory MachineProps
  imports Interpreter ExprProps
begin

text \<open>
  The loop of the machine executes the straight-line instructions as the stack machine of \<open>ExprProps\<close>
  does.  Together with the correctness of the compiler: the code of an expression, run by the machine,
  leaves the value of the expression on the stack.
\<close>

section \<open>The state that straight-line code changes\<close>

lemma upd_fiber_cong:
  "\<lbrakk>active_fiber rc vm = Some f; g f = g' f\<rbrakk> \<Longrightarrow> upd_fiber rc g vm = upd_fiber rc g' vm"
  by (auto simp: active_fiber_def upd_fiber_def list_update_same_conv split: option.splits handle.splits if_splits)

lemma upd_fiber_comp [simp]: "upd_fiber rc g (upd_fiber rc g' vm) = upd_fiber rc (g \<circ> g') vm"
proof (cases rc)
  case None
  then show ?thesis by (simp add: upd_fiber_def option.map_comp)
next
  case (Some i)
  show ?thesis
  proof (cases "i < length (vm_handles vm)")
    case True
    then show ?thesis using Some by (simp add: upd_fiber_def option.map_comp split: handle.split)
  next
    case False
    then show ?thesis using Some by (simp add: upd_fiber_def list_update_beyond)
  qed
qed

definition with_state :: "nat \<Rightarrow> val list \<Rightarrow> fiber \<Rightarrow> fiber" where
  "with_state ip st f = f\<lparr>fb_stack := st, fb_frames := (case fb_frames f of [] \<Rightarrow> [] | fr # frs \<Rightarrow> fr\<lparr>cf_ip := ip\<rparr> # frs)\<rparr>"

text \<open>The machine with another instruction pointer and another stack, and otherwise as it was.\<close>

definition moved :: "machine_env \<Rightarrow> nat \<Rightarrow> val list \<Rightarrow> vm \<Rightarrow> vm" where
  "moved m ip st vm = upd_fiber (mx_fiber m) (with_state ip st) vm"

text \<open>The active frame runs a function with this code.\<close>

definition runs_code :: "machine_env \<Rightarrow> byte list \<Rightarrow> vm \<Rightarrow> bool" where
  "runs_code m cd vm \<longleftrightarrow> (\<exists>f fr frs. active_fiber (mx_fiber m) vm = Some f \<and> fb_frames f = fr # frs \<and>
     frame_code vm fr = Some cd)"

lemma with_state_comp [simp]: "with_state ip st \<circ> with_state ip' st' = with_state ip st"
  by (auto simp: with_state_def fun_eq_iff split: list.split)

lemma moved_moved [simp]: "moved m ip st (moved m ip' st' vm) = moved m ip st vm"
  by (simp add: moved_def)

lemma heap_upd_fiber [simp]: "vm_heap (upd_fiber rc g vm) = vm_heap vm"
  by (simp add: upd_fiber_def split: option.split)

lemma frame_code_cong: "\<lbrakk>vm_heap vm' = vm_heap vm; cf_function fr' = cf_function fr\<rbrakk> \<Longrightarrow> frame_code vm' fr' = frame_code vm fr"
  by (simp add: frame_code_def get_obj_def)

lemma active_moved:
  assumes "runs_code m cd vm"
  obtains f fr frs where "active_fiber (mx_fiber m) (moved m ip st vm) = Some f" "fb_frames f = fr # frs"
    "frame_code (moved m ip st vm) fr = Some cd" "cf_ip fr = ip" "fb_stack f = st"
proof -
  obtain f fr frs where "active_fiber (mx_fiber m) vm = Some f" "fb_frames f = fr # frs" "frame_code vm fr = Some cd"
    using assms by (auto simp: runs_code_def)
  moreover have "frame_code (moved m ip st vm) (fr\<lparr>cf_ip := ip\<rparr>) = frame_code vm fr"
    by (rule frame_code_cong) (simp_all add: moved_def)
  ultimately show thesis
    by (intro that [of "with_state ip st f" "fr\<lparr>cf_ip := ip\<rparr>" frs]) (simp_all add: moved_def with_state_def)
qed

lemma runs_moved: "runs_code m cd vm \<Longrightarrow> runs_code m cd (moved m ip st vm)"
  by (metis active_moved runs_code_def)

lemma read_byte_moved:
  assumes "runs_code m cd vm" and "ip < length cd"
  shows "read_byte m (moved m ip st vm) = Some (unat (cd ! ip), moved m (Suc ip) st vm)"
proof -
  obtain f fr frs where f: "active_fiber (mx_fiber m) (moved m ip st vm) = Some f" "fb_frames f = fr # frs"
    "frame_code (moved m ip st vm) fr = Some cd" "cf_ip fr = ip" "fb_stack f = st"
    using assms(1) by (rule active_moved)
  have "upd_frame (mx_fiber m) (cf_ip_update Suc) (moved m ip st vm) = moved m (Suc ip) st (moved m ip st vm)"
    unfolding upd_frame_def moved_def [of _ "Suc ip"]
    by (rule upd_fiber_cong [OF f(1)]) (use f in \<open>cases f; cases fr; simp add: with_state_def\<close>)
  then show ?thesis using f assms(2) by (simp add: read_byte_def active_frame_def)
qed

lemma stack_at_moved:
  "runs_code m cd vm \<Longrightarrow> stack_at m d (moved m ip st vm) = (if 0 \<le> d then peek st (nat d) else None)"
  by (elim active_moved [of m cd vm ip st]) (simp add: stack_at_def)

lemma push_moved [simp]: "push_value m v (moved m ip st vm) = moved m ip (st @ [v]) vm"
  by (simp add: push_value_def push_def moved_def)
     (rule arg_cong [of _ _ "\<lambda>g. upd_fiber (mx_fiber m) g vm"], auto simp: fun_eq_iff with_state_def)

lemma pop_moved [simp]: "pop (mx_fiber m) (moved m ip st vm) = moved m ip (butlast st) vm"
  by (simp add: pop_def moved_def)
     (rule arg_cong [of _ _ "\<lambda>g. upd_fiber (mx_fiber m) g vm"], auto simp: fun_eq_iff with_state_def)

lemma pop_value_moved:
  "runs_code m cd vm \<Longrightarrow> pop_value m (moved m ip (st @ [v]) vm) = Some (v, moved m ip st vm)"
  by (simp add: pop_value_def stack_at_moved peek_def nth_append)

lemma jump_moved:
  assumes "runs_code m cd vm"
  shows "jump_by m (int k) (moved m ip st vm) = success () (moved m (ip + k) st vm)"
proof -
  obtain f fr frs where f: "active_fiber (mx_fiber m) (moved m ip st vm) = Some f" "fb_frames f = fr # frs"
    "frame_code (moved m ip st vm) fr = Some cd" "cf_ip fr = ip" "fb_stack f = st"
    using assms(1) by (rule active_moved)
  have "upd_frame (mx_fiber m) (cf_ip_update (\<lambda>_. ip + k)) (moved m ip st vm) = moved m (ip + k) st (moved m ip st vm)"
    unfolding upd_frame_def moved_def [of _ "ip + k"]
    by (rule upd_fiber_cong [OF f(1)]) (use f in \<open>cases f; cases fr; simp add: with_state_def\<close>)
  then show ?thesis using f by (simp add: jump_by_def active_frame_def nat_int_add)
qed

section \<open>Single instructions\<close>

text \<open>The operations of the machine on values that are not objects, as the stack machine uses them.\<close>

definition machine_prim :: "machine_env \<Rightarrow> nat \<Rightarrow> val \<Rightarrow> val \<Rightarrow> val option" where
  "machine_prim m oc x y =
     (if oc = OP_EQUAL then Some (VBool (valuesEqual x y))
      else case (x, y) of
        (VNumber a, VNumber b) \<Rightarrow>
          if oc = OP_GREATER then Some (VBool (dbl_less b a))
          else if oc = OP_LESS then Some (VBool (dbl_less a b))
          else if oc \<in> {OP_ADD, OP_SUBTRACT, OP_MULTIPLY, OP_DIVIDE, OP_MODULO} then Some (VNumber (mx_arith m oc a b))
          else None
      | _ \<Rightarrow> None)"

definition machine_neg :: "val \<Rightarrow> val option" where
  "machine_neg v = (case v of VNumber d \<Rightarrow> Some (VNumber (dbl_minus d)) | _ \<Rightarrow> None)"

fun plain :: "val \<Rightarrow> bool" where
  "plain (VNumber _) = True"
| "plain VNil = True"
| "plain (VBool _) = True"
| "plain _ = False"

lemma plain_equals: "\<lbrakk>plain x; plain y\<rbrakk> \<Longrightarrow> valuesEquals ue h x y = Some (valuesEqual x y)"
  by (cases x; cases y) (simp_all add: valuesEquals_def valuesEqual_def)

lemma plain_object: "plain v \<Longrightarrow> object_of vm v = Some None"
  by (cases v) (simp_all add: object_of_def)

lemma machine_prim_plain: "machine_prim m oc x y = Some v \<Longrightarrow> plain v"
  by (auto simp: machine_prim_def split: if_splits val.splits)

lemma machine_neg_plain: "machine_neg x = Some v \<Longrightarrow> plain v"
  by (auto simp: machine_neg_def split: val.splits)

definition steps_to :: "machine_env \<Rightarrow> nat \<Rightarrow> (nat \<Rightarrow> interpreter) \<Rightarrow> vm \<Rightarrow> vm \<Rightarrow> bool" where
  "steps_to m h runs = (\<lambda>vm vm'. step m h runs vm = Some (Running vm'))\<^sup>*\<^sup>*"

lemma instruction_not_control:
  assumes "map_of (instructions m h rn) oc = Some ex"
  shows "oc \<notin> {OP_RETURN, OP_END, OP_THROW}"
proof
  assume "oc \<in> {OP_RETURN, OP_END, OP_THROW}"
  then have "map_of (instructions m h rn) oc = None" by (auto simp: instructions_def opcode_defs)
  with assms show False by simp
qed

text \<open>The bytes at the instruction pointer.\<close>

lemma code_ahead:
  "\<lbrakk>drop ip cd = b # c\<rbrakk> \<Longrightarrow> ip < length cd \<and> cd ! ip = b \<and> drop (Suc ip) cd = c"
  by (metis Cons_nth_drop_Suc drop_eq_Nil leI list.inject list.simps(3))

lemma step_executes:
  assumes "runs_code m cd vm" and "drop ip cd = b # c"
    and "map_of (instructions m h (runs h)) (unat b) = Some ex"
    and "ex (moved m (Suc ip) st vm) = success () vm'"
  shows "step m h runs (moved m ip st vm) = Some (Running vm')"
  using code_ahead [OF assms(2)] instruction_not_control [OF assms(3)] assms(3,4)
  by (simp add: step_def read_byte_moved [OF assms(1)] success_def)

lemma instruction_of:
  "map_of (instructions m h rn) OP_IMMI = Some (op_immi m)"
  "map_of (instructions m h rn) OP_NIL = Some (op_push m VNil)"
  "map_of (instructions m h rn) OP_TRUE = Some (op_push m (VBool True))"
  "map_of (instructions m h rn) OP_FALSE = Some (op_push m (VBool False))"
  "map_of (instructions m h rn) OP_POP = Some (op_pop m)"
  "map_of (instructions m h rn) OP_NOT = Some (op_not m)"
  "map_of (instructions m h rn) OP_NEGATE = Some (op_negate m)"
  "map_of (instructions m h rn) OP_JUMP = Some (op_jump m)"
  "map_of (instructions m h rn) OP_JUMP_IF_FALSE = Some (op_jump_if_false m)"
  by (simp_all add: instructions_def opcode_defs)

lemma binary_instruction_of:
  "map_of (instructions m h rn) OP_EQUAL = Some (op_equal m)"
  "map_of (instructions m h rn) OP_GREATER = Some (op_greater m)"
  "map_of (instructions m h rn) OP_LESS = Some (op_less m)"
  "map_of (instructions m h rn) OP_ADD = Some (op_add m)"
  "map_of (instructions m h rn) OP_SUBTRACT = Some (op_arith m OP_SUBTRACT)"
  "map_of (instructions m h rn) OP_MULTIPLY = Some (op_arith m OP_MULTIPLY)"
  "map_of (instructions m h rn) OP_DIVIDE = Some (op_arith m OP_DIVIDE)"
  "map_of (instructions m h rn) OP_MODULO = Some (op_arith m OP_MODULO)"
  by (simp_all add: instructions_def opcode_defs)

lemma read_ushort_moved:
  assumes "runs_code m cd vm" and "drop ip cd = c @ d" and "2 \<le> length c"
  shows "read_ushort m (moved m ip st vm) = Some (read16 c, moved m (ip + 2) st vm)"
proof -
  obtain b0 b1 c' where c: "c = b0 # b1 # c'" using assms(3) by (metis Suc_le_length_iff numeral_2_eq_2)
  have 0: "ip < length cd" "cd ! ip = b0" and d1: "drop (Suc ip) cd = b1 # c' @ d"
    using code_ahead [of ip cd b0 "b1 # c' @ d"] assms(2) c by auto
  have 1: "Suc ip < length cd" "cd ! Suc ip = b1" using code_ahead [OF d1] by auto
  show ?thesis using 0 1 c
    by (simp add: read_ushort_def read_byte_moved [OF assms(1)] read16_def)
qed

lemma read_int_moved:
  assumes "runs_code m cd vm" and "drop ip cd = c @ d" and "4 \<le> length c"
  shows "read_int m (moved m ip st vm) = Some (read32 c, moved m (ip + 4) st vm)"
proof -
  obtain b0 b1 b2 b3 c' where c: "c = b0 # b1 # b2 # b3 # c'"
    using assms(3) by (auto simp: Suc_le_length_iff numeral_eq_Suc)
  have "drop 2 (drop ip cd) = (b2 # b3 # c') @ d" using assms(2) c by simp
  then have "drop (ip + 2) cd = (b2 # b3 # c') @ d" by (simp add: add.commute)
  from read_ushort_moved [OF assms(1) this] have hi: "read_ushort m (moved m (ip + 2) st vm) = Some (read16 (b2 # b3 # c'), moved m (ip + 4) st vm)"
    by (simp add: numeral_eq_Suc)
  show ?thesis using read_ushort_moved [OF assms(1,2), of st] assms(3) hi c
    by (simp add: read_int_def read32_def read16_def algebra_simps)
qed

lemma step_push:
  assumes "runs_code m cd vm" and "drop ip cd = b # c"
    and "unat b = OP_NIL \<and> v = VNil \<or> unat b = OP_TRUE \<and> v = VBool True \<or> unat b = OP_FALSE \<and> v = VBool False"
  shows "step m h runs (moved m ip st vm) = Some (Running (moved m (Suc ip) (st @ [v]) vm))"
proof -
  have "map_of (instructions m h (runs h)) (unat b) = Some (op_push m v)"
    using assms(3) by (elim disjE conjE) (simp_all only: instruction_of)
  then show ?thesis by (rule step_executes [OF assms(1,2)]) (simp add: op_push_def)
qed

lemma step_immediate:
  assumes "runs_code m cd vm" and "drop ip cd = b # c @ d" and "4 \<le> length c" and "unat b = OP_IMMI"
  shows "step m h runs (moved m ip st vm) = Some (Running (moved m (ip + 5) (st @ [VNumber (dbl_of_int (read32 c))]) vm))"
proof -
  have "drop (Suc ip) cd = c @ d" using code_ahead [OF assms(2)] by auto
  from read_int_moved [OF assms(1) this assms(3)]
  have "op_immi m (moved m (Suc ip) st vm) = success () (moved m (ip + 5) (st @ [VNumber (dbl_of_int (read32 c))]) vm)"
    by (simp add: op_immi_def add.commute)
  then show ?thesis using step_executes [OF assms(1,2)] assms(4) by (simp add: instruction_of)
qed

lemma step_unary:
  assumes "runs_code m cd vm" and "drop ip cd = b # c"
    and "unat b = OP_POP \<and> st' = [] \<or> unat b = OP_NOT \<and> st' = [VBool (isFalsey v)] \<or>
      unat b = OP_NEGATE \<and> (\<exists>w. machine_neg v = Some w \<and> st' = [w])"
  shows "step m h runs (moved m ip (st @ [v]) vm) = Some (Running (moved m (Suc ip) (st @ st') vm))"
proof -
  note popped = pop_value_moved [OF assms(1), of "Suc ip" st v]
  have neg: "op_negate m (moved m (Suc ip) (st @ [v]) vm) = success () (moved m (Suc ip) (st @ [w]) vm)"
    if "machine_neg v = Some w" for w
    using that popped by (auto simp: op_negate_def machine_neg_def stack_at_moved [OF assms(1)] peek_def split: val.splits)
  have "\<exists>ex. map_of (instructions m h (runs h)) (unat b) = Some ex \<and>
    ex (moved m (Suc ip) (st @ [v]) vm) = success () (moved m (Suc ip) (st @ st') vm)"
    using assms(3)
    by (elim disjE conjE exE) (simp_all add: instruction_of op_pop_def op_not_def popped neg)
  then show ?thesis using step_executes [OF assms(1,2)] by blast
qed

lemma step_jump:
  assumes "runs_code m cd vm" and "drop ip cd = b # c @ d" and "2 \<le> length c"
  shows "unat b = OP_JUMP \<Longrightarrow>
      step m h runs (moved m ip st vm) = Some (Running (moved m (ip + 3 + read16 c) st vm))"
    and "unat b = OP_JUMP_IF_FALSE \<Longrightarrow> step m h runs (moved m ip (st @ [v]) vm) =
      Some (Running (moved m (if isFalsey v then ip + 3 + read16 c else ip + 3) (st @ [v]) vm))"
proof -
  have "drop (Suc ip) cd = c @ d" using code_ahead [OF assms(2)] by auto
  note read = read_ushort_moved [OF assms(1) this assms(3)]
  have jump: "op_jump m (moved m (Suc ip) st vm) = success () (moved m (ip + 3 + read16 c) st vm)"
    by (simp add: op_jump_def read jump_moved [OF assms(1)] numeral_3_eq_3)
  have cond: "op_jump_if_false m (moved m (Suc ip) (st @ [v]) vm) =
      success () (moved m (if isFalsey v then ip + 3 + read16 c else ip + 3) (st @ [v]) vm)"
    by (simp add: op_jump_if_false_def read jump_moved [OF assms(1)] stack_at_moved [OF assms(1)] peek_def numeral_3_eq_3)
  show "step m h runs (moved m ip st vm) = Some (Running (moved m (ip + 3 + read16 c) st vm))" if "unat b = OP_JUMP"
    by (rule step_executes [where ex = "op_jump m", OF assms(1,2) _ jump]) (simp add: that instruction_of)
  show "step m h runs (moved m ip (st @ [v]) vm) =
      Some (Running (moved m (if isFalsey v then ip + 3 + read16 c else ip + 3) (st @ [v]) vm))" if "unat b = OP_JUMP_IF_FALSE"
    by (rule step_executes [where ex = "op_jump_if_false m", OF assms(1,2) _ cond]) (simp add: that instruction_of)
qed

lemma binary_op_moved:
  assumes "runs_code m cd vm"
  shows "binary_op m g (moved m ip (st @ [VNumber a, VNumber b]) vm) = success () (moved m ip (st @ [g a b]) vm)"
  using pop_value_moved [OF assms, of ip "st @ [VNumber a]" "VNumber b"] pop_value_moved [OF assms, of ip st "VNumber a"]
  by (simp add: binary_op_def stack_at_moved [OF assms] peek_def nth_append)

lemma step_binary:
  assumes "runs_code m cd vm" and "drop ip cd = b # c" and "plain x" and "plain y"
    and "machine_prim m (unat b) x y = Some v"
  shows "step m h runs (moved m ip (st @ [x, y]) vm) = Some (Running (moved m (Suc ip) (st @ [v]) vm))"
proof -
  let ?vm = "moved m (Suc ip) (st @ [x, y]) vm"
  have "\<exists>ex. map_of (instructions m h (runs h)) (unat b) = Some ex \<and> ex ?vm = success () (moved m (Suc ip) (st @ [v]) vm)"
  proof (cases "unat b = OP_EQUAL")
    case True
    have "op_equal m ?vm = success () (moved m (Suc ip) (st @ [VBool (valuesEqual x y)]) vm)"
      using pop_value_moved [OF assms(1), of "Suc ip" "st @ [x]" y] pop_value_moved [OF assms(1), of "Suc ip" st x]
      by (simp add: op_equal_def plain_equals [OF assms(3,4)])
    then show ?thesis using assms(5) True by (simp add: machine_prim_def binary_instruction_of)
  next
    case False
    then obtain p q where xy: "x = VNumber p" "y = VNumber q" using assms(5) by (auto simp: machine_prim_def split: val.splits)
    have at: "stack_at m 0 ?vm = Some (VNumber q)" "stack_at m 1 ?vm = Some (VNumber p)"
      using xy by (simp_all add: stack_at_moved [OF assms(1)] peek_def nth_append)
    have add: "op_add m ?vm = op_arith m OP_ADD ?vm" unfolding op_add_def at by (simp add: object_of_def)
    consider "unat b = OP_GREATER" "v = VBool (dbl_less q p)" | "unat b = OP_LESS" "v = VBool (dbl_less p q)"
      | oc where "unat b = oc" "oc = OP_ADD \<or> oc = OP_SUBTRACT \<or> oc = OP_MULTIPLY \<or> oc = OP_DIVIDE \<or> oc = OP_MODULO"
        "v = VNumber (mx_arith m oc p q)"
      using assms(5) False xy by (auto simp: machine_prim_def split: if_splits)
    then show ?thesis
    proof cases
      case 1
      then show ?thesis using xy by (simp add: binary_instruction_of op_greater_def binary_op_moved [OF assms(1)])
    next
      case 2
      then show ?thesis using xy by (simp add: binary_instruction_of op_less_def binary_op_moved [OF assms(1)])
    next
      case 3
      have "op_arith m oc ?vm = success () (moved m (Suc ip) (st @ [v]) vm)"
        using 3(3) xy by (simp add: op_arith_def binary_op_moved [OF assms(1)])
      then show ?thesis using 3(1,2) add by (elim disjE) (simp_all add: binary_instruction_of)
    qed
  qed
  then show ?thesis using step_executes [OF assms(1,2)] by blast
qed

section \<open>The stack machine is the machine\<close>

lemma steps_first:
  "\<lbrakk>step m h runs vm = Some (Running vm1); steps_to m h runs vm1 vm2\<rbrakk> \<Longrightarrow> steps_to m h runs vm vm2"
  unfolding steps_to_def by (rule converse_rtranclp_into_rtranclp)

lemma drop_ahead: "drop ip cd = c @ rest \<Longrightarrow> k \<le> length c \<Longrightarrow> drop (ip + k) cd = drop k c @ rest"
  by (metis add.commute append_eq_conv_conj drop_append drop_drop diff_is_0_eq drop0)

lemma exec_simulated:
  assumes code: "runs_code m cd vm"
  shows "\<lbrakk>exec (machine_prim m) machine_neg c stk = Some stk'; \<forall>v\<in>set stk. plain v; drop ip cd = c @ rest\<rbrakk> \<Longrightarrow>
    steps_to m h runs (moved m ip (base @ rev stk) vm) (moved m (ip + length c) (base @ rev stk') vm)"
proof (induction c arbitrary: stk ip rule: length_induct)
  case (1 c)
  note plain = 1(3) and ahead = 1(4)
  have continue: "steps_to m h runs (moved m ip (base @ rev stk) vm) (moved m (ip + length c) (base @ rev stk') vm)"
    if st: "step m h runs (moved m ip (base @ rev stk) vm) = Some (Running (moved m (ip + k) (base @ rev stk1) vm))"
      and ex: "exec (machine_prim m) machine_neg (drop k c) stk1 = Some stk'" and p: "\<forall>v\<in>set stk1. plain v"
      and k: "0 < k" "k \<le> length c" for k stk1
  proof -
    have "length (drop k c) < length c" using k by simp
    then have "steps_to m h runs (moved m (ip + k) (base @ rev stk1) vm)
        (moved m (ip + k + length (drop k c)) (base @ rev stk') vm)"
      using 1(1) ex p drop_ahead [OF ahead k(2)] by blast
    then show ?thesis using steps_first [OF st] k(2) by simp
  qed
  show ?case
  proof (cases c)
    case Nil
    then show ?thesis using 1(2) by (simp add: steps_to_def)
  next
    case (Cons b c')
    have ahead': "drop ip cd = b # c' @ rest" using ahead Cons by simp
    note E = 1(2) [unfolded Cons exec.simps Let_def]
    note one = continue [of "Suc 0", unfolded Cons, simplified] and steps = step_push [OF code ahead'] step_unary [OF code ahead']
    consider (imm) "unat b = OP_IMMI"
      | (push) v where "unat b = OP_NIL \<and> v = VNil \<or> unat b = OP_TRUE \<and> v = VBool True \<or> unat b = OP_FALSE \<and> v = VBool False"
      | (unary) "unat b = OP_POP \<or> unat b = OP_NOT \<or> unat b = OP_NEGATE"
      | (jump) "unat b = OP_JUMP \<or> unat b = OP_JUMP_IF_FALSE" | (binary) "unat b \<in> binary_codes"
      using E by (auto split: if_splits)
    then show ?thesis
    proof cases
      case imm
      then have l: "4 \<le> length c'" and ex: "exec (machine_prim m) machine_neg (drop 4 c') (VNumber (dbl_of_int (read32 c')) # stk) = Some stk'"
        using E by (auto split: if_splits)
      show ?thesis
        by (rule continue [where k = 5 and ?stk1.0 = "VNumber (dbl_of_int (read32 c')) # stk"])
          (use step_immediate [OF code ahead' l imm] ex plain l Cons in simp_all)
    next
      case push
      then have "exec (machine_prim m) machine_neg c' (v # stk) = Some stk'" and "plain v"
        using E by (auto simp: opcode_defs)
      then show ?thesis
        by (intro continue [where k = 1 and ?stk1.0 = "v # stk"]) (use step_push [OF code ahead' push] plain Cons in simp_all)
    next
      case unary
      then obtain v stk0 where stk: "stk = v # stk0" using E by (cases stk) (auto simp: opcode_defs)
      obtain st' where "unat b = OP_POP \<and> st' = [] \<or> unat b = OP_NOT \<and> st' = [VBool (isFalsey v)] \<or>
          unat b = OP_NEGATE \<and> (\<exists>w. machine_neg v = Some w \<and> st' = [w])"
        and "exec (machine_prim m) machine_neg c' (st' @ stk0) = Some stk'" and "\<forall>w\<in>set st'. plain w" and "rev st' = st'"
        using E unary stk by (auto simp: opcode_defs machine_neg_plain split: option.splits)
      then show ?thesis
        by (intro continue [where k = 1 and ?stk1.0 = "st' @ stk0"])
          (use step_unary [OF code ahead', of st' v h runs "base @ rev stk0"] plain Cons stk in
            \<open>auto\<close>)
    next
      case jump
      have l: "2 \<le> length c'" using E jump by (auto simp: opcode_defs split: if_splits)
      show ?thesis
      proof (cases "unat b = OP_JUMP")
        case True
        then have n: "2 + read16 c' \<le> length c'" and ex: "exec (machine_prim m) machine_neg (drop (2 + read16 c') c') stk = Some stk'"
          using E by (auto simp: opcode_defs split: if_splits)
        show ?thesis
          by (rule continue [where k = "3 + read16 c'" and ?stk1.0 = stk])
            (use step_jump(1) [OF code ahead' l True] n ex plain Cons in \<open>simp_all add: numeral_3_eq_3 add.assoc\<close>)
      next
        case False
        with jump have cond: "unat b = OP_JUMP_IF_FALSE" by simp
        obtain v stk0 where stk: "stk = v # stk0" using E cond by (cases stk) (auto simp: opcode_defs split: if_splits)
        let ?k = "if isFalsey v then 2 + read16 c' else 2"
        have n: "2 + read16 c' \<le> length c'" and ex: "exec (machine_prim m) machine_neg (drop ?k c') stk = Some stk'"
          using E cond stk by (auto simp: opcode_defs split: if_splits)
        have "step m h runs (moved m ip (base @ rev stk) vm) = Some (Running (moved m (ip + Suc ?k) (base @ rev stk) vm))"
          using step_jump(2) [OF code ahead' l cond, of h runs "base @ rev stk0" v] stk by (simp add: numeral_3_eq_3 split: if_splits)
        then show ?thesis
          by (rule continue) (use n ex plain Cons in auto)
      qed
    next
      case binary
      have not: "unat b \<notin> {OP_IMMI, OP_NIL, OP_TRUE, OP_FALSE, OP_POP, OP_NOT, OP_NEGATE, OP_JUMP, OP_JUMP_IF_FALSE}"
        using binary by (auto simp: binary_codes_def opcode_defs)
      then obtain x y stk0 where stk: "stk = y # x # stk0" using E binary by (auto split: list.splits if_splits)
      obtain v where v: "machine_prim m (unat b) x y = Some v" "exec (machine_prim m) machine_neg c' (v # stk0) = Some stk'"
        using E not binary stk by (auto split: option.splits if_splits)
      show ?thesis
        by (rule continue [where k = 1 and ?stk1.0 = "v # stk0"])
          (use step_binary [OF code ahead', of x y v h runs "base @ rev stk0"] v machine_prim_plain [OF v(1)] plain Cons stk in simp_all)
    qed
  qed
qed


text \<open>The machine at the start of a function with this code.\<close>

definition starting_vm :: "byte list \<Rightarrow> vm" where
  "starting_vm cd = (blank_vm [7 \<mapsto> \<lparr>c_markers = 0, c_obj = OFunction (two_params\<lparr>fn_chunk := (initChunk None)\<lparr>ch_code := cd\<rparr>\<rparr>)\<rparr>]
     [7] [VObj 7] blank_table)\<lparr>vm_initFiber := Some \<lparr>fb_frames = [unset_frame\<lparr>cf_function := Some 7\<rparr>], fb_stack = [VObj 7],
       fb_openUpvalues = [], fb_temps = []\<rparr>\<rparr>"

lemma starting_runs: "mx_fiber m = None \<Longrightarrow> runs_code m cd (starting_vm cd)"
  by (simp add: runs_code_def starting_vm_def active_fiber_def frame_code_def get_obj_def as_function_def unset_frame_def)


end
