(* ===== verification/Interpret.thy ===== *)
theory Interpret
  imports Compile Interpreter
begin

text \<open>
  Compiler and machine together: \<open>interpret\<close> compiles a source text, calls the function that results
  and runs it; an exception that nothing has caught is printed, for which the machine calls a method of
  the script again.  What is printed is not modelled.
\<close>

datatype interpret_result = INTERPRET_OK | INTERPRET_COMPILE_ERROR | INTERPRET_RUNTIME_ERROR

definition compile_env :: "machine_env \<Rightarrow> runtime" where
  "compile_env m = \<lparr>rt_mem = mx_mem m, rt_env = mx_env m, rt_fiber = mx_fiber m\<rparr>"

text \<open>\<open>restoreStack\<close> discards the exception that printing itself has raised.\<close>

definition discard_exception :: "machine_env \<Rightarrow> nat \<Rightarrow> native_error \<Rightarrow> vm \<Rightarrow> vm option" where
  "discard_exception m crtStack e vm =
     do { vm \<leftarrow> raise_error m 0 e vm; cut_stack (mx_fiber m) crtStack vm }"

definition eloxPrintException :: "machine_env \<Rightarrow> interpreter \<Rightarrow> vm \<Rightarrow> vm option" where
  "eloxPrintException m loop vm =
     do { ex \<leftarrow> stack_at m 0 vm;
          f \<leftarrow> active_fiber (mx_fiber m) vm;
          let crtStack = length (fb_stack f);
          clazz \<leftarrow> classOfFollowInstance m vm ex;
          exClass \<leftarrow> clazz;
          (fits, vm) \<leftarrow> instance_of (bi_exception (mx_builtins m)) exClass vm;
          if fits
          then do { (r, vm) \<leftarrow> runCall m loop 1
                      (push_value m ex (push_value m (VObj (bi_printStackTrace (mx_builtins m))) vm));
                    case r of
                      Inl e \<Rightarrow> discard_exception m crtStack e vm
                    | Inr _ \<Rightarrow> map_option snd (pop_value m vm) }
          else do { (r, vm) \<leftarrow> toString m loop ex vm;
                    case r of Inl e \<Rightarrow> discard_exception m crtStack e vm | Inr _ \<Rightarrow> Some vm } }"

text \<open>
  The call of a compiled script: \<open>n\<close> bounds the turns of the interpreter loop.  That the call itself
  fails is not tested.
\<close>

definition run_script :: "machine_env \<Rightarrow> nat \<Rightarrow> addr \<Rightarrow> vm \<Rightarrow> (bool \<times> vm) option" where
  "run_script m n function vm =
     do { (_, vm) \<leftarrow> callFunction (mx_mem m) (mx_env m) (mx_fiber m) function 0 0
                        (push_value m (VObj function) vm);
          (fine, vm) \<leftarrow> run m n (upd_frame (mx_fiber m) (\<lambda>fr. fr\<lparr>cf_callStart := True\<rparr>) vm);
          vm \<leftarrow> (if fine then Some vm else eloxPrintException m (run m n) vm);
          (_, vm) \<leftarrow> pop_value m vm;
          Some (fine, vm) }"

definition interpret_source ::
  "machine_env \<Rightarrow> nat \<Rightarrow> nat \<Rightarrow> byte list \<Rightarrow> byte list \<Rightarrow> byte list \<Rightarrow> cctx \<Rightarrow> vm \<Rightarrow> (interpret_result \<times> vm) option" where
  "interpret_source m depth n source fileName moduleName s0 vm =
     do { (compiled, s) \<leftarrow> compile depth (compile_env m) source fileName moduleName s0 vm;
          case compiled of
            None \<Rightarrow> Some (INTERPRET_COMPILE_ERROR, cc_vm s)
          | Some function \<Rightarrow>
              do { (fine, vm) \<leftarrow> run_script m n function (cc_vm s);
                   Some (if fine then INTERPRET_OK else INTERPRET_RUNTIME_ERROR, vm) } }"

end
