(* ===== verification/Format.thy ===== *)
theory Format
  imports Operations
begin

text \<open>
  The format methods of strings (\<open>string/fmt.c\<close>): fields \<open>{arg.access:spec}\<close> with
  automatic or explicit numbering, padding, grouping and conversions of integers, characters and
  floating-point numbers.

  The error of a format stands in the state, as a second one is not thrown while the first is
  unanswered: the code goes on after some errors.  A read or store outside of a block has no result.
\<close>

section \<open>State\<close>

text \<open>
  \<open>FmtState\<close>: the format with its terminating NUL, the positions \<open>ptr\<close> and \<open>end\<close> in it,
  and the output; with the machine and whether an error was raised.
\<close>

record fmt_state =
  fs_vm :: vm
  fs_src :: "byte list"
  fs_ptr :: nat
  fs_end :: nat
  fs_autoIdx :: int
  fs_arg :: val
  fs_zeroPadding :: int
  fs_output :: heap_cstring
  fs_raised :: bool

record fmt_spec =
  sp_fill :: byte
  sp_align :: byte
  sp_sign :: byte
  sp_alternate :: byte
  sp_zero :: byte
  sp_grouping :: byte
  sp_width :: int
  sp_precision :: int
  sp_type :: byte

text \<open>
  The surroundings of a call: the machine with the interpreter loop, the frame and the number of the
  arguments, and the expansion of a \<open>printf\<close> format for one double by the C library.
\<close>

record fmt_env =
  fe_machine :: machine_env
  fe_run :: interpreter
  fe_handling :: nat
  fe_frame :: call_frame
  fe_count :: int
  fe_printDouble :: "byte list \<Rightarrow> dbl \<Rightarrow> byte list"

abbreviation asc :: "char \<Rightarrow> byte" where "asc c \<equiv> of_char c"

type_synonym 'a fmt = "('a \<times> fmt_state) option"

definition maxArg :: "fmt_env \<Rightarrow> int" where
  "maxArg e = fe_count e - 1"

text \<open>\<open>ELOX_THROW_RET\<close>: the exception is pushed unless one is there.\<close>

definition fmt_raise :: "fmt_env \<Rightarrow> native_error \<Rightarrow> fmt_state \<Rightarrow> fmt_state option" where
  "fmt_raise e err st =
     (if fs_raised st then Some st
      else do { vm \<leftarrow> raise_error (fe_machine e) (fe_handling e) err (fs_vm st);
                Some (st\<lparr>fs_vm := vm, fs_raised := True\<rparr>) })"

definition fmt_throw :: "fmt_env \<Rightarrow> string \<Rightarrow> 'a \<Rightarrow> fmt_state \<Rightarrow> 'a fmt" where
  "fmt_throw e message v st = do { st \<leftarrow> fmt_raise e (RuntimeError message) st; Some (v, st) }"

text \<open>\<open>state->ptr[k]\<close>, and a step of the pointer.\<close>

definition fmt_char :: "nat \<Rightarrow> fmt_state \<Rightarrow> byte option" where
  "fmt_char k st = nth_opt (fs_src st) (fs_ptr st + k)"

definition fmt_skip :: "nat \<Rightarrow> fmt_state \<Rightarrow> fmt_state" where
  "fmt_skip n st = st\<lparr>fs_ptr := fs_ptr st + n\<rparr>"

text \<open>\<open>getValueArg\<close> reads a slot of the frame, which need not be one of the arguments.\<close>

definition arg_slot :: "fmt_env \<Rightarrow> int \<Rightarrow> vm \<Rightarrow> val option" where
  "arg_slot e i vm =
     do { f \<leftarrow> active_fiber (mx_fiber (fe_machine e)) vm;
          let slot = int (cf_slots (fe_frame e)) + i;
          if 0 \<le> slot then nth_opt (fb_stack f) (nat slot) else None }"

definition getValueArg :: "fmt_env \<Rightarrow> int \<Rightarrow> fmt_state \<Rightarrow> val option" where
  "getValueArg e i st = arg_slot e i (fs_vm st)"

section \<open>Fields\<close>

definition getAutoIdx :: "fmt_env \<Rightarrow> fmt_state \<Rightarrow> int fmt" where
  "getAutoIdx e st =
     (if fs_autoIdx st = -1 then fmt_throw e ''Cannot mix auto and specific field numbering'' (-1) st
      else if \<not> fs_autoIdx st < maxArg e then fmt_throw e ''Auto index out of range'' (-1) st
      else Some (fs_autoIdx st + 1, st\<lparr>fs_autoIdx := fs_autoIdx st + 1\<rparr>))"

definition getSpecificIdx :: "fmt_env \<Rightarrow> int \<Rightarrow> fmt_state \<Rightarrow> int fmt" where
  "getSpecificIdx e idx st =
     (if \<not> fs_autoIdx st \<le> 0 then fmt_throw e ''Cannot mix auto and specific field numbering'' (-1) st
      else Some (idx, st\<lparr>fs_autoIdx := -1\<rparr>))"

text \<open>The digits at the pointer: how many there are and their value, none when it exceeds \<open>INT_MAX\<close>.\<close>

definition INT_MAX :: int where "INT_MAX = 2 ^ 31 - 1"

fun uint_digits :: "byte list \<Rightarrow> int \<Rightarrow> (nat \<times> int) option" where
  "uint_digits [] base = Some (0, base)"
| "uint_digits (c # cs) base =
     (if \<not> isDigit c then Some (0, base)
      else let digit = uint c - 48
           in if base < INT_MAX div 10 \<or> base = INT_MAX div 10 \<and> digit \<le> INT_MAX mod 10
              then map_option (\<lambda>(n, v). (Suc n, v)) (uint_digits cs (base * 10 + digit))
              else None)"

definition fmt_rest :: "fmt_state \<Rightarrow> byte list" where
  "fmt_rest st = take (fs_end st - fs_ptr st) (drop (fs_ptr st) (fs_src st))"

definition parseUInt :: "fmt_env \<Rightarrow> fmt_state \<Rightarrow> int option fmt" where
  "parseUInt e st = (case uint_digits (fmt_rest st) 0 of
       None \<Rightarrow> fmt_throw e ''Too many decimal digits'' None st
     | Some (n, base) \<Rightarrow> if n = 0 then Some (None, st) else Some (Some base, fmt_skip n st))"

definition isAlnum :: "byte \<Rightarrow> bool" where
  "isAlnum c \<longleftrightarrow> eloxCTable c AND 3 \<noteq> 0"

definition getIdentifier :: "fmt_state \<Rightarrow> byte list option fmt" where
  "getIdentifier st =
     do { c \<leftarrow> fmt_char 0 st;
          if isAlpha c
          then let name = c # takeWhile isAlnum (fmt_rest (fmt_skip 1 st)) in Some (Some name, fmt_skip (length name) st)
          else Some (None, st) }"

text \<open>An error leaves the key on the stack, below the exception or, when there was one before, above it.\<close>

definition fmt_getProperty :: "fmt_env \<Rightarrow> val \<Rightarrow> byte list \<Rightarrow> fmt_state \<Rightarrow> val fmt" where
  "fmt_getProperty e object key st =
     (let m = fe_machine e in
      do { ob \<leftarrow> object_of (fs_vm st) object;
           case (object, ob) of
             (VObj a, Some (OHashMap _)) \<Rightarrow>
               do { (keyString, vm) \<leftarrow> copyString (mx_mem m) (mx_env m) (mx_fiber m) key (fs_vm st);
                    case keyString of
                      None \<Rightarrow> do { st \<leftarrow> fmt_raise e OutOfMemory (st\<lparr>fs_vm := vm\<rparr>); Some (VNil, st) }
                    | Some k \<Rightarrow>
                        do { let vm = push_value m (VObj k) vm;
                             t \<leftarrow> (case get_obj vm a of Some (OHashMap t) \<Rightarrow> Some t | _ \<Rightarrow> None);
                             (raised, found) \<leftarrow> valueTableGet (hashValue (mx_hash m) (vm_heap vm))
                                                    (valuesEquals (mx_equals m) (vm_heap vm)) t (VObj k);
                             let st = (if raised then st\<lparr>fs_vm := push_value m (mx_thrown m vm) vm, fs_raised := True\<rparr>
                                       else st\<lparr>fs_vm := vm\<rparr>);
                             if fs_raised st then Some (VException, st)
                             else case found of
                                 None \<Rightarrow> fmt_throw e ''Undefined property'' VException st
                               | Some v \<Rightarrow> do { (_, vm) \<leftarrow> pop_value m (fs_vm st); Some (v, st\<lparr>fs_vm := vm\<rparr>) } } }
           | _ \<Rightarrow> fmt_throw e ''Argument is not a map'' VNil st })"

text \<open>\<open>arrayAt\<close> does not check the index.\<close>

definition getIndex :: "fmt_env \<Rightarrow> val \<Rightarrow> int \<Rightarrow> fmt_state \<Rightarrow> val fmt" where
  "getIndex e object index st =
     do { ob \<leftarrow> object_of (fs_vm st) object;
          case ob of
            Some (OArray arr) \<Rightarrow> do { v \<leftarrow> arrayAt arr index; Some (v, st) }
          | _ \<Rightarrow> fmt_throw e ''Argument is not an array'' VNil st }"

text \<open>One turn of \<open>access\<close>, which starts at a dot or a bracket; whether the loop goes on.\<close>

definition access_name :: "fmt_env \<Rightarrow> val \<Rightarrow> byte list \<Rightarrow> fmt_state \<Rightarrow> (val \<times> bool) fmt" where
  "access_name e v name st =
     do { (v, st) \<leftarrow> fmt_getProperty e v name st; Some (if fs_raised st then (VNil, False) else (v, True), st) }"

definition access_bracket :: "fmt_env \<Rightarrow> val \<Rightarrow> fmt_state \<Rightarrow> (val \<times> bool) fmt" where
  "access_bracket e v st =
     do { (idx, st) \<leftarrow> parseUInt e st;
          case idx of
            Some i \<Rightarrow>
              do { c \<leftarrow> fmt_char 0 st;
                   if c \<noteq> asc CHR '']'' then fmt_throw e ''Unexpected character in field name'' (VNil, False) st
                   else do { (v, st) \<leftarrow> getIndex e v i (fmt_skip 1 st); Some ((v, True), st) } }
          | None \<Rightarrow>
              if fs_raised st then Some ((VNil, False), st)
              else do { (name, st) \<leftarrow> getIdentifier st;
                        case name of
                          None \<Rightarrow> fmt_throw e ''Invalid identifier in brackets'' (VNil, False) st
                        | Some key \<Rightarrow>
                            do { c \<leftarrow> fmt_char 0 st;
                                 if c \<noteq> asc CHR '']''
                                 then fmt_throw e ''Unexpected character in field name'' (VNil, False) st
                                 else access_name e v key (fmt_skip 1 st) } } }"

definition access_turn :: "fmt_env \<Rightarrow> val \<Rightarrow> fmt_state \<Rightarrow> (val \<times> bool) fmt" where
  "access_turn e v st =
     (if fs_raised st then Some ((VNil, False), st)
      else do { c \<leftarrow> fmt_char 0 st;
                let st = fmt_skip 1 st;
                if c = asc CHR ''.''
                then do { (name, st) \<leftarrow> getIdentifier st;
                          case name of
                            Some key \<Rightarrow> access_name e v key st
                          | None \<Rightarrow> fmt_throw e ''Invalid identifier after dot'' (VNil, False) st }
                else access_bracket e v st })"

definition at_access :: "fmt_state \<Rightarrow> bool option" where
  "at_access st = do { c \<leftarrow> fmt_char 0 st; Some (c = asc CHR ''.'' \<or> c = asc CHR ''['') }"

partial_function (option) access :: "fmt_env \<Rightarrow> val \<Rightarrow> fmt_state \<Rightarrow> val fmt" where
  "access e v st =
     do { more \<leftarrow> at_access st;
          if more
          then do { r \<leftarrow> access_turn e v st;
                    if snd (fst r) then access e (fst (fst r)) (snd r) else Some (fst (fst r), snd r) }
          else Some (v, st) }"

text \<open>\<open>getArg\<close>; an explicit number must be below \<open>maxArg\<close>, an automatic one may reach it.\<close>

definition field_value :: "fmt_env \<Rightarrow> fmt_state \<Rightarrow> val fmt" where
  "field_value e st =
     do { c \<leftarrow> fmt_char 0 st;
          if c = asc CHR '':'' \<or> c = asc CHR ''}''
          then do { (argIdx, st) \<leftarrow> getAutoIdx e st;
                    v \<leftarrow> getValueArg e argIdx st;
                    Some (v, st) }
          else do { (idx, st) \<leftarrow> parseUInt e st;
                    case idx of
                      Some i \<Rightarrow>
                        do { (argIdx, st) \<leftarrow> getSpecificIdx e i st;
                             if \<not> (argIdx \<ge> 1 \<and> argIdx < maxArg e)
                             then fmt_throw e ''Argument index out of range'' VNil st
                             else do { v \<leftarrow> getValueArg e argIdx st; Some (v, st) } }
                    | None \<Rightarrow>
                        do { (_, st) \<leftarrow> getSpecificIdx e 0 st;
                             (name, st) \<leftarrow> getIdentifier st;
                             case name of
                               None \<Rightarrow> fmt_throw e ''Unexpected character in field name'' VNil st
                             | Some key \<Rightarrow> do { map \<leftarrow> getValueArg e 1 st; fmt_getProperty e map key st } } } }"

definition getArg :: "fmt_env \<Rightarrow> fmt_state \<Rightarrow> val fmt" where
  "getArg e st =
     (if \<not> fs_ptr st < fs_end st then fmt_throw e ''Closing brace expected'' VNil st
      else do { (v, st) \<leftarrow> field_value e st;
                if fs_raised st then Some (VNil, st) else access e v st })"

section \<open>Specifications\<close>

text \<open>The character before the step; a specification must not end with it.\<close>

definition readChar :: "fmt_env \<Rightarrow> fmt_state \<Rightarrow> byte fmt" where
  "readChar e st =
     do { c \<leftarrow> fmt_char 0 st;
          let st = fmt_skip 1 st;
          if \<not> fs_ptr st < fs_end st then fmt_throw e ''Unterminated format spec'' (-1) st
          else Some (c, st) }"

text \<open>\<open>trunc(d) == d\<close>; the conversions to integers are undefined out of their range.\<close>

definition dbl_integral :: "dbl \<Rightarrow> bool" where
  "dbl_integral d \<longleftrightarrow>
     (if dbl_exp d = 2047 then dbl_frac d = 0
      else dbl_is_zero d \<or> 1075 \<le> dbl_exp d \<or>
        1023 \<le> dbl_exp d \<and> (2 ^ 52 + dbl_frac d) mod 2 ^ (1075 - dbl_exp d) = 0)"

definition dbl_to_int64 :: "dbl \<Rightarrow> int option" where
  "dbl_to_int64 d = do { i \<leftarrow> dbl_trunc d; if - (2 ^ 63) \<le> i \<and> i < 2 ^ 63 then Some i else None }"

text \<open>\<open>d >= 0\<close> and \<open>-d\<close>.\<close>

definition dbl_nonneg :: "dbl \<Rightarrow> bool" where
  "dbl_nonneg d \<longleftrightarrow> \<not> dbl_is_nan d \<and> (\<not> dbl_neg d \<or> dbl_is_zero d)"

definition dbl_negate :: "dbl \<Rightarrow> dbl" where
  "dbl_negate d = d XOR 2 ^ 63"

definition toInteger :: "fmt_env \<Rightarrow> val \<Rightarrow> fmt_state \<Rightarrow> int fmt" where
  "toInteger e v st = (case v of
       VNumber d \<Rightarrow>
         if dbl_integral d then do { i \<leftarrow> dbl_to_int32 d; Some (i, st) }
         else fmt_throw e ''Integer expected, got double'' 0 st
     | _ \<Rightarrow> fmt_throw e ''Integer expected'' 0 st)"

text \<open>A width or a precision: a number, or a field in braces whose value is one.\<close>

definition readUInt :: "fmt_env \<Rightarrow> bool \<Rightarrow> fmt_state \<Rightarrow> int fmt" where
  "readUInt e required st =
     do { c \<leftarrow> fmt_char 0 st;
          if c \<noteq> asc CHR ''{''
          then do { (v, st) \<leftarrow> parseUInt e st;
                    if fs_raised st then Some (0, st)
                    else if v = None \<and> required then fmt_throw e ''Missing number in format specifier'' 0 st
                    else if \<not> fs_ptr st < fs_end st then fmt_throw e ''Unterminated format spec'' 0 st
                    else Some (case v of None \<Rightarrow> 0 | Some n \<Rightarrow> n, st) }
          else do { (arg, st) \<leftarrow> getArg e (fmt_skip 1 st);
                    if fs_raised st then Some (0, st)
                    else do { c \<leftarrow> fmt_char 0 st;
                              if c \<noteq> asc CHR ''}'' then fmt_throw e ''Unexpected character in format spec'' 0 st
                              else do { (v, st) \<leftarrow> toInteger e arg (fmt_skip 1 st);
                                        Some (if fs_raised st then 0 else v, st) } } } }"

text \<open>A flag of the specification is stored when one of its characters is at the pointer.\<close>

definition spec_flag ::
  "fmt_env \<Rightarrow> byte list \<Rightarrow> (byte \<Rightarrow> fmt_spec \<Rightarrow> fmt_spec) \<Rightarrow> fmt_spec \<times> fmt_state \<Rightarrow> fmt_spec fmt" where
  "spec_flag e flags store s =
     do { c \<leftarrow> fmt_char 0 (snd s);
          if c \<in> set flags then do { (ch, st) \<leftarrow> readChar e (snd s); Some (store ch (fst s), st) } else Some s }"

definition alignments :: "byte list" where
  "alignments = [asc CHR ''<'', asc CHR ''>'', asc CHR ''^'']"

definition read_alignment :: "fmt_env \<Rightarrow> fmt_spec \<Rightarrow> fmt_state \<Rightarrow> fmt_spec fmt" where
  "read_alignment e spec st =
     do { next \<leftarrow> fmt_char 1 st;
          if next \<in> set alignments
          then do { (fill, st) \<leftarrow> readChar e st;
                    (align, st) \<leftarrow> readChar e st;
                    Some (spec\<lparr>sp_fill := fill, sp_align := align\<rparr>, st) }
          else spec_flag e alignments (\<lambda>c. sp_align_update (\<lambda>_. c)) (spec, st) }"

definition read_flags :: "fmt_env \<Rightarrow> fmt_spec \<Rightarrow> fmt_state \<Rightarrow> fmt_spec fmt" where
  "read_flags e spec st =
     do { s \<leftarrow> read_alignment e spec st;
          s \<leftarrow> spec_flag e [asc CHR '' '', asc CHR ''+'', asc CHR ''-''] (\<lambda>c. sp_sign_update (\<lambda>_. c)) s;
          s \<leftarrow> spec_flag e [asc CHR ''#''] (\<lambda>c. sp_alternate_update (\<lambda>_. c)) s;
          spec_flag e [asc CHR ''0''] (\<lambda>c. sp_zero_update (\<lambda>_. c)) s }"

text \<open>The conversion; anything between it and the closing brace is an error.\<close>

definition read_type :: "fmt_env \<Rightarrow> fmt_spec \<Rightarrow> fmt_state \<Rightarrow> fmt_spec fmt" where
  "read_type e spec st =
     do { c \<leftarrow> fmt_char 0 st;
          if c = asc CHR ''}'' then Some (spec, st)
          else do { let spec = spec\<lparr>sp_type := c\<rparr>;
                    let st = fmt_skip 1 st;
                    c \<leftarrow> fmt_char 0 st;
                    if c = asc CHR ''}'' then Some (spec, st)
                    else do { let st = fmt_skip (length (takeWhile (\<lambda>c. c \<noteq> asc CHR ''}'') (fmt_rest st))) st;
                              if \<not> fs_ptr st < fs_end st then fmt_throw e ''Unterminated format spec'' spec st
                              else fmt_throw e ''Invalid format specifier'' spec st } } }"

definition read_precision :: "fmt_env \<Rightarrow> fmt_spec \<Rightarrow> fmt_state \<Rightarrow> fmt_spec fmt" where
  "read_precision e spec st =
     do { c \<leftarrow> fmt_char 0 st;
          if c = asc CHR ''.''
          then do { (n, st) \<leftarrow> readUInt e True (fmt_skip 1 st); Some (spec\<lparr>sp_precision := n\<rparr>, st) }
          else Some (spec, st) }"

definition parseSpec :: "fmt_env \<Rightarrow> fmt_spec \<Rightarrow> fmt_state \<Rightarrow> fmt_spec fmt" where
  "parseSpec e spec st =
     do { (spec, st) \<leftarrow> read_flags e spec st;
          if fs_raised st then Some (spec, st)
          else do { (width, st) \<leftarrow> readUInt e False st;
                    let spec = spec\<lparr>sp_width := width\<rparr>;
                    if fs_raised st then Some (spec, st)
                    else do { (spec, st) \<leftarrow> spec_flag e [asc CHR '',''] (\<lambda>c. sp_grouping_update (\<lambda>_. c)) (spec, st);
                              if fs_raised st then Some (spec, st)
                              else do { (spec, st) \<leftarrow> read_precision e spec st;
                                        if fs_raised st then Some (spec, st) else read_type e spec st } } } }"

definition parse_spec_part :: "fmt_env \<Rightarrow> fmt_spec \<Rightarrow> fmt_state \<Rightarrow> fmt_spec fmt" where
  "parse_spec_part e spec st =
     do { c \<leftarrow> fmt_char 0 st;
          if c = asc CHR '':'' \<and> fs_ptr st + 1 < fs_end st then parseSpec e spec (fmt_skip 1 st) else Some (spec, st) }"

definition parse_field :: "fmt_env \<Rightarrow> fmt_spec \<Rightarrow> fmt_state \<Rightarrow> fmt_spec fmt" where
  "parse_field e spec st =
     do { (arg, st) \<leftarrow> getArg e st;
          let st = st\<lparr>fs_arg := arg\<rparr>;
          if fs_raised st then Some (spec, st)
          else do { (spec, st) \<leftarrow> parse_spec_part e spec st;
                    if fs_raised st then Some (spec, st)
                    else do { c \<leftarrow> fmt_char 0 st;
                              if fs_ptr st < fs_end st \<and> c = asc CHR ''}'' then Some (spec, fmt_skip 1 st)
                              else fmt_throw e ''Closing brace expected'' spec st } } }"

section \<open>Output\<close>

text \<open>
  The growth of the output block for \<open>len\<close> more bytes in the machine, and what it answers.
\<close>

definition grow_output :: "machine_env \<Rightarrow> heap_cstring \<Rightarrow> int \<Rightarrow> vm \<Rightarrow> (bool \<times> vm) option" where
  "grow_output m s len vm =
     (let required = len + 1;
          newCapacity = nat (max (grow_capacity_int (hs_capacity s)) (hs_length s + required + 1))
      in if required > hs_capacity s - hs_length s - 1
         then do { (_, vm) \<leftarrow> reallocate (mx_mem m) True (nat (hs_capacity s)) newCapacity vm;
                   Some (mx_env m vm newCapacity \<noteq> None, vm) }
         else Some (True, vm))"

text \<open>\<open>heapStringAddString\<close> on the output; that it fails for lack of memory is not tested.\<close>

definition add_output :: "fmt_env \<Rightarrow> byte list \<Rightarrow> fmt_state \<Rightarrow> fmt_state option" where
  "add_output e chars st =
     do { (grown, vm) \<leftarrow> grow_output (fe_machine e) (fs_output st) (int (length chars)) (fs_vm st);
          (_, out) \<leftarrow> heapStringAddString (\<lambda>_. grown) (fs_output st) chars;
          Some (st\<lparr>fs_vm := vm, fs_output := out\<rparr>) }"

text \<open>
  Room of \<open>len\<close> bytes is reserved and \<open>padding\<close> written to it: without memory this
  writes to the null pointer.
\<close>

definition write_padding :: "fmt_env \<Rightarrow> int \<Rightarrow> byte list \<Rightarrow> fmt_state \<Rightarrow> fmt_state option" where
  "write_padding e len padding st =
     do { (grown, vm) \<leftarrow> grow_output (fe_machine e) (fs_output st) len (fs_vm st);
          (buffer, out) \<leftarrow> reserveHeapString (\<lambda>_. grown) (fs_output st) len;
          at \<leftarrow> buffer;
          block \<leftarrow> store_bytes (hs_block out) at padding;
          Some (st\<lparr>fs_vm := vm, fs_output := out\<lparr>hs_block := block\<rparr>\<rparr>) }"

definition addPadding :: "fmt_env \<Rightarrow> byte \<Rightarrow> int \<Rightarrow> fmt_state \<Rightarrow> fmt_state option" where
  "addPadding e ch len = write_padding e len (replicate (nat len) (if ch = 0 then asc CHR '' '' else ch))"

text \<open>
  The zeros before a grouped number whose leading group lacks \<open>missing\<close> digits.  With a rest
  of one byte two are written, so that the last zero goes over the end of the reserved room.
\<close>

definition FMT_GROUPING_WIDTH :: int where "FMT_GROUPING_WIDTH = 3"
definition FMT_FULL_GROUP_WIDTH :: int where "FMT_FULL_GROUP_WIDTH = FMT_GROUPING_WIDTH + 1"

fun zero_groups :: "byte \<Rightarrow> nat \<Rightarrow> byte list" where
  "zero_groups sep n =
     (if n > 4 then [asc CHR ''0'', asc CHR ''0'', asc CHR ''0'', sep] @ zero_groups sep (n - 4)
      else replicate n (asc CHR ''0''))"

declare zero_groups.simps [simp del]

definition zero_padding :: "byte \<Rightarrow> int \<Rightarrow> int \<Rightarrow> byte list" where
  "zero_padding sep missing len =
     (if len > missing
      then let prefix = (len - missing) mod FMT_FULL_GROUP_WIDTH
           in (if prefix > 2 then [asc CHR ''0''] else []) @ (if prefix > 0 then [asc CHR ''0'', sep] else []) @
              zero_groups sep (nat (len - prefix))
      else replicate (nat len) (asc CHR ''0''))"

definition addZeroPadding :: "fmt_env \<Rightarrow> fmt_spec \<Rightarrow> int \<Rightarrow> fmt_state \<Rightarrow> fmt_state option" where
  "addZeroPadding e spec len st = write_padding e len (zero_padding (sp_grouping spec) (fs_zeroPadding st) len) st"

text \<open>
  \<open>addString\<close>; \<open>shrink\<close> lets the precision cut the string.  A negative length is a huge
  one for the copy.
\<close>

definition addString :: "fmt_env \<Rightarrow> byte list \<Rightarrow> fmt_spec \<Rightarrow> bool \<Rightarrow> int \<Rightarrow> fmt_state \<Rightarrow> fmt_state option" where
  "addString e s spec shrink width st =
     (let full = int (length s);
          len = (if shrink \<and> sp_precision spec \<noteq> 0 \<and> full > sp_precision spec then sp_precision spec else full);
          chars = take (nat len) s;
          padLen = width - len
      in if len < 0 then None
         else if len > width then add_output e chars st
         else if sp_align spec = 0 \<or> sp_align spec = asc CHR ''>''
         then do { st \<leftarrow> (if sp_zero spec = 0 \<or> sp_grouping spec = 0
                           then addPadding e (if sp_fill spec \<noteq> 0 then sp_fill spec else sp_zero spec) padLen st
                           else addZeroPadding e spec padLen st);
                   add_output e chars st }
         else if sp_align spec = asc CHR ''<''
         then do { st \<leftarrow> add_output e chars st; addPadding e (sp_fill spec) padLen st }
         else if sp_align spec = asc CHR ''^''
         then do { st \<leftarrow> addPadding e (sp_fill spec) (padLen div 2) st;
                   st \<leftarrow> add_output e chars st;
                   addPadding e (sp_fill spec) (padLen - padLen div 2) st }
         else Some st)"

section \<open>Numbers\<close>

text \<open>
  The digits of a number are written from the end of a buffer of 10 bytes towards its start; the
  text is what stands in it.  A store below the buffer has no result.
\<close>

definition INT_FMT_BUFFER_SIZE :: nat where "INT_FMT_BUFFER_SIZE = 10"

definition put_front :: "byte \<Rightarrow> byte list \<Rightarrow> byte list option" where
  "put_front c txt = (if length txt < INT_FMT_BUFFER_SIZE then Some (c # txt) else None)"

definition lowerHex :: "byte list" where "lowerHex = bytes ''0123456789abcdef''"
definition upperHex :: "byte list" where "upperHex = bytes ''0123456789ABCDEF''"

definition int_alphabet :: "byte \<Rightarrow> byte list" where
  "int_alphabet ty = (if ty = asc CHR ''X'' then upperHex else lowerHex)"

definition int_radix :: "byte \<Rightarrow> nat" where
  "int_radix ty =
     (if ty = asc CHR ''X'' \<or> ty = asc CHR ''x'' then 16
      else if ty = asc CHR ''o'' \<or> ty = asc CHR ''O'' then 8
      else if ty = asc CHR ''b'' \<or> ty = asc CHR ''B'' then 2 else 10)"

function write_digits :: "byte list \<Rightarrow> nat \<Rightarrow> byte \<Rightarrow> nat \<Rightarrow> int \<Rightarrow> byte list \<Rightarrow> (int \<times> byte list) option" where
  "write_digits alphabet radix sep n zp txt =
     (if length txt < INT_FMT_BUFFER_SIZE
      then let txt = alphabet ! (n mod radix) # txt; n = n div radix; zp = zp - 1
           in if n = 0 then Some (zp, txt)
              else if zp = 0
              then if length txt < INT_FMT_BUFFER_SIZE
                   then write_digits alphabet radix sep n FMT_GROUPING_WIDTH (sep # txt) else None
              else write_digits alphabet radix sep n zp txt
      else None)"
  by pat_completeness auto
termination
  by (relation "measure (\<lambda>(a, r, s, n, z, txt). INT_FMT_BUFFER_SIZE - length txt)") auto

declare write_digits.simps [simp del]

text \<open>\<open>writeInt\<close>: what lacks of the leading group, and the text.\<close>

definition writeInt :: "nat \<Rightarrow> fmt_spec \<Rightarrow> (int \<times> byte list) option" where
  "writeInt n spec =
     write_digits (int_alphabet (sp_type spec)) (int_radix (sp_type spec)) (sp_grouping spec) n
       (if sp_grouping spec \<noteq> 0 then FMT_GROUPING_WIDTH else 0) []"

definition getSign :: "bool \<Rightarrow> byte \<Rightarrow> byte" where
  "getSign positive dsign =
     (if \<not> positive then asc CHR ''-''
      else if dsign = asc CHR ''+'' then asc CHR ''+''
      else if dsign = asc CHR '' '' then asc CHR '' '' else 0)"

text \<open>
  The text of an integer in the buffer: what lacks of its leading group, the sign with the prefix of the
  radix, and the digits.  The place before the text is written to also when there is no sign, and the
  smallest integer has no negation.
\<close>

definition int_text :: "int \<Rightarrow> fmt_spec \<Rightarrow> (int \<times> byte list \<times> byte list) option" where
  "int_text n spec =
     (let sign = getSign (0 \<le> n) (sp_sign spec) in
      if n = - (2 ^ 63) then None
      else do { (zp, digits) \<leftarrow> writeInt (nat \<bar>n\<bar>) spec;
                txt \<leftarrow> (if sp_alternate spec \<noteq> 0 \<and> sp_type spec \<noteq> 0 \<and> sp_type spec \<noteq> asc CHR ''d''
                         then do { txt \<leftarrow> put_front (sp_type spec) digits; put_front (asc CHR ''0'') txt }
                         else Some digits);
                signed \<leftarrow> put_front sign txt;
                let txt = (if sign \<noteq> 0 then signed else txt);
                Some (zp, take (length txt - length digits) txt, digits) })"

definition dumpInt :: "fmt_env \<Rightarrow> int \<Rightarrow> fmt_spec \<Rightarrow> fmt_state \<Rightarrow> fmt_state option" where
  "dumpInt e n spec st =
     do { (zp, before, digits) \<leftarrow> int_text n spec;
          let st = st\<lparr>fs_zeroPadding := zp\<rparr>;
          if sp_zero spec \<noteq> 0 \<and> sp_width spec > int (length (before @ digits))
          then do { st \<leftarrow> (if before \<noteq> [] then add_output e before st else Some st);
                    addString e digits spec False (sp_width spec - int (length before)) st }
          else addString e (before @ digits) spec False (sp_width spec) st }"

text \<open>The encoding of a code point; too large ones become the replacement character.\<close>

definition dumpChar :: "fmt_env \<Rightarrow> int \<Rightarrow> fmt_spec \<Rightarrow> fmt_state \<Rightarrow> unit fmt" where
  "dumpChar e codepoint spec st =
     (if sp_sign spec \<noteq> 0 then fmt_throw e ''Sign not allowed for char format'' () st
      else if sp_grouping spec \<noteq> 0 then fmt_throw e ''Grouping not allowed for char format'' () st
      else if sp_zero spec \<noteq> 0 then fmt_throw e ''Zero padding not allowed for char format'' () st
      else if sp_alternate spec \<noteq> 0 then fmt_throw e ''Alternate form not allowed for char format'' () st
      else if \<not> (0 \<le> codepoint \<and> codepoint \<le> INT_MAX) then fmt_throw e ''Char codepoint out of range'' () st
      else let chars = (case utf8_bytes (word_of_int codepoint) of Some bs \<Rightarrow> bs | None \<Rightarrow> [0xEF, 0xBF, 0xBD])
           in map_option (Pair ()) (addString e chars spec False (sp_width spec) st))"

text \<open>A decimal number as \<open>printf\<close> writes it.\<close>

fun format_decimal :: "nat \<Rightarrow> byte list" where
  "format_decimal n = (if n < 10 then [] else format_decimal (n div 10)) @ [of_nat (48 + n mod 10)]"

declare format_decimal.simps [simp del]

definition format_int :: "int \<Rightarrow> byte list" where
  "format_int i = (if i < 0 then asc CHR ''-'' # format_decimal (nat (- i)) else format_decimal (nat i))"

text \<open>The \<open>printf\<close> format that \<open>writeDouble\<close> makes.\<close>

definition double_format :: "dbl \<Rightarrow> fmt_spec \<Rightarrow> byte list" where
  "double_format d spec =
     (let percentage = (sp_type spec = asc CHR ''%'');
          type = (if percentage then asc CHR ''f'' else if sp_type spec \<noteq> 0 then sp_type spec else asc CHR ''g'');
          alternate = (if sp_alternate spec \<noteq> 0 then bytes ''#'' else []);
          percent = (if percentage then bytes ''%%'' else [])
      in if sp_precision spec \<noteq> 0
         then bytes ''%'' @ alternate @ bytes ''.'' @ format_int (sp_precision spec) @ [type] @ percent
         else if dbl_integral d then bytes ''%.1f'' @ percent
         else bytes ''%'' @ alternate @ [type] @ percent)"

definition writeDouble :: "fmt_env \<Rightarrow> dbl \<Rightarrow> nat \<Rightarrow> fmt_spec \<Rightarrow> byte list option" where
  "writeDouble e d room spec =
     (let d = (if sp_type spec = asc CHR ''%'' then mx_arith (fe_machine e) OP_MULTIPLY d (dbl_of_int 100) else d);
          txt = fe_printDouble e (double_format d spec) d
      in if length txt < room then Some txt else None)"

definition DBL_FMT_MAX_PREC :: int where "DBL_FMT_MAX_PREC = 100"
definition DBL_FMT_BUFFER_SIZE :: nat where "DBL_FMT_BUFFER_SIZE = 100 + 308 + 10"

text \<open>The length of the text counts the number only, also where the text starts with the sign.\<close>

definition dumpDouble :: "fmt_env \<Rightarrow> dbl \<Rightarrow> fmt_spec \<Rightarrow> fmt_state \<Rightarrow> unit fmt" where
  "dumpDouble e d spec st =
     (if \<not> sp_precision spec < DBL_FMT_MAX_PREC then fmt_throw e ''Maximum precision exceeded'' () st
      else if sp_grouping spec \<noteq> 0 then fmt_throw e ''Grouping not allowed for floating point formats'' () st
      else let positive = dbl_nonneg d;
               d = (if positive then d else dbl_negate d);
               sign = getSign positive (sp_sign spec);
               before = (if sign \<noteq> 0 then [sign] else [])
           in do { txt \<leftarrow> writeDouble e d (DBL_FMT_BUFFER_SIZE - length before) spec;
                   st \<leftarrow> (if sp_zero spec \<noteq> 0 \<and> sp_width spec > int (length txt)
                           then do { st \<leftarrow> (if before \<noteq> [] then add_output e before st else Some st);
                                     addString e txt spec False (sp_width spec - int (length before)) st }
                           else addString e (take (length txt) (before @ txt)) spec False (sp_width spec) st);
                   Some ((), st) })"

definition dumpNumber :: "fmt_env \<Rightarrow> dbl \<Rightarrow> fmt_spec \<Rightarrow> fmt_state \<Rightarrow> unit fmt" where
  "dumpNumber e d spec st =
     (let type = (if sp_type spec = 0 then if dbl_integral d then asc CHR ''d'' else asc CHR ''g'' else sp_type spec)
      in if type = asc CHR ''c'' then do { i \<leftarrow> dbl_to_int64 d; dumpChar e i spec st }
         else if type \<in> set (bytes ''dbBoOxX'')
         then do { i \<leftarrow> dbl_to_int64 d; st \<leftarrow> dumpInt e i spec st; Some ((), st) }
         else if type \<in> set (bytes ''eEfFgG%'') then dumpDouble e d spec st
         else fmt_throw e ''Unknown format for number argument'' () st)"

section \<open>Formats\<close>

definition dumpString :: "fmt_env \<Rightarrow> byte list \<Rightarrow> fmt_spec \<Rightarrow> fmt_state \<Rightarrow> unit fmt" where
  "dumpString e str spec st =
     (if \<not> (sp_type spec = 0 \<or> sp_type spec = asc CHR ''s'')
      then fmt_throw e ''Unknown format code for string argument'' () st
      else map_option (Pair ()) (addString e str spec True (sp_width spec) st))"

text \<open>The string of a value is kept on the stack while it is written, and left there by an error.\<close>

definition dump :: "fmt_env \<Rightarrow> fmt_spec \<Rightarrow> fmt_state \<Rightarrow> unit fmt" where
  "dump e spec st = (case fs_arg st of
       VNumber d \<Rightarrow> dumpNumber e d spec st
     | arg \<Rightarrow>
         do { (r, vm) \<leftarrow> toString (fe_machine e) (fe_run e) arg (fs_vm st);
              case r of
                Inl err \<Rightarrow> do { st \<leftarrow> fmt_raise e err (st\<lparr>fs_vm := vm\<rparr>); Some ((), st) }
              | Inr strVal \<Rightarrow>
                  do { let vm = push_value (fe_machine e) strVal vm;
                       str \<leftarrow> AS_STRING (vm_heap vm) strVal;
                       (_, st) \<leftarrow> dumpString e str spec (st\<lparr>fs_vm := vm\<rparr>);
                       if fs_raised st then Some ((), st)
                       else do { (_, vm) \<leftarrow> pop_value (fe_machine e) (fs_vm st); Some ((), st\<lparr>fs_vm := vm\<rparr>) } } })"

definition no_spec :: fmt_spec where
  "no_spec = \<lparr>sp_fill = 0, sp_align = 0, sp_sign = 0, sp_alternate = 0, sp_zero = 0, sp_grouping = 0,
     sp_width = 0, sp_precision = 0, sp_type = 0\<rparr>"

text \<open>
  One turn of the loop of \<open>format\<close>, at a brace: a doubled brace stands for itself.  A single
  closing brace and an opening one at the end are errors.
\<close>

definition format_brace :: "fmt_env \<Rightarrow> fmt_state \<Rightarrow> fmt_state option" where
  "format_brace e st =
     do { c \<leftarrow> fmt_char 0 st;
          next \<leftarrow> fmt_char 1 st;
          if c = next then map_option (fmt_skip 2) (add_output e [c] st)
          else do { let st = fmt_skip 1 st;
                    if c = asc CHR ''}'' \<or> \<not> fs_ptr st < fs_end st
                    then fmt_raise e (RuntimeError ''Single brace in format string'') st
                    else do { (spec, st) \<leftarrow> parse_field e no_spec st;
                              if fs_raised st then Some st
                              else do { (_, st) \<leftarrow> dump e spec st; Some st } } } }"

definition not_brace :: "byte \<Rightarrow> bool" where
  "not_brace c \<longleftrightarrow> c \<noteq> asc CHR ''{'' \<and> c \<noteq> asc CHR ''}''"

definition format_turn :: "fmt_env \<Rightarrow> fmt_state \<Rightarrow> fmt_state option" where
  "format_turn e st =
     (let literal = takeWhile not_brace (fmt_rest st) in
      do { st \<leftarrow> map_option (fmt_skip (length literal)) (add_output e literal st);
           if \<not> fs_ptr st < fs_end st then Some st else format_brace e st })"

partial_function (option) format_loop :: "fmt_env \<Rightarrow> fmt_state \<Rightarrow> fmt_state option" where
  "format_loop e st =
     (if fs_ptr st < fs_end st \<and> \<not> fs_raised st
      then do { st \<leftarrow> format_turn e st; format_loop e st } else Some st)"

definition start_format :: "byte list \<Rightarrow> vm \<Rightarrow> heap_cstring \<Rightarrow> fmt_state" where
  "start_format str vm out =
     \<lparr>fs_vm = vm, fs_src = str @ [0], fs_ptr = 0, fs_end = length str, fs_autoIdx = 0, fs_arg = VNil,
      fs_zeroPadding = 0, fs_output = out, fs_raised = False\<rparr>"

text \<open>That the output could not be created is not tested: writing to it is undefined.\<close>

definition format_args :: "fmt_env \<Rightarrow> vm \<Rightarrow> fmt_state option" where
  "format_args e vm =
     (let m = fe_machine e in
      do { self \<leftarrow> arg_slot e 0 vm;
           str \<leftarrow> AS_STRING (vm_heap vm) self;
           (obtained, vm) \<leftarrow> alloc_block (mx_mem m) (mx_env m) (length str + 1) vm;
           created \<leftarrow> initHeapStringWithSize (\<lambda>_. obtained) (int (length str) + 1);
           out \<leftarrow> created;
           format_loop e (start_format str vm out) })"

definition hs_chars :: "heap_cstring \<Rightarrow> byte list option" where
  "hs_chars s = those (take (nat (hs_length s)) (hs_block s))"

definition stringFmt :: "fmt_env \<Rightarrow> vm \<Rightarrow> val outcome" where
  "stringFmt e vm =
     (let m = fe_machine e in
      do { st \<leftarrow> format_args e vm;
           let out = fs_output st;
           if fs_raised st
           then do { vm \<leftarrow> free_block (mx_mem m) (nat (hs_capacity out)) (fs_vm st); Some (Inl Thrown, vm) }
           else do { chars \<leftarrow> hs_chars out;
                     string_result (takeString (mx_mem m) (mx_env m) (mx_fiber m) chars (nat (hs_capacity out)) (fs_vm st)) } })"

text \<open>\<open>printFmt\<close>, with what it writes to the standard output.\<close>

definition printFmt :: "fmt_env \<Rightarrow> vm \<Rightarrow> ((native_error + val) \<times> byte list \<times> vm) option" where
  "printFmt e vm =
     do { self \<leftarrow> arg_slot e 0 vm;
          case get_string_arg (vm_heap vm) self of
            Inl err \<Rightarrow> Some (Inl err, [], vm)
          | Inr _ \<Rightarrow>
              do { st \<leftarrow> format_args e vm;
                   let out = fs_output st;
                   written \<leftarrow> (if fs_raised st then Some [] else hs_chars out);
                   vm \<leftarrow> free_block (mx_mem (fe_machine e)) (nat (hs_capacity out)) (fs_vm st);
                   Some (if fs_raised st then Inl Thrown else Inr VNil, written, vm) } }"

end
