(* ===== verification/SampleMachine.thy ===== *)
theory SampleMachine
  imports Machine
begin

text \<open>
  A machine on which the theorems about the interpreter and the natives are applied: memory
  never runs out and a new object gets the first address above those in use, natives answer \<open>nil\<close>, there are no module loaders.
\<close>

definition plain_builtins :: builtins where
  "plain_builtins = \<lparr>bi_classes = [], bi_instance = 0, bi_class = 0, bi_runtimeException = 0, bi_exception = 0,
     bi_printStackTrace = 0, bi_oomError = 0, bi_iterator = 0, bi_iterable = 0, bi_iteratorStr = 0, bi_hasNextStr = 0,
     bi_nextStr = 0, bi_toStringStr = 0, bi_scriptString = 0,
     bi_names = \<lparr>mn_anonInit = 0, mn_hashCode = 0, mn_equals = 0\<rparr>, bi_traceElement = 0, bi_fileName = 0,
     bi_lineNumber = 0, bi_functionName = 0\<rparr>"

definition plain_machine :: machine_env where
  "plain_machine = \<lparr>mx_mem = (\<lambda>_. True), mx_env = (\<lambda>vm _. Some (Suc (fold max (vm_main vm @ vm_perm vm) 0))), mx_fiber = None,
     mx_native = (\<lambda>_ _ _ vm. Some (Inr VNil, vm)), mx_hash = (\<lambda>_. Some 0), mx_equals = (\<lambda>a b. Some (a = b)),
     mx_thrown = (\<lambda>_. VNil), mx_random = (\<lambda>_. 0), mx_text = (\<lambda>message _. bytes message), mx_anonymous = (\<lambda>_. []),
     mx_arith = (\<lambda>_ a b. a), mx_memmem = memmem, mx_loaders = [], mx_builtins = plain_builtins\<rparr>"

end
