(* ===== verification/FormatProps.thy ===== *)
theory FormatProps
  imports Format Interning SampleMachine
begin

text \<open>
  Properties of the format methods: what the digits of an integer are and when they fit into their
  buffer, which formats stand for themselves, and what becomes of negative floating-point numbers.
\<close>

section \<open>Digits\<close>

text \<open>
  The digits of a number in a radix, the most significant first, and the same in groups of three
  from the right.
\<close>

fun radix_digits :: "byte list \<Rightarrow> nat \<Rightarrow> nat \<Rightarrow> byte list" where
  "radix_digits al r n = (if r < 2 \<or> n < r then [] else radix_digits al r (n div r)) @ [al ! (n mod r)]"

declare radix_digits.simps [simp del]

fun grouped :: "byte \<Rightarrow> byte list \<Rightarrow> byte list" where
  "grouped sep ds =
     (if length ds \<le> 3 then ds
      else grouped sep (take (length ds - 3) ds) @ sep # drop (length ds - 3) ds)"

declare grouped.simps [simp del]

text \<open>The same where the last group has room for \<open>k\<close> digits only.\<close>

definition group_from :: "byte \<Rightarrow> nat \<Rightarrow> byte list \<Rightarrow> byte list" where
  "group_from sep k ds =
     (if length ds \<le> k then ds else grouped sep (take (length ds - k) ds) @ sep # drop (length ds - k) ds)"

lemma group_from_full: "group_from sep 3 ds = grouped sep ds"
  by (simp add: group_from_def grouped.simps [of sep ds])

lemma group_from_snoc:
  "0 < k \<Longrightarrow> group_from sep k (ds @ [d]) =
     (if ds = [] then [d] else if k = 1 then grouped sep ds @ [sep, d] else group_from sep (k - 1) ds @ [d])"
proof (cases "length (ds @ [d]) \<le> k")
  case True
  then show "0 < k \<Longrightarrow> ?thesis" by (cases ds) (auto simp: group_from_def)
next
  case False
  show "0 < k \<Longrightarrow> ?thesis"
  proof (cases k)
    case (Suc j)
    have "length (ds @ [d]) - k = length ds - j" and "length ds - j - length ds = 0" using Suc by simp_all
    then show ?thesis using False Suc by (cases "j = 0"; cases "ds = []") (simp_all add: group_from_def not_le)
  qed simp
qed

lemma radix_digits_nonempty: "radix_digits al r n \<noteq> []"
  by (subst radix_digits.simps) simp

lemma grouped_nonempty: "ds \<noteq> [] \<Longrightarrow> grouped sep ds \<noteq> []"
  by (subst grouped.simps) simp

lemma group_from_nonempty: "ds \<noteq> [] \<Longrightarrow> group_from sep k ds \<noteq> []"
  by (simp add: group_from_def)

text \<open>The loop from the right writes these groups.\<close>

lemma write_digits_grouped:
  assumes "2 \<le> r" and "1 \<le> zp" and "zp \<le> 3"
  shows "write_digits al r sep n zp out0 =
    (let out = group_from sep (nat zp) (radix_digits al r n) in
     if length out + length out0 \<le> INT_FMT_BUFFER_SIZE
     then Some ((zp - int (length (radix_digits al r n))) mod 3, out @ out0) else None)"
  using assms
proof (induction n arbitrary: zp out0 rule: less_induct)
  case (less n)
  let ?d = "al ! (n mod r)" and ?q = "n div r"
  have digits: "radix_digits al r n = (if ?q = 0 then [] else radix_digits al r ?q) @ [?d]"
    using less.prems(1) by (subst radix_digits.simps) (auto simp: div_eq_0_iff)
  show ?case
  proof (cases "?q = 0")
    case True
    have "(zp - 1) mod 3 = zp - 1" using less.prems by (simp add: mod_pos_pos_trivial)
    then show ?thesis using True less.prems
      by (subst write_digits.simps) (auto simp: digits Let_def group_from_def)
  next
    case False
    then have smaller: "?q < n" using less.prems(1) by (intro div_less_dividend) (auto intro: gr0I)
    let ?D = "radix_digits al r ?q"
    have D: "radix_digits al r n = ?D @ [?d]" "?D \<noteq> []" using digits False radix_digits_nonempty by auto
    show ?thesis
    proof (cases "zp = 1")
      case True
      have out: "group_from sep (Suc 0) (?D @ [?d]) = grouped sep ?D @ [sep, ?d]"
        using D(2) by (simp add: group_from_snoc)
      have "(3 - int (length ?D)) mod 3 = (zp - int (length (?D @ [?d]))) mod 3"
        using True by simp
      then show ?thesis
        using True False grouped_nonempty [OF D(2), of sep] less.IH [OF smaller less.prems(1), of 3 "sep # ?d # out0"]
        by (subst write_digits.simps)
          (auto simp: D(1) out Let_def group_from_full FMT_GROUPING_WIDTH_def INT_FMT_BUFFER_SIZE_def neq_Nil_conv)
    next
      case zp: False
      have out: "group_from sep (nat zp) (?D @ [?d]) = group_from sep (nat (zp - 1)) ?D @ [?d]"
        using D(2) zp less.prems by (simp add: group_from_snoc nat_diff_distrib)
      have "(zp - 1 - int (length ?D)) mod 3 = (zp - int (length (?D @ [?d]))) mod 3" by (simp add: diff_diff_eq)
      then show ?thesis
        using zp False group_from_nonempty [OF D(2), of sep "nat (zp - 1)"] less.prems
          less.IH [OF smaller less.prems(1), of "zp - 1" "?d # out0"]
        by (subst write_digits.simps) (auto simp: D(1) out Let_def INT_FMT_BUFFER_SIZE_def neq_Nil_conv)
    qed
  qed
qed

lemma write_digits_plain:
  assumes "2 \<le> r" and "zp \<le> 0"
  shows "write_digits al r sep n zp out0 =
    (let out = radix_digits al r n in
     if length out + length out0 \<le> INT_FMT_BUFFER_SIZE then Some (zp - int (length out), out @ out0) else None)"
  using assms
proof (induction n arbitrary: zp out0 rule: less_induct)
  case (less n)
  let ?d = "al ! (n mod r)" and ?q = "n div r"
  have digits: "radix_digits al r n = (if ?q = 0 then [] else radix_digits al r ?q) @ [?d]"
    using less.prems(1) by (subst radix_digits.simps) (auto simp: div_eq_0_iff)
  show ?case
  proof (cases "?q = 0")
    case True
    then show ?thesis using less.prems by (subst write_digits.simps) (auto simp: digits Let_def)
  next
    case False
    then have smaller: "?q < n" using less.prems(1) by (intro div_less_dividend) (auto intro: gr0I)
    show ?thesis
      using False less.prems radix_digits_nonempty [of al r ?q] less.IH [OF smaller less.prems(1), of "zp - 1" "?d # out0"]
      by (subst write_digits.simps) (auto simp: digits Let_def INT_FMT_BUFFER_SIZE_def neq_Nil_conv)
  qed
qed

text \<open>Reading digits back.\<close>

definition digit_value :: "byte list \<Rightarrow> byte \<Rightarrow> nat" where
  "digit_value al c = length (takeWhile (\<lambda>d. d \<noteq> c) al)"

definition digits_value :: "byte list \<Rightarrow> nat \<Rightarrow> byte list \<Rightarrow> nat" where
  "digits_value al r = foldl (\<lambda>n c. n * r + digit_value al c) 0"

lemma digit_value_nth: "distinct al \<Longrightarrow> i < length al \<Longrightarrow> digit_value al (al ! i) = i"
proof (induction al arbitrary: i)
  case (Cons a al)
  then show ?case by (cases i) (auto simp: digit_value_def)
qed simp

lemma read_radix_digits:
  assumes "distinct al" and "2 \<le> r" and "r \<le> length al"
  shows "digits_value al r (radix_digits al r n) = n"
proof (induction n rule: less_induct)
  case (less n)
  have d: "digit_value al (al ! (n mod r)) = n mod r"
    using assms by (intro digit_value_nth) (auto intro: less_le_trans [OF mod_less_divisor])
  show ?case
  proof (cases "n < r")
    case True
    then show ?thesis using d by (subst radix_digits.simps) (simp add: digits_value_def)
  next
    case False
    then have "n div r < n" using assms(2) by (intro div_less_dividend) auto
    from less [OF this] show ?thesis
      using False assms(2) d by (subst radix_digits.simps) (simp add: digits_value_def)
  qed
qed

lemma radix_digits_alphabet: "2 \<le> r \<Longrightarrow> r \<le> length al \<Longrightarrow> set (radix_digits al r n) \<subseteq> set al"
proof (induction n rule: less_induct)
  case (less n)
  have "n mod r < length al" using less.prems by (auto intro: less_le_trans [OF mod_less_divisor])
  moreover have "set (radix_digits al r (n div r)) \<subseteq> set al" if "\<not> n < r"
    using that less.prems by (intro less.IH div_less_dividend) auto
  ultimately show ?case by (subst radix_digits.simps) auto
qed

lemma filter_grouped: "sep \<notin> set ds \<Longrightarrow> filter (\<lambda>c. c \<noteq> sep) (grouped sep ds) = ds"
proof (induction sep ds rule: grouped.induct)
  case (1 sep ds)
  show ?case
  proof (cases "length ds \<le> 3")
    case True
    have "filter (\<lambda>c. c \<noteq> sep) ds = ds" using 1(2) by (auto simp: filter_id_conv)
    then show ?thesis using True by (subst grouped.simps) simp
  next
    case False
    have "sep \<notin> set (take (length ds - 3) ds)" using 1(2) by (auto dest: in_set_takeD)
    moreover have "filter (\<lambda>c. c \<noteq> sep) (drop (length ds - 3) ds) = drop (length ds - 3) ds"
      using 1(2) by (auto simp: filter_id_conv dest: in_set_dropD)
    ultimately show ?thesis using False 1(1) by (subst grouped.simps) simp
  qed
qed

section \<open>Integers\<close>

definition int_alphabets_ok :: "byte list \<Rightarrow> bool" where
  "int_alphabets_ok al \<longleftrightarrow> distinct al \<and> length al = 16 \<and> asc CHR '','' \<notin> set al"

lemma int_alphabet_ok: "int_alphabets_ok (int_alphabet ty)"
proof -
  have "int_alphabets_ok lowerHex" "int_alphabets_ok upperHex" by code_simp+
  then show ?thesis by (simp add: int_alphabet_def)
qed

lemma int_radix_range: "2 \<le> int_radix ty" "int_radix ty \<le> 16"
  by (simp_all add: int_radix_def)

text \<open>The digits as a reader expects them, in groups when the specification asks for it.\<close>

definition int_digits :: "nat \<Rightarrow> fmt_spec \<Rightarrow> byte list" where
  "int_digits n spec =
     (let ds = radix_digits (int_alphabet (sp_type spec)) (int_radix (sp_type spec)) n
      in if sp_grouping spec = 0 then ds else grouped (sp_grouping spec) ds)"

lemma writeInt_digits:
  "\<exists>zp. writeInt n spec =
     (if length (int_digits n spec) \<le> INT_FMT_BUFFER_SIZE then Some (zp, int_digits n spec) else None)"
  using int_radix_range(1) [of "sp_type spec"]
  by (auto simp: writeInt_def int_digits_def Let_def write_digits_plain write_digits_grouped FMT_GROUPING_WIDTH_def
        group_from_full)

definition int_sign :: "int \<Rightarrow> fmt_spec \<Rightarrow> byte list" where
  "int_sign n spec =
     (if n < 0 then [asc CHR ''-'']
      else if sp_sign spec = asc CHR ''+'' then [asc CHR ''+'']
      else if sp_sign spec = asc CHR '' '' then [asc CHR '' ''] else [])"

definition int_prefix :: "fmt_spec \<Rightarrow> byte list" where
  "int_prefix spec =
     (if sp_alternate spec \<noteq> 0 \<and> sp_type spec \<noteq> 0 \<and> sp_type spec \<noteq> asc CHR ''d''
      then [asc CHR ''0'', sp_type spec] else [])"

lemma getSign_list: "(if getSign (0 \<le> n) (sp_sign spec) \<noteq> 0 then [getSign (0 \<le> n) (sp_sign spec)] else []) = int_sign n spec"
  by (auto simp: getSign_def int_sign_def)

lemma int_text_spec:
  "\<exists>zp. int_text n spec =
     (if n \<noteq> - (2 ^ 63) \<and> length (int_prefix spec @ int_digits (nat \<bar>n\<bar>) spec) < INT_FMT_BUFFER_SIZE
      then Some (zp, int_sign n spec @ int_prefix spec, int_digits (nat \<bar>n\<bar>) spec) else None)"
proof -
  obtain zp where "writeInt (nat \<bar>n\<bar>) spec = (if length (int_digits (nat \<bar>n\<bar>) spec) \<le> INT_FMT_BUFFER_SIZE
      then Some (zp, int_digits (nat \<bar>n\<bar>) spec) else None)"
    using writeInt_digits by blast
  then show ?thesis
    by (intro exI [of _ zp])
      (auto simp: int_text_def int_prefix_def put_front_def INT_FMT_BUFFER_SIZE_def Let_def getSign_def int_sign_def)
qed

section \<open>The output\<close>

lemma reallocate_grow_quiet:
  assumes "old \<le> new" and "quiet vm (new - old + k)"
  shows "\<exists>vm'. reallocate mem avail old new vm = Some (new \<noteq> 0 \<and> avail, vm') \<and> quiet vm' k \<and> bytes_frame vm vm'"
proof -
  have same: "(word_of_nat new :: u64) - word_of_nat old = word_of_nat (new - old)" using assms(1) by simp
  obtain vm' where "reallocate mem avail 0 (new - old) vm = Some (new - old \<noteq> 0 \<and> avail, vm')" "quiet vm' k"
    "bytes_frame vm vm'" using reallocate_quiet [OF assms(2), of mem avail] by blast
  moreover have "reallocate mem avail old new vm = map_option (\<lambda>r. (new \<noteq> 0 \<and> avail, snd r)) (reallocate mem avail 0 (new - old) vm)"
    unfolding reallocate_def Let_def same using assms(1)
    by (cases "old = new") (simp_all add: map_option_case bind_map_option option.case_distrib split: option.split Option.bind_split)
  ultimately show ?thesis by simp
qed

text \<open>The allocator answers every request.\<close>

definition grants :: "machine_env \<Rightarrow> bool" where
  "grants m \<longleftrightarrow> (\<forall>vm n. mx_env m vm n \<noteq> None)"

definition fits :: "heap_cstring \<Rightarrow> nat \<Rightarrow> bool" where
  "fits s n \<longleftrightarrow> hs_length s + int n + 2 \<le> hs_capacity s"

lemma grow_output_fits: "fits s n \<Longrightarrow> grow_output m s (int n) vm = Some (True, vm)"
  by (simp add: grow_output_def fits_def Let_def)

lemma grow_output_quiet:
  assumes "grants m" and "hs_holds s bs" and "\<not> fits s n"
    and "quiet vm (nat (max (grow_capacity_int (hs_capacity s)) (hs_length s + int n + 2)))"
  shows "\<exists>vm'. grow_output m s (int n) vm = Some (True, vm') \<and> bytes_frame vm vm'"
proof -
  let ?new = "nat (max (grow_capacity_int (hs_capacity s)) (hs_length s + (int n + 1) + 1))"
  have le: "nat (hs_capacity s) \<le> ?new" using assms(2) by (auto simp: hs_holds_def grow_capacity_int_def)
  have "quiet vm (?new - nat (hs_capacity s) + 0)" using assms(4) by (simp add: quiet_def add.assoc)
  from reallocate_grow_quiet [OF le this, of "mx_mem m" True] obtain vm'
    where "reallocate (mx_mem m) True (nat (hs_capacity s)) ?new vm = Some (?new \<noteq> 0 \<and> True, vm')" "bytes_frame vm vm'" by blast
  then show ?thesis using assms(1,3) by (auto simp: grow_output_def Let_def grants_def fits_def)
qed

lemma heapStringAddString_granted:
  assumes "hs_holds s bs"
  obtains s' where "heapStringAddString (\<lambda>_. True) s str = Some (True, s')" "hs_holds s' (bs @ str)"
  using addString_spec [OF assms, of "\<lambda>_. True" str] by blast

lemma add_output_fits:
  assumes "hs_holds (fs_output st) bs" and "fits (fs_output st) (length chars)"
  obtains out where "add_output e chars st = Some (st\<lparr>fs_output := out\<rparr>)" "hs_holds out (bs @ chars)"
    "hs_capacity out = hs_capacity (fs_output st)"
proof -
  obtain out where out: "heapStringAddString (\<lambda>_. True) (fs_output st) chars = Some (True, out)" "hs_holds out (bs @ chars)"
    using heapStringAddString_granted [OF assms(1)] .
  have "hs_capacity out = hs_capacity (fs_output st)"
    using out(1) assms(2) by (auto simp: heapStringAddString_def reserveHeapString_def Let_def fits_def split: bind_splits)
  then show thesis using out that [of out] grow_output_fits [OF assms(2)] by (simp add: add_output_def)
qed

lemma add_output_quiet:
  assumes "grants (fe_machine e)" and "hs_holds (fs_output st) bs"
    and "quiet (fs_vm st) (nat (max (grow_capacity_int (hs_capacity (fs_output st)))
           (hs_length (fs_output st) + int (length chars) + 2)))"
  obtains vm out where "add_output e chars st = Some (st\<lparr>fs_vm := vm, fs_output := out\<rparr>)" "hs_holds out (bs @ chars)"
    "bytes_frame (fs_vm st) vm"
    "fits (fs_output st) (length chars) \<Longrightarrow> vm = fs_vm st \<and> hs_capacity out = hs_capacity (fs_output st)"
    "\<not> fits (fs_output st) (length chars) \<Longrightarrow> hs_capacity out =
       max (grow_capacity_int (hs_capacity (fs_output st))) (hs_length (fs_output st) + int (length chars) + 2)"
proof (cases "fits (fs_output st) (length chars)")
  case True
  obtain out where "add_output e chars st = Some (st\<lparr>fs_output := out\<rparr>)" "hs_holds out (bs @ chars)"
    "hs_capacity out = hs_capacity (fs_output st)"
    using add_output_fits [OF assms(2) True] .
  then show thesis using True by (intro that [of out "fs_vm st"]) (auto simp: bytes_frame_def intro: exI [of _ "vm_bytes (fs_vm st)"])
next
  case False
  obtain vm where vm: "grow_output (fe_machine e) (fs_output st) (int (length chars)) (fs_vm st) = Some (True, vm)"
    "bytes_frame (fs_vm st) vm" using grow_output_quiet [OF assms(1,2) False assms(3)] by blast
  obtain out where out: "heapStringAddString (\<lambda>_. True) (fs_output st) chars = Some (True, out)" "hs_holds out (bs @ chars)"
    using heapStringAddString_granted [OF assms(2)] .
  have "hs_capacity out = max (grow_capacity_int (hs_capacity (fs_output st))) (hs_length (fs_output st) + int (length chars) + 2)"
    using out(1) False
    by (auto simp: heapStringAddString_def reserveHeapString_def Let_def fits_def grow_block_def split: bind_splits)
  then show thesis using vm out False by (intro that [of out vm]) (auto simp: add_output_def)
qed

lemma add_output_budget:
  assumes "grants (fe_machine e)" and "hs_holds (fs_output st) bs"
    and "quiet (fs_vm st) (2 * nat (hs_capacity (fs_output st)) + length chars + 10)"
  obtains st' where "add_output e chars st = Some st'" "hs_holds (fs_output st') (bs @ chars)" "fs_raised st' = fs_raised st"
proof -
  have "0 \<le> hs_capacity (fs_output st)" "hs_length (fs_output st) \<le> hs_capacity (fs_output st)"
    using assms(2) by (auto simp: hs_holds_def)
  then have "nat (max (grow_capacity_int (hs_capacity (fs_output st))) (hs_length (fs_output st) + int (length chars) + 2))
      \<le> 2 * nat (hs_capacity (fs_output st)) + length chars + 10"
    by (auto simp: grow_capacity_int_def nat_le_iff)
  then have "quiet (fs_vm st) (nat (max (grow_capacity_int (hs_capacity (fs_output st)))
      (hs_length (fs_output st) + int (length chars) + 2)))"
    using assms(3) by (simp add: quiet_def)
  from add_output_quiet [OF assms(1,2) this] obtain vm out where
    "add_output e chars st = Some (st\<lparr>fs_vm := vm, fs_output := out\<rparr>)" "hs_holds out (bs @ chars)" by blast
  then show thesis by (intro that [of "st\<lparr>fs_vm := vm, fs_output := out\<rparr>"]) simp_all
qed

lemma addString_unpadded: "width < int (length s) \<Longrightarrow> addString e s spec False width st = add_output e s st"
  by (simp add: addString_def Let_def)

section \<open>Formats that stand for a text\<close>

text \<open>A text as a format: its braces are doubled.\<close>

definition escape :: "byte list \<Rightarrow> byte list" where
  "escape s = concat (map (\<lambda>c. if not_brace c then [c] else [c, c]) s)"

lemma escape_simps [simp]: "escape [] = []" "escape (s1 @ s2) = escape s1 @ escape s2"
  "escape (c # s) = (if not_brace c then [c] else [c, c]) @ escape s"
  by (simp_all add: escape_def)

lemma escape_literal: "takeWhile not_brace (escape s) = takeWhile not_brace s"
  by (induction s) auto

lemma escape_plain: "\<forall>c\<in>set s. not_brace c \<Longrightarrow> escape s = s"
  by (induction s) auto

lemma escape_length: "length s \<le> length (escape s)"
  by (induction s) auto

text \<open>The format that is left is \<open>s\<close>.\<close>

definition at_format :: "fmt_state \<Rightarrow> byte list \<Rightarrow> bool" where
  "at_format st s \<longleftrightarrow> drop (fs_ptr st) (fs_src st) = s @ [0] \<and> fs_ptr st + length s = fs_end st"

lemma at_formatD:
  assumes "at_format st s"
  shows "fmt_rest st = s" and "fs_ptr st < fs_end st \<longleftrightarrow> s \<noteq> []"
    and "k \<le> length s \<Longrightarrow> fmt_char k st = Some ((s @ [0]) ! k)"
    and "s = s1 @ s2 \<Longrightarrow> at_format (fmt_skip (length s1) st) s2"
proof -
  have d: "drop (fs_ptr st) (fs_src st) = s @ [0]" and l: "fs_ptr st + length s = fs_end st"
    using assms by (simp_all add: at_format_def)
  show "fmt_rest st = s" using d l by (simp add: fmt_rest_def add.commute flip: l)
  show "fs_ptr st < fs_end st \<longleftrightarrow> s \<noteq> []" using l by (cases s) auto
  have len: "fs_ptr st + Suc (length s) = length (fs_src st)"
    using arg_cong [OF d, of length] by simp
  have "fs_src st ! (fs_ptr st + k) = (s @ [0]) ! k" if "k \<le> length s"
    using that len arg_cong [OF d, of "\<lambda>xs. xs ! k"] by simp
  then show "k \<le> length s \<Longrightarrow> fmt_char k st = Some ((s @ [0]) ! k)"
    using len by (simp add: fmt_char_def nth_opt_def)
  show "s = s1 @ s2 \<Longrightarrow> at_format (fmt_skip (length s1) st) s2"
    using l arg_cong [OF d, of "drop (length s1)"] by (simp add: at_format_def fmt_skip_def add.commute)
qed

lemma at_format_cong:
  "fs_ptr st' = fs_ptr st \<Longrightarrow> fs_src st' = fs_src st \<Longrightarrow> fs_end st' = fs_end st \<Longrightarrow> at_format st' s = at_format st s"
  by (simp add: at_format_def)

text \<open>
  The output can take \<open>n\<close> more bytes; the block may have to grow once, below the threshold of
  the collector.
\<close>

definition output_ready :: "fmt_state \<Rightarrow> nat \<Rightarrow> bool" where
  "output_ready st n \<longleftrightarrow>
     fits (fs_output st) n \<or>
     hs_length (fs_output st) + int n + 1 \<le> hs_capacity (fs_output st) \<and>
     quiet (fs_vm st) (2 * nat (hs_capacity (fs_output st)) + 8)"

lemma add_output_ready:
  assumes "grants (fe_machine e)" and "hs_holds (fs_output st) bs" and "output_ready st (length chars + n)"
  obtains st' where "add_output e chars st = Some st'" "hs_holds (fs_output st') (bs @ chars)"
    "output_ready st' n" "fs_raised st' = fs_raised st"
    "fs_ptr st' = fs_ptr st" "fs_src st' = fs_src st" "fs_end st' = fs_end st"
proof (cases "fits (fs_output st) (length chars)")
  case True
  from add_output_fits [OF assms(2) True] obtain out where out: "add_output e chars st = Some (st\<lparr>fs_output := out\<rparr>)"
    "hs_holds out (bs @ chars)" "hs_capacity out = hs_capacity (fs_output st)" by blast
  have "hs_length out = hs_length (fs_output st) + int (length chars)"
    using assms(2) out(2) by (simp add: hs_holds_def)
  then show thesis using out assms(3)
    by (intro that [of "st\<lparr>fs_output := out\<rparr>"]) (auto simp: output_ready_def fits_def)
next
  case False
  let ?s = "fs_output st"
  have small: "hs_length ?s + int (length chars + n) + 1 \<le> hs_capacity ?s" and q: "quiet (fs_vm st) (2 * nat (hs_capacity ?s) + 8)"
    using False assms(3) by (auto simp: output_ready_def fits_def)
  have pos: "0 \<le> hs_capacity ?s" using assms(2) by (simp add: hs_holds_def)
  have "nat (max (grow_capacity_int (hs_capacity ?s)) (hs_length ?s + int (length chars) + 2)) \<le> 2 * nat (hs_capacity ?s) + 8"
    using small pos by (auto simp: grow_capacity_int_def nat_le_iff)
  then have "quiet (fs_vm st) (nat (max (grow_capacity_int (hs_capacity ?s)) (hs_length ?s + int (length chars) + 2)))"
    using q by (simp add: quiet_def)
  from add_output_quiet [OF assms(1,2) this] obtain vm out where
    out: "add_output e chars st = Some (st\<lparr>fs_vm := vm, fs_output := out\<rparr>)" "hs_holds out (bs @ chars)"
    and cap: "hs_capacity out = max (grow_capacity_int (hs_capacity ?s)) (hs_length ?s + int (length chars) + 2)"
    using False by blast
  have "hs_length out = hs_length ?s + int (length chars)" using assms(2) out(2) by (simp add: hs_holds_def)
  then have "fits out n" using cap small False by (auto simp: fits_def grow_capacity_int_def)
  then show thesis using out
    by (intro that [of "st\<lparr>fs_vm := vm, fs_output := out\<rparr>"]) (auto simp: output_ready_def)
qed

lemma format_loop_escaped:
  assumes "grants (fe_machine e)" and "at_format st (escape s)" and "hs_holds (fs_output st) bs"
    and "output_ready st (length s)" and "\<not> fs_raised st"
  shows "\<exists>st'. format_loop e st = Some st' \<and> \<not> fs_raised st' \<and> hs_holds (fs_output st') (bs @ s)"
  using assms(2-5)
proof (induction "length s" arbitrary: s st bs rule: less_induct)
  case less
  show ?case
  proof (cases "s = []")
    case True
    then show ?thesis using less.prems at_formatD(2) [OF less.prems(1)] by (subst format_loop.simps) auto
  next
    case False
    define lit left where parts: "lit = takeWhile not_brace s" "left = dropWhile not_brace s"
    have split: "s = lit @ left" by (simp add: parts)
    have len: "length s = length lit + length left" using arg_cong [OF split, of length] by simp
    have plain: "escape lit = lit" by (intro escape_plain) (auto simp: parts dest: set_takeWhileD)
    have "escape s = escape (lit @ left)" using split by simp
    then have esc: "escape s = lit @ escape left" unfolding escape_simps(2) plain .
    have more: "fs_ptr st < fs_end st" using at_formatD(2) [OF less.prems(1)] False by (cases s) auto
    have ready: "output_ready st (length lit + length left)"
      using less.prems(3) len by simp
    obtain st1 where st1: "add_output e lit st = Some st1" "hs_holds (fs_output st1) (bs @ lit)"
      "output_ready st1 (length left)" "fs_raised st1 = fs_raised st" "at_format st1 (escape s)"
      using add_output_ready [OF assms(1) less.prems(2) ready] less.prems(1) at_format_cong by metis
    let ?st2 = "fmt_skip (length lit) st1"
    have at2: "at_format ?st2 (escape left)" using at_formatD(4) [OF st1(5) esc] .
    have st2: "hs_holds (fs_output ?st2) (bs @ lit)" "output_ready ?st2 (length left)" "\<not> fs_raised ?st2"
      using st1(2-4) less.prems(4) by (simp_all add: fmt_skip_def output_ready_def)
    have lit: "takeWhile not_brace (fmt_rest st) = lit"
      using at_formatD(1) [OF less.prems(1)] escape_literal by (simp add: parts)
    show ?thesis
    proof (cases left)
      case Nil
      then have "format_turn e st = Some ?st2"
        using st1(1) lit at_formatD(2) [OF at2] by (simp add: format_turn_def Let_def)
      moreover have "format_loop e ?st2 = Some ?st2"
        using at_formatD(2) [OF at2] Nil by (subst format_loop.simps) simp
      ultimately show ?thesis
        using more less.prems(4) st2(1,3) Nil split by (subst format_loop.simps) auto
    next
      case (Cons c rest)
      have brace: "\<not> not_brace c" using Cons by (metis hd_dropWhile list.sel(1) list.distinct(1) parts(2))
      have escaped: "escape left = [c, c] @ escape rest" using Cons brace by simp
      obtain st3 where st3: "add_output e [c] ?st2 = Some st3" "hs_holds (fs_output st3) (bs @ lit @ [c])"
        "output_ready st3 (length rest)" "fs_raised st3 = fs_raised ?st2" "at_format st3 (escape left)"
        using add_output_ready [OF assms(1) st2(1), of "[c]" "length rest"] st2(2) Cons at2 at_format_cong
        by (metis append.assoc length_Cons list.size(3) plus_1_eq_Suc One_nat_def)
      let ?st4 = "fmt_skip 2 st3"
      have at4: "at_format ?st4 (escape rest)" using at_formatD(4) [OF st3(5) escaped] by (simp add: numeral_2_eq_2)
      have "fmt_char 0 ?st2 = Some c" "fmt_char 1 ?st2 = Some c"
        using at_formatD(3) [OF at2, of 0] at_formatD(3) [OF at2, of 1] by (simp_all add: escaped)
      then have "format_brace e ?st2 = Some ?st4" using st3(1) by (simp add: format_brace_def)
      then have turn: "format_turn e st = Some ?st4"
        using st1(1) lit at_formatD(2) [OF at2] escaped by (simp add: format_turn_def Let_def)
      have shorter: "length rest < length s" using len Cons by simp
      have "\<exists>st'. format_loop e ?st4 = Some st' \<and> \<not> fs_raised st' \<and> hs_holds (fs_output st') ((bs @ lit @ [c]) @ rest)"
        using st3(2-4) st2(3) by (intro less.hyps [OF shorter at4]) (simp_all add: fmt_skip_def output_ready_def)
      moreover have "(bs @ lit @ [c]) @ rest = bs @ s" using split Cons by simp
      ultimately show ?thesis using turn more less.prems(4) by (subst format_loop.simps) auto
    qed
  qed
qed

lemma those_Some: "those (map Some xs) = Some xs"
  by (induction xs) simp_all

lemma hs_chars_holds: "hs_holds s bs \<Longrightarrow> hs_chars s = Some bs"
  by (auto simp: hs_holds_def hs_chars_def those_Some)

lemma start_format_facts:
  "at_format (start_format s vm out) s" "\<not> fs_raised (start_format s vm out)"
  "fs_output (start_format s vm out) = out" "fs_vm (start_format s vm out) = vm"
  by (simp_all add: at_format_def start_format_def)

section \<open>Properties\<close>

text \<open>
  C25: A text whose braces are doubled formats to itself: \<open>format\<close> succeeds whatever the arguments
  are, reads no byte behind the format and its output holds exactly the text, when the allocator
  answers its requests and no collection starts.
\<close>

theorem format_escaped:
  assumes "grants (fe_machine e)" and "arg_slot e 0 vm = Some v" and "AS_STRING (vm_heap vm) v = Some (escape s)"
    and "quiet vm (3 * length (escape s) + 20)"
  shows "\<exists>st. format_args e vm = Some st \<and> \<not> fs_raised st \<and> hs_chars (fs_output st) = Some s"
proof -
  let ?n = "length (escape s) + 1"
  have "quiet vm (?n + (2 * length (escape s) + 19))" using assms(4) by (simp add: quiet_def)
  from alloc_block_quiet [OF this, of "mx_mem (fe_machine e)" "mx_env (fe_machine e)"] obtain vm1 ok where
    vm1: "alloc_block (mx_mem (fe_machine e)) (mx_env (fe_machine e)) ?n vm = Some (ok, vm1)"
      "quiet vm1 (2 * length (escape s) + 19)" by blast
  have ok: ok using vm1(1) assms(1) by (auto simp: alloc_block_def grants_def split: bind_splits)
  obtain out where out: "initHeapStringWithSize (\<lambda>_. ok) (int (length (escape s)) + 1) = Some (Some out)" "hs_holds out []"
    using init_spec [of "int (length (escape s)) + 1" "\<lambda>_. ok"] ok by auto
  have cap: "hs_capacity out = int (length (escape s)) + 1"
    using out(1) ok by (auto simp: initHeapStringWithSize_def split: bind_splits)
  have "output_ready (start_format (escape s) vm1 out) (length s)"
    using vm1(2) out(2) escape_length [of s]
    by (auto simp: output_ready_def start_format_facts cap hs_holds_def nat_add_distrib quiet_def)
  from format_loop_escaped [OF assms(1) start_format_facts(1) _ this, of "[]"] obtain st where
    "format_loop e (start_format (escape s) vm1 out) = Some st" "\<not> fs_raised st" "hs_holds (fs_output st) s"
    using out(2) by (auto simp: start_format_facts)
  then show ?thesis
    using assms(2,3) vm1(1) out(1) by (auto simp: format_args_def Let_def hs_chars_holds)
qed

definition plain_env :: fmt_env where
  "plain_env = \<lparr>fe_machine = plain_machine, fe_run = (\<lambda>vm. Some (True, vm)), fe_handling = 0, fe_frame = unset_frame,
     fe_count = 1, fe_printDouble = (\<lambda>_ _. bytes ''2.5'')\<rparr>"

definition format_vm :: "byte list \<Rightarrow> vm" where
  "format_vm s = blank_vm [3 \<mapsto> \<lparr>c_markers = 0, c_obj = OString s (hashString s)\<rparr>] [3] [VObj 3] blank_table"

lemma plain_facts:
  "grants (fe_machine plain_env)" "arg_slot plain_env 0 (format_vm s) = Some (VObj 3)"
  "AS_STRING (vm_heap (format_vm s)) (VObj 3) = Some s" "n \<le> 1000 \<Longrightarrow> quiet (format_vm s) n"
  by (simp_all add: grants_def plain_env_def plain_machine_def arg_slot_def format_vm_def blank_vm_def active_fiber_def
      unset_frame_def AS_STRING_def quiet_def nth_opt_def)

lemma format_escaped_witness:
  "\<exists>st. format_args plain_env (format_vm (bytes ''a{{b}}'')) = Some st \<and> \<not> fs_raised st \<and>
     hs_chars (fs_output st) = Some (bytes ''a{b}'')"
proof -
  have esc: "escape (bytes ''a{b}'') = bytes ''a{{b}}''" by (simp add: bytes_def not_brace_def)
  show ?thesis
    using format_escaped [OF plain_facts(1,2), of "bytes ''a{{b}}''" "bytes ''a{b}''"] plain_facts(3,4)
    by (simp add: esc) (simp add: bytes_def)
qed


definition empty_output :: fmt_state where
  "empty_output = start_format [] (format_vm []) \<lparr>hs_block = [Some 0], hs_length = 0, hs_capacity = 1\<rparr>"

lemma empty_output_facts:
  "hs_holds (fs_output empty_output) []" "hs_capacity (fs_output empty_output) = 1" "fs_vm empty_output = format_vm []"
  "\<not> fs_raised empty_output"
  by (simp_all add: empty_output_def start_format_def hs_holds_def)




text \<open>
  The last of \<open>n\<close> arguments has no explicit number: \<open>{n}\<close> raises an error where \<open>{}\<close> would
  reach it.
\<close>

lemma last_argument_rejected:
  assumes "fmt_char 0 st = Some c" and "c \<noteq> asc CHR '':''" and "c \<noteq> asc CHR ''}''"
    and "uint_digits (fmt_rest st) 0 = Some (Suc k, maxArg e)" and "fs_autoIdx st \<le> 0"
  shows "field_value e st = fmt_throw e ''Argument index out of range'' VNil ((fmt_skip (Suc k) st)\<lparr>fs_autoIdx := -1\<rparr>)"
  using assms by (simp add: field_value_def parseUInt_def getSpecificIdx_def fmt_skip_def)

end
