(* ===== verification/HandleSet.thy ===== *)
theory HandleSet
  imports Gc
begin

text \<open>
  The set of handles that hosts hold (\<open>handleSet.c\<close>): a circular, doubly linked list with a
  sentinel.  The nodes lie in a store of their own; access to a node that is not there has no
  result.  The properties show that the pointer operations are those of a list, which is how the
  collector sees the handles (\<open>vm_handles\<close>).
\<close>

section \<open>Nodes\<close>

text \<open>\<open>EloxHandle\<close>: the links, and what the handle is for (the sentinel is for nothing).\<close>

record handle_node =
  hn_next :: addr
  hn_prev :: addr
  hn_handle :: "handle option"

type_synonym handle_store = "addr \<Rightarrow> handle_node option"

definition set_next :: "addr \<Rightarrow> addr \<Rightarrow> handle_store \<Rightarrow> handle_store option" where
  "set_next a b st = do { n \<leftarrow> st a; Some (st(a \<mapsto> n\<lparr>hn_next := b\<rparr>)) }"

definition set_prev :: "addr \<Rightarrow> addr \<Rightarrow> handle_store \<Rightarrow> handle_store option" where
  "set_prev a b st = do { n \<leftarrow> st a; Some (st(a \<mapsto> n\<lparr>hn_prev := b\<rparr>)) }"

section \<open>Operations\<close>

text \<open>\<open>cell\<close> is the block the allocator provides for the sentinel.\<close>

definition initHandleSet :: "addr option \<Rightarrow> handle_store \<Rightarrow> addr option \<times> handle_store" where
  "initHandleSet cell st = (case cell of
       None \<Rightarrow> (None, st)
     | Some a \<Rightarrow> (Some a, st(a \<mapsto> \<lparr>hn_next = a, hn_prev = a, hn_handle = None\<rparr>)))"

definition handleSetAdd :: "addr \<Rightarrow> addr \<Rightarrow> handle_store \<Rightarrow> handle_store option" where
  "handleSetAdd head handle st =
     do { h \<leftarrow> st head;
          st \<leftarrow> set_next handle (hn_next h) st;
          st \<leftarrow> set_prev handle head st;
          h \<leftarrow> st head;
          st \<leftarrow> set_prev (hn_next h) handle st;
          set_next head handle st }"

definition freeHandle :: "addr \<Rightarrow> handle_store \<Rightarrow> handle_store option" where
  "freeHandle handle st = do { _ \<leftarrow> st handle; Some (st(handle := None)) }"

definition handleSetRemove :: "addr option \<Rightarrow> handle_store \<Rightarrow> handle_store option" where
  "handleSetRemove handle st = (case handle of
       None \<Rightarrow> Some st
     | Some a \<Rightarrow>
         do { n \<leftarrow> st a;
              st \<leftarrow> set_prev (hn_next n) (hn_prev n) st;
              n \<leftarrow> st a;
              st \<leftarrow> set_next (hn_prev n) (hn_next n) st;
              freeHandle a st })"

text \<open>The loops follow the links until they are back at the sentinel.\<close>

partial_function (option) free_handles :: "addr \<Rightarrow> addr \<Rightarrow> handle_store \<Rightarrow> handle_store option" where
  "free_handles head current st =
     (if current = head then Some st
      else do { n \<leftarrow> st current; st \<leftarrow> freeHandle current st; free_handles head (hn_next n) st })"

definition freeHandleSet :: "addr option \<Rightarrow> handle_store \<Rightarrow> (addr option \<times> handle_store) option" where
  "freeHandleSet head st = (case head of
       None \<Rightarrow> Some (None, st)
     | Some h \<Rightarrow> do { n \<leftarrow> st h; st \<leftarrow> free_handles h (hn_next n) st; st \<leftarrow> freeHandle h st; Some (None, st) })"

text \<open>\<open>markHandleSet\<close> marks what the handles hold, in this order.\<close>

partial_function (option) mark_handles :: "addr \<Rightarrow> addr \<Rightarrow> handle_store \<Rightarrow> handle list option" where
  "mark_handles head current st =
     (if current = head then Some []
      else do { n \<leftarrow> st current;
                h \<leftarrow> hn_handle n;
                hs \<leftarrow> mark_handles head (hn_next n) st;
                Some (h # hs) })"

definition markHandleSet :: "addr option \<Rightarrow> handle_store \<Rightarrow> handle list option" where
  "markHandleSet head st = (case head of
       None \<Rightarrow> Some []
     | Some h \<Rightarrow> do { n \<leftarrow> st h; mark_handles h (hn_next n) st })"

text \<open>
  How the embedding interface makes a handle (its block is at \<open>a\<close>) and releases one (\<open>elox.c\<close>).
\<close>

definition add_handle :: "addr \<Rightarrow> handle \<Rightarrow> addr \<Rightarrow> handle_store \<Rightarrow> handle_store option" where
  "add_handle head v a st = handleSetAdd head a (st(a \<mapsto> \<lparr>hn_next = 0, hn_prev = 0, hn_handle = Some v\<rparr>))"

section \<open>Rings\<close>

text \<open>The links and the contents of a store.\<close>

definition nx :: "handle_store \<Rightarrow> addr \<Rightarrow> addr option" where "nx st a = map_option hn_next (st a)"
definition pv :: "handle_store \<Rightarrow> addr \<Rightarrow> addr option" where "pv st a = map_option hn_prev (st a)"
definition held :: "handle_store \<Rightarrow> addr \<Rightarrow> handle option" where "held st a = do { n \<leftarrow> st a; hn_handle n }"

lemma store_views:
  assumes "a \<in> dom st"
  shows "\<exists>st'. set_next a b st = Some st' \<and> nx st' = (nx st)(a \<mapsto> b) \<and> pv st' = pv st \<and> held st' = held st \<and> dom st' = dom st"
    and "\<exists>st'. set_prev a b st = Some st' \<and> nx st' = nx st \<and> pv st' = (pv st)(a \<mapsto> b) \<and> held st' = held st \<and> dom st' = dom st"
proof -
  obtain n where n: "st a = Some n" using assms by auto
  then show "\<exists>st'. set_next a b st = Some st' \<and> nx st' = (nx st)(a \<mapsto> b) \<and> pv st' = pv st \<and> held st' = held st \<and> dom st' = dom st"
    by (intro exI [of _ "st(a \<mapsto> n\<lparr>hn_next := b\<rparr>)"]) (auto simp: set_next_def nx_def pv_def held_def fun_eq_iff)
  show "\<exists>st'. set_prev a b st = Some st' \<and> nx st' = nx st \<and> pv st' = (pv st)(a \<mapsto> b) \<and> held st' = held st \<and> dom st' = dom st"
    using n by (intro exI [of _ "st(a \<mapsto> n\<lparr>hn_prev := b\<rparr>)"]) (auto simp: set_prev_def nx_def pv_def held_def fun_eq_iff)
qed

lemma nx_dom: "nx st a = Some b \<Longrightarrow> a \<in> dom st"
  by (auto simp: nx_def)

text \<open>The nodes of a list are linked in this order, in both directions.\<close>

fun linked :: "(addr \<Rightarrow> addr option) \<Rightarrow> (addr \<Rightarrow> addr option) \<Rightarrow> addr list \<Rightarrow> bool" where
  "linked f g (a # b # xs) \<longleftrightarrow> f a = Some b \<and> g b = Some a \<and> linked f g (b # xs)"
| "linked f g xs \<longleftrightarrow> True"

definition ring :: "handle_store \<Rightarrow> addr \<Rightarrow> addr list \<Rightarrow> bool" where
  "ring st head hs \<longleftrightarrow> distinct (head # hs) \<and> linked (nx st) (pv st) (head # hs @ [head])"

lemma linked_append:
  "linked f g (xs @ a # ys) \<longleftrightarrow> linked f g (xs @ [a]) \<and> linked f g (a # ys)"
proof (induction xs)
  case (Cons x xs)
  then show ?case by (cases xs) auto
qed simp

lemma linked_next: "a \<notin> set (butlast xs) \<Longrightarrow> linked (f(a := c)) g xs = linked f g xs"
proof (induction xs)
  case (Cons x xs)
  then show ?case by (cases xs) auto
qed simp

lemma linked_prev: "b \<notin> set (tl xs) \<Longrightarrow> linked f (g(b := c)) xs = linked f g xs"
proof (induction xs)
  case (Cons x xs)
  show ?case
  proof (cases xs)
    case (Cons y ys)
    then have "linked f (g(b := c)) xs = linked f g xs" using Cons.prems by (intro Cons.IH) simp
    then show ?thesis using Cons Cons.prems by (simp del: fun_upd_apply add: fun_upd_other)
  qed simp
qed simp

text \<open>Every node of a ring exists.\<close>

lemma ring_nodes:
  assumes "ring st head hs" and "a \<in> set (head # hs)"
  shows "a \<in> dom st"
proof -
  obtain xs ys where "head # hs = xs @ a # ys" using split_list [OF assms(2)] by blast
  then have eq: "head # hs @ [head] = xs @ a # ys @ [head]" by simp
  have "linked (nx st) (pv st) (head # hs @ [head])" using assms(1) by (simp add: ring_def)
  then have "linked (nx st) (pv st) (a # ys @ [head])"
    unfolding eq by (rule linked_append [THEN iffD1, THEN conjunct2])
  then show ?thesis by (cases ys) (auto dest: nx_dom)
qed

lemma ring_add:
  assumes "ring st head hs" and "a \<notin> dom st"
  shows "\<exists>st'. add_handle head v a st = Some st' \<and> ring st' head (a # hs) \<and>
    held st' = (held st)(a \<mapsto> v) \<and> dom st' = insert a (dom st)"
proof -
  obtain f vs where seg: "hs @ [head] = f # vs" by (cases "hs @ [head]") auto
  have l: "linked (nx st) (pv st) (head # f # vs)" and d: "distinct (head # hs)"
    using assms(1) seg by (simp_all add: ring_def)
  have in_ring: "f \<in> set (head # hs)" using seg by (cases hs) auto
  have in_dom: "head \<in> dom st" "f \<in> dom st" using ring_nodes [OF assms(1)] in_ring by auto
  have ne: "a \<noteq> head" "a \<noteq> f" "a \<notin> set hs" using assms ring_nodes [OF assms(1)] in_dom by auto
  let ?st0 = "st(a \<mapsto> \<lparr>hn_next = 0, hn_prev = 0, hn_handle = Some v\<rparr>)"
  have st0: "nx ?st0 = (nx st)(a \<mapsto> 0)" "pv ?st0 = (pv st)(a \<mapsto> 0)" "held ?st0 = (held st)(a \<mapsto> v)"
    by (auto simp: nx_def pv_def held_def fun_eq_iff)
  obtain h where h: "?st0 head = Some h" "hn_next h = f"
    using l in_dom(1) ne(1) by (auto simp: nx_def)
  obtain st1 where st1: "set_next a f ?st0 = Some st1" "nx st1 = (nx st)(a \<mapsto> f)" "pv st1 = (pv st)(a \<mapsto> 0)"
    "held st1 = (held st)(a \<mapsto> v)" "dom st1 = insert a (dom st)"
    using store_views(1) [of a ?st0 f] by (auto simp: st0)
  obtain st2 where st2: "set_prev a head st1 = Some st2" "nx st2 = (nx st)(a \<mapsto> f)" "pv st2 = (pv st)(a \<mapsto> head)"
    "held st2 = (held st)(a \<mapsto> v)" "dom st2 = insert a (dom st)"
    using store_views(2) [of a st1 head] st1 by auto
  obtain h2 where h2: "st2 head = Some h2" "hn_next h2 = f"
    using fun_cong [OF st2(2), of head] l ne(1) by (auto simp: nx_def)
  obtain st3 where st3: "set_prev f a st2 = Some st3" "nx st3 = (nx st)(a \<mapsto> f)" "pv st3 = (pv st)(a \<mapsto> head, f \<mapsto> a)"
    "held st3 = (held st)(a \<mapsto> v)" "dom st3 = insert a (dom st)"
    using store_views(2) [of f st2 a] st2 in_dom by auto
  obtain st4 where st4: "set_next head a st3 = Some st4" "nx st4 = (nx st)(a \<mapsto> f, head \<mapsto> a)"
    "pv st4 = (pv st)(a \<mapsto> head, f \<mapsto> a)" "held st4 = (held st)(a \<mapsto> v)" "dom st4 = insert a (dom st)"
    using store_views(1) [of head st3 a] st3 in_dom by auto
  have "add_handle head v a st = Some st4"
    using h st1(1) st2(1) h2 st3(1) st4(1) by (simp add: add_handle_def handleSetAdd_def)
  moreover have "linked (nx st4) (pv st4) (head # a # f # vs)"
  proof -
    have "butlast (f # vs) = hs" "set (f # vs) = insert head (set hs)"
      using arg_cong [OF seg, of butlast] arg_cong [OF seg, of set] by simp_all
    moreover from this(2) have "a \<notin> set vs" using ne by auto
    moreover have "f \<notin> set vs" using seg d by (cases hs) auto
    ultimately have "linked (nx st4) (pv st4) (f # vs)"
      using l d ne unfolding st4 by (simp add: linked_next linked_prev)
    then show ?thesis using ne unfolding st4 by simp
  qed
  moreover have "distinct (head # a # hs)" using d ne by auto
  ultimately show ?thesis using seg st4(4,5) by (simp add: ring_def)
qed

lemma ring_remove:
  assumes "ring st head (xs @ a # ys)"
  shows "\<exists>st'. handleSetRemove (Some a) st = Some st' \<and> ring st' head (xs @ ys) \<and>
    held st' = (held st)(a := None) \<and> dom st' = dom st - {a}"
proof -
  obtain us p where front: "head # xs = us @ [p]" by (metis append_butlast_last_id list.distinct(1))
  obtain q vs where rear: "ys @ [head] = q # vs" by (cases "ys @ [head]") auto
  have d: "distinct (head # xs @ a # ys)" using assms by (simp add: ring_def)
  have all: "head # (xs @ a # ys) @ [head] = us @ p # a # q # vs" using front rear by simp
  have "linked (nx st) (pv st) (us @ p # a # q # vs)" using assms all by (simp add: ring_def)
  then have l: "linked (nx st) (pv st) (us @ [p])" "linked (nx st) (pv st) (p # a # q # vs)"
    using linked_append by blast+
  have links: "nx st p = Some a" "pv st a = Some p" "nx st a = Some q" "pv st q = Some a" "linked (nx st) (pv st) (q # vs)"
    using l(2) by simp_all
  have sets: "set (us @ [p]) = insert head (set xs)" "butlast (q # vs) = ys" "set (q # vs) = insert head (set ys)" "tl (us @ [p]) = xs"
    using arg_cong [OF front, of set] arg_cong [OF rear, of butlast] arg_cong [OF rear, of set] arg_cong [OF front, of tl] by simp_all
  have p: "p \<in> insert head (set xs)" and q: "q \<in> insert head (set ys)" using sets by auto
  have ne: "p \<noteq> a" "q \<noteq> a" using d p q by auto
  have "distinct (us @ [p])" using front d by (metis distinct_append append_Cons)
  then have us: "p \<notin> set us" by simp
  have vs: "q \<notin> set vs" using rear d by (cases ys) auto
  have away: "a \<notin> set us" "a \<notin> set vs" "q \<notin> set xs" "a \<notin> set xs" "p \<notin> set ys" "a \<notin> set ys"
    using d p q sets by auto
  have in_dom: "a \<in> dom st" "p \<in> dom st" "q \<in> dom st"
    using ring_nodes [OF assms] p q by auto
  obtain n where n: "st a = Some n" "hn_next n = q" "hn_prev n = p"
    using links(2,3) by (auto simp: nx_def pv_def)
  obtain st1 where st1: "set_prev q p st = Some st1" "nx st1 = nx st" "pv st1 = (pv st)(q \<mapsto> p)" "held st1 = held st" "dom st1 = dom st"
    using store_views(2) [OF in_dom(3), of p] by blast
  have "nx st1 a = Some q" "pv st1 a = Some p" using links(2,3) st1 ne by simp_all
  then obtain n1 where n1: "st1 a = Some n1" "hn_next n1 = q" "hn_prev n1 = p" by (auto simp: nx_def pv_def)
  obtain st2 where st2: "set_next p q st1 = Some st2" "nx st2 = (nx st)(p \<mapsto> q)" "pv st2 = (pv st)(q \<mapsto> p)" "held st2 = held st"
    "dom st2 = dom st" using store_views(1) [of p st1 q] st1 in_dom by auto
  obtain n2 where n2: "st2 a = Some n2" using st2(5) in_dom(1) by (metis domD)
  let ?st3 = "st2(a := None)"
  have st3: "nx ?st3 = ((nx st)(p \<mapsto> q))(a := None)" "pv ?st3 = ((pv st)(q \<mapsto> p))(a := None)" "held ?st3 = (held st)(a := None)"
    using st2 by (auto simp: nx_def pv_def held_def fun_eq_iff)
  have "handleSetRemove (Some a) st = Some ?st3"
    using n st1(1) n1 st2(1) n2 by (simp add: handleSetRemove_def freeHandle_def)
  moreover have "linked (nx ?st3) (pv ?st3) (us @ p # q # vs)"
  proof -
    have "linked (nx ?st3) (pv ?st3) (us @ [p])"
      using l(1) us away sets(4) unfolding st3 by (simp add: linked_next linked_prev butlast_append)
    moreover have "linked (nx ?st3) (pv ?st3) (q # vs)"
      using links(5) vs away sets(2) unfolding st3 by (simp only: linked_next linked_prev list.sel not_False_eq_True)
    moreover from this have "linked (nx ?st3) (pv ?st3) (p # q # vs)"
      using ne unfolding st3 by simp
    ultimately show ?thesis using linked_append by blast
  qed
  moreover have "us @ p # q # vs = head # (xs @ ys) @ [head]" using front rear by simp
  moreover have "distinct (head # xs @ ys)" using d by auto
  moreover have "dom ?st3 = dom st - {a}" using st2(5) by auto
  ultimately show ?thesis using st3(3) by (auto simp: ring_def)
qed

text \<open>The walks around a ring.\<close>

lemma mark_handles_ring:
  assumes "linked (nx st) (pv st) (hs @ [head])" and "head \<notin> set hs" and "\<forall>a\<in>set hs. held st a \<noteq> None"
  shows "mark_handles head (hd (hs @ [head])) st = Some (map (\<lambda>a. the (held st a)) hs)"
  using assms
proof (induction hs)
  case Nil
  then show ?case by (subst mark_handles.simps) simp
next
  case (Cons a hs)
  obtain n v where n: "st a = Some n" "hn_handle n = Some v" using Cons.prems(3) by (auto simp: held_def split: bind_splits)
  have "nx st a = Some (hd (hs @ [head]))" and l: "linked (nx st) (pv st) (hs @ [head])"
    using Cons.prems(1) by (cases hs; simp)+
  then have "hn_next n = hd (hs @ [head])" using n(1) by (simp add: nx_def)
  then show ?case
    using Cons.IH [OF l] Cons.prems(2,3) n by (subst mark_handles.simps) (simp add: held_def)
qed

lemma ring_mark:
  assumes "ring st head hs" and "\<forall>a\<in>set hs. held st a \<noteq> None"
  shows "markHandleSet (Some head) st = Some (map (\<lambda>a. the (held st a)) hs)"
proof -
  have "nx st head = Some (hd (hs @ [head]))" and l: "linked (nx st) (pv st) (hs @ [head])" and "head \<notin> set hs"
    using assms(1) by (cases hs; simp add: ring_def)+
  then show ?thesis
    using mark_handles_ring [OF l _ assms(2)] by (auto simp: markHandleSet_def nx_def)
qed

section \<open>The interface\<close>

text \<open>
  A host adds and releases handles in any order: what this does to a store with given operations, to
  the list of the handles, and which sequences are allowed, where \<open>free\<close> holds of the blocks that
  the allocator can provide.
\<close>

datatype ('k, 'v) host_op = AddHandle 'k 'v | ReleaseHandle 'k

fun host_run :: "('k \<Rightarrow> 'v \<Rightarrow> 's \<Rightarrow> 's option) \<Rightarrow> ('k \<Rightarrow> 's \<Rightarrow> 's option) \<Rightarrow> ('k, 'v) host_op list \<Rightarrow> 's \<Rightarrow> 's option" where
  "host_run add remove [] s = Some s"
| "host_run add remove (AddHandle k v # ops) s = do { s \<leftarrow> add k v s; host_run add remove ops s }"
| "host_run add remove (ReleaseHandle k # ops) s = do { s \<leftarrow> remove k s; host_run add remove ops s }"

fun host_list :: "('k, 'v) host_op list \<Rightarrow> ('k \<times> 'v) list \<Rightarrow> ('k \<times> 'v) list" where
  "host_list [] kvs = kvs"
| "host_list (AddHandle k v # ops) kvs = host_list ops ((k, v) # kvs)"
| "host_list (ReleaseHandle k # ops) kvs = host_list ops (filter (\<lambda>kv. fst kv \<noteq> k) kvs)"

fun host_legal :: "('k, 'v) host_op list \<Rightarrow> ('k \<Rightarrow> bool) \<Rightarrow> ('k \<times> 'v) list \<Rightarrow> bool" where
  "host_legal [] free kvs \<longleftrightarrow> True"
| "host_legal (AddHandle k v # ops) free kvs \<longleftrightarrow> free k \<and> host_legal ops (free(k := False)) ((k, v) # kvs)"
| "host_legal (ReleaseHandle k # ops) free kvs \<longleftrightarrow>
     k \<in> fst ` set kvs \<and> host_legal ops (free(k := True)) (filter (\<lambda>kv. fst kv \<noteq> k) kvs)"

locale handle_list =
  fixes rep :: "'s \<Rightarrow> ('k \<times> 'v) list \<Rightarrow> bool"
    and free :: "'s \<Rightarrow> 'k \<Rightarrow> bool"
    and add :: "'k \<Rightarrow> 'v \<Rightarrow> 's \<Rightarrow> 's option"
    and remove :: "'k \<Rightarrow> 's \<Rightarrow> 's option"
  assumes add_law: "rep s kvs \<Longrightarrow> free s k \<Longrightarrow>
      \<exists>s'. add k v s = Some s' \<and> rep s' ((k, v) # kvs) \<and> free s' = (free s)(k := False)"
    and remove_law: "rep s kvs \<Longrightarrow> k \<in> fst ` set kvs \<Longrightarrow>
      \<exists>s'. remove k s = Some s' \<and> rep s' (filter (\<lambda>kv. fst kv \<noteq> k) kvs) \<and> free s' = (free s)(k := True)"
begin

lemma host_runs:
  "rep s kvs \<Longrightarrow> host_legal ops (free s) kvs \<Longrightarrow> \<exists>s'. host_run add remove ops s = Some s' \<and> rep s' (host_list ops kvs)"
proof (induction ops "free s" kvs arbitrary: s rule: host_legal.induct)
  case (2 k v ops kvs)
  obtain s' where s': "add k v s = Some s'" "rep s' ((k, v) # kvs)" "free s' = (free s)(k := False)"
    using add_law [OF "2.prems"(1), of k v] "2.prems"(2) by auto
  then show ?case using "2.hyps" [of s'] "2.prems"(2) by simp
next
  case (3 k ops kvs)
  obtain s' where s': "remove k s = Some s'" "rep s' (filter (\<lambda>kv. fst kv \<noteq> k) kvs)" "free s' = (free s)(k := True)"
    using remove_law [OF "3.prems"(1), of k] "3.prems"(2) by auto
  then show ?case using "3.hyps" [of s'] "3.prems"(2) by simp
qed simp

end

text \<open>The ring with the contents of its nodes; the released block can be provided again.\<close>

definition handles_rep :: "addr \<Rightarrow> handle_store \<Rightarrow> (addr \<times> handle) list \<Rightarrow> bool" where
  "handles_rep head st kvs \<longleftrightarrow> ring st head (map fst kvs) \<and> (\<forall>kv\<in>set kvs. held st (fst kv) = Some (snd kv))"

definition unused :: "handle_store \<Rightarrow> addr \<Rightarrow> bool" where
  "unused st a \<longleftrightarrow> a \<notin> dom st"

interpretation handles: handle_list "handles_rep head" unused "\<lambda>a v. add_handle head v a" "\<lambda>a. handleSetRemove (Some a)"
proof
  fix st kvs a and v :: handle
  assume rep: "handles_rep head st kvs" and "unused st a"
  then obtain st' where "add_handle head v a st = Some st'" "ring st' head (a # map fst kvs)"
    "held st' = (held st)(a \<mapsto> v)" "dom st' = insert a (dom st)"
    using ring_add [of st head "map fst kvs" a v] by (auto simp: handles_rep_def unused_def)
  moreover from this(2) have "fst kv \<noteq> a" if "kv \<in> set kvs" for kv using that by (auto simp: ring_def)
  ultimately have "handles_rep head st' ((a, v) # kvs)" "unused st' = (unused st)(a := False)"
    using rep by (simp_all add: handles_rep_def unused_def fun_eq_iff)
  then show "\<exists>st'. add_handle head v a st = Some st' \<and> handles_rep head st' ((a, v) # kvs) \<and>
      unused st' = (unused st)(a := False)"
    using \<open>add_handle head v a st = Some st'\<close> by blast
next
  fix st kvs a
  assume rep: "handles_rep head st kvs" and "a \<in> fst ` set kvs"
  then obtain v where "(a, v) \<in> set kvs" by auto
  then obtain xs ys where kvs: "kvs = xs @ (a, v) # ys" by (meson split_list)
  have ring: "ring st head (map fst xs @ a # map fst ys)" using rep kvs by (simp add: handles_rep_def)
  obtain st' where st': "handleSetRemove (Some a) st = Some st'" "ring st' head (map fst xs @ map fst ys)"
    "held st' = (held st)(a := None)" "dom st' = dom st - {a}"
    using ring_remove [OF ring] by blast
  have out: "a \<notin> fst ` set xs" "a \<notin> fst ` set ys" using ring by (auto simp: ring_def)
  then have "filter (\<lambda>kv. fst kv \<noteq> a) xs = xs" "filter (\<lambda>kv. fst kv \<noteq> a) ys = ys"
    by (auto simp: filter_id_conv)
  then have "filter (\<lambda>kv. fst kv \<noteq> a) kvs = xs @ ys" using kvs by simp
  moreover have "handles_rep head st' (xs @ ys)"
  proof -
    have "fst kv \<noteq> a" if "kv \<in> set (xs @ ys)" for kv using that out by auto
    then show ?thesis using st'(2,3) rep kvs by (auto simp: handles_rep_def)
  qed
  moreover have "unused st' = (unused st)(a := True)" using st'(4) by (auto simp: unused_def fun_eq_iff)
  ultimately show "\<exists>st'. handleSetRemove (Some a) st = Some st' \<and>
      handles_rep head st' (filter (\<lambda>kv. fst kv \<noteq> a) kvs) \<and> unused st' = (unused st)(a := True)"
    using st'(1) by auto
qed

section \<open>Properties\<close>

text \<open>
  C27: The set of handles is a list: whatever handles a host adds and releases, starting with any set, the
  pointer operations never leave the nodes and the marking walk finds exactly the handles that the host
  holds, each once, the latest first.
\<close>

theorem handle_set_refines:
  assumes "handles_rep head st kvs" and "host_legal ops (unused st) kvs"
  shows "\<exists>st'. host_run (\<lambda>a v. add_handle head v a) (\<lambda>a. handleSetRemove (Some a)) ops st = Some st' \<and>
    handles_rep head st' (host_list ops kvs) \<and> markHandleSet (Some head) st' = Some (map snd (host_list ops kvs))"
proof -
  obtain st' where st': "host_run (\<lambda>a v. add_handle head v a) (\<lambda>a. handleSetRemove (Some a)) ops st = Some st'"
    "handles_rep head st' (host_list ops kvs)"
    using handles.host_runs [OF assms] by blast
  let ?kvs = "host_list ops kvs"
  have held: "held st' (fst kv) = Some (snd kv)" if "kv \<in> set ?kvs" for kv
    using st'(2) that by (auto simp: handles_rep_def)
  then have "markHandleSet (Some head) st' = Some (map (\<lambda>a. the (held st' a)) (map fst ?kvs))"
    using st'(2) by (intro ring_mark) (auto simp: handles_rep_def)
  moreover have "map (\<lambda>a. the (held st' a)) (map fst ?kvs) = map snd ?kvs" using held by simp
  ultimately show ?thesis using st' by auto
qed

lemma init_rep:
  "initHandleSet (Some a) st = (Some a, st(a \<mapsto> \<lparr>hn_next = a, hn_prev = a, hn_handle = None\<rparr>))"
  "handles_rep a (st(a \<mapsto> \<lparr>hn_next = a, hn_prev = a, hn_handle = None\<rparr>)) []"
  by (simp_all add: initHandleSet_def handles_rep_def ring_def nx_def pv_def)

lemma handle_set_refines_witness:
  "\<exists>st. host_run (\<lambda>a v. add_handle 1 v a) (\<lambda>a. handleSetRemove (Some a))
      [AddHandle 2 (CallableHandle VNil), AddHandle 3 (RunCtxHandle None), AddHandle 4 (CallableHandle (VBool True)),
       ReleaseHandle 3] (snd (initHandleSet (Some 1) Map.empty)) = Some st \<and>
    markHandleSet (Some 1) st = Some [CallableHandle (VBool True), CallableHandle VNil]"
proof -
  have "host_legal [AddHandle 2 (CallableHandle VNil), AddHandle 3 (RunCtxHandle None), AddHandle 4 (CallableHandle (VBool True)),
       ReleaseHandle 3] (unused (Map.empty(1 \<mapsto> \<lparr>hn_next = 1, hn_prev = 1, hn_handle = None\<rparr>))) []"
    by (simp add: unused_def)
  from handle_set_refines [OF init_rep(2) this] show ?thesis by (auto simp: init_rep(1))
qed

end
