(* ===== verification/ExceptionProps.thy ===== *)
theory ExceptionProps
  imports Interpreter SampleMachine
begin

text \<open>
  Where an exception goes.  The propagation of \<open>vm.c\<close> walks the frames and their handler tables
  while it tests classes, which fills the caches of classes, and releases frames on its way.  The
  reference is a search in the list of all catch clauses that the exception can reach.
\<close>

section \<open>The clauses an exception can reach\<close>

text \<open>The clauses of a handler table: class and address of the handler.\<close>

fun clause_list :: "machine_env \<Rightarrow> vm \<Rightarrow> byte list \<Rightarrow> nat \<Rightarrow> nat \<Rightarrow> (addr \<times> nat) list option" where
  "clause_list m vm code r0 0 = Some []"
| "clause_list m vm code r0 (Suc n) =
     do { typeVarType \<leftarrow> code_byte code r0;
          postArgs \<leftarrow> code_byte code (r0 + 1);
          typeHandle \<leftarrow> code_u16 code (r0 + 2);
          T \<leftarrow> catch_type m typeVarType (postArgs \<noteq> 0) typeHandle vm;
          a \<leftarrow> code_u16 code (r0 + 4);
          cs \<leftarrow> clause_list m vm code (r0 + 6) n;
          Some ((T, a) # cs) }"

text \<open>
  Those of the try blocks below \<open>n\<close> of the active frame, the innermost first: a block that has
  caught an exception already has none, and none may have a \<open>finally\<close> block, whose code
  could do anything.
\<close>

fun frame_clauses :: "machine_env \<Rightarrow> vm \<Rightarrow> nat \<Rightarrow> (nat \<times> addr \<times> nat) list option" where
  "frame_clauses m vm 0 = Some []"
| "frame_clauses m vm (Suc n) =
     do { fr \<leftarrow> active_frame (mx_fiber m) vm;
          code \<leftarrow> frame_code vm fr;
          tb \<leftarrow> nth_opt (cf_handlers fr) n;
          size \<leftarrow> code_byte code (tb_handlerDataOffset tb);
          finallyAddress \<leftarrow> code_u16 code (tb_handlerDataOffset tb + 1);
          cs \<leftarrow> (if tb_caught tb then Some [] else clause_list m vm code (tb_handlerDataOffset tb + 3) (size div 6));
          outer \<leftarrow> frame_clauses m vm n;
          if finallyAddress > 0 then None else Some (map (Pair n) cs @ outer) }"

text \<open>Those of the frames up to the one that a call from C code has started, the active frame first.\<close>

fun throw_clauses :: "machine_env \<Rightarrow> nat \<Rightarrow> vm \<Rightarrow> (nat \<times> nat \<times> addr \<times> nat) list option" where
  "throw_clauses m 0 vm = None"
| "throw_clauses m (Suc k) vm =
     do { fr \<leftarrow> active_frame (mx_fiber m) vm;
          cs \<leftarrow> frame_clauses m vm (length (cf_handlers fr));
          outer \<leftarrow> (if cf_callStart fr then Some []
                    else map_option (map (\<lambda>(j, c). (Suc j, c))) (throw_clauses m k (releaseCallFrame (mx_fiber m) vm)));
          Some (map (Pair 0) cs @ outer) }"

section \<open>Caches\<close>

text \<open>The machine with other type information in the class \<open>S\<close>.\<close>

definition with_cache :: "addr \<Rightarrow> type_info \<Rightarrow> vm \<Rightarrow> vm" where
  "with_cache S ti vm = vm\<lparr>vm_heap := set_type_info S ti (vm_heap vm)\<rparr>"

text \<open>
  The classes of the machine are consistent with the supertypes \<open>up\<close>, and \<open>e\<close> is an instance of \<open>S\<close>.
\<close>

definition throwable :: "(addr \<Rightarrow> addr set) \<Rightarrow> addr \<Rightarrow> addr \<Rightarrow> vm \<Rightarrow> bool" where
  "throwable up S e vm \<longleftrightarrow> types_ok up (vm_heap vm) \<and> (\<forall>T k. klass_offset (vm_heap vm) T = Some k \<longrightarrow> k \<le> 8) \<and>
     class_at (vm_heap vm) S \<noteq> None \<and> (\<exists>i. get_obj vm e = Some (OInstance i) \<and> in_clazz i = S)"

lemma with_cache_fields [simp]:
  "active_fiber rc (with_cache S ti vm) = active_fiber rc vm" "active_frame rc (with_cache S ti vm) = active_frame rc vm"
  "vm_globalValues (with_cache S ti vm) = vm_globalValues vm" "vm_builtinValues (with_cache S ti vm) = vm_builtinValues vm"
  "vm_heap (with_cache S ti vm) = set_type_info S ti (vm_heap vm)"
  by (simp_all add: with_cache_def active_fiber_def active_frame_def split: option.split)

lemma with_cache_object:
  assumes "class_at (vm_heap vm) S = Some s"
  shows "get_obj (with_cache S ti vm) a = (if a = S then Some (OClass (s\<lparr>cs_typeInfo := ti\<rparr>)) else get_obj vm a)"
    and "get_obj vm S = Some (OClass s)"
proof -
  obtain c where "vm_heap vm S = Some c" "c_obj c = OClass s" using assms by (rule class_atE)
  then show "get_obj (with_cache S ti vm) a = (if a = S then Some (OClass (s\<lparr>cs_typeInfo := ti\<rparr>)) else get_obj vm a)"
    and "get_obj vm S = Some (OClass s)"
    by (simp_all add: get_obj_def set_type_info_def)
qed

lemma with_cache_reads:
  assumes "class_at (vm_heap vm) S = Some s"
  shows "frame_code (with_cache S ti vm) fr = frame_code vm fr"
    and "is_klass (with_cache S ti vm) v = is_klass vm v"
    and "as_instance (get_obj (with_cache S ti vm) a) = as_instance (get_obj vm a)"
    and "get_upvalue st a (vm_heap (with_cache S ti vm)) = get_upvalue st a (vm_heap vm)"
    and "frame_upvalue m i (with_cache S ti vm) = frame_upvalue m i vm"
    and "frame_slot m i (with_cache S ti vm) = frame_slot m i vm"
    and "global_at i (with_cache S ti vm) = global_at i vm"
proof -
  note ob = with_cache_object [OF assms]
  have up: "as_upvalue (map_option c_obj (set_type_info S ti (vm_heap vm) a)) = as_upvalue (map_option c_obj (vm_heap vm a))" for a
  proof (cases "a = S")
    case True
    then show ?thesis using ob(1) [of ti S] ob(2) unfolding get_obj_def by (simp only: with_cache_fields as_upvalue_def) simp
  next
    case False
    then show ?thesis using ob(1) [of ti a] by (simp add: get_obj_def)
  qed
  show "frame_code (with_cache S ti vm) fr = frame_code vm fr"
    using ob(2) by (cases "cf_function fr") (simp_all add: frame_code_def ob(1) as_function_def)
  show "is_klass (with_cache S ti vm) v = is_klass vm v"
    using ob(2) by (cases v) (simp_all add: is_klass_def ob(1))
  show "as_instance (get_obj (with_cache S ti vm) a) = as_instance (get_obj vm a)"
    using ob(2) by (simp add: ob(1) as_instance_def)
  show "get_upvalue st a (vm_heap (with_cache S ti vm)) = get_upvalue st a (vm_heap vm)"
    by (simp add: get_upvalue_def up)
  show "frame_upvalue m i (with_cache S ti vm) = frame_upvalue m i vm"
  proof -
    have "as_closure (get_obj (with_cache S ti vm) ca) = as_closure (get_obj vm ca)" for ca
      using ob(2) by (simp add: ob(1) as_closure_def)
    then show ?thesis by (simp add: frame_upvalue_def)
  qed
  show "frame_slot m i (with_cache S ti vm) = frame_slot m i vm"
    by (simp add: frame_slot_def)
  show "global_at i (with_cache S ti vm) = global_at i vm"
    by (simp add: global_at_def)
qed

lemma with_cache_again: "class_at (vm_heap vm) S \<noteq> None \<Longrightarrow> with_cache S t2 (with_cache S t1 vm) = with_cache S t2 vm"
  by (auto simp: with_cache_def set_type_info_def class_at_def as_class_def fun_eq_iff split: option.splits obj.splits)

lemma with_cache_same: "class_at (vm_heap vm) S = Some s \<Longrightarrow> with_cache S (cs_typeInfo s) vm = vm"
  by (simp add: with_cache_def set_type_info_same)

lemma releaseCallFrame_cache: "releaseCallFrame rc (with_cache S ti vm) = with_cache S ti (releaseCallFrame rc vm)"
  by (simp add: releaseCallFrame_def with_cache_def upd_fiber_def split: option.split)

lemma releaseCallFrame_heap [simp]: "vm_heap (releaseCallFrame rc vm) = vm_heap vm"
  by (simp add: releaseCallFrame_def)

lemma throwable_cache:
  assumes "throwable up S e vm" and "types_ok up (set_type_info S ti (vm_heap vm))"
  shows "throwable up S e (with_cache S ti vm)"
proof -
  obtain s where s: "class_at (vm_heap vm) S = Some s" using assms(1) by (auto simp: throwable_def)
  obtain i where i: "get_obj vm e = Some (OInstance i)" "in_clazz i = S" using assms(1) by (auto simp: throwable_def)
  have "e \<noteq> S" using i(1) with_cache_object(2) [OF s] by auto
  then have "get_obj (with_cache S ti vm) e = Some (OInstance i)" using i(1) with_cache_object(1) [OF s] by simp
  then show ?thesis
    using assms i(2) set_type_info_facts [OF s] by (auto simp: throwable_def)
qed

lemma throwable_release: "throwable up S e (releaseCallFrame rc vm) = throwable up S e vm"
  by (simp add: throwable_def get_obj_def)

lemma catch_type_cache:
  assumes "class_at (vm_heap vm) S = Some s"
  shows "catch_type m t b i (with_cache S ti vm) = catch_type m t b i vm"
proof -
  note reads = with_cache_reads [OF assms]
  have "get_upvalue st a (set_type_info S ti (vm_heap vm)) = get_upvalue st a (vm_heap vm)" for st a
    using reads(4) by simp
  then show ?thesis by (simp add: catch_type_def reads cong: if_cong)
qed

lemma clauses_cache:
  assumes "class_at (vm_heap vm) S = Some s"
  shows "clause_list m (with_cache S ti vm) code r0 n = clause_list m vm code r0 n"
    and "frame_clauses m (with_cache S ti vm) k = frame_clauses m vm k"
proof -
  show cl: "clause_list m (with_cache S ti vm) code r0 n = clause_list m vm code r0 n" for code r0 n
    by (induction n arbitrary: r0) (simp_all add: catch_type_cache [OF assms])
  show "frame_clauses m (with_cache S ti vm) k = frame_clauses m vm k"
    by (induction k) (simp_all add: cl with_cache_reads(1) [OF assms] cong: if_cong)
qed

lemma throw_clauses_cache:
  assumes "class_at (vm_heap vm) S = Some s"
  shows "throw_clauses m k (with_cache S ti vm) = throw_clauses m k vm"
  using assms
proof (induction k arbitrary: vm)
  case (Suc k)
  have "class_at (vm_heap (releaseCallFrame (mx_fiber m) vm)) S = Some s" using Suc.prems by simp
  then show ?case
    using Suc.IH by (simp add: clauses_cache(2) [OF Suc.prems] releaseCallFrame_cache cong: if_cong)
qed simp

section \<open>The search\<close>

lemma is_klass_offset: "is_klass vm v = Some (Some T) \<Longrightarrow> \<exists>k. klass_offset (vm_heap vm) T = Some k"
  by (auto simp: is_klass_def klass_offset_def get_obj_def split: val.splits option.splits obj.splits)

lemma catch_type_klass: "catch_type m t b i vm = Some T \<Longrightarrow> \<exists>k. klass_offset (vm_heap vm) T = Some k"
  unfolding catch_type_def bind_eq_Some_conv by (elim exE conjE) (simp add: is_klass_offset)

lemma instance_of_throwable:
  assumes "throwable up S e vm" and "klass_offset (vm_heap vm) T = Some k"
  shows "\<exists>ti. instance_of T S vm = Some (T \<in> up S, with_cache S ti vm) \<and> throwable up S e (with_cache S ti vm)"
proof -
  obtain s where s: "class_at (vm_heap vm) S = Some s" using assms(1) by (auto simp: throwable_def)
  have "types_ok up (vm_heap vm)" "k \<le> 8" using assms by (auto simp: throwable_def)
  from instanceOf_spec [OF this(1) s assms(2) this(2)] obtain ti where
    "instanceOf T S (vm_heap vm) = Some (T \<in> up S, set_type_info S ti (vm_heap vm))" "types_ok up (set_type_info S ti (vm_heap vm))"
    by blast
  then show ?thesis using throwable_cache [OF assms(1)] by (auto simp: instance_of_def with_cache_def)
qed

lemma find_clause_spec:
  assumes "throwable up S e vm" and "clause_list m vm code r0 n = Some cs"
  shows "\<exists>ti. find_clause m e code r0 n vm =
      Some (map_option snd (find (\<lambda>(T, a). T \<in> up S) cs), with_cache S ti vm) \<and> throwable up S e (with_cache S ti vm)"
  using assms
proof (induction n arbitrary: r0 vm cs)
  case 0
  obtain s where s: "class_at (vm_heap vm) S = Some s" using 0 by (auto simp: throwable_def)
  show ?case using 0 by (intro exI [of _ "cs_typeInfo s"]) (simp add: with_cache_same [OF s])
next
  case (Suc n)
  obtain s where s: "class_at (vm_heap vm) S = Some s" using Suc.prems by (auto simp: throwable_def)
  obtain i where i: "as_instance (get_obj vm e) = Some i" "in_clazz i = S"
    using Suc.prems(1) by (auto simp: throwable_def as_instance_def)
  obtain t b h T a rest where c: "code_byte code r0 = Some t" "code_byte code (r0 + 1) = Some b"
    "code_u16 code (r0 + 2) = Some h" "catch_type m t (b \<noteq> 0) h vm = Some T" "code_u16 code (r0 + 4) = Some a"
    "clause_list m vm code (r0 + 6) n = Some rest" and cs: "cs = (T, a) # rest"
    using Suc.prems(2) by (auto simp: bind_eq_Some_conv)
  obtain ti where ti: "instance_of T S vm = Some (T \<in> up S, with_cache S ti vm)" "throwable up S e (with_cache S ti vm)"
    using instance_of_throwable [OF Suc.prems(1)] catch_type_klass [OF c(4)] by blast
  show ?case
  proof (cases "T \<in> up S")
    case True
    then show ?thesis using c i ti cs by (intro exI [of _ ti]) simp
  next
    case False
    have "clause_list m (with_cache S ti vm) code (r0 + 6) n = Some rest" using c(6) clauses_cache(1) [OF s] by simp
    from Suc.IH [OF ti(2) this] obtain t2 where
      "find_clause m e code (r0 + 6) n (with_cache S ti vm) =
         Some (map_option snd (find (\<lambda>(T, a). T \<in> up S) rest), with_cache S t2 (with_cache S ti vm))"
      "throwable up S e (with_cache S t2 (with_cache S ti vm))" by blast
    then show ?thesis using c i ti(1) cs False s by (intro exI [of _ t2]) (simp add: with_cache_again)
  qed
qed

text \<open>The handlers of a frame.\<close>

lemma find_Pair: "find (\<lambda>(j, c). P c) (map (Pair n) cs) = map_option (Pair n) (find P cs)"
  by (induction cs) auto

lemma find_Suc: "find (\<lambda>(d, c). P c) (map (\<lambda>(d, c). (Suc d, c)) cs) = map_option (\<lambda>(d, c). (Suc d, c)) (find (\<lambda>(d, c). P c) cs)"
  by (induction cs) auto

lemma bind_Some_map: "x \<bind> (\<lambda>y. Some (f y)) = map_option f x"
  by (cases x) simp_all

lemma bind_map_Pair: "map_option (Pair b) x \<bind> f = x \<bind> (\<lambda>y. f (b, y))"
  by (cases x) simp_all

abbreviation (input) catches :: "addr set \<Rightarrow> addr \<times> nat \<Rightarrow> bool" where
  "catches U \<equiv> \<lambda>(T, a). T \<in> U"

lemma search_handlers_spec:
  assumes "throwable up S e vm" and "frame_clauses m vm n = Some cs"
  shows "\<exists>ti. throwable up S e (with_cache S ti vm) \<and> search_handlers m runs e n vm =
      (case find (\<lambda>(j, c). catches (up S) c) cs of
         Some (j, T, a) \<Rightarrow> map_option (Pair True) (enter_handler m j a (with_cache S ti vm))
       | None \<Rightarrow> Some (False, with_cache S ti vm))"
  using assms
proof (induction n arbitrary: vm cs)
  case 0
  obtain s where s: "class_at (vm_heap vm) S = Some s" using 0 by (auto simp: throwable_def)
  show ?case using 0 by (intro exI [of _ "cs_typeInfo s"]) (simp add: with_cache_same [OF s])
next
  case (Suc n)
  obtain s where s: "class_at (vm_heap vm) S = Some s" using Suc.prems by (auto simp: throwable_def)
  obtain fr code tb sz inner outer where c: "active_frame (mx_fiber m) vm = Some fr" "frame_code vm fr = Some code"
    "nth_opt (cf_handlers fr) n = Some tb" "code_byte code (tb_handlerDataOffset tb) = Some sz"
    "code_u16 code (Suc (tb_handlerDataOffset tb)) = Some 0" "frame_clauses m vm n = Some outer"
    and inner: "(if tb_caught tb then Some [] else clause_list m vm code (tb_handlerDataOffset tb + 3) (sz div 6)) = Some inner"
    and cs: "cs = map (Pair n) inner @ outer"
    using Suc.prems(2) by (auto simp: bind_eq_Some_conv split: if_splits)
  have "\<exists>ti. (if tb_caught tb then Some (None, vm)
      else find_clause m e code (tb_handlerDataOffset tb + 3) (sz div 6) vm) =
      Some (map_option snd (find (catches (up S)) inner), with_cache S ti vm) \<and> throwable up S e (with_cache S ti vm)"
  proof (cases "tb_caught tb")
    case True
    then show ?thesis using inner Suc.prems(1) by (intro exI [of _ "cs_typeInfo s"]) (simp add: with_cache_same [OF s])
  next
    case False
    then show ?thesis using find_clause_spec [OF Suc.prems(1)] inner by simp
  qed
  then obtain ti where ti: "(if tb_caught tb then Some (None, vm)
      else find_clause m e code (tb_handlerDataOffset tb + 3) (sz div 6) vm) =
      Some (map_option snd (find (catches (up S)) inner), with_cache S ti vm)" "throwable up S e (with_cache S ti vm)"
    by blast
  show ?case
  proof (cases "find (catches (up S)) inner")
    case None
    have "frame_clauses m (with_cache S ti vm) n = Some outer" using c(6) clauses_cache(2) [OF s] by simp
    from Suc.IH [OF ti(2) this] obtain t2 where t2: "throwable up S e (with_cache S t2 (with_cache S ti vm))"
      "search_handlers m runs e n (with_cache S ti vm) = (case find (\<lambda>(j, c). catches (up S) c) outer of
         Some (j, T, a) \<Rightarrow> map_option (Pair True) (enter_handler m j a (with_cache S t2 (with_cache S ti vm)))
       | None \<Rightarrow> Some (False, with_cache S t2 (with_cache S ti vm)))" by blast
    have "with_cache S t2 (with_cache S ti vm) = with_cache S t2 vm" using s by (simp add: with_cache_again)
    note t2 = t2 [unfolded this]
    show ?thesis using c ti(1) None t2 by (intro exI [of _ t2]) (simp add: cs find_append find_Pair)
  next
    case (Some x)
    then show ?thesis using c ti by (intro exI [of _ ti]) (cases x, simp add: cs find_append find_Pair bind_Some_map)
  qed
qed

text \<open>The frames.\<close>

abbreviation (input) frames_off :: "machine_env \<Rightarrow> nat \<Rightarrow> vm \<Rightarrow> vm" where
  "frames_off m d \<equiv> (releaseCallFrame (mx_fiber m) ^^ d)"

lemma frames_off_cache: "frames_off m d (with_cache S ti vm) = with_cache S ti (frames_off m d vm)"
  by (induction d) (simp_all add: releaseCallFrame_cache)

lemma frames_off_class: "class_at (vm_heap (frames_off m d vm)) S = class_at (vm_heap vm) S"
  by (induction d) simp_all

definition call_starts :: "machine_env \<Rightarrow> nat \<Rightarrow> vm \<Rightarrow> bool" where
  "call_starts m d vm \<longleftrightarrow> map_option cf_callStart (active_frame (mx_fiber m) (frames_off m d vm)) = Some True"

lemma call_starts_cache: "call_starts m d (with_cache S ti vm) = call_starts m d vm"
  by (simp add: call_starts_def frames_off_cache)

lemma call_starts_Suc: "call_starts m (Suc d) vm = call_starts m d (releaseCallFrame (mx_fiber m) vm)"
  by (simp add: call_starts_def funpow_swap1)

lemma propagate_frames_spec:
  assumes "throwable up S e vm" and "throw_clauses m k vm = Some cs"
  shows "\<exists>ti. throwable up S e (with_cache S ti vm) \<and> (case find (\<lambda>(d, j, c). catches (up S) c) cs of
         Some (d, j, T, a) \<Rightarrow> propagate_frames m runs e k vm =
           map_option (Pair True) (enter_handler m j a (frames_off m d (with_cache S ti vm)))
       | None \<Rightarrow> \<exists>d. call_starts m d vm \<and> (\<forall>i<d. \<not> call_starts m i vm) \<and>
           propagate_frames m runs e k vm = Some (False, frames_off m d (with_cache S ti vm)))"
  using assms
proof (induction k arbitrary: vm cs)
  case (Suc k)
  obtain s where s: "class_at (vm_heap vm) S = Some s" using Suc.prems by (auto simp: throwable_def)
  obtain fr inner outer where c: "active_frame (mx_fiber m) vm = Some fr"
    "frame_clauses m vm (length (cf_handlers fr)) = Some inner"
    and outer: "(if cf_callStart fr then Some []
        else map_option (map (\<lambda>(j, c). (Suc j, c))) (throw_clauses m k (releaseCallFrame (mx_fiber m) vm))) = Some outer"
    and cs: "cs = map (Pair 0) inner @ outer"
    using Suc.prems(2) by (auto simp: bind_eq_Some_conv)
  obtain ti where ti: "throwable up S e (with_cache S ti vm)" and search: "search_handlers m runs e (length (cf_handlers fr)) vm =
      (case find (\<lambda>(j, c). catches (up S) c) inner of
         Some (j, T, a) \<Rightarrow> map_option (Pair True) (enter_handler m j a (with_cache S ti vm))
       | None \<Rightarrow> Some (False, with_cache S ti vm))"
    using search_handlers_spec [OF Suc.prems(1) c(2)] by blast
  have starts: "call_starts m 0 vm = cf_callStart fr" using c(1) by (simp add: call_starts_def)
  show ?case
  proof (cases "find (\<lambda>(j, c). catches (up S) c) inner")
    case (Some x)
    then show ?thesis
      using c(1) ti search by (intro exI [of _ ti]) (cases x, simp add: cs find_append find_Pair bind_Some_map bind_map_Pair)
  next
    case None
    show ?thesis
    proof (cases "cf_callStart fr")
      case True
      have "propagate_frames m runs e (Suc k) vm = Some (False, frames_off m 0 (with_cache S ti vm))"
        using None c(1) search True by simp
      then have "\<exists>d. call_starts m d vm \<and> (\<forall>i<d. \<not> call_starts m i vm) \<and>
          propagate_frames m runs e (Suc k) vm = Some (False, frames_off m d (with_cache S ti vm))"
        using starts True by (intro exI [of _ 0]) (simp del: propagate_frames.simps)
      then show ?thesis using None ti outer True
        by (intro exI [of _ ti]) (simp add: cs find_Pair del: propagate_frames.simps)
    next
      case False
      obtain rest where rest: "throw_clauses m k (releaseCallFrame (mx_fiber m) vm) = Some rest"
        "outer = map (\<lambda>(j, c). (Suc j, c)) rest"
        using outer False by auto
      let ?out = "releaseCallFrame (mx_fiber m) vm"
      have out: "releaseCallFrame (mx_fiber m) (with_cache S ti vm) = with_cache S ti ?out" by (rule releaseCallFrame_cache)
      have s': "class_at (vm_heap ?out) S = Some s" using s by simp
      have "throwable up S e (with_cache S ti ?out)" using ti by (simp add: throwable_release flip: out)
      moreover have "throw_clauses m k (with_cache S ti ?out) = Some rest" using rest(1) throw_clauses_cache [OF s'] by simp
      ultimately obtain t2 where t2: "throwable up S e (with_cache S t2 (with_cache S ti ?out))"
        and found: "case find (\<lambda>(d, j, c). catches (up S) c) rest of
           Some (d, j, T, a) \<Rightarrow> propagate_frames m runs e k (with_cache S ti ?out) =
             map_option (Pair True) (enter_handler m j a (frames_off m d (with_cache S t2 (with_cache S ti ?out))))
         | None \<Rightarrow> \<exists>d. call_starts m d (with_cache S ti ?out) \<and> (\<forall>i<d. \<not> call_starts m i (with_cache S ti ?out)) \<and>
             propagate_frames m runs e k (with_cache S ti ?out) = Some (False, frames_off m d (with_cache S t2 (with_cache S ti ?out)))"
        using Suc.IH by blast
      have again: "with_cache S t2 (with_cache S ti ?out) = releaseCallFrame (mx_fiber m) (with_cache S t2 vm)"
        using s' by (simp add: with_cache_again releaseCallFrame_cache)
      have turn: "propagate_frames m runs e (Suc k) vm = propagate_frames m runs e k (with_cache S ti ?out)"
        using c(1) search None False by (simp add: out)
      have "throwable up S e (with_cache S t2 vm)" using t2 unfolding again by (simp add: throwable_release)
      moreover have "case find (\<lambda>(d, j, c). catches (up S) c) cs of
           Some (d, j, T, a) \<Rightarrow> propagate_frames m runs e (Suc k) vm =
             map_option (Pair True) (enter_handler m j a (frames_off m d (with_cache S t2 vm)))
         | None \<Rightarrow> \<exists>d. call_starts m d vm \<and> (\<forall>i<d. \<not> call_starts m i vm) \<and>
             propagate_frames m runs e (Suc k) vm = Some (False, frames_off m d (with_cache S t2 vm))"
      proof (cases "find (\<lambda>(d, j, c). catches (up S) c) rest")
        case (Some x)
        then show ?thesis using found None unfolding turn again
          by (cases x) (simp add: cs rest(2) find_append find_Pair find_Suc funpow_swap1)
      next
        case none: None
        from found none obtain d where d: "call_starts m d ?out" "\<forall>i<d. \<not> call_starts m i ?out"
          "propagate_frames m runs e k (with_cache S ti ?out) = Some (False, frames_off m (Suc d) (with_cache S t2 vm))"
          unfolding again by (auto simp: call_starts_cache funpow_swap1)
        have "\<not> call_starts m i vm" if "i < Suc d" for i
          using that d(2) starts False by (cases i) (simp_all add: call_starts_Suc)
        then show ?thesis using d none None unfolding turn
          by (auto simp: cs rest(2) find_append find_Pair find_Suc call_starts_Suc simp del: funpow.simps intro!: exI [of _ "Suc d"])
      qed
      ultimately show ?thesis by blast
    qed
  qed
qed simp


section \<open>The fiber after the search\<close>

lemma frames_off_fiber:
  "active_fiber (mx_fiber m) (frames_off m d vm) = map_option (fb_frames_update (drop d)) (active_fiber (mx_fiber m) vm)"
proof (induction d)
  case (Suc d)
  have "drop (Suc d) xs = tl (drop d xs)" for xs :: "call_frame list" by (simp add: drop_Suc tl_drop)
  then show ?case using Suc by (cases "active_fiber (mx_fiber m) vm") (simp_all add: releaseCallFrame_def)
qed (simp add: option.map_ident_strong)

lemma call_starts_frame:
  assumes "active_fiber (mx_fiber m) vm = Some f"
  shows "call_starts m d vm \<longleftrightarrow> d < length (fb_frames f) \<and> cf_callStart (fb_frames f ! d)"
  using assms
  by (cases "d < length (fb_frames f)")
    (simp_all add: call_starts_def active_frame_def frames_off_fiber Cons_nth_drop_Suc [symmetric])

lemma enter_handler_fiber:
  assumes f: "active_fiber (mx_fiber m) vm = Some f" and st: "fb_stack f = st @ [v]"
    and frs: "fb_frames f = fr # frs" and tb: "nth_opt (cf_handlers fr) j = Some tb"
    and height: "cf_slots fr + tb_stackOffset tb \<le> length st"
  shows "\<exists>vm'. enter_handler m j a vm = Some vm' \<and> active_fiber (mx_fiber m) vm' =
      Some (f\<lparr>fb_frames := fr\<lparr>cf_handlers := (cf_handlers fr)[j := tb\<lparr>tb_caught := True\<rparr>], cf_ip := a\<rparr> # frs,
              fb_stack := take (cf_slots fr + tb_stackOffset tb) st @ [v]\<rparr>)"
  using assms
  by (simp add: enter_handler_def active_frame_def pop_value_def stack_at_def upd_frame_def cut_stack_def push_value_def
      push_def pop_def peek_def nth_opt_def)

lemma frame_clauses_block:
  "frame_clauses m vm n = Some cs \<Longrightarrow> active_frame (mx_fiber m) vm = Some fr \<Longrightarrow> (j, c) \<in> set cs \<Longrightarrow> j < length (cf_handlers fr)"
  by (induction n arbitrary: cs) (auto simp: bind_eq_Some_conv nth_opt_def split: if_splits)

lemma throw_clauses_block:
  assumes "throw_clauses m k vm = Some cs" and "active_fiber (mx_fiber m) vm = Some f" and "(d, j, c) \<in> set cs"
  shows "d < length (fb_frames f) \<and> j < length (cf_handlers (fb_frames f ! d))"
  using assms
proof (induction k arbitrary: vm f cs d)
  case (Suc k)
  obtain fr inner outer where c: "active_frame (mx_fiber m) vm = Some fr"
    "frame_clauses m vm (length (cf_handlers fr)) = Some inner"
    and outer: "(if cf_callStart fr then Some []
        else map_option (map (\<lambda>(j, c). (Suc j, c))) (throw_clauses m k (releaseCallFrame (mx_fiber m) vm))) = Some outer"
    and cs: "cs = map (Pair 0) inner @ outer"
    using Suc.prems(1) by (auto simp: bind_eq_Some_conv)
  obtain frs where frs: "fb_frames f = fr # frs"
    using c(1) Suc.prems(2) by (auto simp: active_frame_def split: list.splits)
  show ?case
  proof (cases d)
    case 0
    then show ?thesis using frame_clauses_block [OF c(2,1)] Suc.prems(3) outer frs
      by (auto simp: cs split: if_splits)
  next
    case d: (Suc d')
    then obtain rest where "throw_clauses m k (releaseCallFrame (mx_fiber m) vm) = Some rest" "(d', j, c) \<in> set rest"
      using Suc.prems(3) outer by (auto simp: cs split: if_splits)
    moreover have "active_fiber (mx_fiber m) (releaseCallFrame (mx_fiber m) vm) = Some (f\<lparr>fb_frames := frs\<rparr>)"
      using Suc.prems(2) frs by (simp add: releaseCallFrame_def)
    ultimately show ?thesis using Suc.IH d frs by fastforce
  qed
qed simp

text \<open>
  C5: An exception goes to the first catch clause, from the innermost try block of the active frame
  outwards and then frame by frame to the one a call from C code has started, whose class is a
  supertype of its class; a block that has caught an exception already is passed over.  The frame of the
  clause becomes the active one and continues at the clause's handler, with the stack as high
  as when the block was entered and the exception on top.  If no clause takes it, the frame that the
  call has started becomes the active one.  Here no block has a \<open>finally\<close> part.
\<close>

theorem propagateException_correct:
  assumes "throwable up S e vm" and "active_fiber (mx_fiber m) vm = Some f" and "fb_stack f = st @ [VObj e]"
    and "throw_clauses m (length (fb_frames f)) vm = Some cs"
  shows "case find (\<lambda>(d, j, T, a). T \<in> up S) cs of
      Some (d, j, T, a) \<Rightarrow>
        (let fr = fb_frames f ! d; tb = cf_handlers fr ! j; height = cf_slots fr + tb_stackOffset tb in
         if height \<le> length st
         then \<exists>vm'. propagateException m runs vm = Some (True, vm') \<and> active_fiber (mx_fiber m) vm' =
           Some (f\<lparr>fb_frames := fr\<lparr>cf_handlers := (cf_handlers fr)[j := tb\<lparr>tb_caught := True\<rparr>], cf_ip := a\<rparr>
                     # drop (Suc d) (fb_frames f),
                   fb_stack := take height st @ [VObj e]\<rparr>)
         else propagateException m runs vm = None)
    | None \<Rightarrow> (\<exists>d vm'. d < length (fb_frames f) \<and> cf_callStart (fb_frames f ! d) \<and>
        (\<forall>i<d. \<not> cf_callStart (fb_frames f ! i)) \<and>
        propagateException m runs vm = Some (False, vm') \<and>
        active_fiber (mx_fiber m) vm' = Some (f\<lparr>fb_frames := drop d (fb_frames f)\<rparr>))"
proof -
  let ?P = "\<lambda>(d, j, c). catches (up S) c"
  have go: "propagateException m runs vm = propagate_frames m runs e (length (fb_frames f)) vm"
    using assms(2,3) by (simp add: propagateException_def stack_at_def peek_def frame_depth_def)
  from propagate_frames_spec [OF assms(1,4)] obtain ti where found: "case find ?P cs of
         Some (d, j, T, a) \<Rightarrow> propagateException m runs vm =
           map_option (Pair True) (enter_handler m j a (frames_off m d (with_cache S ti vm)))
       | None \<Rightarrow> \<exists>d. call_starts m d vm \<and> (\<forall>i<d. \<not> call_starts m i vm) \<and>
           propagateException m runs vm = Some (False, frames_off m d (with_cache S ti vm))"
    unfolding go by blast
  have fiber: "active_fiber (mx_fiber m) (frames_off m d (with_cache S ti vm)) = Some (f\<lparr>fb_frames := drop d (fb_frames f)\<rparr>)" for d
    using assms(2) by (simp add: frames_off_fiber)
  show ?thesis
  proof (cases "find ?P cs")
    case None
    then show ?thesis using found fiber call_starts_frame [OF assms(2)] by fastforce
  next
    case (Some x)
    obtain d j T a where x: "x = (d, j, T, a)" by (cases x) auto
    have "x \<in> set cs" using Some by (metis find_Some_iff nth_mem)
    then have d: "d < length (fb_frames f)" and j: "j < length (cf_handlers (fb_frames f ! d))"
      using throw_clauses_block [OF assms(4,2)] x by blast+
    let ?fr = "fb_frames f ! d" and ?vm = "frames_off m d (with_cache S ti vm)"
    let ?tb = "cf_handlers ?fr ! j"
    have frs: "drop d (fb_frames f) = ?fr # drop (Suc d) (fb_frames f)" using d by (simp add: Cons_nth_drop_Suc)
    have tb: "nth_opt (cf_handlers ?fr) j = Some ?tb" using j by (simp add: nth_opt_def)
    show ?thesis
    proof (cases "cf_slots ?fr + tb_stackOffset ?tb \<le> length st")
      case True
      have "\<exists>vm'. enter_handler m j a ?vm = Some vm' \<and> active_fiber (mx_fiber m) vm' =
          Some (f\<lparr>fb_frames := ?fr\<lparr>cf_handlers := (cf_handlers ?fr)[j := ?tb\<lparr>tb_caught := True\<rparr>], cf_ip := a\<rparr>
                    # drop (Suc d) (fb_frames f),
                  fb_stack := take (cf_slots ?fr + tb_stackOffset ?tb) st @ [VObj e]\<rparr>)"
        using enter_handler_fiber [OF fiber [of d], of st "VObj e" ?fr _ j ?tb a] assms(3) frs tb True by simp
      then show ?thesis using found Some x True by (auto simp: Let_def)
    next
      case False
      have "enter_handler m j a ?vm = None"
        using False frs tb assms(3) fiber [of d]
        by (simp add: enter_handler_def active_frame_def pop_value_def stack_at_def upd_frame_def cut_stack_def pop_def peek_def)
      then show ?thesis using found Some x False by (auto simp: Let_def)
    qed
  qed
qed

text \<open>
  An instance of the class 1 is thrown in a function with a clause for the class 2, called from one with
  clauses for the classes 2 and 1.
\<close>

definition catching_function :: obj_function where
  "catching_function = \<lparr>fn_isMethod = False, fn_arity = 0, fn_maxArgs = 0, fn_upvalueCount = 0, fn_refOffset = 0,
     fn_chunk = (initChunk None)\<lparr>ch_code := [6, 0, 0, 1, 0, 1, 0, 40, 0, 12, 0, 0, 1, 0, 1, 0, 40, 0, 1, 0, 0, 0, 50, 0]\<rparr>,
     fn_name = None, fn_parentClass = None, fn_defaultArgs = None\<rparr>"

definition catching_frames :: "call_frame list" where
  "catching_frames =
     [unset_frame\<lparr>cf_function := Some 4, cf_slots := 2,
        cf_handlers := [\<lparr>tb_handlerDataOffset = 0, tb_stackOffset = 1, tb_caught = False\<rparr>]\<rparr>,
      unset_frame\<lparr>cf_function := Some 4, cf_callStart := True,
        cf_handlers := [\<lparr>tb_handlerDataOffset = 9, tb_stackOffset = 1, tb_caught = False\<rparr>]\<rparr>]"

definition catching_vm :: vm where
  "catching_vm = (blank_vm (two_classes
        (4 \<mapsto> \<lparr>c_markers = 0, c_obj = OFunction catching_function\<rparr>,
         5 \<mapsto> \<lparr>c_markers = 0, c_obj = OInstance \<lparr>in_clazz = 1, in_identityHash = 0, in_flags = 0, in_fields = initValueArray\<rparr>\<rparr>))
      [] [] blank_table)
    \<lparr>vm_globalValues := \<lparr>va_capacity = 2, va_slots = 2, va_values = [VObj 1, VObj 2]\<rparr>,
     vm_initFiber := Some \<lparr>fb_frames = catching_frames, fb_stack = [VNil, VBool True, VNil, VObj 5],
       fb_openUpvalues = [], fb_temps = []\<rparr>\<rparr>"

lemma propagateException_correct_witness:
  "\<exists>vm'. propagateException plain_machine (\<lambda>vm. None) catching_vm = Some (True, vm') \<and>
     map_option fb_stack (active_fiber None vm') = Some [VNil, VObj 5] \<and>
     map_option cf_ip (active_frame None vm') = Some 50"
proof -
  let ?up = "\<lambda>a. if a = 1 then {1} else {1, 2, 3 :: addr}"
  let ?f = "\<lparr>fb_frames = catching_frames, fb_stack = [VNil, VBool True, VNil] @ [VObj 5], fb_openUpvalues = [], fb_temps = []\<rparr>"
  have cl: "class_at (vm_heap catching_vm) a = class_at two_classes a" for a
    by (simp add: class_at_def catching_vm_def blank_vm_def as_class_def two_classes_def)
  have off: "klass_offset (vm_heap catching_vm) = klass_offset two_classes"
    by (simp add: fun_eq_iff klass_offset_def catching_vm_def blank_vm_def two_classes_def)
  have "types_ok ?up (vm_heap catching_vm)"
    using two_classes_ok unfolding types_ok_def cl off by simp
  moreover have "k \<le> 8" if "klass_offset two_classes T = Some k" for T k
    using that by (auto simp: klass_offset_def two_classes_def fresh_class_def split: if_splits)
  moreover have "class_at two_classes 1 \<noteq> None" by (simp add: class_at_def two_classes_def as_class_def)
  moreover have "\<exists>i. get_obj catching_vm 5 = Some (OInstance i) \<and> in_clazz i = 1"
    by (simp add: catching_vm_def blank_vm_def get_obj_def)
  ultimately have ok: "throwable ?up 1 5 catching_vm"
    unfolding throwable_def cl off by blast
  have f: "active_fiber (mx_fiber plain_machine) catching_vm = Some ?f" "fb_stack ?f = [VNil, VBool True, VNil] @ [VObj 5]"
    by (simp_all add: active_fiber_def plain_machine_def catching_vm_def)
  have cs: "throw_clauses plain_machine (length (fb_frames ?f)) catching_vm = Some [(0, 0, 2, 40), (1, 0, 2, 40), (1, 0, 1, 50)]"
    by code_simp
  show ?thesis
    using propagateException_correct [OF ok f cs, of "\<lambda>vm. None"]
    by (auto simp: catching_frames_def unset_frame_def plain_machine_def active_frame_def)
qed

end
