(* ===== verification/Fuel.thy ===== *)
theory Fuel
  imports Interpret SampleMachine
begin

text \<open>
  The bound on the turns of the interpreter loop is a device of the model.  Whatever the loop answers
  within a bound it answers within every greater one, and so does everything that calls it: each
  operation is monotone in the interpreter it is given, in the flat order in which \<open>None\<close> is below
  every answer.
\<close>

section \<open>The flat order\<close>

definition below :: "'a option \<Rightarrow> 'a option \<Rightarrow> bool" where
  "below x y \<longleftrightarrow> x = None \<or> x = y"

named_theorems monotone_rules

lemma below_refl [monotone_rules]: "below x x"
  by (simp add: below_def)

lemma below_None [monotone_rules]: "below None y"
  by (simp add: below_def)

lemma below_Some: "below (Some a) y \<longleftrightarrow> y = Some a"
  by (auto simp: below_def)

lemma belowD: "below x y \<Longrightarrow> x = Some a \<Longrightarrow> y = Some a"
  by (auto simp: below_def)

lemma belowI: "(\<And>a. x = Some a \<Longrightarrow> y = Some a) \<Longrightarrow> below x y"
  by (cases x) (auto simp: below_def)

lemma below_bind [monotone_rules]: "below x y \<Longrightarrow> (\<And>a. below (f a) (g a)) \<Longrightarrow> below (x \<bind> f) (y \<bind> g)"
  by (cases x) (simp_all add: below_def, metis bind.bind_lunit)

lemma below_if [monotone_rules]: "below x y \<Longrightarrow> below x' y' \<Longrightarrow> below (if b then x else x') (if b then y else y')"
  by simp

lemma below_option [monotone_rules]:
  "below x y \<Longrightarrow> (\<And>a. below (f a) (g a)) \<Longrightarrow> below (case p of None \<Rightarrow> x | Some a \<Rightarrow> f a) (case p of None \<Rightarrow> y | Some a \<Rightarrow> g a)"
  by (simp split: option.split)

lemma below_sum [monotone_rules]:
  "(\<And>a. below (f a) (g a)) \<Longrightarrow> (\<And>a. below (f' a) (g' a)) \<Longrightarrow>
   below (case p of Inl a \<Rightarrow> f a | Inr a \<Rightarrow> f' a) (case p of Inl a \<Rightarrow> g a | Inr a \<Rightarrow> g' a)"
  by (simp split: sum.split)

lemma below_prod [monotone_rules]:
  "(\<And>a b. below (f a b) (g a b)) \<Longrightarrow> below (case p of (a, b) \<Rightarrow> f a b) (case p of (a, b) \<Rightarrow> g a b)"
  by (simp split: prod.split)

lemma below_prod_apply [monotone_rules]:
  "(\<And>a b. below (f a b x) (g a b x)) \<Longrightarrow> below ((case p of (a, b) \<Rightarrow> f a b) x) ((case p of (a, b) \<Rightarrow> g a b) x)"
  by (simp split: prod.split)

lemma below_let [monotone_rules]: "(\<And>a. below (f a) (g a)) \<Longrightarrow> below (let a = t in f a) (let a = t in g a)"
  by (simp add: Let_def)

lemma below_and_then [monotone_rules]: "below r s \<Longrightarrow> (\<And>a vm. below (k a vm) (l a vm)) \<Longrightarrow> below (and_then r k) (and_then s l)"
  unfolding and_then_def by (intro monotone_rules)

lemma below_result [monotone_rules]:
  "(\<And>vm. below (f vm) (g vm)) \<Longrightarrow> (\<And>b vm. below (f' b vm) (g' b vm)) \<Longrightarrow>
   below (case p of Running vm \<Rightarrow> f vm | Finished b vm \<Rightarrow> f' b vm) (case p of Running vm \<Rightarrow> g vm | Finished b vm \<Rightarrow> g' b vm)"
  by (simp split: step_result.split)

section \<open>The operations\<close>

definition loop_below :: "interpreter \<Rightarrow> interpreter \<Rightarrow> bool" where
  "loop_below r s \<longleftrightarrow> (\<forall>vm. below (r vm) (s vm))"

lemma loop_belowD [monotone_rules]: "loop_below r s \<Longrightarrow> below (r vm) (s vm)"
  by (simp add: loop_below_def)

lemma runCall_mono [monotone_rules]: "loop_below r s \<Longrightarrow> below (runCall m r n vm) (runCall m s n vm)"
  unfolding runCall_def by (intro monotone_rules)

lemma toString_mono [monotone_rules]: "loop_below r s \<Longrightarrow> below (toString m r v vm) (toString m s v vm)"
  unfolding toString_def by (intro monotone_rules)

lemma call_bound_mono [monotone_rules]: "loop_below r s \<Longrightarrow> below (call_bound m r v vm) (call_bound m s v vm)"
  unfolding call_bound_def by (intro monotone_rules)

lemma unpack_more_mono [monotone_rules]: "loop_below r s \<Longrightarrow> below (unpack_more m r src vm) (unpack_more m s src vm)"
  unfolding unpack_more_def by (cases src; simp; intro monotone_rules)

lemma unpack_value_mono [monotone_rules]: "loop_below r s \<Longrightarrow> below (unpack_value m r v src vm) (unpack_value m s v src vm)"
  unfolding unpack_value_def by (cases src; simp; intro monotone_rules)

lemma expand_loop_mono [monotone_rules]:
  assumes "loop_below r s"
  shows "below (expand_loop m r v src n vm) (expand_loop m s v src n vm)"
proof (rule belowI)
  fix y assume "expand_loop m r v src n vm = Some y"
  then have "\<forall>s. loop_below r s \<longrightarrow> expand_loop m s v src n vm = Some y"
  proof (rule expand_loop.raw_induct [rotated])
    fix loop m r v src n vm y
    assume IH: "\<And>m r v src n vm y. loop m r v src n vm = Some y \<Longrightarrow> \<forall>s. loop_below r s \<longrightarrow> expand_loop m s v src n vm = Some y"
      and turn: "do { (more, vm) \<leftarrow> unpack_more m r src vm;
          case more of
            Inl e \<Rightarrow> Some (Inl e, vm)
          | Inr continues \<Rightarrow>
              if \<not> continues then Some (Inr n, vm)
              else do { (x, vm) \<leftarrow> unpack_value m r v src vm;
                        case x of
                          Inl e \<Rightarrow> Some (Inl e, vm)
                        | Inr w \<Rightarrow> loop m r v (snd w) (Suc n) (push_value m (fst w) vm) } } = Some y" (is "?body = _")
    have "expand_loop m s v src n vm = Some y" if s: "loop_below r s" for s
    proof -
      have step: "below (loop m r v src' n' vm') (expand_loop m s v src' n' vm')" for src' n' vm'
        using IH s by (intro belowI) blast
      have "below ?body (expand_loop m s v src n vm)"
        by (subst expand_loop.simps) (intro monotone_rules step s)
      then show ?thesis using turn by (rule belowD)
    qed
    then show "\<forall>s. loop_below r s \<longrightarrow> expand_loop m s v src n vm = Some y" by blast
  qed
  then show "expand_loop m s v src n vm = Some y" using assms by blast
qed

lemma vm_expand_mono [monotone_rules]: "loop_below r s \<Longrightarrow> below (vm_expand m h r b vm) (vm_expand m h s b vm)"
  unfolding vm_expand_def by (intro monotone_rules)

lemma unpack_vars_mono [monotone_rules]:
  "loop_below r s \<Longrightarrow> below (unpack_vars m r v n src b vm) (unpack_vars m s v n src b vm)"
proof (induction n arbitrary: src b vm)
  case (Suc n)
  show ?case by (subst (1 2) unpack_vars.simps) (intro monotone_rules Suc)
qed (simp add: below_refl)

lemma doUnpack_mono [monotone_rules]: "loop_below r s \<Longrightarrow> below (doUnpack m r vm) (doUnpack m s vm)"
  unfolding doUnpack_def by (intro monotone_rules)

lemma find_iterator_mono [monotone_rules]: "loop_below r s \<Longrightarrow> below (find_iterator m r vm) (find_iterator m s vm)"
  unfolding find_iterator_def by (intro monotone_rules)

lemma foreachInit_mono [monotone_rules]: "loop_below r s \<Longrightarrow> below (foreachInit m r vm) (foreachInit m s vm)"
  unfolding foreachInit_def by (intro monotone_rules)

lemma load_module_mono [monotone_rules]:
  "loop_below r s \<Longrightarrow> below (load_module m r name nm loaders vm) (load_module m s name nm loaders vm)"
proof (induction loaders arbitrary: vm)
  case (Cons loader loaders)
  show ?case by (subst (1 2) load_module.simps) (intro monotone_rules Cons)
qed (simp add: below_refl)

lemma import_module_mono [monotone_rules]:
  "loop_below r s \<Longrightarrow> below (import_module m r name symbols vm) (import_module m s name symbols vm)"
  unfolding import_module_def by (intro monotone_rules)

lemma in_frame_mono: "loop_below r s \<Longrightarrow> loop_below (in_frame m r) (in_frame m s)"
  unfolding loop_below_def in_frame_def by (intro allI monotone_rules) (simp add: loop_below_def)

lemma unroll_loop_mono [monotone_rules]: "loop_below r s \<Longrightarrow> below (unroll_loop r rc n vm) (unroll_loop s rc n vm)"
proof (induction n arbitrary: vm)
  case (Suc n)
  show ?case by (subst (1 2) unroll_loop.simps) (intro monotone_rules Suc)
qed (simp add: below_refl)

lemma unrollExceptionHandlerStack_mono [monotone_rules]:
  "loop_below r s \<Longrightarrow> below (unrollExceptionHandlerStack r rc n b vm) (unrollExceptionHandlerStack s rc n b vm)"
  unfolding unrollExceptionHandlerStack_def by (intro monotone_rules)

lemma run_finally_mono [monotone_rules]:
  "loop_below r s \<Longrightarrow> below (run_finally m r e tb a vm) (run_finally m s e tb a vm)"
  unfolding run_finally_def by (intro monotone_rules in_frame_mono)

lemma search_handlers_mono [monotone_rules]:
  "loop_below r s \<Longrightarrow> below (search_handlers m r e n vm) (search_handlers m s e n vm)"
proof (induction n arbitrary: vm)
  case (Suc n)
  show ?case by (subst (1 2) search_handlers.simps) (intro monotone_rules Suc)
qed (simp add: below_refl)

lemma propagate_frames_mono [monotone_rules]:
  "loop_below r s \<Longrightarrow> below (propagate_frames m r e n vm) (propagate_frames m s e n vm)"
proof (induction n arbitrary: vm)
  case (Suc n)
  show ?case by (subst (1 2) propagate_frames.simps) (intro monotone_rules Suc)
qed (simp add: below_refl)

lemma throwException_mono [monotone_rules]: "loop_below r s \<Longrightarrow> below (throwException m r vm) (throwException m s vm)"
  unfolding throwException_def propagateException_def by (intro monotone_rules)

section \<open>The loop\<close>

text \<open>The instructions that call the loop; the others do not depend on it.\<close>

lemma map_of_mono: 
  "list_all2 (\<lambda>(i, f) (j, g). i = j \<and> (\<forall>vm. below (f vm) (g vm))) xs ys \<Longrightarrow>
   (map_of xs i = None \<and> map_of ys i = None) \<or> (\<exists>f g. map_of xs i = Some f \<and> map_of ys i = Some g \<and> (\<forall>vm. below (f vm) (g vm)))"
  by (induction rule: list_all2_induct) auto

lemma instructions_mono:
  assumes "loop_below r s"
  shows "list_all2 (\<lambda>(i, f) (j, g). i = j \<and> (\<forall>vm. below (f vm) (g vm))) (instructions m h r) (instructions m h s)"
proof -
  have "below (op_expand m h r vm) (op_expand m h s vm)" "below (op_import m r vm) (op_import m s vm)"
    "below (op_unroll_exh m r b vm) (op_unroll_exh m s b vm)" for b vm
    unfolding op_expand_def op_import_def op_unroll_exh_def using assms by (intro monotone_rules in_frame_mono; assumption)+
  then show ?thesis
    using assms unfolding instructions_def
    by (simp add: below_refl foreachInit_mono doUnpack_mono)
qed

lemma instruction_mono:
  assumes "loop_below r s" and "\<And>x vm. below (k x vm) (l x vm)"
  shows "below (do { execute \<leftarrow> map_of (instructions m h r) i; (x, vm) \<leftarrow> execute vm; k x vm })
    (do { execute \<leftarrow> map_of (instructions m h s) i; (x, vm) \<leftarrow> execute vm; l x vm })"
  using map_of_mono [OF instructions_mono [OF assms(1)], of m h i]
proof (elim disjE exE conjE)
  fix f g assume "map_of (instructions m h r) i = Some f" "map_of (instructions m h s) i = Some g" "\<forall>vm. below (f vm) (g vm)"
  then show ?thesis using assms(2) by (simp add: below_bind below_prod)
qed (simp add: below_refl)

lemma step_mono:
  assumes "\<And>h. loop_below (runs h) (runs' h)"
  shows "below (step m h runs vm) (step m h runs' vm)"
  unfolding step_def by (intro instruction_mono monotone_rules assms)

lemma run_loop_mono: "n \<le> n' \<Longrightarrow> loop_below (run_loop m n h) (run_loop m n' h)"
proof (induction n arbitrary: n' h)
  case (Suc n)
  then obtain k where k: "n' = Suc k" "n \<le> k" by (cases n') auto
  have IH: "loop_below (run_loop m n h) (run_loop m k h)" for h using Suc.IH k(2) .
  show ?case unfolding loop_below_def k(1) run_loop.simps by (intro allI monotone_rules step_mono IH)
qed (simp add: loop_below_def below_None)

end
