(* ===== verification/CompileFuel.thy ===== *)
theory CompileFuel
  imports Fuel ExprProps MachineProps
begin

text \<open>
  The compiler's functions call each other through a parameter with a bound on the depth of the calls.
  Every one of them is monotone in that parameter, so that what the compiler answers does not depend
  on the bound; together with the bound of the interpreter loop this holds for a whole run of a script.
\<close>

section \<open>Loops\<close>

lemma admissible_all: "(\<And>a. option.admissible (\<lambda>f. P f a)) \<Longrightarrow> option.admissible (\<lambda>f. \<forall>a. P f a)"
  unfolding ccpo.admissible_def by blast

lemma admissible_point: "option.admissible (\<lambda>f. below (f x) y)"
proof -
  have "(\<lambda>f. below (f x) y) = (\<lambda>f. \<forall>a b. f a = Some b \<longrightarrow> a = x \<longrightarrow> y = Some b)"
    by (auto simp: fun_eq_iff below_def) (metis option.exhaust)
  then show ?thesis by (simp only: option_admissible)
qed

lemmas admissible_rules = admissible_all admissible_point

lemma below_map_option [monotone_rules]: "below x y \<Longrightarrow> below (map_option f x) (map_option f y)"
  by (auto simp: below_def)

lemma below_list [monotone_rules]:
  "below x y \<Longrightarrow> (\<And>a as. below (f a as) (g a as)) \<Longrightarrow>
   below (case p of [] \<Rightarrow> x | a # as \<Rightarrow> f a as) (case p of [] \<Rightarrow> y | a # as \<Rightarrow> g a as)"
  by (simp split: list.split)

section \<open>The functions of the parser\<close>

definition rec_below :: "parse_fun \<Rightarrow> parse_fun \<Rightarrow> bool" where
  "rec_below r q \<longleftrightarrow> (\<forall>g s. below (r g s) (q g s))"

lemma rec_belowD [monotone_rules]: "rec_below r q \<Longrightarrow> below (r g s) (q g s)"
  by (simp add: rec_below_def)

lemma normal_grows [monotone_rules]: "below x y \<Longrightarrow> below (normal x) (normal y)"
  unfolding normal_def by (rule below_map_option)

lemma expression_of_grows [monotone_rules]: "rec_below r q \<Longrightarrow> below (expression_of r a s) (expression_of q a s)"
  unfolding expression_of_def by (intro monotone_rules)

lemma expr_grows [monotone_rules]: "rec_below r q \<Longrightarrow> below (expr r s) (expr q s)"
  unfolding expr_def by (intro monotone_rules)

lemma statement_grows [monotone_rules]: "rec_below r q \<Longrightarrow> below (statement r s) (statement q s)"
  unfolding statement_def by (intro monotone_rules)

lemma binary_grows [monotone_rules]: "rec_below r q \<Longrightarrow> below (binary r a s) (binary q a s)"
  unfolding binary_def by (intro monotone_rules)

lemma unary_grows [monotone_rules]: "rec_below r q \<Longrightarrow> below (unary r s) (unary q s)"
  unfolding unary_def by (intro monotone_rules)

lemma grouping_grows [monotone_rules]: "rec_below r q \<Longrightarrow> below (grouping r s) (grouping q s)"
  unfolding grouping_def by (intro monotone_rules)

lemma fstring_loop_grows [monotone_rules]:
  assumes "rec_below r q"
  shows "below (fstring_loop r a b c d s) (fstring_loop q a b c d s)"
proof -
  have "\<forall>a b c d s. below (fstring_loop r a b c d s) (fstring_loop q a b c d s)"
    apply (rule fstring_loop.fixp_induct [where P = "\<lambda>f. \<forall>a b c d s. below (f r a b c d s) (fstring_loop q a b c d s)"])
      apply (simp add: admissible_rules)
     apply (simp add: below_None)
    subgoal premises IH by (intro allI, subst fstring_loop.simps) (intro monotone_rules assms IH [rule_format])
    done
  then show ?thesis by blast
qed

lemma p_fString_grows [monotone_rules]: "rec_below r q \<Longrightarrow> below (p_fString r s) (p_fString q s)"
  unfolding p_fString_def by (intro monotone_rules)

lemma argument_loop_grows [monotone_rules]:
  assumes "rec_below r q"
  shows "below (argument_loop r a b s) (argument_loop q a b s)"
proof -
  have "\<forall>a b s. below (argument_loop r a b s) (argument_loop q a b s)"
    apply (rule argument_loop.fixp_induct [where P = "\<lambda>f. \<forall>a b s. below (f r a b s) (argument_loop q a b s)"])
      apply (simp add: admissible_rules)
     apply (simp add: below_None)
    subgoal premises IH by (intro allI, subst argument_loop.simps) (intro monotone_rules assms IH [rule_format])
    done
  then show ?thesis by blast
qed

lemma argumentList_grows [monotone_rules]: "rec_below r q \<Longrightarrow> below (argumentList r s) (argumentList q s)"
  unfolding argumentList_def by (intro monotone_rules)

lemma p_call_grows [monotone_rules]: "rec_below r q \<Longrightarrow> below (p_call r s) (p_call q s)"
  unfolding p_call_def by (intro monotone_rules)

lemma colon_grows [monotone_rules]: "rec_below r q \<Longrightarrow> below (colon r a s) (colon q a s)"
  unfolding colon_def by (intro monotone_rules)

lemma dot_grows [monotone_rules]: "rec_below r q \<Longrightarrow> below (dot r a s) (dot q a s)"
  unfolding dot_def by (intro monotone_rules)

lemma array_loop_grows [monotone_rules]:
  assumes "rec_below r q"
  shows "below (array_loop r a s) (array_loop q a s)"
proof -
  have "\<forall>a s. below (array_loop r a s) (array_loop q a s)"
    apply (rule array_loop.fixp_induct [where P = "\<lambda>f. \<forall>a s. below (f r a s) (array_loop q a s)"])
      apply (simp add: admissible_rules)
     apply (simp add: below_None)
    subgoal premises IH by (intro allI, subst array_loop.simps) (intro monotone_rules assms IH [rule_format])
    done
  then show ?thesis by blast
qed

lemma parseArray_grows [monotone_rules]: "rec_below r q \<Longrightarrow> below (parseArray r a s) (parseArray q a s)"
  unfolding parseArray_def by (intro monotone_rules)

lemma p_tuple_grows [monotone_rules]: "rec_below r q \<Longrightarrow> below (p_tuple r s) (p_tuple q s)"
  unfolding p_tuple_def by (intro monotone_rules)

lemma p_index_grows [monotone_rules]: "rec_below r q \<Longrightarrow> below (p_index r a s) (p_index q a s)"
  unfolding p_index_def by (intro monotone_rules)

lemma map_loop_grows [monotone_rules]:
  assumes "rec_below r q"
  shows "below (map_loop r a s) (map_loop q a s)"
proof -
  have "\<forall>a s. below (map_loop r a s) (map_loop q a s)"
    apply (rule map_loop.fixp_induct [where P = "\<lambda>f. \<forall>a s. below (f r a s) (map_loop q a s)"])
      apply (simp add: admissible_rules)
     apply (simp add: below_None)
    subgoal premises IH by (intro allI, subst map_loop.simps) (intro monotone_rules assms IH [rule_format])
    done
  then show ?thesis by blast
qed

lemma p_map_grows [monotone_rules]: "rec_below r q \<Longrightarrow> below (p_map r s) (p_map q s)"
  unfolding p_map_def by (intro monotone_rules)

lemma emitShorthandAssign_grows [monotone_rules]: "rec_below r q \<Longrightarrow> below (emitShorthandAssign r a b c d s) (emitShorthandAssign q a b c d s)"
  unfolding emitShorthandAssign_def by (intro monotone_rules)

lemma emitLoadOrAssignVariable_grows [monotone_rules]: "rec_below r q \<Longrightarrow> below (emitLoadOrAssignVariable r a b s) (emitLoadOrAssignVariable q a b s)"
  unfolding emitLoadOrAssignVariable_def by (intro monotone_rules)

lemma p_variable_grows [monotone_rules]: "rec_below r q \<Longrightarrow> below (p_variable r a s) (p_variable q a s)"
  unfolding p_variable_def by (intro monotone_rules)

lemma block_loop_grows [monotone_rules]:
  assumes "rec_below r q"
  shows "below (block_loop r s) (block_loop q s)"
proof -
  have "\<forall>s. below (block_loop r s) (block_loop q s)"
    apply (rule block_loop.fixp_induct [where P = "\<lambda>f. \<forall>s. below (f r s) (block_loop q s)"])
      apply (simp add: admissible_rules)
     apply (simp add: below_None)
    subgoal premises IH by (intro allI, subst block_loop.simps) (intro monotone_rules assms IH [rule_format])
    done
  then show ?thesis by blast
qed

lemma p_block_grows [monotone_rules]: "rec_below r q \<Longrightarrow> below (p_block r s) (p_block q s)"
  unfolding p_block_def by (intro monotone_rules)

lemma chain_initializer_grows [monotone_rules]: "rec_below r q \<Longrightarrow> below (chain_initializer r a s) (chain_initializer q a s)"
  unfolding chain_initializer_def by (intro monotone_rules)

lemma p_function_grows [monotone_rules]: "rec_below r q \<Longrightarrow> below (p_function r a s) (p_function q a s)"
  unfolding p_function_def by (intro monotone_rules)

lemma p_or_grows [monotone_rules]: "rec_below r q \<Longrightarrow> below (p_or r s) (p_or q s)"
  unfolding p_or_def by (intro monotone_rules)

lemma p_and_grows [monotone_rules]: "rec_below r q \<Longrightarrow> below (p_and r s) (p_and q s)"
  unfolding p_and_def by (intro monotone_rules)

lemma ellipsis_grows [monotone_rules]: "rec_below r q \<Longrightarrow> below (ellipsis r a b c s) (ellipsis q a b c s)"
  unfolding ellipsis_def by (intro monotone_rules)

lemma expand_grows [monotone_rules]: "rec_below r q \<Longrightarrow> below (expand r a b s) (expand q a b s)"
  unfolding expand_def by (intro monotone_rules)

lemma p_this_grows [monotone_rules]: "rec_below r q \<Longrightarrow> below (p_this r s) (p_this q s)"
  unfolding p_this_def by (intro monotone_rules)

lemma p_super_grows [monotone_rules]: "rec_below r q \<Longrightarrow> below (p_super r s) (p_super q s)"
  unfolding p_super_def by (intro monotone_rules)

lemma emitMethod_grows [monotone_rules]: "rec_below r q \<Longrightarrow> below (emitMethod r a s) (emitMethod q a s)"
  unfolding emitMethod_def by (intro monotone_rules)

lemma class_body_grows [monotone_rules]: "rec_below r q \<Longrightarrow> below (class_body r a s) (class_body q a s)"
  unfolding class_body_def by (intro monotone_rules)

lemma emitStaticClass_grows [monotone_rules]: "rec_below r q \<Longrightarrow> below (emitStaticClass r s) (emitStaticClass q s)"
  unfolding emitStaticClass_def by (intro monotone_rules)

lemma implements_loop_grows [monotone_rules]:
  assumes "rec_below r q"
  shows "below (implements_loop r a s) (implements_loop q a s)"
proof -
  have "\<forall>a s. below (implements_loop r a s) (implements_loop q a s)"
    apply (rule implements_loop.fixp_induct [where P = "\<lambda>f. \<forall>a s. below (f r a s) (implements_loop q a s)"])
      apply (simp add: admissible_rules)
     apply (simp add: below_None)
    subgoal premises IH by (intro allI, subst implements_loop.simps) (intro monotone_rules assms IH [rule_format])
    done
  then show ?thesis by blast
qed

lemma class_member_grows [monotone_rules]: "rec_below r q \<Longrightarrow> below (class_member r a s) (class_member q a s)"
  unfolding class_member_def by (intro monotone_rules)

lemma member_loop_grows [monotone_rules]:
  assumes "rec_below r q"
  shows "below (member_loop r a s) (member_loop q a s)"
proof -
  have "\<forall>a s. below (member_loop r a s) (member_loop q a s)"
    apply (rule member_loop.fixp_induct [where P = "\<lambda>f. \<forall>a s. below (f r a s) (member_loop q a s)"])
      apply (simp add: admissible_rules)
     apply (simp add: below_None)
    subgoal premises IH by (intro allI, subst member_loop.simps) (intro monotone_rules assms IH [rule_format])
    done
  then show ?thesis by blast
qed

lemma implicit_initializer_grows [monotone_rules]: "rec_below r q \<Longrightarrow> below (implicit_initializer r a s) (implicit_initializer q a s)"
  unfolding implicit_initializer_def by (intro monotone_rules)

lemma class_head_grows [monotone_rules]: "rec_below r q \<Longrightarrow> below (class_head r s) (class_head q s)"
  unfolding class_head_def by (intro monotone_rules)

lemma class_goal_grows [monotone_rules]: "rec_below r q \<Longrightarrow> below (class_goal r a s) (class_goal q a s)"
  unfolding class_goal_def by (intro monotone_rules)

lemma classDeclaration_grows [monotone_rules]: "rec_below r q \<Longrightarrow> below (classDeclaration r a s) (classDeclaration q a s)"
  unfolding classDeclaration_def by (intro monotone_rules)

lemma anonClass_grows [monotone_rules]: "rec_below r q \<Longrightarrow> below (anonClass r s) (anonClass q s)"
  unfolding anonClass_def by (intro monotone_rules)

lemma p_abstract_grows [monotone_rules]: "rec_below r q \<Longrightarrow> below (p_abstract r s) (p_abstract q s)"
  unfolding p_abstract_def by (intro monotone_rules)

lemma functionDeclaration_grows [monotone_rules]: "rec_below r q \<Longrightarrow> below (functionDeclaration r a s) (functionDeclaration q a s)"
  unfolding functionDeclaration_def by (intro monotone_rules)

lemma varDeclaration_grows [monotone_rules]: "rec_below r q \<Longrightarrow> below (varDeclaration r a s) (varDeclaration q a s)"
  unfolding varDeclaration_def by (intro monotone_rules)

lemma expressionStatement_grows [monotone_rules]: "rec_below r q \<Longrightarrow> below (expressionStatement r s) (expressionStatement q s)"
  unfolding expressionStatement_def by (intro monotone_rules)

lemma unpackStatement_grows [monotone_rules]: "rec_below r q \<Longrightarrow> below (unpackStatement r s) (unpackStatement q s)"
  unfolding unpackStatement_def by (intro monotone_rules)

lemma throwStatement_grows [monotone_rules]: "rec_below r q \<Longrightarrow> below (throwStatement r s) (throwStatement q s)"
  unfolding throwStatement_def by (intro monotone_rules)

lemma ifStatement_grows [monotone_rules]: "rec_below r q \<Longrightarrow> below (ifStatement r s) (ifStatement q s)"
  unfolding ifStatement_def by (intro monotone_rules)

lemma returnStatement_grows [monotone_rules]: "rec_below r q \<Longrightarrow> below (returnStatement r s) (returnStatement q s)"
  unfolding returnStatement_def by (intro monotone_rules)

lemma for_initializer_grows [monotone_rules]: "rec_below r q \<Longrightarrow> below (for_initializer r s) (for_initializer q s)"
  unfolding for_initializer_def by (intro monotone_rules)

lemma for_condition_grows [monotone_rules]: "rec_below r q \<Longrightarrow> below (for_condition r s) (for_condition q s)"
  unfolding for_condition_def by (intro monotone_rules)

lemma for_increment_grows [monotone_rules]: "rec_below r q \<Longrightarrow> below (for_increment r s) (for_increment q s)"
  unfolding for_increment_def by (intro monotone_rules)

lemma forStatement_grows [monotone_rules]: "rec_below r q \<Longrightarrow> below (forStatement r s) (forStatement q s)"
  unfolding forStatement_def by (intro monotone_rules)

lemma whileStatement_grows [monotone_rules]: "rec_below r q \<Longrightarrow> below (whileStatement r s) (whileStatement q s)"
  unfolding whileStatement_def by (intro monotone_rules)

lemma forEachStatement_grows [monotone_rules]: "rec_below r q \<Longrightarrow> below (forEachStatement r s) (forEachStatement q s)"
  unfolding forEachStatement_def by (intro monotone_rules)

lemma catch_clause_grows [monotone_rules]: "rec_below r q \<Longrightarrow> below (catch_clause r a s) (catch_clause q a s)"
  unfolding catch_clause_def by (intro monotone_rules)

lemma catch_loop_grows [monotone_rules]:
  assumes "rec_below r q"
  shows "below (catch_loop r a b s) (catch_loop q a b s)"
proof -
  have "\<forall>a b s. below (catch_loop r a b s) (catch_loop q a b s)"
    apply (rule catch_loop.fixp_induct [where P = "\<lambda>f. \<forall>a b s. below (f r a b s) (catch_loop q a b s)"])
      apply (simp add: admissible_rules)
     apply (simp add: below_None)
    subgoal premises IH by (intro allI, subst catch_loop.simps) (intro monotone_rules assms IH [rule_format])
    done
  then show ?thesis by blast
qed

lemma finally_clause_grows [monotone_rules]: "rec_below r q \<Longrightarrow> below (finally_clause r s) (finally_clause q s)"
  unfolding finally_clause_def by (intro monotone_rules)

lemma tryCatchStatement_grows [monotone_rules]: "rec_below r q \<Longrightarrow> below (tryCatchStatement r s) (tryCatchStatement q s)"
  unfolding tryCatchStatement_def by (intro monotone_rules)

lemma scoped_block_grows [monotone_rules]: "rec_below r q \<Longrightarrow> below (scoped_block r s) (scoped_block q s)"
  unfolding scoped_block_def by (intro monotone_rules)

lemma keyword_statement_grows:
  assumes "rec_below r q" and "\<And>s. below (k1 s) (k2 s)"
  shows "below (case keyword_statement r t of Some f \<Rightarrow> do { s \<leftarrow> x; f s } | None \<Rightarrow> k1 s0)
    (case keyword_statement q t of Some f \<Rightarrow> do { s \<leftarrow> x; f s } | None \<Rightarrow> k2 s0)"
  unfolding keyword_statement_def using assms
  by (auto intro!: monotone_rules)

lemma statement_goal_grows [monotone_rules]: "rec_below r q \<Longrightarrow> below (statement_goal r s) (statement_goal q s)"
  unfolding statement_goal_def by (intro keyword_statement_grows monotone_rules)

lemma declaration_goal_grows [monotone_rules]: "rec_below r q \<Longrightarrow> below (declaration_goal r s) (declaration_goal q s)"
  unfolding declaration_goal_def by (intro monotone_rules)

lemma run_prefix_grows [monotone_rules]: "rec_below r q \<Longrightarrow> below (run_prefix r a b c d s) (run_prefix q a b c d s)"
  by (cases a) (simp_all add: run_prefix_def below_refl normal_grows grouping_grows p_map_grows parseArray_grows unary_grows
    p_tuple_grows p_variable_grows ellipsis_grows expand_grows p_fString_grows p_abstract_grows anonClass_grows
    p_function_grows p_super_grows p_this_grows)

lemma run_infix_grows [monotone_rules]: "rec_below r q \<Longrightarrow> below (run_infix r a b c s) (run_infix q a b c s)"
  unfolding run_infix_def by (cases a; simp only: infix_fn.case; intro monotone_rules)

lemma infix_loop_grows [monotone_rules]:
  assumes "rec_below r q"
  shows "below (infix_loop r a b c s) (infix_loop q a b c s)"
proof -
  have "\<forall>a b c s. below (infix_loop r a b c s) (infix_loop q a b c s)"
    apply (rule infix_loop.fixp_induct [where P = "\<lambda>f. \<forall>a b c s. below (f r a b c s) (infix_loop q a b c s)"])
      apply (simp add: admissible_rules)
     apply (simp add: below_None)
    subgoal premises IH by (intro allI, subst infix_loop.simps) (intro monotone_rules assms IH [rule_format])
    done
  then show ?thesis by blast
qed

lemma expression_goal_grows [monotone_rules]: "rec_below r q \<Longrightarrow> below (expression_goal r a b c s) (expression_goal q a b c s)"
  unfolding expression_goal_def by (intro monotone_rules)

lemma declarations_loop_grows [monotone_rules]:
  assumes "rec_below r q"
  shows "below (declarations_loop r s) (declarations_loop q s)"
proof -
  have "\<forall>s. below (declarations_loop r s) (declarations_loop q s)"
    apply (rule declarations_loop.fixp_induct [where P = "\<lambda>f. \<forall>s. below (f r s) (declarations_loop q s)"])
      apply (simp add: admissible_rules)
     apply (simp add: below_None)
    subgoal premises IH by (intro allI, subst declarations_loop.simps) (intro monotone_rules assms IH [rule_format])
    done
  then show ?thesis by blast
qed

section \<open>Bounds of a whole run\<close>

lemma parse_grows: "n \<le> n' \<Longrightarrow> rec_below (parse n) (parse n')"
proof (induction n arbitrary: n')
  case (Suc n)
  then obtain k where k: "n' = Suc k" "n \<le> k" by (cases n') auto
  have "below (parse (Suc n) g s) (parse (Suc k) g s)" for g s
    using Suc.IH [OF k(2)] by (cases g; simp only: parse.simps goal.case; intro monotone_rules)
  then show ?case by (simp add: rec_below_def k(1) del: parse.simps)
qed (simp add: rec_below_def below_None)

lemma compile_grows:
  assumes "d \<le> d'"
  shows "below (compile d rt source fileName moduleName s vm) (compile d' rt source fileName moduleName s vm)"
  unfolding compile_def compile_script_def by (intro monotone_rules parse_grows assms)

lemma eloxPrintException_mono [monotone_rules]:
  "loop_below r s \<Longrightarrow> below (eloxPrintException m r vm) (eloxPrintException m s vm)"
  unfolding eloxPrintException_def by (intro monotone_rules)

lemma run_script_mono: "n \<le> n' \<Longrightarrow> below (run_script m n f vm) (run_script m n' f vm)"
proof -
  assume "n \<le> n'"
  then have run: "loop_below (run m n) (run m n')"
    using run_loop_mono [of n n' m 0] by (simp add: run_def [abs_def])
  show ?thesis unfolding run_script_def by (intro monotone_rules run)
qed


text \<open>A compiled script without statements, on a machine that does nothing yet.\<close>

definition empty_script :: "addr \<Rightarrow> vm \<Rightarrow> bool" where
  "empty_script f vm \<longleftrightarrow>
     (case active_fiber None vm of None \<Rightarrow> False
      | Some fb \<Rightarrow> fb_frames fb = [] \<and> fb_stack fb = [] \<and> fb_openUpvalues fb = []) \<and>
     vm_freeFrames vm > 0 \<and>
     (case as_function (get_obj vm f) of None \<Rightarrow> False
      | Some fn \<Rightarrow> fn_arity fn = 0 \<and> ch_code (fn_chunk fn) = [of_nat OP_NIL, of_nat OP_RETURN])"

lemma empty_script_runs:
  assumes "empty_script f vm"
  shows "\<exists>vm'. run_script plain_machine 2 f vm = Some (True, vm')"
proof -
  obtain fb where fb: "vm_initFiber vm = Some fb" "fb_frames fb = []" "fb_stack fb = []" "fb_openUpvalues fb = []"
    using assms by (auto simp: empty_script_def active_fiber_def split: option.splits)
  obtain fn where fn: "as_function (get_obj vm f) = Some fn" "fn_arity fn = 0" "ch_code (fn_chunk fn) = [of_nat OP_NIL, of_nat OP_RETURN]"
    using assms by (auto simp: empty_script_def split: option.splits)
  have free: "vm_freeFrames vm > 0" using assms by (simp add: empty_script_def)
  have m: "mx_fiber plain_machine = None" by (simp add: plain_machine_def)
  let ?fr = "unset_frame\<lparr>cf_function := Some f, cf_callStart := True\<rparr>"
  let ?vm = "vm\<lparr>vm_freeFrames := vm_freeFrames vm - 1, vm_initFiber := Some (fb\<lparr>fb_frames := [?fr], fb_stack := [VObj f]\<rparr>)\<rparr>"
  have nil: "unat (of_nat OP_NIL :: byte) = OP_NIL" and ret: "unat (of_nat OP_RETURN :: byte) = OP_RETURN"
    by (simp_all add: opcode_defs)
  have entered: "callFunction mem env None f 0 0 (push_value plain_machine (VObj f) vm) =
     Some (Inr (), upd_frame None (\<lambda>fr. fr\<lparr>cf_callStart := False\<rparr>) ?vm)" for mem env
    using fb fn(1,2) free
    by (simp add: callFunction_def call_def setupStackFrame_def allocCallFrame_def adjustArgs_def push_value_def push_def m
        upd_fiber_def upd_frame_def active_fiber_def get_obj_def unset_frame_def)
  have code: "runs_code plain_machine [of_nat OP_NIL, of_nat OP_RETURN] ?vm"
    using fn by (simp add: runs_code_def active_fiber_def m frame_code_def get_obj_def)
  have here: "?vm = moved plain_machine 0 [VObj f] ?vm"
    by (simp add: moved_def m upd_fiber_def unset_frame_def with_state_def)
  have one: "step plain_machine 0 runs (moved plain_machine 0 [VObj f] ?vm) = Some (Running (moved plain_machine 1 [VObj f, VNil] ?vm))" for runs
    using step_push [OF code, of 0 "of_nat OP_NIL" "[of_nat OP_RETURN]" VNil 0 runs "[VObj f]"] nil by simp
  let ?fin = "moved plain_machine 2 [VObj f, VNil] ?vm"
  have "\<exists>vm'. op_return None ?fin = Some (True, vm') \<and> active_fiber None vm' = Some (fb\<lparr>fb_frames := [], fb_stack := [VNil]\<rparr>)"
    using fb by (simp add: op_return_def moved_def m upd_fiber_def active_fiber_def active_frame_def with_state_def
        unset_frame_def peek_def closeUpvalues_def releaseCallFrame_def)
  then obtain vm' where ret': "op_return None ?fin = Some (True, vm')" "active_fiber None vm' = Some (fb\<lparr>fb_frames := [], fb_stack := [VNil]\<rparr>)"
    by blast
  have two: "step plain_machine 0 runs (moved plain_machine 1 [VObj f, VNil] ?vm) = Some (Finished True vm')" for runs
  proof -
    have "read_byte plain_machine (moved plain_machine 1 [VObj f, VNil] ?vm) = Some (OP_RETURN, ?fin)"
      using read_byte_moved [OF code, of 1 "[VObj f, VNil]"] ret by (simp add: numeral_2_eq_2)
    then show ?thesis using ret'(1) by (simp add: step_def m)
  qed
  have "run plain_machine 2 ?vm = Some (True, vm')"
    using one two by (subst here) (simp add: run_def eval_nat_numeral)
  moreover have "upd_frame None (\<lambda>fr. fr\<lparr>cf_callStart := True\<rparr>) (upd_frame None (\<lambda>fr. fr\<lparr>cf_callStart := False\<rparr>) ?vm) = ?vm"
    by (simp add: upd_frame_def upd_fiber_def)
  ultimately show ?thesis
    using ret'(2) by (simp add: run_script_def m entered pop_value_def stack_at_def peek_def)
qed

definition idle_vm :: vm where
  "idle_vm = blank_vm Map.empty [] [] blank_table"

lemma empty_script_compiled:
  "case compile 1 (compile_env plain_machine) [0] [] [] sample_source idle_vm of
     Some (Some f, s) \<Rightarrow> empty_script f (cc_vm s) | _ \<Rightarrow> False"
  by code_simp


end
