(* ===== verification/Printing.thy ===== *)
theory Printing
  imports Format
begin

text \<open>
  How values are printed (\<open>printValue\<close> of \<open>value.c\<close>, \<open>printObject\<close> of
  \<open>object.c\<close>): the text that goes to the stream.  Containers print their elements, so that the
  functions recur through the heap; that they need not return is part of the model.
\<close>

section \<open>The text of a value\<close>

text \<open>
  The expansions of \<open>%g\<close> for a number and of \<open>%p\<close> for the address of a native function are
  those of the C library.  Values without an object are printed as in the build without NaN boxing.
\<close>

record print_env =
  pe_double :: "dbl \<Rightarrow> byte list"
  pe_pointer :: "nat \<Rightarrow> byte list"

datatype print_item = Text "byte list" | Item val

text \<open>\<open>%s\<close> stops at the first 0.\<close>

definition cstr :: "heap \<Rightarrow> addr \<Rightarrow> byte list option" where
  "cstr h a = map_option (takeWhile (\<lambda>c. c \<noteq> 0)) (AS_STRING h (VObj a))"

definition printNumber :: "print_env \<Rightarrow> dbl \<Rightarrow> byte list option" where
  "printNumber P n = (if dbl_integral n then map_option format_int (dbl_to_int64 n) else Some (pe_double P n))"

definition printFunction :: "heap \<Rightarrow> addr \<Rightarrow> string \<Rightarrow> string \<Rightarrow> byte list option" where
  "printFunction h function wb we =
     do { fn \<leftarrow> as_function (map_option c_obj (h function));
          case fn_name fn of
            None \<Rightarrow> Some (bytes wb @ bytes ''script'' @ bytes we)
          | Some name \<Rightarrow> do { n \<leftarrow> cstr h name; Some (bytes wb @ bytes ''fn '' @ n @ bytes we) } }"

definition printMethod :: "print_env \<Rightarrow> heap \<Rightarrow> addr \<Rightarrow> byte list option" where
  "printMethod P h method =
     do { c \<leftarrow> h method;
          case c_obj c of
            OClosure cl \<Rightarrow> printFunction h (cl_function cl) ''<<'' ''>>''
          | ONativeClosure _ \<Rightarrow> Some (bytes ''<<native fn>>'')
          | OFunction _ \<Rightarrow> printFunction h method ''<'' ''>''
          | ONative n \<Rightarrow> Some (bytes ''<native fn '' @ pe_pointer P (nt_function n) @ bytes ''>'')
          | _ \<Rightarrow> Some [] }"

fun separated :: "print_item list list \<Rightarrow> print_item list" where
  "separated [] = []"
| "separated [x] = x"
| "separated (x # xs) = x @ Text (bytes '', '') # separated xs"

definition printArray :: "obj_array \<Rightarrow> string \<Rightarrow> string \<Rightarrow> print_item list option" where
  "printArray array b e =
     (if ar_size array \<le> length (ar_items array)
      then Some (Text (bytes b) # separated (map (\<lambda>v. [Item v]) (take (ar_size array) (ar_items array))) @ [Text (bytes e)])
      else None)"

definition live_entries :: "value_table \<Rightarrow> value_entry list" where
  "live_entries t = filter (\<lambda>e. ve_key e \<noteq> VUndefined) (vt_entries t)"

definition printHashMap :: "value_table \<Rightarrow> print_item list" where
  "printHashMap t =
     Text (bytes ''{'') # separated (map (\<lambda>e. [Item (ve_key e), Text (bytes '' = ''), Item (ve_value e)]) (live_entries t))
       @ [Text (bytes ''}'')]"

text \<open>A name, or the absence of one, in front of which there is a text.\<close>

definition named :: "heap \<Rightarrow> string \<Rightarrow> addr option \<Rightarrow> string \<Rightarrow> print_item list option" where
  "named h before name after =
     do { a \<leftarrow> name; n \<leftarrow> cstr h a; Some [Text (bytes before @ n @ bytes after)] }"

definition pair_part :: "heap \<Rightarrow> addr option \<Rightarrow> byte list option" where
  "pair_part h s = (case s of None \<Rightarrow> Some (bytes ''<null>'') | Some a \<Rightarrow> cstr h a)"

abbreviation texts :: "byte list option \<Rightarrow> print_item list option" where
  "texts \<equiv> map_option (\<lambda>b. [Text b])"

definition printObject :: "print_env \<Rightarrow> heap \<Rightarrow> addr \<Rightarrow> print_item list option" where
  "printObject P h obj =
     do { c \<leftarrow> h obj;
          case c_obj c of
            OHashMap t \<Rightarrow> Some (printHashMap t)
          | OArray array \<Rightarrow> printArray array ''['' '']''
          | OTuple array \<Rightarrow> printArray array ''<'' ''>''
          | OBoundMethod _ method \<Rightarrow> do { m \<leftarrow> method; texts (printMethod P h m) }
          | OMethod _ callable \<Rightarrow> do { m \<leftarrow> callable; b \<leftarrow> printMethod P h m; Some [Text (bytes ''M''), Text b] }
          | OMethodDesc _ _ \<Rightarrow> Some [Text (bytes ''methodDesc'')]
          | OInterface i \<Rightarrow> named h ''interface '' (if_name i) ''''
          | OClass k \<Rightarrow> named h ''class '' (cs_name k) ''''
          | OClosure cl \<Rightarrow> texts (printFunction h (cl_function cl) ''#'' ''#'')
          | ONativeClosure _ \<Rightarrow> Some [Text (bytes ''#<native fn>#'')]
          | OFunction _ \<Rightarrow> texts (printFunction h obj ''<'' ''>'')
          | OInstance i \<Rightarrow> do { k \<leftarrow> as_class (map_option c_obj (h (in_clazz i))); named h '''' (cs_name k) '' instance'' }
          | ONative n \<Rightarrow> Some [Text (bytes ''<native fn '' @ pe_pointer P (nt_function n) @ bytes ''>'')]
          | OString _ _ \<Rightarrow> named h [CHR 0x27] (Some obj) [CHR 0x27]
          | OStringPair s r _ \<Rightarrow>
              do { x \<leftarrow> pair_part h s; y \<leftarrow> pair_part h r;
                   Some [Text (bytes [CHR 0x27] @ x @ bytes [CHR 0x27, CHR '','', CHR '' '', CHR 0x27] @ y @ bytes [CHR 0x27])] }
          | OUpvalue _ \<Rightarrow> Some [Text (bytes ''upvalue'')] }"

definition print_one :: "print_env \<Rightarrow> heap \<Rightarrow> val \<Rightarrow> print_item list option" where
  "print_one P h value = (case value of
       VBool b \<Rightarrow> Some [Text (if b then bytes ''true'' else bytes ''false'')]
     | VNil \<Rightarrow> Some [Text (bytes ''nil'')]
     | VNumber n \<Rightarrow> texts (printNumber P n)
     | VObj a \<Rightarrow> printObject P h a
     | VException \<Rightarrow> Some [Text (bytes ''exception'')]
     | VUndefined \<Rightarrow> Some [Text (bytes ''undefined'')])"

text \<open>What is still to be printed is a list; an element is replaced with what it consists of.\<close>

partial_function (option) print_items :: "print_env \<Rightarrow> heap \<Rightarrow> print_item list \<Rightarrow> byte list option" where
  "print_items pe h todo = (case todo of
       [] \<Rightarrow> Some []
     | i # todo \<Rightarrow> (case i of
           Text b \<Rightarrow> do { out \<leftarrow> print_items pe h todo; Some (b @ out) }
         | Item v \<Rightarrow> do { parts \<leftarrow> print_one pe h v; print_items pe h (parts @ todo) }))"

declare print_items.simps [code]

definition printValue :: "print_env \<Rightarrow> heap \<Rightarrow> val \<Rightarrow> byte list option" where
  "printValue P h value = print_items P h [Item value]"

text \<open>\<open>print\<close>: the arguments, a blank behind each, and a newline.\<close>

definition printNative_text :: "print_env \<Rightarrow> heap \<Rightarrow> val list \<Rightarrow> byte list option" where
  "printNative_text P h args =
     do { parts \<leftarrow> those (map (printValue P h) args);
          Some (concat (map (\<lambda>b. b @ bytes '' '') parts) @ [10]) }"

section \<open>When printing ends\<close>

definition parts_of :: "obj \<Rightarrow> val list" where
  "parts_of ob = (case ob of
       OArray array \<Rightarrow> take (ar_size array) (ar_items array)
     | OTuple array \<Rightarrow> take (ar_size array) (ar_items array)
     | OHashMap t \<Rightarrow> concat (map (\<lambda>e. [ve_key e, ve_value e]) (live_entries t))
     | _ \<Rightarrow> [])"

definition part_of :: "heap \<Rightarrow> addr \<Rightarrow> addr \<Rightarrow> bool" where
  "part_of h b a \<longleftrightarrow> (\<exists>c. h a = Some c \<and> VObj b \<in> set (parts_of (c_obj c)))"

definition items :: "print_item list \<Rightarrow> val set" where
  "items todo = {v. Item v \<in> set todo}"

lemma items_simps [simp]:
  "items [] = {}" "items (Text b # todo) = items todo" "items (Item v # todo) = insert v (items todo)"
  "items (xs @ ys) = items xs \<union> items ys"
  by (auto simp: items_def)

lemma items_separated: "items (separated xs) = (\<Union>x\<in>set xs. items x)"
  by (induction xs rule: separated.induct) auto

lemma items_named: "named h b n e = Some is \<Longrightarrow> items is = {}"
  by (auto simp: named_def bind_eq_Some_conv)

lemma items_of_object:
  assumes "printObject P h a = Some parts" and "h a = Some c"
  shows "items parts = set (parts_of (c_obj c))"
proof (cases "c_obj c")
  case (OHashMap t)
  then show ?thesis using assms by (auto simp: printObject_def printHashMap_def items_separated parts_of_def)
qed (use assms in \<open>auto simp: printObject_def printArray_def items_separated parts_of_def bind_eq_Some_conv
       dest: items_named split: if_splits\<close>)

lemma items_of_one:
  assumes "print_one P h v = Some parts" and "VObj b \<in> items parts"
  shows "\<exists>a. v = VObj a \<and> part_of h b a"
proof (cases v)
  case (VObj a)
  then have p: "printObject P h a = Some parts" using assms(1) by (simp add: print_one_def)
  then obtain c where "h a = Some c" by (auto simp: printObject_def bind_eq_Some_conv)
  then show ?thesis using items_of_object [OF p] assms(2) VObj by (auto simp: part_of_def)
qed (use assms in \<open>auto simp: print_one_def\<close>)

lemma items_within:
  assumes "print_one P h v = Some parts" and "w \<in> items parts"
  shows "\<exists>a c. h a = Some c \<and> w \<in> set (parts_of (c_obj c))"
proof (cases v)
  case (VObj a)
  then have p: "printObject P h a = Some parts" using assms(1) by (simp add: print_one_def)
  then obtain c where "h a = Some c" by (auto simp: printObject_def bind_eq_Some_conv)
  then show ?thesis using items_of_object [OF p] assms(2) by blast
qed (use assms in \<open>auto simp: print_one_def\<close>)

text \<open>What has been printed was well-founded.\<close>

lemma printed_accessible:
  "print_items P h todo = Some out \<Longrightarrow> \<forall>a. VObj a \<in> items todo \<longrightarrow> Wellfounded.accp (part_of h) a"
proof (rule print_items.raw_induct [where P = "\<lambda>P h todo out. \<forall>a. VObj a \<in> items todo \<longrightarrow> Wellfounded.accp (part_of h) a"])
  fix rec_items P h todo out
  assume IH: "\<And>P h todo out. rec_items P h todo = Some out \<Longrightarrow> \<forall>a. VObj a \<in> items todo \<longrightarrow> Wellfounded.accp (part_of h) a"
    and turn: "(case todo of [] \<Rightarrow> Some []
      | i # todo \<Rightarrow> (case i of
           Text b \<Rightarrow> do { out \<leftarrow> rec_items P h todo; Some (b @ out) }
         | Item v \<Rightarrow> do { parts \<leftarrow> print_one P h v; rec_items P h (parts @ todo) })) = Some out"
  show "\<forall>a. VObj a \<in> items todo \<longrightarrow> Wellfounded.accp (part_of h) a"
  proof (cases todo)
    case (Cons i rest)
    show ?thesis
    proof (cases i)
      case (Text b)
      then show ?thesis using turn IH Cons by (auto simp: bind_eq_Some_conv)
    next
      case (Item v)
      then obtain parts where parts: "print_one P h v = Some parts" "rec_items P h (parts @ rest) = Some out"
        using turn Cons by (auto simp: bind_eq_Some_conv)
      have acc: "Wellfounded.accp (part_of h) a" if "VObj a \<in> items parts \<union> items rest" for a
        using IH [OF parts(2)] that by auto
      have "Wellfounded.accp (part_of h) a" if "v = VObj a" for a
      proof (rule accpI)
        fix b assume "part_of h b a"
        then have "VObj b \<in> items parts"
          using items_of_object [of P h a parts] parts(1) that by (auto simp: part_of_def print_one_def)
        then show "Wellfounded.accp (part_of h) b" using acc by simp
      qed
      then show ?thesis using acc Item Cons by auto
    qed
  qed simp
qed

text \<open>What is well-founded is printed, whatever follows it.\<close>

definition prints :: "print_env \<Rightarrow> heap \<Rightarrow> print_item list \<Rightarrow> bool" where
  "prints P h parts \<longleftrightarrow> (\<exists>b. \<forall>rest. print_items P h (parts @ rest) = map_option (append b) (print_items P h rest))"

lemma prints_Nil: "prints P h []"
proof -
  have "map_option (append []) x = x" for x :: "byte list option" by (cases x) simp_all
  then show ?thesis unfolding prints_def by (intro exI [of _ "[]"]) simp
qed

lemma prints_append:
  assumes "prints P h xs" and "prints P h ys"
  shows "prints P h (xs @ ys)"
proof -
  obtain a b where "\<And>rest. print_items P h (xs @ rest) = map_option (append a) (print_items P h rest)"
    "\<And>rest. print_items P h (ys @ rest) = map_option (append b) (print_items P h rest)"
    using assms by (auto simp: prints_def)
  then have "print_items P h ((xs @ ys) @ rest) = map_option (append (a @ b)) (print_items P h rest)" for rest
    by (cases "print_items P h rest") simp_all
  then show ?thesis unfolding prints_def by blast
qed

lemma prints_Text: "prints P h [Text b]"
  by (auto simp: prints_def intro!: exI [of _ b], subst print_items.simps) (auto split: Option.bind_split)

lemma prints_Item: "print_one P h v = Some parts \<Longrightarrow> prints P h parts \<Longrightarrow> prints P h [Item v]"
  by (auto simp: prints_def, subst print_items.simps) auto

lemma prints_all: "\<forall>v\<in>items parts. prints P h [Item v] \<Longrightarrow> prints P h parts"
proof (induction parts)
  case (Cons i parts)
  have "prints P h [i]" using Cons.prems by (cases i) (auto intro: prints_Text)
  moreover have "prints P h parts" using Cons by (cases i) auto
  ultimately show ?case using prints_append [of P h "[i]" parts] by simp
qed (rule prints_Nil)

definition parts_printable :: "print_env \<Rightarrow> heap \<Rightarrow> bool" where
  "parts_printable P h \<longleftrightarrow> (\<forall>a c. h a = Some c \<longrightarrow> (\<forall>v\<in>set (parts_of (c_obj c)). print_one P h v \<noteq> None))"

lemma accessible_prints:
  assumes "Wellfounded.accp (part_of h) a" and "parts_printable P h" and "print_one P h (VObj a) \<noteq> None"
  shows "prints P h [Item (VObj a)]"
  using assms(1,3)
proof (induction a rule: accp_induct_rule)
  case (1 a)
  obtain parts where parts: "print_one P h (VObj a) = Some parts" using 1(3) by auto
  have "prints P h [Item v]" if v: "v \<in> items parts" for v
  proof -
    have one: "print_one P h v \<noteq> None" using items_within [OF parts v] assms(2) by (auto simp: parts_printable_def)
    show ?thesis
    proof (cases "\<exists>b. v = VObj b")
      case True
      then obtain b where b: "v = VObj b" by blast
      then have "part_of h b a" using items_of_one [OF parts] v by auto
      then show ?thesis using 1(2) one b by blast
    next
      case False
      then obtain vparts where vparts: "print_one P h v = Some vparts" using one by auto
      have "items vparts = {}" using vparts False by (auto simp: print_one_def split: val.splits)
      then show ?thesis using vparts prints_all [of vparts] by (intro prints_Item) auto
    qed
  qed
  then show ?case using prints_all prints_Item [OF parts] by blast
qed

text \<open>
  C32: Printing an object ends exactly when the descent through the elements of arrays, tuples and maps
  does, provided that no part of it has an undefined text: an array that has been added to itself makes
  \<open>print\<close> recur until the C stack is exhausted.
\<close>

theorem printing_ends:
  assumes "parts_printable P h" and "print_one P h (VObj a) \<noteq> None"
  shows "(\<exists>out. printValue P h (VObj a) = Some out) \<longleftrightarrow> Wellfounded.accp (part_of h) a"
proof
  assume "\<exists>out. printValue P h (VObj a) = Some out"
  then show "Wellfounded.accp (part_of h) a"
    using printed_accessible [of P h "[Item (VObj a)]"] by (auto simp: printValue_def)
next
  assume "Wellfounded.accp (part_of h) a"
  from accessible_prints [OF this assms] obtain b where
    "print_items P h ([Item (VObj a)] @ []) = map_option (append b) (print_items P h [])"
    by (auto simp: prints_def simp del: append_Nil2)
  then show "\<exists>out. printValue P h (VObj a) = Some out"
    by (simp add: printValue_def print_items.simps [of P h "[]"])
qed

text \<open>The array 1 contains itself, the array 2 a number and the tuple 3.\<close>

definition array_cell :: "bool \<Rightarrow> val list \<Rightarrow> cell" where
  "array_cell tuple vs =
     (let array = \<lparr>ar_size = length vs, ar_capacity = length vs, ar_modCount = 0, ar_items = vs\<rparr>
      in \<lparr>c_markers = 0, c_obj = (if tuple then OTuple array else OArray array)\<rparr>)"

definition arrays_heap :: heap where
  "arrays_heap = [1 \<mapsto> array_cell False [VNil, VObj 1], 2 \<mapsto> array_cell False [VBool True, VObj 3], 3 \<mapsto> array_cell True [VNil]]"

lemma self_part: "Wellfounded.accp R x \<Longrightarrow> \<not> R x x"
  by (induction rule: accp_induct_rule) blast

lemma array_cell_parts: "parts_of (c_obj (array_cell t vs)) = vs"
  by (simp add: array_cell_def parts_of_def Let_def)

lemma array_cell_prints: "h a = Some (array_cell t vs) \<Longrightarrow> print_one P h (VObj a) \<noteq> None"
  by (simp add: array_cell_def print_one_def printObject_def printArray_def Let_def)

definition plain_print :: print_env where
  "plain_print = \<lparr>pe_double = (\<lambda>_. bytes ''2.5''), pe_pointer = (\<lambda>_. bytes ''(nil)'')\<rparr>"

lemma printing_ends_witness:
  "printValue plain_print arrays_heap (VObj 1) = None \<and> (\<exists>out. printValue plain_print arrays_heap (VObj 2) = Some out)"
proof -
  have cells: "arrays_heap a = Some c \<longleftrightarrow> a = 1 \<and> c = array_cell False [VNil, VObj 1] \<or>
      a = 2 \<and> c = array_cell False [VBool True, VObj 3] \<or> a = 3 \<and> c = array_cell True [VNil]" for a c
    by (auto simp: arrays_heap_def)
  have part: "part_of arrays_heap b a \<longleftrightarrow> b = 1 \<and> a = 1 \<or> b = 3 \<and> a = 2" for a b
    by (auto simp: part_of_def cells array_cell_parts)
  have one: "print_one plain_print arrays_heap (VObj 1) \<noteq> None" and two: "print_one plain_print arrays_heap (VObj 2) \<noteq> None"
    and three: "print_one plain_print arrays_heap (VObj 3) \<noteq> None"
    by (rule array_cell_prints; simp add: arrays_heap_def)+
  have "print_one plain_print arrays_heap VNil \<noteq> None" "print_one plain_print arrays_heap (VBool True) \<noteq> None"
    by (simp_all add: print_one_def)
  then have ok: "parts_printable plain_print arrays_heap"
    using one three by (auto simp: parts_printable_def cells array_cell_parts)
  have "\<not> Wellfounded.accp (part_of arrays_heap) 1" using self_part [of "part_of arrays_heap" 1] part by blast
  moreover have leaf: "Wellfounded.accp (part_of arrays_heap) 3" by (rule accpI) (simp add: part)
  have "Wellfounded.accp (part_of arrays_heap) 2" by (rule accpI) (use leaf in \<open>simp add: part\<close>)
  ultimately show ?thesis using printing_ends [OF ok one] printing_ends [OF ok two] by auto
qed

end
